(* ===== verification/Prelude.thy ===== *)
theory Prelude
  imports Main "HOL-Library.Word"
begin

text \<open>
  Shared vocabulary of the development: the machine integers of the Rust sources as words,
  the big-endian byte conversions \<open>to_be_bytes\<close> and \<open>from_be_bytes\<close> of the Rust standard
  library, and the generic list and word lemmas the components share. The collection
  \<open>rd_iff\<close> (a reader returns a value iff \<dots>) and \<open>wr_eq\<close> (what a writer operation appends)
  are what the codec proofs rewrite with, and \<open>rd_run\<close> runs a reader on encoded bytes.
\<close>

unbundle bit_operations_syntax

named_theorems rd_iff "when a reader returns a value, as an equivalence"
named_theorems rd_run "running a reader on bytes a writer appended"
named_theorems wr_eq "what a writer operation appends"

subsection \<open>Machine integers\<close>

type_synonym u8 = "8 word"
type_synonym u16 = "16 word"
type_synonym u32 = "32 word"
type_synonym u64 = "64 word"

text \<open>
  Signed integers are kept as bit patterns of the same width: the casts \<open>as i8\<close> and
  \<open>cast_unsigned\<close> between the two types of one width are the identity on patterns, and
  \<^const>\<open>sint\<close> reads the value. Floating-point constants are their bit patterns as well:
  the code moves them with \<open>from_bits\<close> and \<open>to_bits\<close> only.
\<close>

type_synonym i8 = "8 word"
type_synonym i16 = "16 word"
type_synonym i32 = "32 word"
type_synonym i64 = "64 word"
type_synonym f32_bits = "32 word"
type_synonym f64_bits = "64 word"

subsection \<open>Big-endian bytes\<close>

definition be16 :: "u16 \<Rightarrow> u8 list" where
  "be16 v = [ucast (drop_bit 8 v), ucast v]"

definition be32 :: "u32 \<Rightarrow> u8 list" where
  "be32 v = [ucast (drop_bit 24 v), ucast (drop_bit 16 v), ucast (drop_bit 8 v), ucast v]"

definition be64 :: "u64 \<Rightarrow> u8 list" where
  "be64 v = [ucast (drop_bit 56 v), ucast (drop_bit 48 v), ucast (drop_bit 40 v),
             ucast (drop_bit 32 v), ucast (drop_bit 24 v), ucast (drop_bit 16 v),
             ucast (drop_bit 8 v), ucast v]"

definition from_be :: "u8 list \<Rightarrow> 'a::len word" where
  "from_be bs = word_rcat bs"

text \<open>The general form behind the three widths: byte \<open>k\<close> from the right is \<open>v >> 8k\<close>.\<close>

definition be_list :: "nat \<Rightarrow> 'a::len word \<Rightarrow> u8 list" where
  "be_list n v = map (\<lambda>k. ucast (drop_bit (8 * k) v)) (rev [0..<n])"

lemma length_be_list [simp]: "length (be_list n v) = n"
  by (simp add: be_list_def)

lemma be16_be_list: "be16 v = be_list 2 v"
  and be32_be_list: "be32 w = be_list 4 w"
  and be64_be_list: "be64 x = be_list 8 x"
  by (simp_all add: be16_def be32_def be64_def be_list_def upt_rec)

lemma bit_from_be:
  "bit (from_be bs :: 'a::len word) n \<longleftrightarrow>
     n < LENGTH('a) \<and> n div 8 < length bs \<and> bit (rev bs ! (n div 8)) (n mod 8)"
  using bit_horner_sum_uint_exp_iff [of "rev bs" n]
  by (simp add: from_be_def word_rcat_def bit_word_of_int_iff)

lemma from_be_be_list:
  assumes "8 * n = LENGTH('a::len)"
  shows "from_be (be_list n v) = (v :: 'a word)"
proof (rule bit_word_eqI)
  fix i assume "i < LENGTH('a)"
  with assms have "i div 8 < n" by auto
  moreover have "8 * (i div 8) + i mod 8 = i" by simp
  ultimately show "bit (from_be (be_list n v) :: 'a word) i = bit v i"
    using \<open>i < LENGTH('a)\<close>
    by (simp add: bit_from_be be_list_def rev_map bit_ucast_iff bit_drop_bit_eq)
qed

lemma be_list_from_be:
  assumes "8 * length bs = LENGTH('a::len)"
  shows "be_list (length bs) (from_be bs :: 'a word) = bs"
proof (rule nth_equalityI)
  show "length (be_list (length bs) (from_be bs :: 'a word)) = length bs" by simp
next
  fix i assume "i < length (be_list (length bs) (from_be bs :: 'a word))"
  then have i: "i < length bs" by simp
  show "be_list (length bs) (from_be bs :: 'a word) ! i = bs ! i"
  proof (rule bit_word_eqI)
    fix j assume j: "j < LENGTH(8)"
    let ?k = "length bs - Suc i"
    have "8 * ?k + j < LENGTH('a)" and "?k < length bs" using i j assms by simp_all
    moreover have "(8 * ?k + j) div 8 = ?k" and "(8 * ?k + j) mod 8 = j" using j by auto
    ultimately show "bit (be_list (length bs) (from_be bs :: 'a word) ! i) j = bit (bs ! i) j"
      using i j
      by (simp add: be_list_def rev_map bit_from_be bit_ucast_iff bit_drop_bit_eq rev_nth Suc_diff_Suc)
  qed
qed

lemma from_be_be [simp]:
  "from_be (be16 v) = v" "from_be (be32 w) = w" "from_be (be64 x) = x"
  by (simp_all add: be16_be_list be32_be_list be64_be_list from_be_be_list)

lemma be_from_be:
  "length bs = 2 \<Longrightarrow> be16 (from_be bs) = bs"
  "length bs = 4 \<Longrightarrow> be32 (from_be bs) = bs"
  "length bs = 8 \<Longrightarrow> be64 (from_be bs) = bs"
  using be_list_from_be [of bs, where 'a = 16] be_list_from_be [of bs, where 'a = 32]
    be_list_from_be [of bs, where 'a = 64]
  by (simp_all add: be16_be_list be32_be_list be64_be_list)

lemma length_be [simp]:
  "length (be16 v) = 2" "length (be32 w) = 4" "length (be64 x) = 8"
  by (simp_all add: be16_def be32_def be64_def)

lemma be_not_Nil [simp]: "be16 v \<noteq> []" "be32 w \<noteq> []" "be64 x \<noteq> []"
  by (simp_all add: be16_def be32_def be64_def)

lemma be_inject [simp]:
  "be16 v = be16 v' \<longleftrightarrow> v = v'" "be32 w = be32 w' \<longleftrightarrow> w = w'" "be64 x = be64 x' \<longleftrightarrow> x = x'"
  by (metis from_be_be)+

text \<open>A count that fits its width survives the narrowing cast.\<close>

lemma unat_of_nat_u8 [simp]: "n < 256 \<Longrightarrow> unat (of_nat n :: u8) = n"
  and unat_of_nat_u16 [simp]: "n < 65536 \<Longrightarrow> unat (of_nat n :: u16) = n"
  and unat_of_nat_u32 [simp]: "n < 4294967296 \<Longrightarrow> unat (of_nat n :: u32) = n"
  by (simp_all add: unat_of_nat)

lemma unat_less_u8 [simp]: "unat (x :: u8) < 256"
  and unat_less_u16 [simp]: "unat (y :: u16) < 65536"
  and unat_less_u32 [simp]: "unat (z :: u32) < 4294967296"
  using unsigned_less [of x, where ?'a = nat] unsigned_less [of y, where ?'a = nat]
    unsigned_less [of z, where ?'a = nat] by simp_all

subsection \<open>Word equality bit by bit\<close>

lemma high_bits:
  assumes "unat c < 2 ^ k" and "k \<le> n"
  shows "\<not> bit (c :: 'a::len word) n"
proof -
  have "unat c < 2 ^ n"
    using assms by (meson less_le_trans one_le_numeral power_increasing)
  then have "\<not> bit (unat c) n" by (simp add: bit_iff_odd)
  then show ?thesis by (simp add: bit_unsigned_iff)
qed

lemma upt_8: "[0..<8] = [0, 1, 2, 3, 4, 5, 6, 7]"
  by code_simp

lemma upt_32: "[0..<32] =
  [0, 1, 2, 3, 4, 5, 6, 7, 8, 9, 10, 11, 12, 13, 14, 15, 16, 17, 18, 19, 20, 21, 22, 23, 24, 25,
   26, 27, 28, 29, 30, 31]"
  by code_simp

lemma word8_eqI:
  "\<lbrakk>bit (a :: u8) 0 = bit b 0; bit a 1 = bit b 1; bit a 2 = bit b 2; bit a 3 = bit b 3; bit a 4 = bit
     b 4; bit a 5 = bit b 5; bit a 6 = bit b 6; bit a 7 = bit b 7\<rbrakk> \<Longrightarrow> a = b"
proof (rule bit_word_eqI)
  fix n
  assume eqs: "bit a 0 = bit b 0" "bit a 1 = bit b 1" "bit a 2 = bit b 2" "bit a 3 = bit b 3" "bit a 4 =
    bit b 4" "bit a 5 = bit b 5" "bit a 6 = bit b 6" "bit a 7 = bit b 7"
  assume "n < LENGTH(8)"
  then have "n \<in> set [0..<8]" by simp
  then show "bit a n = bit b n"
    unfolding upt_8 using eqs by auto
qed

lemma word32_eqI:
  "\<lbrakk>bit (a :: u32) 0 = bit b 0; bit a 1 = bit b 1; bit a 2 = bit b 2; bit a 3 = bit b 3; bit a 4 = bit
     b 4; bit a 5 = bit b 5; bit a 6 = bit b 6; bit a 7 = bit b 7; bit a 8 = bit b 8; bit a 9 =
     bit b 9; bit a 10 = bit b 10; bit a 11 = bit b 11; bit a 12 = bit b 12; bit a 13 = bit b
     13; bit a 14 = bit b 14; bit a 15 = bit b 15; bit a 16 = bit b 16; bit a 17 = bit b 17;
     bit a 18 = bit b 18; bit a 19 = bit b 19; bit a 20 = bit b 20; bit a 21 = bit b 21; bit a
     22 = bit b 22; bit a 23 = bit b 23; bit a 24 = bit b 24; bit a 25 = bit b 25; bit a 26 =
     bit b 26; bit a 27 = bit b 27; bit a 28 = bit b 28; bit a 29 = bit b 29; bit a 30 = bit b
     30; bit a 31 = bit b 31\<rbrakk> \<Longrightarrow> a = b"
proof (rule bit_word_eqI)
  fix n
  assume eqs: "bit a 0 = bit b 0" "bit a 1 = bit b 1" "bit a 2 = bit b 2" "bit a 3 = bit b 3" "bit a 4 =
    bit b 4" "bit a 5 = bit b 5" "bit a 6 = bit b 6" "bit a 7 = bit b 7" "bit a 8 = bit b 8"
    "bit a 9 = bit b 9" "bit a 10 = bit b 10" "bit a 11 = bit b 11" "bit a 12 = bit b 12" "bit
    a 13 = bit b 13" "bit a 14 = bit b 14" "bit a 15 = bit b 15" "bit a 16 = bit b 16" "bit a
    17 = bit b 17" "bit a 18 = bit b 18" "bit a 19 = bit b 19" "bit a 20 = bit b 20" "bit a 21
    = bit b 21" "bit a 22 = bit b 22" "bit a 23 = bit b 23" "bit a 24 = bit b 24" "bit a 25 =
    bit b 25" "bit a 26 = bit b 26" "bit a 27 = bit b 27" "bit a 28 = bit b 28" "bit a 29 =
    bit b 29" "bit a 30 = bit b 30" "bit a 31 = bit b 31"
  assume "n < LENGTH(32)"
  then have "n \<in> set [0..<32]" by simp
  then show "bit a n = bit b n"
    unfolding upt_32 using eqs by auto
qed

subsection \<open>Lists\<close>

lemma take_drop_append [simp]: "take n (drop p xs) @ drop (p + n) xs = drop p xs"
  by (metis add.commute append_take_drop_id drop_drop)

end
