(* ===== verification/Byte_Stream.thy ===== *)
theory Byte_Stream
  imports Prelude
begin

text \<open>
  The portable byte sources of \<open>jals-storage/src/io.rs\<close>: the \<open>Read\<close> contract as the locale
  \<open>byte_source\<close>, the provided method \<open>read_exact\<close> as a loop over \<open>read\<close>, and the in-memory
  sources of that file (slices, \<open>Cursor\<close>, \<open>Buffered\<close>) as interpretations. The lemmas of the
  locale say that \<open>read_exact\<close> over any source delivers the same bytes and the same
  end-of-input verdict as over the slice of the bytes the source stands for.
\<close>

subsection \<open>Sources\<close>

datatype io_error = IoUnexpectedEof | IoFailed string

text \<open>
  A read asks for up to \<open>n\<close> bytes (the length of the caller's buffer) and returns the bytes that
  arrived with the source left over; no bytes means end of input.
\<close>

type_synonym 's read_op = "'s \<Rightarrow> nat \<Rightarrow> io_error + u8 list \<times> 's"

definition read_from_slice :: "u8 list \<Rightarrow> nat \<Rightarrow> u8 list \<times> u8 list" where
  "read_from_slice source len =
     (let n = min (length source) len in (take n source, drop n source))"

definition slice_read :: "u8 list read_op" where
  "slice_read source len = Inr (read_from_slice source len)"

text \<open>
  \<open>Read::read_exact\<close>: fill the buffer by repeated reads. \<open>filled\<close> are the bytes read so far;
  every turn of the loop with a non-empty read shrinks what is still wanted.
\<close>

function read_exact :: "'s read_op \<Rightarrow> 's \<Rightarrow> nat \<Rightarrow> u8 list \<Rightarrow> io_error + u8 list \<times> 's" where
  "read_exact rd s want filled =
     (if length filled < want then
        case rd s (want - length filled) of
          Inl e \<Rightarrow> Inl e
        | Inr (chunk, s') \<Rightarrow>
            if chunk = [] then Inl IoUnexpectedEof
            else read_exact rd s' want (filled @ chunk)
      else Inr (filled, s))"
  by pat_completeness auto
termination
  by (relation "measure (\<lambda>(rd, s, want, filled). want - length filled)") (auto simp: neq_Nil_conv)

declare read_exact.simps [simp del]

subsection \<open>The contract of a source\<close>

text \<open>
  \<open>bytes s\<close> are the bytes a source still has to deliver. A read that succeeds delivers a
  prefix of them, at most as many as asked for, and none only when none were asked for or none
  are left. Failures of the host are not excluded: a source may return \<open>IoFailed\<close> at any time
  in which case \<open>ok s\<close> does not hold.
\<close>

locale byte_source =
  fixes rd :: "'s read_op" and bytes :: "'s \<Rightarrow> u8 list" and ok :: "'s \<Rightarrow> bool"
  assumes read_ok: "ok s \<Longrightarrow> \<exists>chunk s'. rd s n = Inr (chunk, s')"
    and read_prefix: "ok s \<Longrightarrow> rd s n = Inr (chunk, s') \<Longrightarrow> bytes s = chunk @ bytes s'"
    and read_bound: "ok s \<Longrightarrow> rd s n = Inr (chunk, s') \<Longrightarrow> length chunk \<le> n"
    and read_eof: "ok s \<Longrightarrow> rd s n = Inr ([], s') \<Longrightarrow> n = 0 \<or> bytes s = []"
    and read_keeps: "ok s \<Longrightarrow> rd s n = Inr (chunk, s') \<Longrightarrow> ok s'"
begin

lemma read_exact_enough:
  assumes "ok s" and "length filled \<le> want" and "want \<le> length filled + length (bytes s)"
  shows "\<exists>s'. ok s' \<and> bytes s' = drop (want - length filled) (bytes s) \<and>
           read_exact rd s want filled = Inr (filled @ take (want - length filled) (bytes s), s')"
  using assms
proof (induction "want - length filled" arbitrary: s filled rule: less_induct)
  case less
  show ?case
  proof (cases "length filled < want")
    case False
    with less.prems show ?thesis by (auto simp: read_exact.simps)
  next
    case True
    let ?n = "want - length filled"
    obtain chunk s1 where rd: "rd s ?n = Inr (chunk, s1)"
      using read_ok [OF less.prems(1)] by blast
    note step = read_prefix [OF less.prems(1) rd] read_bound [OF less.prems(1) rd]
      read_keeps [OF less.prems(1) rd]
    have ne: "chunk \<noteq> []"
      using read_eof [OF less.prems(1)] rd True less.prems(3) by fastforce
    have "\<exists>s'. ok s' \<and> bytes s' = drop (want - length (filled @ chunk)) (bytes s1) \<and>
           read_exact rd s1 want (filled @ chunk)
             = Inr ((filled @ chunk) @ take (want - length (filled @ chunk)) (bytes s1), s')"
      using less.prems step True ne by (intro less.hyps) (auto simp: neq_Nil_conv)
    then show ?thesis
      using True rd ne step by (auto simp: read_exact.simps [of rd s])
  qed
qed

lemma read_exact_short:
  assumes "ok s" and "length filled + length (bytes s) < want"
  shows "read_exact rd s want filled = Inl IoUnexpectedEof"
  using assms
proof (induction "want - length filled" arbitrary: s filled rule: less_induct)
  case less
  let ?n = "want - length filled"
  obtain chunk s1 where rd: "rd s ?n = Inr (chunk, s1)"
    using read_ok [OF less.prems(1)] by blast
  show ?case
  proof (cases "chunk = []")
    case True
    with less.prems rd show ?thesis by (simp add: read_exact.simps [of rd s])
  next
    case False
    have "read_exact rd s1 want (filled @ chunk) = Inl IoUnexpectedEof"
      using less.prems False read_prefix [OF less.prems(1) rd] read_keeps [OF less.prems(1) rd]
      by (intro less.hyps) (auto simp: neq_Nil_conv)
    with less.prems rd False show ?thesis by (simp add: read_exact.simps [of rd s])
  qed
qed

end

subsection \<open>Slices\<close>

interpretation slice: byte_source slice_read "\<lambda>bs. bs" "\<lambda>_. True"
  by unfold_locales (auto simp: slice_read_def read_from_slice_def Let_def min_def split: if_splits)

lemma slice_read_exact:
  "read_exact slice_read bs n [] =
     (if n \<le> length bs then Inr (take n bs, drop n bs) else Inl IoUnexpectedEof)"
  using slice.read_exact_enough [of "[]" n bs] slice.read_exact_short [of "[]" bs n] by auto

text \<open>
  Any two sources that stand for the same bytes answer \<open>read_exact\<close> alike, whatever the sizes
  of the chunks they deliver.
\<close>

context byte_source begin

lemma read_exact_as_slice:
  assumes "ok s"
  shows "map_sum id fst (read_exact rd s n []) =
         map_sum id fst (read_exact slice_read (bytes s) n [])"
proof (cases "n \<le> length (bytes s)")
  case True
  then show ?thesis
    using read_exact_enough [OF assms, of "[]" n] by (auto simp: slice_read_exact)
next
  case False
  then show ?thesis
    using read_exact_short [OF assms, of "[]" n] by (simp add: slice_read_exact)
qed

end

subsection \<open>Cursors\<close>

text \<open>
  An owned view over bytes with a movable position. The position is a \<open>u64\<close>; it may lie past
  the end, where a read returns no bytes. \<open>pos += n\<close> cannot overflow: \<open>n\<close> is at most the
  bytes left after the position.
\<close>

record cursor =
  cur_data :: "u8 list"
  cur_pos :: nat

datatype seek_from = Start nat | End int | Current int

definition seek_resolve :: "seek_from \<Rightarrow> nat \<Rightarrow> nat \<Rightarrow> io_error + nat" where
  "seek_resolve from len current =
     (case from of
        Start offset \<Rightarrow> Inr offset
      | _ \<Rightarrow>
          let (base, offset) = (case from of Start k \<Rightarrow> (k, 0) | End k \<Rightarrow> (len, k)
                                           | Current k \<Rightarrow> (current, k));
              target = int base + offset
          in if 0 \<le> target \<and> target < 2 ^ 64 then Inr (nat target)
             else Inl (IoFailed ''seek before start or beyond u64::MAX''))"

definition cursor_read :: "cursor read_op" where
  "cursor_read c len =
     (let start = min (cur_pos c) (length (cur_data c));
          (chunk, _) = read_from_slice (drop start (cur_data c)) len
      in Inr (chunk, c\<lparr>cur_pos := cur_pos c + length chunk\<rparr>))"

definition cursor_seek :: "cursor \<Rightarrow> seek_from \<Rightarrow> io_error + nat \<times> cursor" where
  "cursor_seek c from =
     (case seek_resolve from (length (cur_data c)) (cur_pos c) of
        Inl e \<Rightarrow> Inl e
      | Inr p \<Rightarrow> Inr (p, c\<lparr>cur_pos := p\<rparr>))"

definition cursor_bytes :: "cursor \<Rightarrow> u8 list" where
  "cursor_bytes c = drop (cur_pos c) (cur_data c)"

interpretation cursor_source: byte_source cursor_read cursor_bytes "\<lambda>_. True"
  by unfold_locales
    (auto simp: cursor_read_def cursor_bytes_def read_from_slice_def Let_def min_def
       split: if_splits)

subsection \<open>Buffered readers\<close>

text \<open>
  A buffered sequential reader over an inner source. The unread buffered bytes are those between
  \<open>start\<close> and \<open>filled\<close>; requests at least as large as the buffer bypass it when it is empty.
\<close>

record 's buffered =
  b_inner :: 's
  b_buf :: "u8 list"
  b_start :: nat
  b_filled :: nat

definition buffered_with_capacity :: "nat \<Rightarrow> 's \<Rightarrow> 's buffered" where
  "buffered_with_capacity capacity inner =
     \<lparr>b_inner = inner, b_buf = replicate (max capacity 1) 0, b_start = 0, b_filled = 0\<rparr>"

definition buffered_new :: "'s \<Rightarrow> 's buffered" where
  "buffered_new inner = buffered_with_capacity (64 * 1024) inner"

definition buffered_pending :: "'s buffered \<Rightarrow> u8 list" where
  "buffered_pending b = take (b_filled b - b_start b) (drop (b_start b) (b_buf b))"

definition buffered_serve :: "'s buffered \<Rightarrow> nat \<Rightarrow> u8 list \<times> 's buffered" where
  "buffered_serve b len =
     (let (chunk, _) = read_from_slice (buffered_pending b) len
      in (chunk, b\<lparr>b_start := b_start b + length chunk\<rparr>))"

definition buffered_read :: "'s read_op \<Rightarrow> 's buffered read_op" where
  "buffered_read rd b len =
     (if b_start b = b_filled b then
        if length (b_buf b) \<le> len then
          (case rd (b_inner b) len of
             Inl e \<Rightarrow> Inl e
           | Inr (chunk, i) \<Rightarrow> Inr (chunk, b\<lparr>b_inner := i\<rparr>))
        else
          (case rd (b_inner b) (length (b_buf b)) of
             Inl e \<Rightarrow> Inl e
           | Inr (got, i) \<Rightarrow>
               (let b' = \<lparr>b_inner = i, b_buf = got @ drop (length got) (b_buf b),
                          b_start = 0, b_filled = length got\<rparr>
                in if b_filled b' = 0 then Inr ([], b') else Inr (buffered_serve b' len)))
      else Inr (buffered_serve b len))"

definition buffered_bytes :: "('s \<Rightarrow> u8 list) \<Rightarrow> 's buffered \<Rightarrow> u8 list" where
  "buffered_bytes bytes b = buffered_pending b @ bytes (b_inner b)"

definition buffered_ok :: "('s \<Rightarrow> bool) \<Rightarrow> 's buffered \<Rightarrow> bool" where
  "buffered_ok ok b \<longleftrightarrow> ok (b_inner b) \<and> b_start b \<le> b_filled b
     \<and> b_filled b \<le> length (b_buf b) \<and> 0 < length (b_buf b)"

lemma buffered_serve_spec:
  assumes "b_start b \<le> b_filled b" and "b_filled b \<le> length (b_buf b)"
    and "buffered_serve b len = (chunk, b')"
  shows "buffered_pending b = chunk @ buffered_pending b'" "length chunk \<le> len"
    "b_start b' \<le> b_filled b'" "b_inner b' = b_inner b" "b_buf b' = b_buf b"
    "b_filled b' = b_filled b" "chunk = [] \<Longrightarrow> len = 0 \<or> b_start b = b_filled b"
proof -
  have chunk: "chunk = take len (buffered_pending b)"
    and b': "b' = b\<lparr>b_start := b_start b + length chunk\<rparr>"
    using assms(3) by (auto simp: buffered_serve_def read_from_slice_def Let_def min_def split: if_splits)
  have len: "length (buffered_pending b) = b_filled b - b_start b"
    using assms(1,2) by (simp add: buffered_pending_def)
  have "buffered_pending b' = drop (length chunk) (buffered_pending b)"
    using b' by (simp add: buffered_pending_def drop_take add.commute)
  then show "buffered_pending b = chunk @ buffered_pending b'"
    using chunk by (simp add: min_def)
  show "length chunk \<le> len" "b_start b' \<le> b_filled b'"
    using chunk b' len assms(1) by (auto simp: min_def)
  show "b_inner b' = b_inner b" "b_buf b' = b_buf b" "b_filled b' = b_filled b"
    using b' by simp_all
  show "len = 0 \<or> b_start b = b_filled b" if "chunk = []"
    using that chunk len assms(1) by auto
qed

context byte_source begin

text \<open>Buffering a source gives a source of the same bytes.\<close>

lemma buffered_source: "byte_source (buffered_read rd) (buffered_bytes bytes) (buffered_ok ok)"
proof -
  have spec: "buffered_bytes bytes b = chunk @ buffered_bytes bytes b' \<and> length chunk \<le> n \<and>
      (chunk = [] \<longrightarrow> n = 0 \<or> buffered_bytes bytes b = []) \<and> buffered_ok ok b'"
    if ok: "buffered_ok ok b" and r: "buffered_read rd b n = Inr (chunk, b')" for b n chunk b'
  proof (cases "b_start b = b_filled b")
    case False
    with r have "buffered_serve b n = (chunk, b')" by (simp add: buffered_read_def)
    with ok False show ?thesis
      using buffered_serve_spec [of b n chunk b']
      by (auto simp: buffered_ok_def buffered_bytes_def)
  next
    case empty: True
    then have none: "buffered_pending b = []" by (simp add: buffered_pending_def)
    have inner: "ok (b_inner b)" using ok by (simp add: buffered_ok_def)
    show ?thesis
    proof (cases "length (b_buf b) \<le> n")
      case True
      with r empty obtain i where i: "rd (b_inner b) n = Inr (chunk, i)" "b' = b\<lparr>b_inner := i\<rparr>"
        by (auto simp: buffered_read_def split: sum.splits)
      with ok none show ?thesis
        using read_prefix [OF inner i(1)] read_bound [OF inner i(1)] read_keeps [OF inner i(1)]
          read_eof [OF inner, of n i] by (auto simp: buffered_bytes_def buffered_ok_def buffered_pending_def)
    next
      case False
      let ?c = "length (b_buf b)"
      from r empty False obtain got i where i: "rd (b_inner b) ?c = Inr (got, i)"
        by (auto simp: buffered_read_def split: sum.splits)
      note inner_spec = read_prefix [OF inner i] read_bound [OF inner i] read_keeps [OF inner i]
      show ?thesis
      proof (cases "got = []")
        case True
        with r empty False i have "chunk = []" and
          "b' = \<lparr>b_inner = i, b_buf = b_buf b, b_start = 0, b_filled = 0\<rparr>"
          by (auto simp: buffered_read_def Let_def)
        then show ?thesis
          using True ok none inner_spec read_eof [OF inner, of ?c i] i
          by (auto simp: buffered_ok_def buffered_bytes_def buffered_pending_def)
      next
        case got: False
        define b1 where "b1 = \<lparr>b_inner = i, b_buf = got @ drop (length got) (b_buf b),
                          b_start = 0, b_filled = length got\<rparr>"
        from r empty False i got have "buffered_serve b1 n = (chunk, b')"
          by (auto simp: buffered_read_def Let_def b1_def)
        moreover have "buffered_pending b1 = got" by (simp add: buffered_pending_def b1_def)
        ultimately show ?thesis
          using buffered_serve_spec [of b1 n chunk b'] inner_spec ok none got
          by (auto simp: buffered_ok_def buffered_bytes_def b1_def)
      qed
    qed
  qed
  show ?thesis
  proof
    fix b n assume ok: "buffered_ok ok b"
    then have inner: "ok (b_inner b)" by (simp add: buffered_ok_def)
    show "\<exists>chunk b'. buffered_read rd b n = Inr (chunk, b')"
      using read_ok [OF inner, of n] read_ok [OF inner, of "length (b_buf b)"]
      by (auto simp: buffered_read_def Let_def split_paired_Ex [symmetric] intro: prod.exhaust)
  qed (use spec in blast)+
qed

end

interpretation buffered_slice:
  byte_source "buffered_read slice_read" "buffered_bytes (\<lambda>bs. bs)" "buffered_ok (\<lambda>_. True)"
  by (rule slice.buffered_source)

lemma buffered_new_ok [simp]: "buffered_ok ok (buffered_new s) \<longleftrightarrow> ok s"
  "buffered_bytes bytes (buffered_new s) = bytes s"
  by (simp_all add: buffered_ok_def buffered_new_def buffered_with_capacity_def buffered_bytes_def
      buffered_pending_def)

interpretation buffered_cursor:
  byte_source "buffered_read cursor_read" "buffered_bytes cursor_bytes" "buffered_ok (\<lambda>_. True)"
  by (rule cursor_source.buffered_source)

lemma buffered_with_capacity_ok [simp]: "buffered_ok ok (buffered_with_capacity k s) \<longleftrightarrow> ok s"
  "buffered_bytes bytes (buffered_with_capacity k s) = bytes s"
  by (simp_all add: buffered_ok_def buffered_with_capacity_def buffered_bytes_def
      buffered_pending_def less_max_iff_disj)

subsection \<open>Properties\<close>

text \<open>C28: buffering is transparent. Filling a buffer of any size through a \<open>Buffered\<close> of any
  capacity over a cursor gives the bytes, or the premature-end error, that reading the cursor
  directly gives.\<close>

theorem buffering_is_transparent:
  "map_sum id fst (read_exact (buffered_read cursor_read) (buffered_with_capacity capacity c) n []) =
     map_sum id fst (read_exact cursor_read c n [])"
  using buffered_cursor.read_exact_as_slice [of "buffered_with_capacity capacity c" n]
    cursor_source.read_exact_as_slice [of c n]
  by simp

end
