(* ===== verification/Bytes.thy ===== *)
theory Bytes
  imports Byte_Stream
begin

text \<open>
  \<open>jals-classfile/src/bytes.rs\<close> and \<open>error.rs\<close>: the big-endian reader over a byte slice, the
  byte sink, and the error type of the codec. A fallible parse is a function from the reader's
  state to an error or a value with the state after it; \<open>r_bind\<close> is the \<open>?\<close> operator. The
  cooperative \<open>Yielder\<close> ticks of the bulk loops have no effect on the result and are left out.
 
\<close>

subsection \<open>Errors\<close>

datatype classfile_error =
    UnexpectedEof nat nat \<comment> \<open>offset, needed\<close>
  | BadMagic u32
  | TrailingBytes
  | Source io_error
  | InvalidConstantTag u8
  | InvalidOpcode u8
  | Malformed string

subsection \<open>The reader\<close>

record reader =
  src :: "u8 list"
  pos :: nat

type_synonym 'a rd = "reader \<Rightarrow> classfile_error + 'a \<times> reader"

definition reader_new :: "u8 list \<Rightarrow> reader" where
  "reader_new bs = \<lparr>src = bs, pos = 0\<rparr>"

definition remaining :: "reader \<Rightarrow> nat" where
  "remaining r = length (src r)"

definition r_return :: "'a \<Rightarrow> 'a rd" where
  "r_return x r = Inr (x, r)"

definition r_fail :: "classfile_error \<Rightarrow> 'a rd" where
  "r_fail e r = Inl e"

definition r_bind :: "'a rd \<Rightarrow> ('a \<Rightarrow> 'b rd) \<Rightarrow> 'b rd" where
  "r_bind p f r = (case p r of Inl e \<Rightarrow> Inl e | Inr (x, r') \<Rightarrow> f x r')"

definition r_map :: "('a \<Rightarrow> 'b) \<Rightarrow> 'a rd \<Rightarrow> 'b rd" where
  "r_map f p = r_bind p (\<lambda>x. r_return (f x))"

text \<open>\<open>Reader::fill\<close>: \<open>read_exact\<close> on the slice, the offset advanced only on success.\<close>

definition fill :: "nat \<Rightarrow> u8 list rd" where
  "fill n r =
     (case read_exact slice_read (src r) n [] of
        Inr (out, s) \<Rightarrow> Inr (out, \<lparr>src = s, pos = pos r + n\<rparr>)
      | Inl IoUnexpectedEof \<Rightarrow> Inl (UnexpectedEof (pos r) n)
      | Inl (IoFailed m) \<Rightarrow> Inl (Source (IoFailed m)))"

definition r_u8 :: "u8 rd" where
  "r_u8 = r_bind (fill 1) (\<lambda>b. r_return (b ! 0))"

definition r_u16 :: "u16 rd" where
  "r_u16 = r_bind (fill 2) (\<lambda>b. r_return (from_be b))"

definition r_u32 :: "u32 rd" where
  "r_u32 = r_bind (fill 4) (\<lambda>b. r_return (from_be b))"

definition r_u64 :: "u64 rd" where
  "r_u64 = r_bind (fill 8) (\<lambda>b. r_return (from_be b))"

text \<open>
  \<open>Reader::bytes\<close>: chunk by chunk, at most \<open>ALLOCATION_CHUNK\<close> bytes at a time, so that a declared
  length larger than the input fails at the first chunk that does not arrive.
\<close>

definition allocation_chunk :: nat where
  "allocation_chunk = 64 * 1024"

function r_bytes :: "nat \<Rightarrow> u8 list rd" where
  "r_bytes n =
     (if 0 < n then
        let chunk = min n allocation_chunk
        in r_bind (fill chunk) (\<lambda>out. r_bind (r_bytes (n - chunk)) (\<lambda>rest. r_return (out @ rest)))
      else r_return [])"
  by pat_completeness auto
termination
  by (relation "measure id") (auto simp: allocation_chunk_def)

declare r_bytes.simps [simp del]

text \<open>\<open>for _ in 0..count\<close> around one item reader.\<close>

fun r_times :: "nat \<Rightarrow> 'a rd \<Rightarrow> 'a list rd" where
  "r_times 0 p = r_return []"
| "r_times (Suc n) p = r_bind p (\<lambda>x. r_bind (r_times n p) (\<lambda>xs. r_return (x # xs)))"

definition r_list :: "'a rd \<Rightarrow> 'a list rd" where
  "r_list read_one = r_bind r_u16 (\<lambda>count. r_times (unat count) read_one)"

definition r_u16_list :: "u16 list rd" where
  "r_u16_list = r_bind r_u16 (\<lambda>count. r_times (unat count) r_u16)"

definition expect_eof :: "unit rd" where
  "expect_eof r =
     (case slice_read (src r) 1 of
        Inr ([], s) \<Rightarrow> Inr ((), r\<lparr>src := s\<rparr>)
      | Inr (_, s) \<Rightarrow> Inl TrailingBytes
      | Inl IoUnexpectedEof \<Rightarrow> Inr ((), r)
      | Inl (IoFailed m) \<Rightarrow> Inl (Source (IoFailed m)))"

subsection \<open>The writer\<close>

record writer =
  buf :: "u8 list"

definition writer_new :: writer where
  "writer_new = \<lparr>buf = []\<rparr>"

definition w_u8 :: "u8 \<Rightarrow> writer \<Rightarrow> writer" where
  "w_u8 v w = w\<lparr>buf := buf w @ [v]\<rparr>"

definition w_bytes :: "u8 list \<Rightarrow> writer \<Rightarrow> writer" where
  "w_bytes b w = w\<lparr>buf := buf w @ b\<rparr>"

definition w_u16 :: "u16 \<Rightarrow> writer \<Rightarrow> writer" where
  "w_u16 v = w_bytes (be16 v)"

definition w_u32 :: "u32 \<Rightarrow> writer \<Rightarrow> writer" where
  "w_u32 v = w_bytes (be32 v)"

definition w_u64 :: "u64 \<Rightarrow> writer \<Rightarrow> writer" where
  "w_u64 v = w_bytes (be64 v)"

text \<open>A block of statements, and a \<open>for\<close> loop over a slice.\<close>

definition w_do :: "(writer \<Rightarrow> writer) list \<Rightarrow> writer \<Rightarrow> writer" where
  "w_do stmts = fold (\<lambda>stmt. stmt) stmts"

definition w_for :: "'a list \<Rightarrow> ('a \<Rightarrow> writer \<Rightarrow> writer) \<Rightarrow> writer \<Rightarrow> writer" where
  "w_for items write_one = fold write_one items"

definition w_list :: "('a \<Rightarrow> writer \<Rightarrow> writer) \<Rightarrow> 'a list \<Rightarrow> writer \<Rightarrow> writer" where
  "w_list write_one items =
     w_do [w_u16 (of_nat (length items)), w_for items write_one]"

definition w_u16_list :: "u16 list \<Rightarrow> writer \<Rightarrow> writer" where
  "w_u16_list items = w_do [w_u16 (of_nat (length items)), w_for items w_u16]"

text \<open>
  \<open>reserve_u32_len\<close> leaves a zeroed 4-byte slot and returns its offset; \<open>patch_u32_len\<close> stores
  the number of bytes written after the slot.
\<close>

definition reserve_u32_len :: "writer \<Rightarrow> nat \<times> writer" where
  "reserve_u32_len w = (length (buf w), w\<lparr>buf := buf w @ [0, 0, 0, 0]\<rparr>)"

definition patch_u32_len :: "nat \<Rightarrow> writer \<Rightarrow> writer" where
  "patch_u32_len patch w =
     (let len = of_nat (length (buf w) - patch - 4) :: u32
      in w\<lparr>buf := take patch (buf w) @ be32 len @ drop (patch + 4) (buf w)\<rparr>)"

subsection \<open>What the primitives read\<close>

lemma r_bind_iff [rd_iff]:
  "r_bind p f r = Inr (y, r2) \<longleftrightarrow> (\<exists>x r1. p r = Inr (x, r1) \<and> f x r1 = Inr (y, r2))"
  by (auto simp: r_bind_def split: sum.splits)

lemma r_return_iff [rd_iff]: "r_return x r = Inr (y, r') \<longleftrightarrow> y = x \<and> r' = r"
  by (auto simp: r_return_def)

lemma r_fail_iff [rd_iff]: "r_fail e r = Inr y \<longleftrightarrow> False"
  by (simp add: r_fail_def)

lemma r_map_iff [rd_iff]: "r_map f p r = Inr (y, r') \<longleftrightarrow> (\<exists>x. p r = Inr (x, r') \<and> y = f x)"
  by (auto simp: r_map_def rd_iff)

lemma fill_eq:
  "fill n r = (if n \<le> length (src r) then Inr (take n (src r), \<lparr>src = drop n (src r), pos = pos r + n\<rparr>)
               else Inl (UnexpectedEof (pos r) n))"
  by (simp add: fill_def slice_read_exact)

lemma fill_iff [rd_iff]:
  "fill n r = Inr (bs, r') \<longleftrightarrow> src r = bs @ src r' \<and> length bs = n \<and> pos r' = pos r + n"
  by (cases r') (auto simp: fill_eq min_def append_eq_conv_conj)

lemma r_u8_iff [rd_iff]:
  "r_u8 r = Inr (v, r') \<longleftrightarrow> src r = v # src r' \<and> pos r' = pos r + 1"
  by (auto simp: r_u8_def rd_iff length_Suc_conv)

lemma r_u16_iff [rd_iff]:
  "r_u16 r = Inr (v, r') \<longleftrightarrow> src r = be16 v @ src r' \<and> pos r' = pos r + 2"
  by (auto simp: r_u16_def rd_iff be_from_be intro: exI [of _ "be16 v"])

lemma r_u32_iff [rd_iff]:
  "r_u32 r = Inr (v, r') \<longleftrightarrow> src r = be32 v @ src r' \<and> pos r' = pos r + 4"
  by (auto simp: r_u32_def rd_iff be_from_be intro: exI [of _ "be32 v"])

lemma r_u64_iff [rd_iff]:
  "r_u64 r = Inr (v, r') \<longleftrightarrow> src r = be64 v @ src r' \<and> pos r' = pos r + 8"
  by (auto simp: r_u64_def rd_iff be_from_be intro: exI [of _ "be64 v"])

subsection \<open>Running the primitives on encoded bytes\<close>

declare r_bind_def [rd_run] r_return_def [rd_run] r_fail_def [rd_run]

lemma r_u8_run [rd_run]:
  "r_u8 \<lparr>src = v # t, pos = q\<rparr> = Inr (v, \<lparr>src = t, pos = Suc q\<rparr>)"
  by (simp add: rd_iff)

lemma r_u16_run [rd_run]:
  "r_u16 \<lparr>src = be16 v @ t, pos = q\<rparr> = Inr (v, \<lparr>src = t, pos = q + 2\<rparr>)"
  by (simp add: rd_iff)

lemma r_u32_run [rd_run]:
  "r_u32 \<lparr>src = be32 v @ t, pos = q\<rparr> = Inr (v, \<lparr>src = t, pos = q + 4\<rparr>)"
  by (simp add: rd_iff)

lemma r_u64_run [rd_run]:
  "r_u64 \<lparr>src = be64 v @ t, pos = q\<rparr> = Inr (v, \<lparr>src = t, pos = q + 8\<rparr>)"
  by (simp add: rd_iff)

lemma r_map_run [rd_run]:
  "r_map f p r = (case p r of Inl e \<Rightarrow> Inl e | Inr (x, r') \<Rightarrow> Inr (f x, r'))"
  by (simp add: r_map_def rd_run split: sum.split)

lemma r_bytes_eq:
  "n \<le> length (src r) \<Longrightarrow>
     r_bytes n r = Inr (take n (src r), \<lparr>src = drop n (src r), pos = pos r + n\<rparr>)"
proof (induction n arbitrary: r rule: less_induct)
  case (less n)
  show ?case
  proof (cases "n = 0")
    case True
    then show ?thesis by (simp add: r_bytes.simps rd_run)
  next
    case False
    let ?c = "min n allocation_chunk"
    let ?r = "\<lparr>src = drop ?c (src r), pos = pos r + ?c\<rparr>"
    have pos: "0 < ?c" using False by (simp add: allocation_chunk_def)
    have "r_bytes (n - ?c) ?r = Inr (take (n - ?c) (src ?r),
            \<lparr>src = drop (n - ?c) (src ?r), pos = pos ?r + (n - ?c)\<rparr>)"
      using pos less.prems False by (intro less.IH) simp_all
    moreover have "take ?c (src r) @ take (n - ?c) (drop ?c (src r)) = take n (src r)"
      using take_add [of ?c "n - ?c" "src r"] by simp
    ultimately show ?thesis
      using False less.prems
      by (subst r_bytes.simps) (simp add: Let_def rd_run fill_eq)
  qed
qed

lemma r_bytes_short: "length (src r) < n \<Longrightarrow> \<exists>e. r_bytes n r = Inl e"
proof (induction n arbitrary: r rule: less_induct)
  case (less n)
  let ?c = "min n allocation_chunk"
  show ?case
  proof (cases "?c \<le> length (src r)")
    case False
    with less.prems show ?thesis by (subst r_bytes.simps) (simp add: Let_def rd_run fill_eq)
  next
    case True
    have pos: "0 < ?c" using less.prems by (simp add: allocation_chunk_def)
    have "\<exists>e. r_bytes (n - ?c) \<lparr>src = drop ?c (src r), pos = pos r + ?c\<rparr> = Inl e"
      using True pos less.prems by (intro less.IH) auto
    then show ?thesis
      using True less.prems by (subst r_bytes.simps) (auto simp: Let_def rd_run fill_eq)
  qed
qed

lemma r_bytes_iff [rd_iff]:
  "r_bytes n r = Inr (bs, r') \<longleftrightarrow> src r = bs @ src r' \<and> length bs = n \<and> pos r' = pos r + n"
proof (cases "n \<le> length (src r)")
  case True
  then show ?thesis by (cases r') (auto simp: r_bytes_eq append_eq_conv_conj)
next
  case False
  then show ?thesis using r_bytes_short [of r n] by auto
qed

lemma r_bytes_run [rd_run]:
  "r_bytes (length bs) \<lparr>src = bs @ t, pos = q\<rparr> = Inr (bs, \<lparr>src = t, pos = q + length bs\<rparr>)"
  by (simp add: rd_iff)

lemma r_bytes_run_all [rd_run]:
  "r_bytes (length bs) \<lparr>src = bs, pos = q\<rparr> = Inr (bs, \<lparr>src = [], pos = q + length bs\<rparr>)"
  by (simp add: rd_iff)

lemma expect_eof_iff [rd_iff]: "expect_eof r = Inr (x, r') \<longleftrightarrow> src r = [] \<and> r' = r"
  by (cases "src r")
    (auto simp: expect_eof_def slice_read_def read_from_slice_def Let_def)

subsection \<open>What the writer operations append\<close>

lemma w_bytes_eq [wr_eq]: "w_bytes b w = w\<lparr>buf := buf w @ b\<rparr>"
  by (simp add: w_bytes_def)

lemma w_u8_eq [wr_eq]: "w_u8 v w = w\<lparr>buf := buf w @ [v]\<rparr>"
  by (simp add: w_u8_def)

lemma w_u16_eq [wr_eq]: "w_u16 v w = w\<lparr>buf := buf w @ be16 v\<rparr>"
  and w_u32_eq [wr_eq]: "w_u32 v' w = w\<lparr>buf := buf w @ be32 v'\<rparr>"
  and w_u64_eq [wr_eq]: "w_u64 v'' w = w\<lparr>buf := buf w @ be64 v''\<rparr>"
  by (simp_all add: w_u16_def w_u32_def w_u64_def wr_eq)

lemma w_do_simps [wr_eq]: "w_do [] w = w" "w_do (f # fs) w = w_do fs (f w)"
  by (simp_all add: w_do_def)

lemma w_for_simps [wr_eq]: "w_for [] f w = w" "w_for (x # xs) f w = w_for xs f (f x w)"
  by (simp_all add: w_for_def)

definition encoding :: "('a \<Rightarrow> writer \<Rightarrow> writer) \<Rightarrow> 'a \<Rightarrow> u8 list" where
  "encoding wr x = buf (wr x writer_new)"

definition appending :: "('a \<Rightarrow> writer \<Rightarrow> writer) \<Rightarrow> bool" where
  "appending wr \<longleftrightarrow> (\<forall>x w. wr x w = w\<lparr>buf := buf w @ encoding wr x\<rparr>)"

lemma writer_update_Nil [simp]: "w\<lparr>buf := buf w\<rparr> = w"
  by (cases w) simp

lemma buf_writer_new [simp]: "buf writer_new = []"
  by (simp add: writer_new_def)

lemma w_for_appending:
  assumes "\<And>x w. x \<in> set xs \<Longrightarrow> wr x w = w\<lparr>buf := buf w @ encoding wr x\<rparr>"
  shows "w_for xs wr w = w\<lparr>buf := buf w @ concat (map (encoding wr) xs)\<rparr>"
  using assms by (induction xs arbitrary: w) (simp_all add: wr_eq)

lemma encoding_u16 [simp]: "encoding w_u16 v = be16 v"
  by (simp add: encoding_def wr_eq)

lemma encoding_u32 [simp]: "encoding w_u32 v = be32 v"
  by (simp add: encoding_def wr_eq)

text \<open>
  Back-patching: whatever was appended behind the reserved slot, the slot ends up holding its
  length.
\<close>

lemma patch_reserved [wr_eq]:
  "patch_u32_len (length b) (w\<lparr>buf := b @ [0, 0, 0, 0] @ body\<rparr>)
     = w\<lparr>buf := b @ be32 (of_nat (length body)) @ body\<rparr>"
  by (simp add: patch_u32_len_def Let_def)

subsection \<open>Properties\<close>

lemma r_bytes_short_eq:
  "length (src r) < n \<Longrightarrow>
     r_bytes n r = Inl (UnexpectedEof
       (pos r + length (src r) div allocation_chunk * allocation_chunk)
       (min (n - length (src r) div allocation_chunk * allocation_chunk) allocation_chunk))"
proof (induction n arbitrary: r rule: less_induct)
  case (less n)
  let ?c = "min n allocation_chunk"
  have chunk: "0 < allocation_chunk" by (simp add: allocation_chunk_def)
  show ?case
  proof (cases "?c \<le> length (src r)")
    case False
    then have "length (src r) div allocation_chunk = 0" using less.prems by simp
    then show ?thesis
      using less.prems False by (subst r_bytes.simps) (simp add: Let_def r_bind_def fill_eq)
  next
    case True
    then have c: "?c = allocation_chunk" "allocation_chunk \<le> length (src r)" using less.prems by auto
    let ?r = "\<lparr>src = drop ?c (src r), pos = pos r + ?c\<rparr>"
    let ?k = "length (src ?r) div allocation_chunk"
    have div: "length (src r) div allocation_chunk = Suc ?k"
      using c chunk by (simp add: le_div_geq)
    have "n - ?c < n" using chunk less.prems by simp
    then have "r_bytes (n - ?c) ?r = Inl (UnexpectedEof (pos ?r + ?k * allocation_chunk)
        (min (n - ?c - ?k * allocation_chunk) allocation_chunk))"
      using less.prems c by (intro less.IH) auto
    then have "r_bytes n r = Inl (UnexpectedEof (pos ?r + ?k * allocation_chunk)
        (min (n - ?c - ?k * allocation_chunk) allocation_chunk))"
      using True less.prems by (subst r_bytes.simps) (simp add: Let_def r_bind_def fill_eq)
    then show ?thesis using c by (simp add: div algebra_simps)
  qed
qed

text \<open>C29: the chunked read of \<open>n\<close> bytes is the plain one. It returns the first \<open>n\<close> bytes and the
  input behind them, or fails at the first chunk that does not arrive whole, with that chunk's
  offset and size; no request ever exceeds \<open>ALLOCATION_CHUNK\<close> bytes, whatever length was declared.\<close>

theorem chunked_read_spec:
  "r_bytes n r =
     (if n \<le> length (src r) then Inr (take n (src r), \<lparr>src = drop n (src r), pos = pos r + n\<rparr>)
      else let k = length (src r) div allocation_chunk
           in Inl (UnexpectedEof (pos r + k * allocation_chunk)
                (min (n - k * allocation_chunk) allocation_chunk)))"
  using r_bytes_eq [of n r] r_bytes_short_eq [of r n] by (auto simp: Let_def)

text \<open>back-patching. A body of any size appended behind a slot of \<open>reserve_u32_len\<close> leaves, after
  \<open>patch_u32_len\<close>, the big-endian length of exactly that body in the slot, everything before and
  after it untouched.\<close>

theorem reserve_then_patch:
  "(case reserve_u32_len w of (patch, w') \<Rightarrow> patch_u32_len patch (w_bytes body w')) =
     w\<lparr>buf := buf w @ be32 (of_nat (length body)) @ body\<rparr>"
  by (simp add: reserve_u32_len_def patch_u32_len_def w_bytes_def)

end
