(* ===== verification/Codec.thy ===== *)
theory Codec
  imports Bytes
begin

text \<open>
  The contract every \<open>read\<close> / \<open>write\<close> pair of \<open>jals-classfile\<close> keeps, as a locale: \<open>write\<close>
  only appends, \<open>read\<close> undoes it on well-formed values wherever the bytes stand, and what
  \<open>read\<close> accepts is well-formed and stood in the input, except at the bytes \<open>M\<close> marks as
  reserved for the value: these are skipped by the reader and written as zeros. Only bytecode has
  reserved bytes; a pair without any is byte-exact (\<open>exact_codec\<close>). The run of items behind a
  count (\<open>Reader::list\<close>, \<open>Writer::list\<close>) inherits the contract from its items.
\<close>

subsection \<open>Reserved bytes\<close>

text \<open>
  A mask has one entry per byte, true where the byte is reserved. \<open>spells m cs bs\<close>: the bytes \<open>cs\<close>
  are as many as the mask's entries, and \<open>bs\<close> is \<open>cs\<close> with exactly the reserved bytes cleared.
\<close>

definition clear_reserved :: "bool list \<Rightarrow> u8 list \<Rightarrow> u8 list" where
  "clear_reserved m cs = map2 (\<lambda>reserved c. if reserved then 0 else c) m cs"

definition spells :: "bool list \<Rightarrow> u8 list \<Rightarrow> u8 list \<Rightarrow> bool" where
  "spells m cs bs \<longleftrightarrow> length cs = length m \<and> bs = clear_reserved m cs"

abbreviation plain_bytes :: "nat \<Rightarrow> bool list" where
  "plain_bytes n \<equiv> replicate n False"

definition list_mask :: "('a \<Rightarrow> bool list) \<Rightarrow> 'a list \<Rightarrow> bool list" where
  "list_mask m xs = plain_bytes 2 @ concat (map m xs)"

lemma list_mask_cong [fundef_cong]:
  "xs = ys \<Longrightarrow> (\<And>x. x \<in> set ys \<Longrightarrow> f x = g x) \<Longrightarrow> list_mask f xs = list_mask g ys"
  by (simp add: list_mask_def cong: map_cong)

lemma spells_Nil [simp]: "spells [] cs bs \<longleftrightarrow> cs = [] \<and> bs = []"
  by (auto simp: spells_def clear_reserved_def)

lemma spells_Cons [simp]:
  "spells (r # m) (c # cs) (b # bs) \<longleftrightarrow> b = (if r then 0 else c) \<and> spells m cs bs"
  by (auto simp: spells_def clear_reserved_def)

lemma spells_append: "spells m cs bs \<Longrightarrow> spells m' cs' bs' \<Longrightarrow> spells (m @ m') (cs @ cs') (bs @ bs')"
  by (simp add: spells_def clear_reserved_def)

lemma clear_plain: "length cs = n \<Longrightarrow> clear_reserved (plain_bytes n) cs = cs"
  by (induction cs arbitrary: n) (auto simp: clear_reserved_def)

lemma spells_plain [simp]: "spells (plain_bytes n) cs bs \<longleftrightarrow> length cs = n \<and> bs = cs"
  by (auto simp: spells_def clear_plain)

lemma spells_reserved [simp]: "spells (replicate n True) cs (replicate n 0) \<longleftrightarrow> length cs = n"
proof (induction n arbitrary: cs)
  case (Suc n)
  then show ?case by (cases cs) (auto simp: spells_def clear_reserved_def)
qed simp

lemma spells_length: "spells m cs bs \<Longrightarrow> length bs = length cs"
  by (simp add: spells_def clear_reserved_def)

lemma spells_mask_length: "spells m cs bs \<Longrightarrow> length m = length bs"
  by (simp add: spells_def clear_reserved_def)

text \<open>Bytes in front of reserved ones, and behind them, are compared literally.\<close>

lemma spells_plain_append:
  "length as = n \<Longrightarrow> spells m cs bs \<Longrightarrow> spells (plain_bytes n @ m) (as @ cs) (as @ bs)"
  by (simp add: spells_append)

lemma concat_plain: "concat (map (\<lambda>x. plain_bytes (f x)) xs) = plain_bytes (sum_list (map f xs))"
  by (induction xs) (simp_all add: replicate_add)

text \<open>
  A list that its \<open>u16\<close> (or \<open>u8\<close>) count can carry, of well-formed items.
\<close>

definition wf_list :: "('a \<Rightarrow> bool) \<Rightarrow> 'a list \<Rightarrow> bool" where
  "wf_list ok xs \<longleftrightarrow> length xs < 65536 \<and> list_all ok xs"

definition wf_list8 :: "('a \<Rightarrow> bool) \<Rightarrow> 'a list \<Rightarrow> bool" where
  "wf_list8 ok xs \<longleftrightarrow> length xs < 256 \<and> list_all ok xs"

lemma wf_list_True [simp]: "wf_list (\<lambda>_. True) xs \<longleftrightarrow> length xs < 65536"
  and wf_list8_True [simp]: "wf_list8 (\<lambda>_. True) ys \<longleftrightarrow> length ys < 256"
  by (simp_all add: wf_list_def wf_list8_def list_all_iff)

text \<open>The \<open>u8\<close>-counted runs that several attributes spell out in place.\<close>

definition r_list8 :: "'a rd \<Rightarrow> 'a list rd" where
  "r_list8 read_one = r_bind r_u8 (\<lambda>count. r_times (unat count) read_one)"

definition w_list8 :: "('a \<Rightarrow> writer \<Rightarrow> writer) \<Rightarrow> 'a list \<Rightarrow> writer \<Rightarrow> writer" where
  "w_list8 write_one items = w_do [w_u8 (of_nat (length items)), w_for items write_one]"

text \<open>One step down a chain of tests that selects the reader of a variant.\<close>

lemma chainE:
  "(if c then p else q) r = Inr y \<Longrightarrow> (c \<Longrightarrow> p r = Inr y \<Longrightarrow> P) \<Longrightarrow> (q r = Inr y \<Longrightarrow> P) \<Longrightarrow> P"
  by (simp split: if_splits)

lemma encoding_eqI: "(\<And>w. wr x w = w\<lparr>buf := buf w @ bs\<rparr>) \<Longrightarrow> encoding wr x = bs"
  by (simp add: encoding_def)

text \<open>What a run of appending items appends.\<close>

lemma appendsI:
  "(\<And>w. wr x w = w\<lparr>buf := buf w @ bs\<rparr>) \<Longrightarrow> wr x w = w\<lparr>buf := buf w @ encoding wr x\<rparr>"
  by (simp add: encoding_def)

lemma w_list_appends:
  assumes "\<And>x w. x \<in> set xs \<Longrightarrow> wr x w = w\<lparr>buf := buf w @ encoding wr x\<rparr>"
  shows "w_list wr xs w = w\<lparr>buf := buf w @ be16 (of_nat (length xs)) @ concat (map (encoding wr) xs)\<rparr>"
  using w_for_appending [of xs wr] assms by (simp add: w_list_def wr_eq)

locale codec =
  fixes rd :: "'a rd" and wr :: "'a \<Rightarrow> writer \<Rightarrow> writer" and ok :: "'a \<Rightarrow> bool"
    and M :: "'a \<Rightarrow> bool list"
  assumes appends: "appending wr"
    and read_write: "ok x \<Longrightarrow>
      rd \<lparr>src = encoding wr x @ t, pos = q\<rparr> = Inr (x, \<lparr>src = t, pos = q + length (encoding wr x)\<rparr>)"
    and write_read: "rd r = Inr (x, r') \<Longrightarrow>
      ok x \<and> (\<exists>cs. src r = cs @ src r' \<and> spells (M x) cs (encoding wr x)) \<and>
      pos r' = pos r + length (encoding wr x)"
begin

lemma append_eq [wr_eq]: "wr x w = w\<lparr>buf := buf w @ encoding wr x\<rparr>"
  using appends by (simp add: appending_def)

declare read_write [rd_run]

lemma w_for_eq: "w_for xs wr w = w\<lparr>buf := buf w @ concat (map (encoding wr) xs)\<rparr>"
  by (rule w_for_appending) (simp add: append_eq)

lemma times_run [rd_run]:
  "list_all ok xs \<Longrightarrow>
     r_times (length xs) rd \<lparr>src = concat (map (encoding wr) xs) @ t, pos = q\<rparr> =
       Inr (xs, \<lparr>src = t, pos = q + length (concat (map (encoding wr) xs))\<rparr>)"
  by (induction xs arbitrary: q) (simp_all add: rd_run add.assoc)

lemma times_back:
  "r_times n rd r = Inr (xs, r') \<Longrightarrow>
     length xs = n \<and> list_all ok xs \<and>
     (\<exists>cs. src r = cs @ src r' \<and> spells (concat (map M xs)) cs (concat (map (encoding wr) xs))) \<and>
     pos r' = pos r + length (concat (map (encoding wr) xs))"
proof (induction n arbitrary: r xs)
  case 0
  then show ?case by (auto simp: rd_iff)
next
  case (Suc n)
  then obtain x r1 ys where x: "rd r = Inr (x, r1)" and ys: "r_times n rd r1 = Inr (ys, r')"
    and xs: "xs = x # ys"
    by (auto simp: rd_iff)
  from write_read [OF x] obtain cs where
    cs: "src r = cs @ src r1" "spells (M x) cs (encoding wr x)" by blast
  from Suc.IH [OF ys] obtain ds where
    ds: "src r1 = ds @ src r'" "spells (concat (map M ys)) ds (concat (map (encoding wr) ys))" by blast
  have "src r = (cs @ ds) @ src r'" using cs ds by simp
  moreover have "spells (concat (map M xs)) (cs @ ds) (concat (map (encoding wr) xs))"
    using cs ds xs by (simp add: spells_append)
  ultimately show ?case
    using write_read [OF x] Suc.IH [OF ys] xs by auto
qed

lemma encoding_list:
  "encoding (w_list wr) xs = be16 (of_nat (length xs)) @ concat (map (encoding wr) xs)"
  by (rule encoding_eqI) (simp add: w_list_def wr_eq w_for_eq)

lemma encoding_list8:
  "encoding (w_list8 wr) xs = of_nat (length xs) # concat (map (encoding wr) xs)"
  by (rule encoding_eqI) (simp add: w_list8_def wr_eq w_for_eq)

end

text \<open>The introduction rule: give the bytes a value encodes to.\<close>

lemma codecI:
  assumes "\<And>x w. wr x w = w\<lparr>buf := buf w @ E x\<rparr>"
    and "\<And>x t q. ok x \<Longrightarrow>
      rd \<lparr>src = E x @ t, pos = q\<rparr> = Inr (x, \<lparr>src = t, pos = q + length (E x)\<rparr>)"
    and "\<And>r x r'. rd r = Inr (x, r') \<Longrightarrow>
      ok x \<and> (\<exists>cs. src r = cs @ src r' \<and> spells (M x) cs (E x)) \<and> pos r' = pos r + length (E x)"
  shows "codec rd wr ok M"
proof -
  have E: "encoding wr x = E x" for x by (rule encoding_eqI) (rule assms(1))
  show ?thesis
    by unfold_locales (simp_all add: appending_def E assms)
qed

context codec begin

lemma list_codec: "codec (r_list rd) (w_list wr) (wf_list ok) (list_mask M)"
proof (rule codecI [where E = "\<lambda>xs. be16 (of_nat (length xs)) @ concat (map (encoding wr) xs)"])
  show "w_list wr xs w = w\<lparr>buf := buf w @ be16 (of_nat (length xs)) @ concat (map (encoding wr) xs)\<rparr>"
    for xs w by (simp add: w_list_def wr_eq w_for_eq)
next
  fix xs t q assume "wf_list ok xs"
  then show "r_list rd \<lparr>src = (be16 (of_nat (length xs)) @ concat (map (encoding wr) xs)) @ t, pos = q\<rparr>
      = Inr (xs, \<lparr>src = t, pos = q + length (be16 (of_nat (length xs)) @ concat (map (encoding wr) xs))\<rparr>)"
    by (simp add: wf_list_def r_list_def rd_run)
next
  fix r xs r' assume "r_list rd r = Inr (xs, r')"
  then obtain n r1 where n: "src r = be16 n @ src r1" "pos r1 = pos r + 2"
    and xs: "r_times (unat n) rd r1 = Inr (xs, r')"
    by (auto simp: r_list_def rd_iff)
  from times_back [OF xs] obtain cs where cs: "src r1 = cs @ src r'"
    "spells (concat (map M xs)) cs (concat (map (encoding wr) xs))" by blast
  have "n = of_nat (length xs)" using times_back [OF xs] by simp
  then show "wf_list ok xs \<and> (\<exists>cs. src r = cs @ src r' \<and>
      spells (list_mask M xs) cs (be16 (of_nat (length xs)) @ concat (map (encoding wr) xs))) \<and>
      pos r' = pos r + length (be16 (of_nat (length xs)) @ concat (map (encoding wr) xs))"
    using n cs times_back [OF xs]
    by (auto simp: wf_list_def list_mask_def intro!: exI [of _ "be16 n @ cs"] spells_plain_append)
qed

lemma list8_codec: "codec (r_list8 rd) (w_list8 wr) (wf_list8 ok) (\<lambda>xs. plain_bytes 1 @ concat (map M xs))"
proof (rule codecI [where E = "\<lambda>xs. of_nat (length xs) # concat (map (encoding wr) xs)"])
  show "w_list8 wr xs w = w\<lparr>buf := buf w @ of_nat (length xs) # concat (map (encoding wr) xs)\<rparr>"
    for xs w by (simp add: w_list8_def wr_eq w_for_eq)
next
  fix xs t q assume "wf_list8 ok xs"
  then show "r_list8 rd \<lparr>src = (of_nat (length xs) # concat (map (encoding wr) xs)) @ t, pos = q\<rparr>
      = Inr (xs, \<lparr>src = t, pos = q + length (of_nat (length xs) # concat (map (encoding wr) xs))\<rparr>)"
    by (simp add: wf_list8_def r_list8_def rd_run)
next
  fix r xs r' assume "r_list8 rd r = Inr (xs, r')"
  then obtain n r1 where n: "src r = n # src r1" "pos r1 = pos r + 1"
    and xs: "r_times (unat n) rd r1 = Inr (xs, r')"
    by (auto simp: r_list8_def rd_iff)
  from times_back [OF xs] obtain cs where cs: "src r1 = cs @ src r'"
    "spells (concat (map M xs)) cs (concat (map (encoding wr) xs))" by blast
  have "n = of_nat (length xs)" using times_back [OF xs] by simp
  then show "wf_list8 ok xs \<and> (\<exists>cs. src r = cs @ src r' \<and>
      spells (plain_bytes 1 @ concat (map M xs)) cs (of_nat (length xs) # concat (map (encoding wr) xs))) \<and>
      pos r' = pos r + length (of_nat (length xs) # concat (map (encoding wr) xs))"
    using n cs times_back [OF xs]
    by (auto simp: wf_list8_def intro!: exI [of _ "n # cs"])
qed

end

subsection \<open>Composition\<close>

lemma r_bind_assoc: "r_bind (r_bind p f) g = r_bind p (\<lambda>x. r_bind (f x) g)"
  by (auto simp: r_bind_def split: sum.split)

lemma r_bind_map: "r_bind (r_map h p) f = r_bind p (\<lambda>x. f (h x))"
  by (auto simp: r_map_def r_bind_def r_return_def split: sum.split)

lemma r_map_bind: "r_map h (r_bind p f) = r_bind p (\<lambda>x. r_map h (f x))"
  by (simp add: r_map_def r_bind_assoc)

lemma r_map_map: "r_map h (r_map g p) = r_map (\<lambda>x. h (g x)) p"
  by (simp add: r_map_def r_bind_map [unfolded r_map_def])

text \<open>Two codecs in sequence, and a codec seen through a bijection (a record's fields).\<close>

lemma codec_pair:
  assumes a: "codec rda wra oka Ma" and b: "codec rdb wrb okb Mb"
  shows "codec (r_bind rda (\<lambda>x. r_map (Pair x) rdb)) (\<lambda>(x, y). w_do [wra x, wrb y])
    (\<lambda>(x, y). oka x \<and> okb y) (\<lambda>(x, y). Ma x @ Mb y)"
proof (rule codecI [where E = "\<lambda>(x, y). encoding wra x @ encoding wrb y"])
  show "(case x of (x, y) \<Rightarrow> w_do [wra x, wrb y]) w =
      w\<lparr>buf := buf w @ (case x of (x, y) \<Rightarrow> encoding wra x @ encoding wrb y)\<rparr>" for x w
    by (cases x) (simp add: w_do_simps codec.append_eq [OF a] codec.append_eq [OF b])
next
  show "r_bind rda (\<lambda>x. r_map (Pair x) rdb)
      \<lparr>src = (case x of (x, y) \<Rightarrow> encoding wra x @ encoding wrb y) @ t, pos = q\<rparr> =
    Inr (x, \<lparr>src = t, pos = q + length (case x of (x, y) \<Rightarrow> encoding wra x @ encoding wrb y)\<rparr>)"
    if "case x of (x, y) \<Rightarrow> oka x \<and> okb y" for x t q
    using that by (cases x) (simp add: rd_run codec.read_write [OF a] codec.read_write [OF b])
next
  fix r x r' assume "r_bind rda (\<lambda>x. r_map (Pair x) rdb) r = Inr (x, r')"
  then obtain a' b' r1 where x: "x = (a', b')" and ra: "rda r = Inr (a', r1)" and rb: "rdb r1 = Inr (b', r')"
    by (auto simp: rd_iff)
  from codec.write_read [OF a ra] codec.write_read [OF b rb] obtain cs ds where
    "oka a'" "okb b'" "src r = cs @ src r1" "src r1 = ds @ src r'"
    "spells (Ma a') cs (encoding wra a')" "spells (Mb b') ds (encoding wrb b')"
    "pos r' = pos r + length (encoding wra a') + length (encoding wrb b')" by auto
  then show "(case x of (x, y) \<Rightarrow> oka x \<and> okb y) \<and>
      (\<exists>cs. src r = cs @ src r' \<and> spells (case x of (x, y) \<Rightarrow> Ma x @ Mb y) cs (case x of (x, y) \<Rightarrow> encoding wra x @ encoding wrb y)) \<and>
      pos r' = pos r + length (case x of (x, y) \<Rightarrow> encoding wra x @ encoding wrb y)"
    using x by (auto intro!: exI [of _ "cs @ ds"] spells_append)
qed

lemma codec_map:
  assumes c: "codec rd wr ok M" and fg: "\<And>y. f (g y) = y" "\<And>x. g (f x) = x"
  shows "codec (r_map f rd) (\<lambda>y. wr (g y)) (\<lambda>y. ok (g y)) (\<lambda>y. M (g y))"
proof (rule codecI [where E = "\<lambda>y. encoding wr (g y)"])
  show "wr (g x) w = w\<lparr>buf := buf w @ encoding wr (g x)\<rparr>" for x w
    by (simp add: codec.append_eq [OF c])
next
  show "r_map f rd \<lparr>src = encoding wr (g x) @ t, pos = q\<rparr> =
      Inr (x, \<lparr>src = t, pos = q + length (encoding wr (g x))\<rparr>)" if "ok (g x)" for x t q
    using that by (simp add: rd_run codec.read_write [OF c] fg)
next
  fix r x r' assume "r_map f rd r = Inr (x, r')"
  then obtain y where y: "rd r = Inr (y, r')" "x = f y" by (auto simp: rd_iff)
  from codec.write_read [OF c y(1)] show "ok (g x) \<and>
      (\<exists>cs. src r = cs @ src r' \<and> spells (M (g x)) cs (encoding wr (g x))) \<and>
      pos r' = pos r + length (encoding wr (g x))"
    by (simp add: y(2) fg)
qed

text \<open>What a codec calls well-formed is what it reads back.\<close>

lemma codec_ok_unique:
  assumes "codec rd wr ok M" "codec rd wr ok' M'" "ok x"
  shows "ok' x"
  using codec.write_read [OF assms(2) codec.read_write [OF assms(1,3)]] by blast

subsection \<open>Byte-exact codecs\<close>

locale exact_codec = codec rd wr ok "\<lambda>x. plain_bytes (length (encoding wr x))"
  for rd :: "'a rd" and wr :: "'a \<Rightarrow> writer \<Rightarrow> writer" and ok :: "'a \<Rightarrow> bool"
begin

text \<open>Both directions of the round trip in one equivalence.\<close>

lemma exact [rd_iff]:
  "rd r = Inr (x, r') \<longleftrightarrow>
     ok x \<and> src r = encoding wr x @ src r' \<and> pos r' = pos r + length (encoding wr x)"
  using write_read [of r x r'] read_write [of x "src r'" "pos r"]
  by (cases r, cases r') auto

lemma times_exact:
  assumes "r_times n rd r = Inr (xs, r')"
  shows "length xs = n" "list_all ok xs" "src r = concat (map (encoding wr) xs) @ src r'"
    "pos r' = pos r + length (concat (map (encoding wr) xs))"
  using times_back [OF assms] by (auto simp: concat_plain)

lemma list_exact: "exact_codec (r_list rd) (w_list wr) (wf_list ok)"
proof -
  have "list_mask (\<lambda>x. plain_bytes (length (encoding wr x))) xs = plain_bytes (length (encoding (w_list wr) xs))" for xs
    by (simp add: list_mask_def encoding_list concat_plain length_concat comp_def flip: replicate_add)
  then have "list_mask (\<lambda>x. plain_bytes (length (encoding wr x))) =
      (\<lambda>xs. plain_bytes (length (encoding (w_list wr) xs)))" by (rule ext)
  then show ?thesis using list_codec by (simp add: exact_codec_def)
qed

lemma list8_exact: "exact_codec (r_list8 rd) (w_list8 wr) (wf_list8 ok)"
proof -
  have "plain_bytes 1 @ concat (map (\<lambda>x. plain_bytes (length (encoding wr x))) xs) =
      plain_bytes (length (encoding (w_list8 wr) xs))" for xs
    by (simp add: encoding_list8 concat_plain length_concat comp_def)
  then show ?thesis using list8_codec by (simp add: exact_codec_def)
qed

end

lemma exact_codecI:
  assumes "\<And>x w. wr x w = w\<lparr>buf := buf w @ E x\<rparr>"
    and "\<And>x t q. ok x \<Longrightarrow>
      rd \<lparr>src = E x @ t, pos = q\<rparr> = Inr (x, \<lparr>src = t, pos = q + length (E x)\<rparr>)"
    and "\<And>r x r'. rd r = Inr (x, r') \<Longrightarrow>
      ok x \<and> src r = E x @ src r' \<and> pos r' = pos r + length (E x)"
  shows "exact_codec rd wr ok"
proof -
  have "encoding wr x = E x" for x by (rule encoding_eqI) (rule assms(1))
  then show ?thesis
    unfolding exact_codec_def using assms by (intro codecI [where E = E]) auto
qed

text \<open>
  The form the component proofs use: what a value encodes to is what its \<open>write\<close> leaves in a
  fresh writer, which the simplifier computes from the sub-codecs' \<open>wr_eq\<close> facts.
\<close>

lemma exact_bufI:
  assumes "\<And>x w. wr x w = w\<lparr>buf := buf w @ buf (wr x writer_new)\<rparr>"
    and "\<And>x t q. ok x \<Longrightarrow> rd \<lparr>src = buf (wr x writer_new) @ t, pos = q\<rparr>
      = Inr (x, \<lparr>src = t, pos = q + length (buf (wr x writer_new))\<rparr>)"
    and "\<And>r x r'. rd r = Inr (x, r') \<Longrightarrow> ok x \<and> src r = buf (wr x writer_new) @ src r' \<and>
      pos r' = pos r + length (buf (wr x writer_new))"
  shows "exact_codec rd wr ok"
  using assms by (intro exact_codecI [where E = "\<lambda>x. buf (wr x writer_new)"])

interpretation u8: exact_codec r_u8 w_u8 "\<lambda>_. True"
  by (rule exact_codecI [where E = "\<lambda>v. [v]"]) (auto simp: wr_eq rd_run rd_iff)

interpretation u16: exact_codec r_u16 w_u16 "\<lambda>_. True"
  by (rule exact_codecI [where E = be16]) (auto simp: wr_eq rd_run rd_iff)

lemma u16_list_eq: "r_u16_list = r_list r_u16" "w_u16_list = w_list w_u16"
  by (simp_all add: r_list_def r_u16_list_def w_list_def w_u16_list_def fun_eq_iff)

interpretation u16_list: exact_codec r_u16_list w_u16_list "wf_list (\<lambda>_. True)"
  unfolding u16_list_eq by (rule u16.list_exact)

end
