(* ===== verification/Attribute_Tables.thy ===== *)
theory Attribute_Tables
  imports Codec
begin

text \<open>
  The table entries of \<open>jals-classfile/src/attribute.rs\<close>: one record per entry struct of an
  attribute, with its \<open>read\<close> and \<open>write\<close>, shown to be byte-exact codecs, and the \<open>Module\<close>
  attribute built from them. An entry that holds a list is well-formed when the list fits its count.
\<close>

subsection \<open>\<open>ExceptionTableEntry\<close>\<close>

record exception_table_entry =
  ex_start_pc :: u16
  ex_end_pc :: u16
  ex_handler_pc :: u16
  ex_catch_type :: u16

definition exception_read :: "exception_table_entry rd" where
  "exception_read =
     r_bind r_u16 (\<lambda>a.
     r_bind r_u16 (\<lambda>b.
     r_bind r_u16 (\<lambda>c.
     r_bind r_u16 (\<lambda>d.
       r_return \<lparr>ex_start_pc = a, ex_end_pc = b, ex_handler_pc = c,
         ex_catch_type = d\<rparr>))))"

definition exception_write :: "exception_table_entry \<Rightarrow> writer \<Rightarrow> writer" where
  "exception_write e =
     w_do [w_u16 (ex_start_pc e), w_u16 (ex_end_pc e),
       w_u16 (ex_handler_pc e), w_u16 (ex_catch_type e)]"

interpretation exception: exact_codec exception_read exception_write "\<lambda>_. True"
  by (rule exact_bufI) (simp add: exception_write_def wr_eq,
    simp add: exception_write_def exception_read_def wr_eq rd_run,
    auto simp: exception_write_def exception_read_def wr_eq rd_iff)

interpretation exceptions: exact_codec "r_list exception_read" "w_list exception_write" "wf_list (\<lambda>_. True)"
  by (rule exception.list_exact)

subsection \<open>\<open>InnerClassEntry\<close>\<close>

record inner_class_entry =
  inner_class_info_index :: u16
  outer_class_info_index :: u16
  inner_name_index :: u16
  inner_class_access_flags :: u16

definition inner_class_read :: "inner_class_entry rd" where
  "inner_class_read =
     r_bind r_u16 (\<lambda>a.
     r_bind r_u16 (\<lambda>b.
     r_bind r_u16 (\<lambda>c.
     r_bind r_u16 (\<lambda>d.
       r_return \<lparr>inner_class_info_index = a, outer_class_info_index = b, inner_name_index = c,
         inner_class_access_flags = d\<rparr>))))"

definition inner_class_write :: "inner_class_entry \<Rightarrow> writer \<Rightarrow> writer" where
  "inner_class_write e =
     w_do [w_u16 (inner_class_info_index e), w_u16 (outer_class_info_index e),
       w_u16 (inner_name_index e), w_u16 (inner_class_access_flags e)]"

interpretation inner_class: exact_codec inner_class_read inner_class_write "\<lambda>_. True"
  by (rule exact_bufI) (simp add: inner_class_write_def wr_eq,
    simp add: inner_class_write_def inner_class_read_def wr_eq rd_run,
    auto simp: inner_class_write_def inner_class_read_def wr_eq rd_iff)

interpretation inner_classes: exact_codec "r_list inner_class_read" "w_list inner_class_write" "wf_list (\<lambda>_. True)"
  by (rule inner_class.list_exact)

subsection \<open>\<open>LineNumberEntry\<close>\<close>

record line_number_entry =
  ln_start_pc :: u16
  ln_line_number :: u16

definition line_number_read :: "line_number_entry rd" where
  "line_number_read =
     r_bind r_u16 (\<lambda>a.
     r_bind r_u16 (\<lambda>b.
       r_return \<lparr>ln_start_pc = a, ln_line_number = b\<rparr>))"

definition line_number_write :: "line_number_entry \<Rightarrow> writer \<Rightarrow> writer" where
  "line_number_write e =
     w_do [w_u16 (ln_start_pc e), w_u16 (ln_line_number e)]"

interpretation line_number: exact_codec line_number_read line_number_write "\<lambda>_. True"
  by (rule exact_bufI) (simp add: line_number_write_def wr_eq,
    simp add: line_number_write_def line_number_read_def wr_eq rd_run,
    auto simp: line_number_write_def line_number_read_def wr_eq rd_iff)

interpretation line_numbers: exact_codec "r_list line_number_read" "w_list line_number_write" "wf_list (\<lambda>_. True)"
  by (rule line_number.list_exact)

subsection \<open>\<open>LocalVariableEntry\<close>\<close>

record local_variable_entry =
  lv_start_pc :: u16
  lv_length :: u16
  lv_name_index :: u16
  lv_descriptor_index :: u16
  lv_index :: u16

definition local_variable_read :: "local_variable_entry rd" where
  "local_variable_read =
     r_bind r_u16 (\<lambda>a.
     r_bind r_u16 (\<lambda>b.
     r_bind r_u16 (\<lambda>c.
     r_bind r_u16 (\<lambda>d.
     r_bind r_u16 (\<lambda>e.
       r_return \<lparr>lv_start_pc = a, lv_length = b, lv_name_index = c,
         lv_descriptor_index = d, lv_index = e\<rparr>)))))"

definition local_variable_write :: "local_variable_entry \<Rightarrow> writer \<Rightarrow> writer" where
  "local_variable_write e =
     w_do [w_u16 (lv_start_pc e), w_u16 (lv_length e), w_u16 (lv_name_index e),
       w_u16 (lv_descriptor_index e), w_u16 (lv_index e)]"

interpretation local_variable: exact_codec local_variable_read local_variable_write "\<lambda>_. True"
  by (rule exact_bufI) (simp add: local_variable_write_def wr_eq,
    simp add: local_variable_write_def local_variable_read_def wr_eq rd_run,
    auto simp: local_variable_write_def local_variable_read_def wr_eq rd_iff)

interpretation local_variables: exact_codec "r_list local_variable_read" "w_list local_variable_write" "wf_list (\<lambda>_. True)"
  by (rule local_variable.list_exact)

subsection \<open>\<open>LocalVariableTypeEntry\<close>\<close>

record local_variable_type_entry =
  lt_start_pc :: u16
  lt_length :: u16
  lt_name_index :: u16
  lt_signature_index :: u16
  lt_index :: u16

definition local_variable_type_read :: "local_variable_type_entry rd" where
  "local_variable_type_read =
     r_bind r_u16 (\<lambda>a.
     r_bind r_u16 (\<lambda>b.
     r_bind r_u16 (\<lambda>c.
     r_bind r_u16 (\<lambda>d.
     r_bind r_u16 (\<lambda>e.
       r_return \<lparr>lt_start_pc = a, lt_length = b, lt_name_index = c,
         lt_signature_index = d, lt_index = e\<rparr>)))))"

definition local_variable_type_write :: "local_variable_type_entry \<Rightarrow> writer \<Rightarrow> writer" where
  "local_variable_type_write e =
     w_do [w_u16 (lt_start_pc e), w_u16 (lt_length e), w_u16 (lt_name_index e),
       w_u16 (lt_signature_index e), w_u16 (lt_index e)]"

interpretation local_variable_type: exact_codec local_variable_type_read local_variable_type_write "\<lambda>_. True"
  by (rule exact_bufI) (simp add: local_variable_type_write_def wr_eq,
    simp add: local_variable_type_write_def local_variable_type_read_def wr_eq rd_run,
    auto simp: local_variable_type_write_def local_variable_type_read_def wr_eq rd_iff)

interpretation local_variable_types: exact_codec "r_list local_variable_type_read" "w_list local_variable_type_write" "wf_list (\<lambda>_. True)"
  by (rule local_variable_type.list_exact)

subsection \<open>\<open>BootstrapMethod\<close>\<close>

record bootstrap_method =
  bootstrap_method_ref :: u16
  bootstrap_arguments :: "u16 list"

definition bootstrap_read :: "bootstrap_method rd" where
  "bootstrap_read =
     r_bind r_u16 (\<lambda>a.
     r_bind r_u16_list (\<lambda>b.
       r_return \<lparr>bootstrap_method_ref = a, bootstrap_arguments = b\<rparr>))"

definition bootstrap_write :: "bootstrap_method \<Rightarrow> writer \<Rightarrow> writer" where
  "bootstrap_write e =
     w_do [w_u16 (bootstrap_method_ref e), w_u16_list (bootstrap_arguments e)]"

definition wf_bootstrap :: "bootstrap_method \<Rightarrow> bool" where
  "wf_bootstrap e \<longleftrightarrow> length (bootstrap_arguments e) < 65536"

interpretation bootstrap: exact_codec bootstrap_read bootstrap_write wf_bootstrap
  by (rule exact_bufI) (simp add: bootstrap_write_def wr_eq,
    simp add: wf_bootstrap_def bootstrap_write_def bootstrap_read_def wr_eq rd_run,
    auto simp: wf_bootstrap_def bootstrap_write_def bootstrap_read_def wr_eq rd_iff)

interpretation bootstraps: exact_codec "r_list bootstrap_read" "w_list bootstrap_write" "wf_list wf_bootstrap"
  by (rule bootstrap.list_exact)

subsection \<open>\<open>MethodParameterEntry\<close>\<close>

record method_parameter_entry =
  mp_name_index :: u16
  mp_access_flags :: u16

definition method_parameter_read :: "method_parameter_entry rd" where
  "method_parameter_read =
     r_bind r_u16 (\<lambda>a.
     r_bind r_u16 (\<lambda>b.
       r_return \<lparr>mp_name_index = a, mp_access_flags = b\<rparr>))"

definition method_parameter_write :: "method_parameter_entry \<Rightarrow> writer \<Rightarrow> writer" where
  "method_parameter_write e =
     w_do [w_u16 (mp_name_index e), w_u16 (mp_access_flags e)]"

interpretation method_parameter: exact_codec method_parameter_read method_parameter_write "\<lambda>_. True"
  by (rule exact_bufI) (simp add: method_parameter_write_def wr_eq,
    simp add: method_parameter_write_def method_parameter_read_def wr_eq rd_run,
    auto simp: method_parameter_write_def method_parameter_read_def wr_eq rd_iff)

interpretation method_parameters: exact_codec "r_list method_parameter_read" "w_list method_parameter_write" "wf_list (\<lambda>_. True)"
  by (rule method_parameter.list_exact)

subsection \<open>\<open>ModuleRequire\<close>\<close>

record module_require =
  requires_index :: u16
  requires_flags :: u16
  requires_version_index :: u16

definition module_require_read :: "module_require rd" where
  "module_require_read =
     r_bind r_u16 (\<lambda>a.
     r_bind r_u16 (\<lambda>b.
     r_bind r_u16 (\<lambda>c.
       r_return \<lparr>requires_index = a, requires_flags = b,
         requires_version_index = c\<rparr>)))"

definition module_require_write :: "module_require \<Rightarrow> writer \<Rightarrow> writer" where
  "module_require_write e =
     w_do [w_u16 (requires_index e), w_u16 (requires_flags e),
       w_u16 (requires_version_index e)]"

interpretation module_require: exact_codec module_require_read module_require_write "\<lambda>_. True"
  by (rule exact_bufI) (simp add: module_require_write_def wr_eq,
    simp add: module_require_write_def module_require_read_def wr_eq rd_run,
    auto simp: module_require_write_def module_require_read_def wr_eq rd_iff)

interpretation module_requires: exact_codec "r_list module_require_read" "w_list module_require_write" "wf_list (\<lambda>_. True)"
  by (rule module_require.list_exact)

subsection \<open>\<open>ModuleExport\<close>\<close>

record module_export =
  exports_index :: u16
  exports_flags :: u16
  exports_to_index :: "u16 list"

definition module_export_read :: "module_export rd" where
  "module_export_read =
     r_bind r_u16 (\<lambda>a.
     r_bind r_u16 (\<lambda>b.
     r_bind r_u16_list (\<lambda>c.
       r_return \<lparr>exports_index = a, exports_flags = b, exports_to_index = c\<rparr>)))"

definition module_export_write :: "module_export \<Rightarrow> writer \<Rightarrow> writer" where
  "module_export_write e =
     w_do [w_u16 (exports_index e), w_u16 (exports_flags e),
       w_u16_list (exports_to_index e)]"

definition wf_module_export :: "module_export \<Rightarrow> bool" where
  "wf_module_export e \<longleftrightarrow> length (exports_to_index e) < 65536"

interpretation module_export: exact_codec module_export_read module_export_write wf_module_export
  by (rule exact_bufI) (simp add: module_export_write_def wr_eq,
    simp add: wf_module_export_def module_export_write_def module_export_read_def wr_eq rd_run,
    auto simp: wf_module_export_def module_export_write_def module_export_read_def wr_eq rd_iff)

interpretation module_exports: exact_codec "r_list module_export_read" "w_list module_export_write" "wf_list wf_module_export"
  by (rule module_export.list_exact)

subsection \<open>\<open>ModuleOpen\<close>\<close>

record module_open =
  opens_index :: u16
  opens_flags :: u16
  opens_to_index :: "u16 list"

definition module_open_read :: "module_open rd" where
  "module_open_read =
     r_bind r_u16 (\<lambda>a.
     r_bind r_u16 (\<lambda>b.
     r_bind r_u16_list (\<lambda>c.
       r_return \<lparr>opens_index = a, opens_flags = b, opens_to_index = c\<rparr>)))"

definition module_open_write :: "module_open \<Rightarrow> writer \<Rightarrow> writer" where
  "module_open_write e =
     w_do [w_u16 (opens_index e), w_u16 (opens_flags e), w_u16_list (opens_to_index e)]"

definition wf_module_open :: "module_open \<Rightarrow> bool" where
  "wf_module_open e \<longleftrightarrow> length (opens_to_index e) < 65536"

interpretation module_open: exact_codec module_open_read module_open_write wf_module_open
  by (rule exact_bufI) (simp add: module_open_write_def wr_eq,
    simp add: wf_module_open_def module_open_write_def module_open_read_def wr_eq rd_run,
    auto simp: wf_module_open_def module_open_write_def module_open_read_def wr_eq rd_iff)

interpretation module_opens: exact_codec "r_list module_open_read" "w_list module_open_write" "wf_list wf_module_open"
  by (rule module_open.list_exact)

subsection \<open>\<open>ModuleProvide\<close>\<close>

record module_provide =
  provides_index :: u16
  provides_with_index :: "u16 list"

definition module_provide_read :: "module_provide rd" where
  "module_provide_read =
     r_bind r_u16 (\<lambda>a.
     r_bind r_u16_list (\<lambda>b.
       r_return \<lparr>provides_index = a, provides_with_index = b\<rparr>))"

definition module_provide_write :: "module_provide \<Rightarrow> writer \<Rightarrow> writer" where
  "module_provide_write e =
     w_do [w_u16 (provides_index e), w_u16_list (provides_with_index e)]"

definition wf_module_provide :: "module_provide \<Rightarrow> bool" where
  "wf_module_provide e \<longleftrightarrow> length (provides_with_index e) < 65536"

interpretation module_provide: exact_codec module_provide_read module_provide_write wf_module_provide
  by (rule exact_bufI) (simp add: module_provide_write_def wr_eq,
    simp add: wf_module_provide_def module_provide_write_def module_provide_read_def wr_eq rd_run,
    auto simp: wf_module_provide_def module_provide_write_def module_provide_read_def wr_eq rd_iff)

interpretation module_provides: exact_codec "r_list module_provide_read" "w_list module_provide_write" "wf_list wf_module_provide"
  by (rule module_provide.list_exact)

subsection \<open>\<open>ModuleAttribute\<close>\<close>

record module_attribute =
  module_name_index :: u16
  module_flags :: u16
  module_version_index :: u16
  module_requires :: "module_require list"
  module_exports :: "module_export list"
  module_opens :: "module_open list"
  uses_index :: "u16 list"
  module_provides :: "module_provide list"

definition module_read :: "module_attribute rd" where
  "module_read =
     r_bind r_u16 (\<lambda>name_index.
     r_bind r_u16 (\<lambda>flags.
     r_bind r_u16 (\<lambda>version_index.
     r_bind (r_list module_require_read) (\<lambda>reqs.
     r_bind (r_list module_export_read) (\<lambda>exps.
     r_bind (r_list module_open_read) (\<lambda>opens.
     r_bind r_u16_list (\<lambda>uses.
     r_bind (r_list module_provide_read) (\<lambda>provs.
       r_return \<lparr>module_name_index = name_index, module_flags = flags,
         module_version_index = version_index, module_requires = reqs, module_exports = exps,
         module_opens = opens, uses_index = uses, module_provides = provs\<rparr>))))))))"

definition module_write :: "module_attribute \<Rightarrow> writer \<Rightarrow> writer" where
  "module_write m =
     w_do [w_u16 (module_name_index m), w_u16 (module_flags m), w_u16 (module_version_index m),
       w_list module_require_write (module_requires m), w_list module_export_write (module_exports m),
       w_list module_open_write (module_opens m), w_u16_list (uses_index m),
       w_list module_provide_write (module_provides m)]"

definition wf_module :: "module_attribute \<Rightarrow> bool" where
  "wf_module m \<longleftrightarrow> length (module_requires m) < 65536 \<and> wf_list wf_module_export (module_exports m) \<and>
     wf_list wf_module_open (module_opens m) \<and> length (uses_index m) < 65536 \<and>
     wf_list wf_module_provide (module_provides m)"

interpretation module: exact_codec module_read module_write wf_module
  by (rule exact_bufI) (simp add: module_write_def wr_eq,
    simp add: wf_module_def module_write_def module_read_def wr_eq rd_run,
    auto simp: wf_module_def module_write_def module_read_def wr_eq rd_iff)

subsection \<open>Runs behind a \<open>u8\<close> count\<close>

interpretation method_parameter_run: exact_codec "r_list8 method_parameter_read"
    "w_list8 method_parameter_write" "wf_list8 (\<lambda>_. True)"
  by (rule method_parameter.list8_exact)

end
