(* ===== verification/Recursion.thy ===== *)
theory Recursion
  imports Codec
begin

text \<open>
  Formats that contain themselves (element values, attributes) are read with a depth bound. Two
  readers \<open>agree\<close> up to an input length when they give the same result, errors included, on every
  input that short; a reader \<open>shrinks\<close> when it never leaves more input than it got. Runs of items
  agree when their items do, so a bound of the input's length loses nothing.
\<close>

definition shrinks :: "'a rd \<Rightarrow> bool" where
  "shrinks rd \<longleftrightarrow> (\<forall>r x r'. rd r = Inr (x, r') \<longrightarrow> length (src r') \<le> length (src r))"

definition agree :: "nat \<Rightarrow> 'a rd \<Rightarrow> 'a rd \<Rightarrow> bool" where
  "agree n rd1 rd2 \<longleftrightarrow> (\<forall>r. length (src r) \<le> n \<longrightarrow> rd1 r = rd2 r)"

context codec begin

lemma shrinking: "shrinks rd"
  unfolding shrinks_def using write_read by fastforce

end

lemma agree_refl [simp]: "agree n rd rd"
  by (simp add: agree_def)

lemma agree_mono: "agree n rd1 rd2 \<Longrightarrow> m \<le> n \<Longrightarrow> agree m rd1 rd2"
  by (simp add: agree_def)

lemma agree_bind:
  assumes "agree n p1 p2" "shrinks p1" "\<And>x. agree n (f1 x) (f2 x)"
  shows "agree n (r_bind p1 f1) (r_bind p2 f2)"
  unfolding agree_def
proof (intro allI impI)
  fix r :: reader assume r: "length (src r) \<le> n"
  then have p: "p2 r = p1 r" using assms(1) by (simp add: agree_def)
  show "r_bind p1 f1 r = r_bind p2 f2 r"
  proof (cases "p1 r")
    case (Inr xr)
    then have "length (src (snd xr)) \<le> n"
      using assms(2) r unfolding shrinks_def by (metis le_trans prod.collapse)
    then show ?thesis
      using assms(3) Inr p by (cases xr) (simp add: r_bind_def agree_def)
  qed (simp add: r_bind_def p)
qed

lemma agree_map: "agree n p1 p2 \<Longrightarrow> agree n (r_map f p1) (r_map f p2)"
  by (simp add: agree_def r_map_def r_bind_def)

lemma shrinks_bind: "shrinks p \<Longrightarrow> (\<And>x. shrinks (f x)) \<Longrightarrow> shrinks (r_bind p f)"
  unfolding shrinks_def by (auto simp: rd_iff) (meson le_trans)

lemma shrinks_return [simp]: "shrinks (r_return x)"
  by (simp add: shrinks_def rd_iff)

lemma shrinks_map: "shrinks p \<Longrightarrow> shrinks (r_map f p)"
  unfolding shrinks_def by (auto simp: rd_iff)

lemma shrinks_times: "shrinks p \<Longrightarrow> shrinks (r_times k p)"
  by (induction k) (auto intro!: shrinks_bind)

lemma agree_times: "agree n p1 p2 \<Longrightarrow> shrinks p1 \<Longrightarrow> agree n (r_times k p1) (r_times k p2)"
proof (induction k)
  case (Suc k)
  then show ?case
    by (auto intro!: agree_bind shrinks_times)
qed simp

lemma agree_list: "agree n p1 p2 \<Longrightarrow> shrinks p1 \<Longrightarrow> agree n (r_list p1) (r_list p2)"
  unfolding r_list_def by (intro agree_bind agree_times u16.shrinking agree_refl)

lemma agree_if: "agree n p1 p2 \<Longrightarrow> agree n q1 q2 \<Longrightarrow> agree n (if c then p1 else q1) (if c then p2 else q2)"
  by simp

text \<open>Behind the first byte of an input of length \<open>Suc n\<close> at most \<open>n\<close> are left.\<close>

lemma agree_after_u8:
  assumes "\<And>tag. agree n (f tag) (g tag)"
  shows "agree (Suc n) (r_bind r_u8 f) (r_bind r_u8 g)"
  unfolding agree_def
proof (intro allI impI)
  fix r :: reader assume r: "length (src r) \<le> Suc n"
  show "r_bind r_u8 f r = r_bind r_u8 g r"
  proof (cases "r_u8 r")
    case (Inr xr)
    obtain x r1 where x: "r_u8 r = Inr (x, r1)" using Inr by (cases xr) simp
    then have "length (src r1) \<le> n" using r by (simp add: r_u8_iff)
    then show ?thesis using assms [of x] by (simp add: r_bind_def agree_def x)
  qed (simp add: r_bind_def)
qed

text \<open>
  \<open>unbounded f\<close> runs a depth-bounded reader with the input's length as the bound. When one more
  level changes nothing on inputs within the bound, every larger bound gives the same result.
\<close>

definition unbounded :: "(nat \<Rightarrow> 'a rd) \<Rightarrow> 'a rd" where
  "unbounded f r = f (length (src r)) r"

lemma unbounded_agree:
  assumes "\<And>n. agree n (f n) (f (Suc n))"
  shows "agree n (unbounded f) (f n)"
proof -
  have "f (m + k) r = f m r" if "length (src r) \<le> m" for r :: reader and m k
  proof (induction k)
    case (Suc k)
    have "f (m + k) r = f (Suc (m + k)) r" using assms [of "m + k"] that by (simp add: agree_def)
    with Suc show ?case by simp
  qed simp
  then have "f n r = f (length (src r)) r" if "length (src r) \<le> n" for r :: reader
    using that by (metis le_add_diff_inverse order_refl)
  then show ?thesis by (simp add: agree_def unbounded_def)
qed

text \<open>
  A bounded format whose reader keeps the contract at every bound keeps it without a bound, with
  the length of a value's own encoding as the bound of its well-formedness.
\<close>

lemma bound_shift:
  assumes codec: "\<And>n. codec (f n) wr (ok n) M" and agree: "\<And>n. agree n (f n) (f (Suc n))"
    and "ok n x" "length (encoding wr x) \<le> n" "length (encoding wr x) \<le> m"
  shows "ok m x"
proof -
  let ?r = "\<lparr>src = encoding wr x, pos = 0\<rparr>"
  have "f k ?r = unbounded f ?r" if "length (encoding wr x) \<le> k" for k
  proof -
    have "length (src ?r) \<le> k" using that by simp
    then show ?thesis using unbounded_agree [of f k, OF agree] unfolding agree_def by metis
  qed
  then have "f m ?r = f n ?r" using assms(4,5) by simp
  moreover have "f n ?r = Inr (x, \<lparr>src = [], pos = length (encoding wr x)\<rparr>)"
    using codec.read_write [OF codec assms(3), of "[]" 0] by simp
  ultimately show ?thesis using codec.write_read [OF codec, of m ?r x] by simp
qed

lemma unbounded_codec:
  assumes codec: "\<And>n. codec (f n) wr (ok n) M" and agree: "\<And>n. agree n (f n) (f (Suc n))"
  shows "codec (unbounded f) wr (\<lambda>x. ok (length (encoding wr x)) x) M"
proof
  show "appending wr" by (rule codec.appends [OF codec])
  fix x r r' t q
  show "unbounded f \<lparr>src = encoding wr x @ t, pos = q\<rparr> =
      Inr (x, \<lparr>src = t, pos = q + length (encoding wr x)\<rparr>)" if "ok (length (encoding wr x)) x"
    using bound_shift [OF codec agree that, of "length (encoding wr x @ t)"]
    by (simp add: unbounded_def codec.read_write [OF codec])
  show "ok (length (encoding wr x)) x \<and> (\<exists>cs. src r = cs @ src r' \<and> spells (M x) cs (encoding wr x)) \<and>
      pos r' = pos r + length (encoding wr x)" if "unbounded f r = Inr (x, r')"
  proof -
    from that have w: "ok (length (src r)) x" "\<exists>cs. src r = cs @ src r' \<and> spells (M x) cs (encoding wr x)"
      "pos r' = pos r + length (encoding wr x)"
      using codec.write_read [OF codec, of "length (src r)" r x r'] by (auto simp: unbounded_def)
    then have "length (encoding wr x) \<le> length (src r)" by (auto dest: spells_length)
    then show ?thesis using w bound_shift [OF codec agree w(1)] by blast
  qed
qed

lemma w_for_cong [fundef_cong]:
  "xs = ys \<Longrightarrow> (\<And>x. x \<in> set ys \<Longrightarrow> f x = g x) \<Longrightarrow> w = v \<Longrightarrow> w_for xs f w = w_for ys g v"
  by (induction xs arbitrary: ys w v) (auto simp: w_for_def)

lemma w_list_cong [fundef_cong]:
  "xs = ys \<Longrightarrow> (\<And>x. x \<in> set ys \<Longrightarrow> f x = g x) \<Longrightarrow> w_list f xs = w_list g ys"
proof -
  assume "xs = ys" and eq: "\<And>x. x \<in> set ys \<Longrightarrow> f x = g x"
  moreover have "w_for ys f = w_for ys g" by (intro ext w_for_cong) (simp_all add: eq)
  ultimately show ?thesis by (simp add: w_list_def)
qed

end
