(* ===== verification/Annotation.thy ===== *)
theory Annotation
  imports Recursion
begin

text \<open>
  \<open>jals-classfile/src/annotation.rs\<close>: annotations, element values and type annotations. An element
  value may hold an annotation or further element values, so its reader carries a depth bound,
  which \<open>element_value_read\<close> sets to the input's length; \<open>element_value_read_rec\<close> shows that this
  reader satisfies the recursion of the source, errors included. Tags are the ASCII codes of the
  byte literals.
\<close>

subsection \<open>Element values\<close>

datatype element_value =
    Ev_Const u8 u16 \<comment> \<open>tag, const_value_index\<close>
  | Ev_Enum u16 u16 \<comment> \<open>type_name_index, const_name_index\<close>
  | Ev_Class u16 \<comment> \<open>class_info_index\<close>
  | Ev_Annotation annotation
  | Ev_Array "element_value list"
and annotation = Annotation u16 "element_value_pair list" \<comment> \<open>type_index, element_value_pairs\<close>
and element_value_pair = Element_Value_Pair u16 element_value \<comment> \<open>element_name_index, value\<close>

text \<open>The tags \<open>BCDFIJSZs\<close> of a constant.\<close>

definition const_tags :: "u8 list" where
  "const_tags = [0x42, 0x43, 0x44, 0x46, 0x49, 0x4A, 0x53, 0x5A, 0x73]"

text \<open>The readers, given the one for the element values inside.\<close>

definition pair_read_with :: "element_value rd \<Rightarrow> element_value_pair rd" where
  "pair_read_with value_read =
     r_bind r_u16 (\<lambda>element_name_index. r_map (Element_Value_Pair element_name_index) value_read)"

definition annotation_read_with :: "element_value rd \<Rightarrow> annotation rd" where
  "annotation_read_with value_read =
     r_bind r_u16 (\<lambda>type_index. r_map (Annotation type_index) (r_list (pair_read_with value_read)))"

definition element_value_arm :: "element_value rd \<Rightarrow> u8 \<Rightarrow> element_value rd" where
  "element_value_arm value_read tag =
     (if tag \<in> set const_tags then r_map (Ev_Const tag) r_u16
      else if tag = 0x65 then r_bind r_u16 (\<lambda>type_name_index. r_map (Ev_Enum type_name_index) r_u16)
      else if tag = 0x63 then r_map Ev_Class r_u16
      else if tag = 0x40 then r_map Ev_Annotation (annotation_read_with value_read)
      else if tag = 0x5B then r_map Ev_Array (r_list value_read)
      else r_fail (Malformed ''element_value tag''))"

fun element_value_read_bounded :: "nat \<Rightarrow> element_value rd" where
  "element_value_read_bounded 0 = r_bind r_u8 (\<lambda>_. r_fail (Malformed ''depth''))"
| "element_value_read_bounded (Suc n) =
     r_bind r_u8 (element_value_arm (element_value_read_bounded n))"

definition element_value_read :: "element_value rd" where
  "element_value_read = unbounded element_value_read_bounded"

definition pair_read :: "element_value_pair rd" where
  "pair_read = pair_read_with element_value_read"

definition annotation_read :: "annotation rd" where
  "annotation_read = annotation_read_with element_value_read"

fun element_value_write :: "element_value \<Rightarrow> writer \<Rightarrow> writer"
  and annotation_write :: "annotation \<Rightarrow> writer \<Rightarrow> writer"
  and pair_write :: "element_value_pair \<Rightarrow> writer \<Rightarrow> writer" where
  "element_value_write (Ev_Const tag const_value_index) = w_do [w_u8 tag, w_u16 const_value_index]"
| "element_value_write (Ev_Enum type_name_index const_name_index) =
     w_do [w_u8 0x65, w_u16 type_name_index, w_u16 const_name_index]"
| "element_value_write (Ev_Class class_info_index) = w_do [w_u8 0x63, w_u16 class_info_index]"
| "element_value_write (Ev_Annotation a) = w_do [w_u8 0x40, annotation_write a]"
| "element_value_write (Ev_Array values) = w_do [w_u8 0x5B, w_list element_value_write values]"
| "annotation_write (Annotation type_index pairs) =
     w_do [w_u16 type_index, w_list pair_write pairs]"
| "pair_write (Element_Value_Pair element_name_index v) =
     w_do [w_u16 element_name_index, element_value_write v]"

text \<open>Well-formed to a depth, and well-formed: the depth never exceeds the encoding's length.\<close>

definition wf_pair_with :: "(element_value \<Rightarrow> bool) \<Rightarrow> element_value_pair \<Rightarrow> bool" where
  "wf_pair_with ok p = (case p of Element_Value_Pair n v \<Rightarrow> ok v)"

definition wf_annotation_with :: "(element_value \<Rightarrow> bool) \<Rightarrow> annotation \<Rightarrow> bool" where
  "wf_annotation_with ok a = (case a of Annotation t pairs \<Rightarrow> wf_list (wf_pair_with ok) pairs)"

definition wf_value_with :: "(element_value \<Rightarrow> bool) \<Rightarrow> element_value \<Rightarrow> bool" where
  "wf_value_with ok v =
     (case v of
        Ev_Const tag i \<Rightarrow> tag \<in> set const_tags
      | Ev_Annotation a \<Rightarrow> wf_annotation_with ok a
      | Ev_Array vs \<Rightarrow> wf_list ok vs
      | _ \<Rightarrow> True)"

fun wf_value_to :: "nat \<Rightarrow> element_value \<Rightarrow> bool" where
  "wf_value_to 0 = (\<lambda>_. False)"
| "wf_value_to (Suc n) = wf_value_with (wf_value_to n)"

definition wf_value :: "element_value \<Rightarrow> bool" where
  "wf_value v \<longleftrightarrow> wf_value_to (length (encoding element_value_write v)) v"

lemma pair_exact:
  assumes "exact_codec rd element_value_write ok"
  shows "exact_codec (pair_read_with rd) pair_write (wf_pair_with ok)"
proof (rule exact_bufI)
  note [wr_eq] = codec.append_eq [OF exact_codec.axioms(1) [OF assms]]
  show "pair_write x w = w\<lparr>buf := buf w @ buf (pair_write x writer_new)\<rparr>" for x w
    by (cases x) (simp add: wr_eq)
  show "pair_read_with rd \<lparr>src = buf (pair_write x writer_new) @ t, pos = q\<rparr> =
      Inr (x, \<lparr>src = t, pos = q + length (buf (pair_write x writer_new))\<rparr>)"
    if "wf_pair_with ok x" for x t q
    using that codec.read_write [OF exact_codec.axioms(1) [OF assms]]
    by (cases x) (simp add: wr_eq wf_pair_with_def pair_read_with_def rd_run)
  show "wf_pair_with ok x \<and> src r = buf (pair_write x writer_new) @ src r' \<and>
      pos r' = pos r + length (buf (pair_write x writer_new))"
    if "pair_read_with rd r = Inr (x, r')" for r x r'
    using that by (auto simp: pair_read_with_def rd_iff exact_codec.exact [OF assms] wr_eq wf_pair_with_def)
qed

lemma annotation_exact:
  assumes "exact_codec rd element_value_write ok"
  shows "exact_codec (annotation_read_with rd) annotation_write (wf_annotation_with ok)"
proof (rule exact_bufI)
  note list = exact_codec.list_exact [OF pair_exact [OF assms]]
  note [wr_eq] = codec.append_eq [OF exact_codec.axioms(1) [OF list]]
  show "annotation_write x w = w\<lparr>buf := buf w @ buf (annotation_write x writer_new)\<rparr>" for x w
    by (cases x) (simp add: wr_eq)
  show "annotation_read_with rd \<lparr>src = buf (annotation_write x writer_new) @ t, pos = q\<rparr> =
      Inr (x, \<lparr>src = t, pos = q + length (buf (annotation_write x writer_new))\<rparr>)"
    if "wf_annotation_with ok x" for x t q
    using that codec.read_write [OF exact_codec.axioms(1) [OF list]]
    by (cases x) (simp add: wr_eq wf_annotation_with_def annotation_read_with_def rd_run)
  show "wf_annotation_with ok x \<and> src r = buf (annotation_write x writer_new) @ src r' \<and>
      pos r' = pos r + length (buf (annotation_write x writer_new))"
    if "annotation_read_with rd r = Inr (x, r')" for r x r'
    using that
    by (auto simp: annotation_read_with_def rd_iff exact_codec.exact [OF list] wr_eq wf_annotation_with_def)
qed

text \<open>Writing appends, at every depth.\<close>

lemma write_appends:
  "element_value_write v w = w\<lparr>buf := buf w @ encoding element_value_write v\<rparr>"
  "annotation_write a w = w\<lparr>buf := buf w @ encoding annotation_write a\<rparr>"
  "pair_write p w = w\<lparr>buf := buf w @ encoding pair_write p\<rparr>"
proof (induction v and a and p arbitrary: w and w and w)
  case (Ev_Const tag i)
  show ?case by (rule appendsI) (simp add: wr_eq)
next
  case (Ev_Enum t c)
  show ?case by (rule appendsI) (simp add: wr_eq)
next
  case (Ev_Class c)
  show ?case by (rule appendsI) (simp add: wr_eq)
next
  case (Ev_Annotation a)
  show ?case by (rule appendsI) (simp add: wr_eq Ev_Annotation)
next
  case (Ev_Array vs)
  then show ?case
    by (intro appendsI) (simp add: wr_eq w_list_appends [of vs element_value_write])
next
  case (Annotation t ps)
  then show ?case by (intro appendsI) (simp add: wr_eq w_list_appends [of ps pair_write])
next
  case (Element_Value_Pair n v)
  show ?case by (rule appendsI) (simp add: wr_eq Element_Value_Pair)
qed

lemma value_appends: "element_value_write v w = w\<lparr>buf := buf w @ buf (element_value_write v writer_new)\<rparr>"
  using write_appends(1) [of v w] by (simp only: encoding_def)

lemma value_step_exact:
  assumes "exact_codec rd element_value_write ok"
  shows "exact_codec (r_bind r_u8 (element_value_arm rd)) element_value_write (wf_value_with ok)"
proof (rule exact_bufI)
  note list = exact_codec.list_exact [OF assms]
  note ann = annotation_exact [OF assms]
  note [wr_eq] = codec.append_eq [OF exact_codec.axioms(1) [OF list]]
    codec.append_eq [OF exact_codec.axioms(1) [OF ann]]
  show "element_value_write x w = w\<lparr>buf := buf w @ buf (element_value_write x writer_new)\<rparr>" for x w
    by (rule value_appends)
  show "r_bind r_u8 (element_value_arm rd) \<lparr>src = buf (element_value_write x writer_new) @ t, pos = q\<rparr> =
      Inr (x, \<lparr>src = t, pos = q + length (buf (element_value_write x writer_new))\<rparr>)"
    if "wf_value_with ok x" for x t q
    using that codec.read_write [OF exact_codec.axioms(1) [OF list]]
      codec.read_write [OF exact_codec.axioms(1) [OF ann]]
    by (cases x) (simp_all add: wr_eq wf_value_with_def element_value_arm_def rd_run const_tags_def)
  show "wf_value_with ok x \<and> src r = buf (element_value_write x writer_new) @ src r' \<and>
      pos r' = pos r + length (buf (element_value_write x writer_new))"
    if read: "r_bind r_u8 (element_value_arm rd) r = Inr (x, r')" for r x r'
  proof -
    from read obtain tag r1 where r: "src r = tag # src r1" "pos r1 = Suc (pos r)"
      and arm: "element_value_arm rd tag r1 = Inr (x, r')" by (auto simp: rd_iff)
    from arm show ?thesis
      unfolding element_value_arm_def
      by (elim chainE) (auto simp: r rd_iff exact_codec.exact [OF list] exact_codec.exact [OF ann] wr_eq
          wf_value_with_def)
  qed
qed

lemma bounded_exact: "exact_codec (element_value_read_bounded n) element_value_write (wf_value_to n)"
proof (induction n)
  case 0
  show ?case
    by (rule exact_bufI) (rule value_appends, simp_all add: rd_iff)
next
  case (Suc n)
  then show ?case by (simp add: value_step_exact)
qed

lemma bounded_agree: "agree n (element_value_read_bounded n) (element_value_read_bounded (Suc n))"
proof (induction n)
  case 0
  show ?case by (auto simp: agree_def r_bind_def r_u8_def fill_eq)
next
  case (Suc n)
  note shrinks = codec.shrinking [OF exact_codec.axioms(1) [OF bounded_exact]]
  have "agree n (element_value_arm (element_value_read_bounded n) tag)
      (element_value_arm (element_value_read_bounded (Suc n)) tag)" for tag
    unfolding element_value_arm_def annotation_read_with_def pair_read_with_def
    by (intro agree_if agree_map agree_bind agree_list agree_refl u16.shrinking shrinks shrinks_bind
        shrinks_map Suc)
  then show ?case by (simp only: element_value_read_bounded.simps(2) agree_after_u8)
qed

text \<open>The recursion of the source, with no bound.\<close>

lemma element_value_read_rec:
  "element_value_read = r_bind r_u8 (element_value_arm element_value_read)"
proof
  fix r :: reader
  show "element_value_read r = r_bind r_u8 (element_value_arm element_value_read) r"
  proof (cases "length (src r)")
    case 0
    then show ?thesis by (simp add: element_value_read_def unbounded_def r_bind_def r_u8_def fill_eq)
  next
    case (Suc n)
    note shrinks = codec.shrinking [OF exact_codec.axioms(1) [OF bounded_exact]]
    have same: "agree n (element_value_read_bounded n) element_value_read"
      using unbounded_agree [of element_value_read_bounded n, OF bounded_agree]
      by (simp add: element_value_read_def agree_def)
    have "agree n (element_value_arm (element_value_read_bounded n) tag)
        (element_value_arm element_value_read tag)" for tag
      unfolding element_value_arm_def annotation_read_with_def pair_read_with_def
      by (intro agree_if agree_map agree_bind agree_list agree_refl u16.shrinking shrinks shrinks_bind
          shrinks_map same)
    then have "agree (Suc n) (element_value_read_bounded (Suc n)) (r_bind r_u8 (element_value_arm element_value_read))"
      by (simp only: element_value_read_bounded.simps(2) agree_after_u8)
    then show ?thesis
      using Suc by (simp add: element_value_read_def unbounded_def agree_def)
  qed
qed

interpretation element_value: exact_codec element_value_read element_value_write wf_value
  unfolding exact_codec_def element_value_read_def wf_value_def [abs_def]
  by (rule unbounded_codec [OF exact_codec.axioms(1) [OF bounded_exact] bounded_agree])

definition wf_pair :: "element_value_pair \<Rightarrow> bool" where
  "wf_pair = wf_pair_with wf_value"

definition wf_annotation :: "annotation \<Rightarrow> bool" where
  "wf_annotation = wf_annotation_with wf_value"

interpretation element_value_pair: exact_codec pair_read pair_write wf_pair
  unfolding pair_read_def wf_pair_def by (rule pair_exact) (rule element_value.exact_codec_axioms)

interpretation element_value_pairs: exact_codec "r_list pair_read" "w_list pair_write" "wf_list wf_pair"
  by (rule element_value_pair.list_exact)

interpretation annotation: exact_codec annotation_read annotation_write wf_annotation
  unfolding annotation_read_def wf_annotation_def
  by (rule annotation_exact) (rule element_value.exact_codec_axioms)

interpretation annotations: exact_codec "r_list annotation_read" "w_list annotation_write" "wf_list wf_annotation"
  by (rule annotation.list_exact)

subsection \<open>Type annotations\<close>

record local_var_target_entry =
  lvt_start_pc :: u16
  lvt_length :: u16
  lvt_index :: u16

definition lvt_read :: "local_var_target_entry rd" where
  "lvt_read = r_bind r_u16 (\<lambda>start_pc. r_bind r_u16 (\<lambda>len. r_bind r_u16 (\<lambda>index.
     r_return \<lparr>lvt_start_pc = start_pc, lvt_length = len, lvt_index = index\<rparr>)))"

definition lvt_write :: "local_var_target_entry \<Rightarrow> writer \<Rightarrow> writer" where
  "lvt_write e = w_do [w_u16 (lvt_start_pc e), w_u16 (lvt_length e), w_u16 (lvt_index e)]"

record type_path_entry =
  type_path_kind :: u8
  path_type_argument_index :: u8

definition path_read :: "type_path_entry rd" where
  "path_read = r_bind r_u8 (\<lambda>kind. r_bind r_u8 (\<lambda>index.
     r_return \<lparr>type_path_kind = kind, path_type_argument_index = index\<rparr>))"

definition path_write :: "type_path_entry \<Rightarrow> writer \<Rightarrow> writer" where
  "path_write step = w_do [w_u8 (type_path_kind step), w_u8 (path_type_argument_index step)]"

datatype target_info =
    T_TypeParameter u8 u8 \<comment> \<open>target_type, type_parameter_index\<close>
  | T_Supertype u16
  | T_TypeParameterBound u8 u8 u8 \<comment> \<open>target_type, type_parameter_index, bound_index\<close>
  | T_Empty u8 \<comment> \<open>target_type\<close>
  | T_FormalParameter u8
  | T_Throws u16
  | T_LocalVar u8 "local_var_target_entry list" \<comment> \<open>target_type, table\<close>
  | T_Catch u16
  | T_Offset u8 u16 \<comment> \<open>target_type, offset\<close>
  | T_TypeArgument u8 u16 u8 \<comment> \<open>target_type, offset, type_argument_index\<close>

definition target_arm :: "u8 \<Rightarrow> target_info rd" where
  "target_arm target_type =
     (if target_type = 0x00 \<or> target_type = 0x01 then r_map (T_TypeParameter target_type) r_u8
      else if target_type = 0x10 then r_map T_Supertype r_u16
      else if target_type = 0x11 \<or> target_type = 0x12 then
        r_bind r_u8 (\<lambda>index. r_map (T_TypeParameterBound target_type index) r_u8)
      else if 0x13 \<le> target_type \<and> target_type \<le> 0x15 then r_return (T_Empty target_type)
      else if target_type = 0x16 then r_map T_FormalParameter r_u8
      else if target_type = 0x17 then r_map T_Throws r_u16
      else if target_type = 0x40 \<or> target_type = 0x41 then
        r_map (T_LocalVar target_type) (r_list lvt_read)
      else if target_type = 0x42 then r_map T_Catch r_u16
      else if 0x43 \<le> target_type \<and> target_type \<le> 0x46 then r_map (T_Offset target_type) r_u16
      else if 0x47 \<le> target_type \<and> target_type \<le> 0x4B then
        r_bind r_u16 (\<lambda>off. r_map (T_TypeArgument target_type off) r_u8)
      else r_fail (Malformed ''type_annotation target_type''))"

definition target_read :: "target_info rd" where
  "target_read = r_bind r_u8 target_arm"

fun target_write :: "target_info \<Rightarrow> writer \<Rightarrow> writer" where
  "target_write (T_TypeParameter target_type index) = w_do [w_u8 target_type, w_u8 index]"
| "target_write (T_Supertype index) = w_do [w_u8 0x10, w_u16 index]"
| "target_write (T_TypeParameterBound target_type index bound) =
     w_do [w_u8 target_type, w_u8 index, w_u8 bound]"
| "target_write (T_Empty target_type) = w_u8 target_type"
| "target_write (T_FormalParameter index) = w_do [w_u8 0x16, w_u8 index]"
| "target_write (T_Throws index) = w_do [w_u8 0x17, w_u16 index]"
| "target_write (T_LocalVar target_type table) = w_do [w_u8 target_type, w_list lvt_write table]"
| "target_write (T_Catch index) = w_do [w_u8 0x42, w_u16 index]"
| "target_write (T_Offset target_type off) = w_do [w_u8 target_type, w_u16 off]"
| "target_write (T_TypeArgument target_type off index) =
     w_do [w_u8 target_type, w_u16 off, w_u8 index]"

text \<open>The target types each variant stands for.\<close>

fun wf_target :: "target_info \<Rightarrow> bool" where
  "wf_target (T_TypeParameter tt i) \<longleftrightarrow> tt = 0x00 \<or> tt = 0x01"
| "wf_target (T_TypeParameterBound tt i b) \<longleftrightarrow> tt = 0x11 \<or> tt = 0x12"
| "wf_target (T_Empty tt) \<longleftrightarrow> 0x13 \<le> tt \<and> tt \<le> 0x15"
| "wf_target (T_LocalVar tt table) \<longleftrightarrow> (tt = 0x40 \<or> tt = 0x41) \<and> length table < 65536"
| "wf_target (T_Offset tt off) \<longleftrightarrow> 0x43 \<le> tt \<and> tt \<le> 0x46"
| "wf_target (T_TypeArgument tt off i) \<longleftrightarrow> 0x47 \<le> tt \<and> tt \<le> 0x4B"
| "wf_target _ \<longleftrightarrow> True"

record type_annotation =
  ta_target_info :: target_info
  ta_target_path :: "type_path_entry list"
  ta_type_index :: u16
  ta_element_value_pairs :: "element_value_pair list"

definition type_annotation_read :: "type_annotation rd" where
  "type_annotation_read =
     r_bind target_read (\<lambda>target_info.
     r_bind r_u8 (\<lambda>path_length.
     r_bind (r_times (unat path_length) path_read) (\<lambda>target_path.
     r_bind r_u16 (\<lambda>type_index.
     r_bind (r_list pair_read) (\<lambda>pairs.
       r_return \<lparr>ta_target_info = target_info, ta_target_path = target_path,
         ta_type_index = type_index, ta_element_value_pairs = pairs\<rparr>)))))"

definition type_annotation_write :: "type_annotation \<Rightarrow> writer \<Rightarrow> writer" where
  "type_annotation_write a =
     w_do [target_write (ta_target_info a), w_u8 (of_nat (length (ta_target_path a))),
       w_for (ta_target_path a) path_write, w_u16 (ta_type_index a),
       w_list pair_write (ta_element_value_pairs a)]"

definition wf_type_annotation :: "type_annotation \<Rightarrow> bool" where
  "wf_type_annotation a \<longleftrightarrow> wf_target (ta_target_info a) \<and> length (ta_target_path a) < 256 \<and>
     wf_list wf_pair (ta_element_value_pairs a)"

interpretation lvt: exact_codec lvt_read lvt_write "\<lambda>_. True"
  by (rule exact_bufI) (simp add: lvt_write_def wr_eq, simp add: lvt_write_def lvt_read_def wr_eq rd_run,
    auto simp: lvt_write_def lvt_read_def wr_eq rd_iff)

interpretation lvts: exact_codec "r_list lvt_read" "w_list lvt_write" "wf_list (\<lambda>_. True)"
  by (rule lvt.list_exact)

interpretation type_path: exact_codec path_read path_write "\<lambda>_. True"
  by (rule exact_bufI) (simp add: path_write_def wr_eq, simp add: path_write_def path_read_def wr_eq rd_run,
    auto simp: path_write_def path_read_def wr_eq rd_iff)

text \<open>The path is a run of steps behind a \<open>u8\<close> count.\<close>

interpretation type_paths: exact_codec "r_list8 path_read" "w_list8 path_write" "wf_list8 (\<lambda>_. True)"
  by (rule type_path.list8_exact)

lemma range_not:
  assumes "(a :: u8) \<le> x" "b < a"
  shows "\<not> x \<le> b" "x \<noteq> b"
  using assms by auto

lemma target_appends: "target_write x w = w\<lparr>buf := buf w @ buf (target_write x writer_new)\<rparr>"
  by (cases x) (simp_all add: wr_eq)

lemma target_read_write:
  assumes "wf_target x"
  shows "target_read \<lparr>src = buf (target_write x writer_new) @ t, pos = q\<rparr> =
    Inr (x, \<lparr>src = t, pos = q + length (buf (target_write x writer_new))\<rparr>)"
proof (cases x)
  case (T_Empty tt)
  then have "tt \<noteq> 0 \<and> tt \<noteq> 1 \<and> tt \<noteq> 0x10 \<and> tt \<noteq> 0x11 \<and> tt \<noteq> 0x12"
    using assms by (auto simp: word_le_nat_alt)
  then show ?thesis using T_Empty assms by (simp add: wr_eq target_read_def target_arm_def rd_run)
next
  case (T_Offset tt off)
  then have "tt \<noteq> 0 \<and> tt \<noteq> 1 \<and> tt \<noteq> 0x10 \<and> tt \<noteq> 0x11 \<and> tt \<noteq> 0x12 \<and> \<not> tt \<le> 0x15 \<and> tt \<noteq> 0x16
      \<and> tt \<noteq> 0x17 \<and> tt \<noteq> 0x40 \<and> tt \<noteq> 0x41 \<and> tt \<noteq> 0x42"
    using assms by (auto simp: word_le_nat_alt)
  then show ?thesis using T_Offset assms by (simp add: wr_eq target_read_def target_arm_def rd_run)
next
  case (T_TypeArgument tt off i)
  then have "tt \<noteq> 0 \<and> tt \<noteq> 1 \<and> tt \<noteq> 0x10 \<and> tt \<noteq> 0x11 \<and> tt \<noteq> 0x12 \<and> \<not> tt \<le> 0x15 \<and> tt \<noteq> 0x16
      \<and> tt \<noteq> 0x17 \<and> tt \<noteq> 0x40 \<and> tt \<noteq> 0x41 \<and> tt \<noteq> 0x42 \<and> \<not> tt \<le> 0x46"
    using assms by (auto simp: word_le_nat_alt)
  then show ?thesis using T_TypeArgument assms by (simp add: wr_eq target_read_def target_arm_def rd_run)
qed (use assms in \<open>auto simp: wr_eq target_read_def target_arm_def rd_run\<close>)

lemma target_write_read:
  assumes "target_read r = Inr (x, r')"
  shows "wf_target x \<and> src r = buf (target_write x writer_new) @ src r' \<and>
    pos r' = pos r + length (buf (target_write x writer_new))"
proof -
  from assms obtain tt r1 where r: "src r = tt # src r1" "pos r1 = Suc (pos r)"
    and arm: "target_arm tt r1 = Inr (x, r')" by (auto simp: target_read_def rd_iff)
  from arm show ?thesis
    unfolding target_arm_def by (elim chainE) (auto simp: r rd_iff wr_eq)
qed

interpretation target: exact_codec target_read target_write wf_target
  by (intro exact_bufI target_appends target_read_write target_write_read)

lemma path_run_eq: "r_bind r_u8 (\<lambda>n. r_bind (r_times (unat n) path_read) f) = r_bind (r_list8 path_read) f"
  by (auto simp: r_list8_def r_bind_def split: sum.split)

interpretation type_annotation: exact_codec type_annotation_read type_annotation_write wf_type_annotation
proof (rule exact_bufI)
  have run: "w_do (w_u8 (of_nat (length ps)) # w_for ps path_write # fs) w = w_do (w_list8 path_write ps # fs) w"
    for ps fs w by (simp add: w_list8_def w_do_simps)
  have w: "type_annotation_write a w = w_do [target_write (ta_target_info a), w_list8 path_write (ta_target_path a),
      w_u16 (ta_type_index a), w_list pair_write (ta_element_value_pairs a)] w" for a w
    by (simp add: type_annotation_write_def w_do_simps w_list8_def)
  show "type_annotation_write x w = w\<lparr>buf := buf w @ buf (type_annotation_write x writer_new)\<rparr>" for x w
    by (simp add: w wr_eq)
  show "type_annotation_read \<lparr>src = buf (type_annotation_write x writer_new) @ t, pos = q\<rparr> =
      Inr (x, \<lparr>src = t, pos = q + length (buf (type_annotation_write x writer_new))\<rparr>)"
    if "wf_type_annotation x" for x t q
    using that by (simp add: w wr_eq type_annotation_read_def path_run_eq wf_type_annotation_def rd_run)
  show "wf_type_annotation x \<and> src r = buf (type_annotation_write x writer_new) @ src r' \<and>
      pos r' = pos r + length (buf (type_annotation_write x writer_new))"
    if "type_annotation_read r = Inr (x, r')" for r x r'
    using that by (auto simp: w wr_eq type_annotation_read_def path_run_eq wf_type_annotation_def rd_iff)
qed

interpretation type_annotations: exact_codec "r_list type_annotation_read" "w_list type_annotation_write"
    "wf_list wf_type_annotation"
  by (rule type_annotation.list_exact)

subsection \<open>Properties\<close>

text \<open>C25: an element value, however deeply nested, is read exactly from the bytes it writes.\<close>

theorem element_value_codec_exact:
  "element_value_read r = Inr (v, r') \<longleftrightarrow>
     wf_value v \<and> src r = buf (element_value_write v writer_new) @ src r' \<and>
     pos r' = pos r + length (buf (element_value_write v writer_new))"
  using element_value.exact [of r v r'] by (simp add: encoding_def)

text \<open>The depth bound of the model never shows. The bounded reader satisfies the recursion of
  the source on every input, errors included, so the input's length is always enough.\<close>

theorem element_value_read_unbounded:
  "element_value_read = r_bind r_u8 (element_value_arm element_value_read)"
  by (rule element_value_read_rec)

end
