(* ===== verification/Stackmap.thy ===== *)
theory Stackmap
  imports Codec
begin

text \<open>
  \<open>jals-classfile/src/stackmap.rs\<close>: the frames of a \<open>StackMapTable\<close>. Four frame kinds carry data
  in the \<open>frame_type\<close> byte itself; \<open>wf_frame\<close> says what that byte can carry.
\<close>

datatype verification_type =
    V_Top | V_Integer | V_Float | V_Double | V_Long | V_Null | V_UninitializedThis
  | V_Object u16 \<comment> \<open>cpool_index\<close>
  | V_Uninitialized u16 \<comment> \<open>offset\<close>

definition verification_read :: "verification_type rd" where
  "verification_read = r_bind r_u8 (\<lambda>tag.
     if tag = 0 then r_return V_Top
     else if tag = 1 then r_return V_Integer
     else if tag = 2 then r_return V_Float
     else if tag = 3 then r_return V_Double
     else if tag = 4 then r_return V_Long
     else if tag = 5 then r_return V_Null
     else if tag = 6 then r_return V_UninitializedThis
     else if tag = 7 then r_map V_Object r_u16
     else if tag = 8 then r_map V_Uninitialized r_u16
     else r_fail (Malformed ''verification_type_info tag''))"

fun verification_write :: "verification_type \<Rightarrow> writer \<Rightarrow> writer" where
  "verification_write V_Top = w_u8 0"
| "verification_write V_Integer = w_u8 1"
| "verification_write V_Float = w_u8 2"
| "verification_write V_Double = w_u8 3"
| "verification_write V_Long = w_u8 4"
| "verification_write V_Null = w_u8 5"
| "verification_write V_UninitializedThis = w_u8 6"
| "verification_write (V_Object cpool_index) = w_do [w_u8 7, w_u16 cpool_index]"
| "verification_write (V_Uninitialized off) = w_do [w_u8 8, w_u16 off]"

interpretation verification: exact_codec verification_read verification_write "\<lambda>_. True"
proof (rule exact_bufI)
  show "verification_write x w = w\<lparr>buf := buf w @ buf (verification_write x writer_new)\<rparr>" for x w
    by (cases x) (simp_all add: wr_eq)
next
  show "verification_read \<lparr>src = buf (verification_write x writer_new) @ t, pos = q\<rparr> =
      Inr (x, \<lparr>src = t, pos = q + length (buf (verification_write x writer_new))\<rparr>)" for x t q
    by (cases x) (simp_all add: wr_eq verification_read_def rd_run)
next
  show "True \<and> src r = buf (verification_write x writer_new) @ src r' \<and>
      pos r' = pos r + length (buf (verification_write x writer_new))"
    if "verification_read r = Inr (x, r')" for r x r'
    using that by (auto simp: verification_read_def rd_iff wr_eq split: if_splits)
qed

interpretation verifications: exact_codec "r_list verification_read" "w_list verification_write"
    "wf_list (\<lambda>_. True)"
  by (rule verification.list_exact)

datatype stack_map_frame =
    Same u16 \<comment> \<open>offset_delta\<close>
  | SameLocals1StackItem u16 verification_type \<comment> \<open>offset_delta, stack\<close>
  | SameLocals1StackItemExtended u16 verification_type
  | Chop u8 u16 \<comment> \<open>count, offset_delta\<close>
  | SameFrameExtended u16
  | Append u16 "verification_type list" \<comment> \<open>offset_delta, locals\<close>
  | Full u16 "verification_type list" "verification_type list" \<comment> \<open>offset_delta, locals, stack\<close>

definition frame_arm :: "u8 \<Rightarrow> stack_map_frame rd" where
  "frame_arm frame_type =
     (if frame_type \<le> 63 then r_return (Same (ucast frame_type))
     else if 64 \<le> frame_type \<and> frame_type \<le> 127 then
       r_map (SameLocals1StackItem (ucast (frame_type - 64))) verification_read
     else if frame_type = 247 then
       r_bind r_u16 (\<lambda>offset_delta. r_map (SameLocals1StackItemExtended offset_delta) verification_read)
     else if 248 \<le> frame_type \<and> frame_type \<le> 250 then r_map (Chop (251 - frame_type)) r_u16
     else if frame_type = 251 then r_map SameFrameExtended r_u16
     else if 252 \<le> frame_type \<and> frame_type \<le> 254 then
       (let count = frame_type - 251
        in r_bind r_u16 (\<lambda>offset_delta.
             r_map (Append offset_delta) (r_times (unat count) verification_read)))
     else if frame_type = 255 then
       r_bind r_u16 (\<lambda>offset_delta.
       r_bind (r_list verification_read) (\<lambda>locals.
         r_map (Full offset_delta locals) (r_list verification_read)))
     else r_fail (Malformed ''stack_map_frame type''))"

definition frame_read :: "stack_map_frame rd" where
  "frame_read = r_bind r_u8 frame_arm"

fun frame_write :: "stack_map_frame \<Rightarrow> writer \<Rightarrow> writer" where
  "frame_write (Same offset_delta) = w_u8 (ucast offset_delta)"
| "frame_write (SameLocals1StackItem offset_delta stack) =
     w_do [w_u8 (64 + ucast offset_delta), verification_write stack]"
| "frame_write (SameLocals1StackItemExtended offset_delta stack) =
     w_do [w_u8 247, w_u16 offset_delta, verification_write stack]"
| "frame_write (Chop count offset_delta) = w_do [w_u8 (251 - count), w_u16 offset_delta]"
| "frame_write (SameFrameExtended offset_delta) = w_do [w_u8 251, w_u16 offset_delta]"
| "frame_write (Append offset_delta locals) =
     w_do [w_u8 (251 + of_nat (length locals)), w_u16 offset_delta, w_for locals verification_write]"
| "frame_write (Full offset_delta locals stack) =
     w_do [w_u8 255, w_u16 offset_delta, w_list verification_write locals,
       w_list verification_write stack]"

fun wf_frame :: "stack_map_frame \<Rightarrow> bool" where
  "wf_frame (Same offset_delta) \<longleftrightarrow> offset_delta \<le> 63"
| "wf_frame (SameLocals1StackItem offset_delta stack) \<longleftrightarrow> offset_delta \<le> 63"
| "wf_frame (Chop count offset_delta) \<longleftrightarrow> 1 \<le> count \<and> count \<le> 3"
| "wf_frame (Append offset_delta locals) \<longleftrightarrow> 1 \<le> length locals \<and> length locals \<le> 3"
| "wf_frame (Full offset_delta locals stack) \<longleftrightarrow> length locals < 65536 \<and> length stack < 65536"
| "wf_frame _ \<longleftrightarrow> True"

lemma frame_write_appends: "frame_write x w = w\<lparr>buf := buf w @ buf (frame_write x writer_new)\<rparr>"
  by (cases x) (simp_all add: wr_eq verification.w_for_eq)

lemma small_delta:
  assumes "(d :: u16) \<le> 63"
  shows "(ucast d :: u8) \<le> 63" and "ucast (ucast d :: u8) = d"
    and "(64 :: u8) \<le> 64 + ucast d" and "64 + ucast d \<le> (127 :: u8)"
    and "\<not> 64 + ucast d \<le> (63 :: u8)"
proof -
  have d: "unat d \<le> 63" using assms by (simp add: word_le_nat_alt)
  then have u: "unat (ucast d :: u8) = unat d" by (simp add: unsigned_ucast_eq unsigned_take_bit_eq take_bit_nat_eq_self)
  then have s: "unat (64 + ucast d :: u8) = 64 + unat d"
    using d by (simp add: unat_word_ariths)
  show "(ucast d :: u8) \<le> 63" using d u by (simp add: word_le_nat_alt)
  show "ucast (ucast d :: u8) = d" using d u by (simp add: word_unat_eq_iff unsigned_ucast_eq unsigned_take_bit_eq take_bit_nat_eq_self)
  show "(64 :: u8) \<le> 64 + ucast d" "64 + ucast d \<le> (127 :: u8)" "\<not> 64 + ucast d \<le> (63 :: u8)"
    using d by (simp_all add: word_le_nat_alt s)
qed

lemma append_type:
  assumes "1 \<le> n" "n \<le> 3"
  defines "ft \<equiv> 251 + of_nat n :: u8"
  shows "\<not> ft \<le> 63" "\<not> ft \<le> 127" "ft \<noteq> 247" "\<not> ft \<le> 250" "ft \<noteq> 251" "252 \<le> ft" "ft \<le> 254"
    "unat (ft - 251) = n"
proof -
  consider "n = 1" | "n = 2" | "n = 3" using assms by linarith
  then have "\<not> ft \<le> 63 \<and> \<not> ft \<le> 127 \<and> ft \<noteq> 247 \<and> \<not> ft \<le> 250 \<and> ft \<noteq> 251 \<and> 252 \<le> ft \<and> ft \<le> 254
      \<and> unat (ft - 251) = n"
    unfolding ft_def by cases simp_all
  then show "\<not> ft \<le> 63" "\<not> ft \<le> 127" "ft \<noteq> 247" "\<not> ft \<le> 250" "ft \<noteq> 251" "252 \<le> ft" "ft \<le> 254"
    "unat (ft - 251) = n" by blast+
qed

lemma one_to_three: "(c :: u8) = 1 \<or> c = 2 \<or> c = 3" if "1 \<le> c" "c \<le> 3"
proof -
  have "unat c = 1 \<or> unat c = 2 \<or> unat c = 3" using that by (auto simp: word_le_nat_alt)
  then show ?thesis by (auto simp: word_unat_eq_iff)
qed

lemma frame_read_write:
  assumes "wf_frame x"
  shows "frame_read \<lparr>src = buf (frame_write x writer_new) @ t, pos = q\<rparr> =
    Inr (x, \<lparr>src = t, pos = q + length (buf (frame_write x writer_new))\<rparr>)"
proof (cases x)
  case (Append d locals)
  have ft: "1 \<le> length locals" "length locals \<le> 3" using Append assms by simp_all
  show ?thesis
    unfolding Append frame_read_def frame_arm_def
    using verification.times_run [of locals t "Suc (Suc (Suc q))"]
    by (simp add: wr_eq verification.w_for_eq rd_run append_type [OF ft, simplified] list_all_iff)
next
  case (Chop c d)
  with assms one_to_three [of c] consider "c = 1" | "c = 2" | "c = 3" by auto
  then show ?thesis using Chop by cases (simp_all add: wr_eq frame_read_def frame_arm_def rd_run)
qed (use assms in \<open>simp_all add: wr_eq frame_read_def frame_arm_def rd_run small_delta\<close>)

lemma narrow_delta:
  assumes "(ft :: u8) \<le> 63"
  shows "(ucast ft :: u16) \<le> 63" and "ucast (ucast ft :: u16) = ft"
proof -
  have ft: "unat ft \<le> 63" using assms by (simp add: word_le_nat_alt)
  then have u: "unat (ucast ft :: u16) = unat ft"
    by (simp add: unsigned_ucast_eq unsigned_take_bit_eq take_bit_nat_eq_self)
  show "(ucast ft :: u16) \<le> 63" using ft u by (simp add: word_le_nat_alt)
  show "ucast (ucast ft :: u16) = ft"
    using ft u by (simp add: word_unat_eq_iff unsigned_ucast_eq unsigned_take_bit_eq take_bit_nat_eq_self)
qed

lemma sub_le:
  assumes "(k :: u8) \<le> ft" "ft \<le> k + m" "k \<le> k + m"
  shows "ft - k \<le> m"
  using assms by uint_arith

lemma frame_write_read:
  assumes "frame_read r = Inr (x, r')"
  shows "wf_frame x \<and> src r = buf (frame_write x writer_new) @ src r' \<and>
    pos r' = pos r + length (buf (frame_write x writer_new))"
proof -
  from assms obtain ft r1 where r: "src r = ft # src r1" "pos r1 = Suc (pos r)"
    and arm: "frame_arm ft r1 = Inr (x, r')" by (auto simp: frame_read_def rd_iff)
  from arm show ?thesis
    unfolding frame_arm_def
  proof (elim chainE)
    assume "ft \<le> 63" "r_return (Same (ucast ft)) r1 = Inr (x, r')"
    then show ?thesis using r by (simp add: rd_iff wr_eq narrow_delta)
  next
    assume ft: "64 \<le> ft \<and> ft \<le> 127"
      and "r_map (SameLocals1StackItem (ucast (ft - 64))) verification_read r1 = Inr (x, r')"
    moreover have "ft - 64 \<le> 63" using ft sub_le [of 64 ft 63] by simp
    ultimately show ?thesis using r narrow_delta [of "ft - 64"] by (auto simp: rd_iff wr_eq)
  next
    assume ft: "248 \<le> ft \<and> ft \<le> 250" and "r_map (Chop (251 - ft)) r_u16 r1 = Inr (x, r')"
    moreover have "1 \<le> 251 - ft \<and> 251 - ft \<le> 3" using ft by uint_arith
    ultimately show ?thesis using r by (auto simp: rd_iff wr_eq)
  next
    assume ft: "252 \<le> ft \<and> ft \<le> 254"
      and "(let count = ft - 251 in r_bind r_u16 (\<lambda>offset_delta.
        r_map (Append offset_delta) (r_times (unat count) verification_read))) r1 = Inr (x, r')"
    then obtain d r2 locals where d: "src r1 = be16 d @ src r2" "pos r2 = pos r1 + 2"
      and l: "r_times (unat (ft - 251)) verification_read r2 = Inr (locals, r')" and x: "x = Append d locals"
      by (auto simp: Let_def rd_iff)
    have "1 \<le> ft - 251 \<and> ft - 251 \<le> 3" using ft by uint_arith
    then have "1 \<le> unat (ft - 251)" "unat (ft - 251) \<le> 3" by (simp_all add: word_le_nat_alt)
    then show ?thesis
      using verification.times_exact [OF l] r d x
      by (auto simp: wr_eq verification.w_for_eq)
  next
    assume "ft = 247" "r_bind r_u16 (\<lambda>offset_delta.
      r_map (SameLocals1StackItemExtended offset_delta) verification_read) r1 = Inr (x, r')"
    then show ?thesis using r by (auto simp: rd_iff wr_eq)
  next
    assume "ft = 251" "r_map SameFrameExtended r_u16 r1 = Inr (x, r')"
    then show ?thesis using r by (auto simp: rd_iff wr_eq)
  next
    assume "ft = 255" "r_bind r_u16 (\<lambda>offset_delta. r_bind (r_list verification_read) (\<lambda>locals.
      r_map (Full offset_delta locals) (r_list verification_read))) r1 = Inr (x, r')"
    then show ?thesis using r by (auto simp: rd_iff wr_eq)
  qed (simp add: rd_iff)
qed

interpretation frame: exact_codec frame_read frame_write wf_frame
  by (intro exact_bufI frame_write_appends frame_read_write frame_write_read)

interpretation frames: exact_codec "r_list frame_read" "w_list frame_write" "wf_list wf_frame"
  by (rule frame.list_exact)

subsection \<open>Properties\<close>

text \<open>C24: a stack map frame is read exactly from the bytes it writes. The reader returns a frame
  just when the input starts with that frame's encoding and the frame is one its \<open>frame_type\<close>
  byte can carry; so the byte is reconstructed exactly, and no two frames share an encoding.\<close>

theorem frame_codec_exact:
  "frame_read r = Inr (frame, r') \<longleftrightarrow>
     wf_frame frame \<and> src r = buf (frame_write frame writer_new) @ src r' \<and>
     pos r' = pos r + length (buf (frame_write frame writer_new))"
  using frame.exact [of r frame r'] by (simp add: encoding_def)

end
