(* ===== verification/Modified_Utf8.thy ===== *)
theory Modified_Utf8
  imports Prelude
begin

text \<open>
  Modified UTF-8 (JVMS 4.4.7), \<open>encode_modified_utf8\<close> and \<open>decode_modified_utf8\<close> of
  \<open>jals-classfile/src/constant_pool.rs\<close>. A Rust \<open>char\<close> is its code as a \<open>u32\<close>; a \<open>str\<close> is a
  list of Unicode scalar values (\<open>is_text\<close>). The main lemma is that decoding undoes encoding
  on every text; the two places the encoding differs from standard UTF-8 (NUL and the
  supplementary characters) are the branches with two and six bytes.
\<close>

type_synonym uchar = u32

text \<open>\<open>char::from_u32(c).unwrap_or('\u{FFFD}')\<close>.\<close>

definition is_scalar :: "uchar \<Rightarrow> bool" where
  "is_scalar c \<longleftrightarrow> c < 0xD800 \<or> 0xDFFF < c \<and> c \<le> 0x10FFFF"

definition char_or_replacement :: "u32 \<Rightarrow> uchar" where
  "char_or_replacement c = (if is_scalar c then c else 0xFFFD)"

definition is_text :: "uchar list \<Rightarrow> bool" where
  "is_text text \<longleftrightarrow> list_all is_scalar text"

text \<open>ASCII literals of the source as texts.\<close>

definition str :: "string \<Rightarrow> uchar list" where
  "str s = map of_char s"

subsection \<open>Encoding\<close>

definition encode_surrogate :: "u32 \<Rightarrow> u8 list" where
  "encode_surrogate surrogate =
     [0xE0 OR ucast (drop_bit 12 surrogate),
      0x80 OR ucast (drop_bit 6 surrogate AND 0x3F),
      0x80 OR ucast (surrogate AND 0x3F)]"

definition encode_char :: "uchar \<Rightarrow> u8 list" where
  "encode_char code =
     (if code = 0 then [0xC0, 0x80]
      else if code \<le> 0x7F then [ucast code]
      else if code \<le> 0x07FF then
        [0xC0 OR ucast (drop_bit 6 code), 0x80 OR ucast (code AND 0x3F)]
      else if code \<le> 0xFFFF then
        [0xE0 OR ucast (drop_bit 12 code),
         0x80 OR ucast (drop_bit 6 code AND 0x3F),
         0x80 OR ucast (code AND 0x3F)]
      else
        let value = code - 0x10000;
            high = 0xD800 OR drop_bit 10 value;
            low = 0xDC00 OR (value AND 0x3FF)
        in concat (map encode_surrogate [high, low]))"

definition encode_modified_utf8 :: "uchar list \<Rightarrow> u8 list" where
  "encode_modified_utf8 text = concat (map encode_char text)"

subsection \<open>Decoding\<close>

definition is_ascii :: "u8 list \<Rightarrow> bool" where
  "is_ascii bytes \<longleftrightarrow> list_all (\<lambda>b. b < 0x80) bytes"

text \<open>
  The loop over \<open>bytes[i..]\<close>: \<open>bs\<close> is the suffix from \<open>i\<close>, so \<open>bytes[i + k]\<close> is \<open>bs ! k\<close> and
  \<open>i + k < bytes.len()\<close> is \<open>k < length bs\<close>.
\<close>

function decode_loop :: "u8 list \<Rightarrow> uchar list" where
  "decode_loop bs =
     (if bs = [] then []
      else let b0 = bs ! 0 in
      if b0 < 0x80 then ucast b0 # decode_loop (drop 1 bs)
      else if b0 = 0xED \<and> 5 < length bs \<and> bs ! 1 AND 0xF0 = 0xA0 \<and> bs ! 3 = 0xED
              \<and> bs ! 4 AND 0xF0 = 0xB0 then
        let b1 = ucast (bs ! 1) :: u32; b2 = ucast (bs ! 2); b4 = ucast (bs ! 4);
            b5 = ucast (bs ! 5);
            c = 0x10000 + (push_bit 16 (b1 AND 0x0F) OR push_bit 10 (b2 AND 0x3F)
                  OR push_bit 6 (b4 AND 0x0F) OR (b5 AND 0x3F))
        in char_or_replacement c # decode_loop (drop 6 bs)
      else if b0 AND 0xE0 = 0xC0 \<and> 1 < length bs then
        let b1 = ucast (bs ! 1) :: u32;
            c = push_bit 6 (ucast b0 AND 0x1F) OR (b1 AND 0x3F)
        in char_or_replacement c # decode_loop (drop 2 bs)
      else if b0 AND 0xF0 = 0xE0 \<and> 2 < length bs then
        let b1 = ucast (bs ! 1) :: u32; b2 = ucast (bs ! 2);
            c = push_bit 12 (ucast b0 AND 0x0F) OR push_bit 6 (b1 AND 0x3F) OR (b2 AND 0x3F)
        in char_or_replacement c # decode_loop (drop 3 bs)
      else 0xFFFD # decode_loop (drop 1 bs))"
  by pat_completeness auto
termination
  by (relation "measure length") (auto simp: neq_Nil_conv)

declare decode_loop.simps [simp del]

definition decode_modified_utf8 :: "u8 list \<Rightarrow> uchar list" where
  "decode_modified_utf8 bytes =
     (if is_ascii bytes then map ucast bytes else decode_loop bytes)"

subsection \<open>The bit patterns\<close>

lemma tag_two: "unat (c :: u32) < 2 ^ 11 \<Longrightarrow> (0xC0 OR ucast (drop_bit 6 c) :: u8) AND 0xE0 = 0xC0"
  using high_bits [of c 11] by (intro word8_eqI; simp add: bit_simps)

lemma join_two:
  "unat (c :: u32) < 2 ^ 11 \<Longrightarrow>
     push_bit 6 (ucast (0xC0 OR ucast (drop_bit 6 c) :: u8) AND 0x1F :: u32)
       OR (ucast (0x80 OR ucast (c AND 0x3F) :: u8) AND 0x3F) = c"
  using high_bits [of c 11] by (intro word32_eqI; simp add: bit_simps)

lemma tag_three:
  "unat (c :: u32) < 2 ^ 16 \<Longrightarrow> (0xE0 OR ucast (drop_bit 12 c) :: u8) AND 0xF0 = 0xE0"
  using high_bits [of c 16] by (intro word8_eqI; simp add: bit_simps)

lemma join_three:
  "unat (c :: u32) < 2 ^ 16 \<Longrightarrow>
     push_bit 12 (ucast (0xE0 OR ucast (drop_bit 12 c) :: u8) AND 0x0F :: u32)
       OR push_bit 6 (ucast (0x80 OR ucast (drop_bit 6 c AND 0x3F) :: u8) AND 0x3F)
       OR (ucast (0x80 OR ucast (c AND 0x3F) :: u8) AND 0x3F) = c"
  using high_bits [of c 16] by (intro word32_eqI; simp add: bit_simps)

lemma high_surrogate_tag: "0xE0 OR ucast (drop_bit 12 (0xD800 OR drop_bit 10 v)) = (0xED :: u8)"
  if "unat (v :: u32) < 2 ^ 20"
  using high_bits [OF that] by (intro word8_eqI; simp add: bit_simps)

lemma high_surrogate_second:
  "(0x80 OR ucast (drop_bit 6 (0xD800 OR drop_bit 10 v) AND 0x3F) :: u8) AND 0xF0 = 0xA0"
  if "unat (v :: u32) < 2 ^ 20"
  using high_bits [OF that] by (intro word8_eqI; simp add: bit_simps)

lemma low_surrogate_tag:
  "0xE0 OR ucast (drop_bit 12 (0xDC00 OR ((v :: u32) AND 0x3FF))) = (0xED :: u8)"
  by (intro word8_eqI; simp add: bit_simps)

lemma low_surrogate_second:
  "(0x80 OR ucast (drop_bit 6 (0xDC00 OR ((v :: u32) AND 0x3FF)) AND 0x3F) :: u8) AND 0xF0 = 0xB0"
  by (intro word8_eqI; simp add: bit_simps)

lemma join_six:
  "push_bit 16 (ucast (0x80 OR ucast (drop_bit 6 (0xD800 OR drop_bit 10 v) AND 0x3F) :: u8)
       AND 0x0F :: u32)
     OR push_bit 10 (ucast (0x80 OR ucast ((0xD800 OR drop_bit 10 v) AND 0x3F) :: u8) AND 0x3F)
     OR push_bit 6 (ucast (0x80 OR ucast (drop_bit 6 (0xDC00 OR (v AND 0x3FF)) AND 0x3F) :: u8)
       AND 0x0F)
     OR (ucast (0x80 OR ucast ((0xDC00 OR (v AND 0x3FF)) AND 0x3F) :: u8) AND 0x3F) = v"
  if "unat (v :: u32) < 2 ^ 20"
  using high_bits [OF that] by (intro word32_eqI; simp add: bit_simps)

text \<open>A three-byte form whose first two bytes look like a high surrogate is a surrogate.\<close>

lemma bit_eq_at: "a = b \<Longrightarrow> bit a n = bit b n"
  by simp

lemma surrogate_shape:
  assumes c: "unat (c :: u32) < 2 ^ 16"
    and b0: "0xE0 OR ucast (drop_bit 12 c) = (0xED :: u8)"
    and b1: "(0x80 OR ucast (drop_bit 6 c AND 0x3F) :: u8) AND 0xF0 = 0xA0"
  shows "\<not> is_scalar c"
proof -
  have "bit c 12" "\<not> bit c 13" "bit c 14" "bit c 15"
    using bit_eq_at [OF b0, of 0] bit_eq_at [OF b0, of 1] bit_eq_at [OF b0, of 2]
      bit_eq_at [OF b0, of 3]
    by (simp_all add: bit_simps)
  moreover have "bit c 11" using bit_eq_at [OF b1, of 5] by (simp add: bit_simps)
  ultimately have "drop_bit 11 c = (0x1B :: u32)"
    using high_bits [OF c] by (intro word32_eqI; simp add: bit_simps)
  then have "drop_bit 11 (unat c) = 27" by (simp flip: unat_drop_bit_eq)
  then have "unat c div 2048 = 27" by (simp add: drop_bit_eq_div)
  then have "55296 \<le> unat c" "unat c < 57344" by auto
  then show ?thesis by (simp add: is_scalar_def word_le_nat_alt word_less_nat_alt)
qed

lemma or_ge_tag: "0x80 \<le> t \<Longrightarrow> \<not> (t OR x :: u8) < 0x80"
proof -
  assume "0x80 \<le> t"
  moreover have "t \<le> t OR x" by (metis le_word_or2 or.commute)
  ultimately show ?thesis by simp
qed

subsection \<open>Decoding undoes encoding\<close>

lemma char_or_replacement_scalar [simp]: "is_scalar c \<Longrightarrow> char_or_replacement c = c"
  by (simp add: char_or_replacement_def)

lemma decode_one: "0 < c \<Longrightarrow> c \<le> 0x7F \<Longrightarrow> decode_loop (ucast (c :: u32) # rest) = c # decode_loop rest"
proof -
  assume "0 < c" and le: "c \<le> 0x7F"
  then have u: "unat c \<le> 127" by (simp add: word_le_nat_alt)
  have "unat (ucast c :: u8) = unat c"
    unfolding unsigned_ucast_eq using u by (intro take_bit_nat_eq_self) simp
  moreover have "ucast (ucast c :: u8) = c"
    using high_bits [of c 7] u by (intro word32_eqI; simp add: bit_simps)
  ultimately have "(ucast c :: u8) < 0x80" "ucast (ucast c :: u8) = c"
    using u by (simp_all add: word_less_nat_alt)
  then show ?thesis by (simp add: decode_loop.simps [of "_ # _"])
qed

lemma decode_two:
  assumes "unat (c :: u32) < 2 ^ 11" and "is_scalar c"
  shows "decode_loop ((0xC0 OR ucast (drop_bit 6 c)) # (0x80 OR ucast (c AND 0x3F)) # rest)
    = c # decode_loop rest"
proof -
  have "(0xC0 OR ucast (drop_bit 6 c) :: u8) \<noteq> 0xED"
  proof
    assume eq: "0xC0 OR ucast (drop_bit 6 c) = (0xED :: u8)"
    show False using bit_eq_at [OF eq, of 5] high_bits [OF assms(1)] by (simp add: bit_simps)
  qed
  then show ?thesis
    using assms tag_two [OF assms(1)] join_two [OF assms(1)] or_ge_tag [of "0xC0"]
    by (subst decode_loop.simps) (simp add: Let_def)
qed

lemma decode_three:
  assumes c: "unat (c :: u32) < 2 ^ 16" and "is_scalar c"
  shows "decode_loop ((0xE0 OR ucast (drop_bit 12 c)) # (0x80 OR ucast (drop_bit 6 c AND 0x3F))
      # (0x80 OR ucast (c AND 0x3F)) # rest) = c # decode_loop rest"
proof -
  let ?b0 = "0xE0 OR ucast (drop_bit 12 c) :: u8"
  have "?b0 AND 0xE0 \<noteq> 0xC0"
  proof
    assume eq: "?b0 AND 0xE0 = 0xC0"
    show False using bit_eq_at [OF eq, of 5] by (simp add: bit_simps)
  qed
  moreover have "\<not> (?b0 = 0xED \<and> (0x80 OR ucast (drop_bit 6 c AND 0x3F) :: u8) AND 0xF0 = 0xA0)"
    using surrogate_shape [OF c] assms(2) by blast
  ultimately show ?thesis
    using assms tag_three [OF c] join_three [OF c] or_ge_tag [of "0xE0"]
    by (subst decode_loop.simps) (auto simp: Let_def)
qed

lemma decode_six:
  assumes v: "unat (v :: u32) < 2 ^ 20" and "is_scalar (0x10000 + v)"
  shows "decode_loop (encode_surrogate (0xD800 OR drop_bit 10 v)
      @ encode_surrogate (0xDC00 OR (v AND 0x3FF)) @ rest) = (0x10000 + v) # decode_loop rest"
  using assms high_surrogate_tag [OF v] high_surrogate_second [OF v] low_surrogate_tag [of v]
    low_surrogate_second [of v] join_six [OF v]
  by (subst decode_loop.simps) (simp add: Let_def encode_surrogate_def)

lemma decode_encode_char:
  assumes "is_scalar c"
  shows "decode_loop (encode_char c @ rest) = c # decode_loop rest"
proof -
  consider "c = 0" | "0 < c" "c \<le> 0x7F" | "0x7F < c" "c \<le> 0x7FF" | "0x7FF < c" "c \<le> 0xFFFF"
    | "0xFFFF < c" by (meson not_le word_neq_0_conv)
  then show ?thesis
  proof cases
    case 1
    then show ?thesis
      using decode_two [of 0 rest] by (simp add: encode_char_def is_scalar_def)
  next
    case 2
    then show ?thesis by (auto simp: encode_char_def decode_one)
  next
    case 3
    then have "unat c < 2 ^ 11" by (simp add: word_le_nat_alt)
    with 3 assms show ?thesis by (auto simp: encode_char_def decode_two)
  next
    case 4
    then have "unat c < 2 ^ 16" by (simp add: word_le_nat_alt)
    moreover have "c \<noteq> 0" "\<not> c \<le> 0x7F" "\<not> c \<le> 0x7FF"
      using 4 by (auto simp: word_le_nat_alt word_less_nat_alt)
    ultimately show ?thesis using 4 assms by (simp add: encode_char_def decode_three)
  next
    case 5
    define v where "v = c - 0x10000"
    have "c \<le> 0x10FFFF"
      using assms 5 by (auto simp: is_scalar_def word_le_nat_alt word_less_nat_alt)
    then have "unat v < 2 ^ 20"
      using 5 by (simp add: v_def unat_sub word_le_nat_alt word_less_nat_alt)
    moreover have "c = 0x10000 + v" by (simp add: v_def)
    ultimately have "decode_loop (encode_surrogate (0xD800 OR drop_bit 10 v)
        @ encode_surrogate (0xDC00 OR (v AND 0x3FF)) @ rest) = c # decode_loop rest"
      using decode_six assms by metis
    moreover have "c \<noteq> 0" "\<not> c \<le> 0x7F" "\<not> c \<le> 0x7FF" "\<not> c \<le> 0xFFFF"
      using 5 by (auto simp: word_le_nat_alt word_less_nat_alt)
    ultimately show ?thesis by (simp add: encode_char_def Let_def v_def)
  qed
qed

lemma decode_loop_encode: "is_text cs \<Longrightarrow> decode_loop (encode_modified_utf8 cs) = cs"
  by (induction cs)
    (simp_all add: is_text_def encode_modified_utf8_def decode_encode_char decode_loop.simps [of "[]"])

lemma decode_loop_ascii: "is_ascii bs \<Longrightarrow> decode_loop bs = map ucast bs"
  by (induction bs) (simp_all add: is_ascii_def decode_loop.simps)

lemma decode_encode: "is_text cs \<Longrightarrow> decode_modified_utf8 (encode_modified_utf8 cs) = cs"
  by (simp add: decode_modified_utf8_def decode_loop_ascii [symmetric] decode_loop_encode)

text \<open>Decoding always yields a text, and NUL never appears as a zero byte of an encoding.\<close>

lemma is_scalar_replacement [simp]: "is_scalar (char_or_replacement c)"
  by (simp add: char_or_replacement_def is_scalar_def)

lemma is_scalar_byte: "is_scalar (ucast (b :: u8))"
proof -
  have "unat (ucast b :: u32) < 256"
    by (simp add: unsigned_ucast_eq take_bit_nat_eq_self unat_less_u8 [THEN less_trans])
  then show ?thesis by (simp add: is_scalar_def word_less_nat_alt)
qed

lemma is_scalar_fffd: "is_scalar 0xFFFD"
  by (simp add: is_scalar_def)

lemma decode_loop_text: "is_text (decode_loop bs)"
proof (induction bs rule: decode_loop.induct)
  case (1 bs)
  then show ?case
    by (subst decode_loop.simps)
      (auto simp: Let_def is_text_def is_scalar_byte is_scalar_fffd)
qed

subsection \<open>Properties\<close>

text \<open>C26: modified UTF-8 loses nothing. Decoding the encoding of any sequence of Unicode scalar
  values, NUL and supplementary characters included, gives the sequence back.\<close>

theorem modified_utf8_round_trip:
  "is_text cs \<Longrightarrow> decode_modified_utf8 (encode_modified_utf8 cs) = cs"
  by (rule decode_encode)

lemma modified_utf8_round_trip_witness:
  "decode_modified_utf8 (encode_modified_utf8 [0, 0x41, 0xE9, 0x20AC, 0x1F600]) =
     [0, 0x41, 0xE9, 0x20AC, 0x1F600]"
  by (rule modified_utf8_round_trip) (simp add: is_text_def is_scalar_def)

text \<open>Decoding is total and safe. Whatever the bytes, every character it produces is a Unicode
  scalar value, so the result is a valid string.\<close>

theorem decoded_text_is_valid: "is_text (decode_modified_utf8 bs)"
  using decode_loop_text [of bs]
  by (auto simp: decode_modified_utf8_def is_text_def list_all_iff is_scalar_byte)

end
