(* ===== verification/Attribute_Body.thy ===== *)
theory Attribute_Body
  imports Attribute_Tables Annotation Stackmap Modified_Utf8
begin

text \<open>
  The variants of \<open>AttributeBody\<close> in \<open>jals-classfile/src/attribute.rs\<close> that hold no further
  attributes (\<open>Code\<close>, \<open>Record\<close> and the \<open>Unknown\<close> fallback are in the theory \<open>Attribute\<close>): their
  arms of \<open>parse\<close>, selected by the attribute's name, and of \<open>write\<close>. \<open>parse_flat_iff\<close> is their
  contract: a body parses from exactly the bytes it writes, under exactly its own name.
\<close>

definition read_parameter_annotations :: "annotation list list rd" where
  "read_parameter_annotations =
     r_bind r_u8 (\<lambda>count. r_times (unat count) (r_list annotation_read))"

definition write_parameter_annotations :: "annotation list list \<Rightarrow> writer \<Rightarrow> writer" where
  "write_parameter_annotations params =
     w_do [w_u8 (of_nat (length params)), w_for params (w_list annotation_write)]"

definition read_method_parameters :: "method_parameter_entry list rd" where
  "read_method_parameters =
     r_bind r_u8 (\<lambda>count. r_times (unat count) method_parameter_read)"

definition write_method_parameters :: "method_parameter_entry list \<Rightarrow> writer \<Rightarrow> writer" where
  "write_method_parameters p =
     w_do [w_u8 (of_nat (length p)), w_for p method_parameter_write]"

interpretation parameter_annotations: exact_codec read_parameter_annotations
    write_parameter_annotations "wf_list8 (wf_list wf_annotation)"
proof -
  have "read_parameter_annotations = r_list8 (r_list annotation_read)"
    and "write_parameter_annotations = w_list8 (w_list annotation_write)"
    by (simp_all add: read_parameter_annotations_def write_parameter_annotations_def r_list8_def
        w_list8_def fun_eq_iff)
  then show "exact_codec read_parameter_annotations write_parameter_annotations
      (wf_list8 (wf_list wf_annotation))"
    using annotations.list8_exact by simp
qed

interpretation method_parameter_body: exact_codec read_method_parameters write_method_parameters
    "wf_list8 (\<lambda>_. True)"
proof -
  have "read_method_parameters = r_list8 method_parameter_read"
    and "write_method_parameters = w_list8 method_parameter_write"
    by (simp_all add: read_method_parameters_def write_method_parameters_def r_list8_def
        w_list8_def fun_eq_iff)
  then show "exact_codec read_method_parameters write_method_parameters (wf_list8 (\<lambda>_. True))"
    using method_parameter.list8_exact by simp
qed

datatype flat_body =
    ConstantValue u16
  | StackMapTable "stack_map_frame list"
  | Exceptions "u16 list"
  | InnerClasses "inner_class_entry list"
  | EnclosingMethod u16 u16 \<comment> \<open>class_index, method_index\<close>
  | Synthetic
  | Signature u16
  | SourceFile u16
  | SourceDebugExtension "u8 list"
  | LineNumberTable "line_number_entry list"
  | LocalVariableTable "local_variable_entry list"
  | LocalVariableTypeTable "local_variable_type_entry list"
  | Deprecated
  | RuntimeVisibleAnnotations "annotation list"
  | RuntimeInvisibleAnnotations "annotation list"
  | RuntimeVisibleParameterAnnotations "annotation list list"
  | RuntimeInvisibleParameterAnnotations "annotation list list"
  | RuntimeVisibleTypeAnnotations "type_annotation list"
  | RuntimeInvisibleTypeAnnotations "type_annotation list"
  | AnnotationDefault element_value
  | BootstrapMethods "bootstrap_method list"
  | MethodParameters "method_parameter_entry list"
  | Module module_attribute
  | ModulePackages "u16 list"
  | ModuleMainClass u16
  | NestHost u16
  | NestMembers "u16 list"
  | PermittedSubclasses "u16 list"

text \<open>The reader a name selects; \<open>None\<close> for a name with no arm.\<close>

definition flat_reader :: "uchar list \<Rightarrow> flat_body rd option" where
  "flat_reader name =
     (if name = str ''ConstantValue'' then
        Some (r_map ConstantValue r_u16)
      else if name = str ''StackMapTable'' then
        Some (r_map StackMapTable (r_list frame_read))
      else if name = str ''Exceptions'' then
        Some (r_map Exceptions r_u16_list)
      else if name = str ''InnerClasses'' then
        Some (r_map InnerClasses (r_list inner_class_read))
      else if name = str ''EnclosingMethod'' then
        Some (r_bind r_u16 (\<lambda>class_index. r_map (EnclosingMethod class_index) r_u16))
      else if name = str ''Synthetic'' then
        Some (r_return Synthetic)
      else if name = str ''Signature'' then
        Some (r_map Signature r_u16)
      else if name = str ''SourceFile'' then
        Some (r_map SourceFile r_u16)
      else if name = str ''SourceDebugExtension'' then
        Some (\<lambda>r. r_map SourceDebugExtension (r_bytes (remaining r)) r)
      else if name = str ''LineNumberTable'' then
        Some (r_map LineNumberTable (r_list line_number_read))
      else if name = str ''LocalVariableTable'' then
        Some (r_map LocalVariableTable (r_list local_variable_read))
      else if name = str ''LocalVariableTypeTable'' then
        Some (r_map LocalVariableTypeTable (r_list local_variable_type_read))
      else if name = str ''Deprecated'' then
        Some (r_return Deprecated)
      else if name = str ''RuntimeVisibleAnnotations'' then
        Some (r_map RuntimeVisibleAnnotations (r_list annotation_read))
      else if name = str ''RuntimeInvisibleAnnotations'' then
        Some (r_map RuntimeInvisibleAnnotations (r_list annotation_read))
      else if name = str ''RuntimeVisibleParameterAnnotations'' then
        Some (r_map RuntimeVisibleParameterAnnotations read_parameter_annotations)
      else if name = str ''RuntimeInvisibleParameterAnnotations'' then
        Some (r_map RuntimeInvisibleParameterAnnotations read_parameter_annotations)
      else if name = str ''RuntimeVisibleTypeAnnotations'' then
        Some (r_map RuntimeVisibleTypeAnnotations (r_list type_annotation_read))
      else if name = str ''RuntimeInvisibleTypeAnnotations'' then
        Some (r_map RuntimeInvisibleTypeAnnotations (r_list type_annotation_read))
      else if name = str ''AnnotationDefault'' then
        Some (r_map AnnotationDefault element_value_read)
      else if name = str ''BootstrapMethods'' then
        Some (r_map BootstrapMethods (r_list bootstrap_read))
      else if name = str ''MethodParameters'' then
        Some (r_map MethodParameters read_method_parameters)
      else if name = str ''Module'' then
        Some (r_map Module module_read)
      else if name = str ''ModulePackages'' then
        Some (r_map ModulePackages r_u16_list)
      else if name = str ''ModuleMainClass'' then
        Some (r_map ModuleMainClass r_u16)
      else if name = str ''NestHost'' then
        Some (r_map NestHost r_u16)
      else if name = str ''NestMembers'' then
        Some (r_map NestMembers r_u16_list)
      else if name = str ''PermittedSubclasses'' then
        Some (r_map PermittedSubclasses r_u16_list)
      else None)"

fun flat_write :: "flat_body \<Rightarrow> writer \<Rightarrow> writer" where
  "flat_write (ConstantValue x) = w_u16 x"
| "flat_write (StackMapTable x) = w_list frame_write x"
| "flat_write (Exceptions x) = w_u16_list x"
| "flat_write (InnerClasses x) = w_list inner_class_write x"
| "flat_write (EnclosingMethod class_index method_index) =
     w_do [w_u16 class_index, w_u16 method_index]"
| "flat_write Synthetic = w_do []"
| "flat_write (Signature x) = w_u16 x"
| "flat_write (SourceFile x) = w_u16 x"
| "flat_write (SourceDebugExtension x) = w_bytes x"
| "flat_write (LineNumberTable x) = w_list line_number_write x"
| "flat_write (LocalVariableTable x) = w_list local_variable_write x"
| "flat_write (LocalVariableTypeTable x) = w_list local_variable_type_write x"
| "flat_write Deprecated = w_do []"
| "flat_write (RuntimeVisibleAnnotations x) = w_list annotation_write x"
| "flat_write (RuntimeInvisibleAnnotations x) = w_list annotation_write x"
| "flat_write (RuntimeVisibleParameterAnnotations x) = write_parameter_annotations x"
| "flat_write (RuntimeInvisibleParameterAnnotations x) = write_parameter_annotations x"
| "flat_write (RuntimeVisibleTypeAnnotations x) = w_list type_annotation_write x"
| "flat_write (RuntimeInvisibleTypeAnnotations x) = w_list type_annotation_write x"
| "flat_write (AnnotationDefault x) = element_value_write x"
| "flat_write (BootstrapMethods x) = w_list bootstrap_write x"
| "flat_write (MethodParameters x) = write_method_parameters x"
| "flat_write (Module x) = module_write x"
| "flat_write (ModulePackages x) = w_u16_list x"
| "flat_write (ModuleMainClass x) = w_u16 x"
| "flat_write (NestHost x) = w_u16 x"
| "flat_write (NestMembers x) = w_u16_list x"
| "flat_write (PermittedSubclasses x) = w_u16_list x"

fun flat_name :: "flat_body \<Rightarrow> string" where
  "flat_name (ConstantValue x) = ''ConstantValue''"
| "flat_name (StackMapTable x) = ''StackMapTable''"
| "flat_name (Exceptions x) = ''Exceptions''"
| "flat_name (InnerClasses x) = ''InnerClasses''"
| "flat_name (EnclosingMethod x y) = ''EnclosingMethod''"
| "flat_name Synthetic = ''Synthetic''"
| "flat_name (Signature x) = ''Signature''"
| "flat_name (SourceFile x) = ''SourceFile''"
| "flat_name (SourceDebugExtension x) = ''SourceDebugExtension''"
| "flat_name (LineNumberTable x) = ''LineNumberTable''"
| "flat_name (LocalVariableTable x) = ''LocalVariableTable''"
| "flat_name (LocalVariableTypeTable x) = ''LocalVariableTypeTable''"
| "flat_name Deprecated = ''Deprecated''"
| "flat_name (RuntimeVisibleAnnotations x) = ''RuntimeVisibleAnnotations''"
| "flat_name (RuntimeInvisibleAnnotations x) = ''RuntimeInvisibleAnnotations''"
| "flat_name (RuntimeVisibleParameterAnnotations x) = ''RuntimeVisibleParameterAnnotations''"
| "flat_name (RuntimeInvisibleParameterAnnotations x) = ''RuntimeInvisibleParameterAnnotations''"
| "flat_name (RuntimeVisibleTypeAnnotations x) = ''RuntimeVisibleTypeAnnotations''"
| "flat_name (RuntimeInvisibleTypeAnnotations x) = ''RuntimeInvisibleTypeAnnotations''"
| "flat_name (AnnotationDefault x) = ''AnnotationDefault''"
| "flat_name (BootstrapMethods x) = ''BootstrapMethods''"
| "flat_name (MethodParameters x) = ''MethodParameters''"
| "flat_name (Module x) = ''Module''"
| "flat_name (ModulePackages x) = ''ModulePackages''"
| "flat_name (ModuleMainClass x) = ''ModuleMainClass''"
| "flat_name (NestHost x) = ''NestHost''"
| "flat_name (NestMembers x) = ''NestMembers''"
| "flat_name (PermittedSubclasses x) = ''PermittedSubclasses''"

fun wf_flat :: "flat_body \<Rightarrow> bool" where
  "wf_flat (StackMapTable x) \<longleftrightarrow> wf_list wf_frame x"
| "wf_flat (Exceptions x) \<longleftrightarrow> length x < 65536"
| "wf_flat (InnerClasses x) \<longleftrightarrow> length x < 65536"
| "wf_flat (LineNumberTable x) \<longleftrightarrow> length x < 65536"
| "wf_flat (LocalVariableTable x) \<longleftrightarrow> length x < 65536"
| "wf_flat (LocalVariableTypeTable x) \<longleftrightarrow> length x < 65536"
| "wf_flat (RuntimeVisibleAnnotations x) \<longleftrightarrow> wf_list wf_annotation x"
| "wf_flat (RuntimeInvisibleAnnotations x) \<longleftrightarrow> wf_list wf_annotation x"
| "wf_flat (RuntimeVisibleParameterAnnotations x) \<longleftrightarrow> wf_list8 (wf_list wf_annotation) x"
| "wf_flat (RuntimeInvisibleParameterAnnotations x) \<longleftrightarrow> wf_list8 (wf_list wf_annotation) x"
| "wf_flat (RuntimeVisibleTypeAnnotations x) \<longleftrightarrow> wf_list wf_type_annotation x"
| "wf_flat (RuntimeInvisibleTypeAnnotations x) \<longleftrightarrow> wf_list wf_type_annotation x"
| "wf_flat (AnnotationDefault x) \<longleftrightarrow> wf_value x"
| "wf_flat (BootstrapMethods x) \<longleftrightarrow> wf_list wf_bootstrap x"
| "wf_flat (MethodParameters x) \<longleftrightarrow> length x < 256"
| "wf_flat (Module x) \<longleftrightarrow> wf_module x"
| "wf_flat (ModulePackages x) \<longleftrightarrow> length x < 65536"
| "wf_flat (NestMembers x) \<longleftrightarrow> length x < 65536"
| "wf_flat (PermittedSubclasses x) \<longleftrightarrow> length x < 65536"
| "wf_flat _ \<longleftrightarrow> True"

text \<open>\<open>(r.remaining() == 0).then_some(body)\<close> behind a reader whose errors become \<open>None\<close>.\<close>

definition parse_all :: "'a rd \<Rightarrow> u8 list \<Rightarrow> 'a option" where
  "parse_all rd bs =
     (case rd (reader_new bs) of
        Inl e \<Rightarrow> None
      | Inr (body, r) \<Rightarrow> if remaining r = 0 then Some body else None)"

definition parse_flat :: "uchar list \<Rightarrow> u8 list \<Rightarrow> flat_body option" where
  "parse_flat name bs = Option.bind (flat_reader name) (\<lambda>rd. parse_all rd bs)"

lemma parse_all_iff:
  "parse_all rd bs = Some b \<longleftrightarrow> (\<exists>r. rd \<lparr>src = bs, pos = 0\<rparr> = Inr (b, r) \<and> src r = [])"
  by (auto simp: parse_all_def reader_new_def remaining_def split: sum.splits if_splits)

context exact_codec begin

lemma parse_all_eq: "parse_all (r_map C rd) bs = Some b \<longleftrightarrow> (\<exists>x. b = C x \<and> ok x \<and> bs = encoding wr x)"
proof
  assume "\<exists>x. b = C x \<and> ok x \<and> bs = encoding wr x"
  then obtain x where "b = C x" "ok x" "bs = encoding wr x" by blast
  then show "parse_all (r_map C rd) bs = Some b"
    unfolding parse_all_iff
    by (intro exI [of _ "\<lparr>src = [], pos = length bs\<rparr>"]) (auto simp: rd_iff)
qed (auto simp: parse_all_iff rd_iff)

end

lemma of_char_u32 [simp]: "(of_char c :: u32) = of_char d \<longleftrightarrow> c = d"
proof -
  have unat: "unat (of_char e :: u32) = of_char e" for e
  proof -
    have "(of_char e :: nat) < 4294967296" by (rule less_trans [OF nat_of_char_less_256]) simp
    then show ?thesis by (metis of_nat_of_char unat_of_nat_u32)
  qed
  show ?thesis
  proof
    assume "(of_char c :: u32) = of_char d"
    then have "(of_char c :: nat) = of_char d" by (metis unat)
    then show "c = d" by simp
  qed simp
qed

lemma str_inject [simp]: "str a = str b \<longleftrightarrow> a = b"
  by (simp add: str_def inj_map_eq_map inj_on_def)

lemma flat_reader_name:
  "flat_reader (str ''ConstantValue'') =
     Some (r_map ConstantValue r_u16)"
  "flat_reader (str ''StackMapTable'') =
     Some (r_map StackMapTable (r_list frame_read))"
  "flat_reader (str ''Exceptions'') =
     Some (r_map Exceptions r_u16_list)"
  "flat_reader (str ''InnerClasses'') =
     Some (r_map InnerClasses (r_list inner_class_read))"
  "flat_reader (str ''EnclosingMethod'') =
     Some (r_bind r_u16 (\<lambda>class_index. r_map (EnclosingMethod class_index) r_u16))"
  "flat_reader (str ''Synthetic'') =
     Some (r_return Synthetic)"
  "flat_reader (str ''Signature'') =
     Some (r_map Signature r_u16)"
  "flat_reader (str ''SourceFile'') =
     Some (r_map SourceFile r_u16)"
  "flat_reader (str ''SourceDebugExtension'') =
     Some (\<lambda>r. r_map SourceDebugExtension (r_bytes (remaining r)) r)"
  "flat_reader (str ''LineNumberTable'') =
     Some (r_map LineNumberTable (r_list line_number_read))"
  "flat_reader (str ''LocalVariableTable'') =
     Some (r_map LocalVariableTable (r_list local_variable_read))"
  "flat_reader (str ''LocalVariableTypeTable'') =
     Some (r_map LocalVariableTypeTable (r_list local_variable_type_read))"
  "flat_reader (str ''Deprecated'') =
     Some (r_return Deprecated)"
  "flat_reader (str ''RuntimeVisibleAnnotations'') =
     Some (r_map RuntimeVisibleAnnotations (r_list annotation_read))"
  "flat_reader (str ''RuntimeInvisibleAnnotations'') =
     Some (r_map RuntimeInvisibleAnnotations (r_list annotation_read))"
  "flat_reader (str ''RuntimeVisibleParameterAnnotations'') =
     Some (r_map RuntimeVisibleParameterAnnotations read_parameter_annotations)"
  "flat_reader (str ''RuntimeInvisibleParameterAnnotations'') =
     Some (r_map RuntimeInvisibleParameterAnnotations read_parameter_annotations)"
  "flat_reader (str ''RuntimeVisibleTypeAnnotations'') =
     Some (r_map RuntimeVisibleTypeAnnotations (r_list type_annotation_read))"
  "flat_reader (str ''RuntimeInvisibleTypeAnnotations'') =
     Some (r_map RuntimeInvisibleTypeAnnotations (r_list type_annotation_read))"
  "flat_reader (str ''AnnotationDefault'') =
     Some (r_map AnnotationDefault element_value_read)"
  "flat_reader (str ''BootstrapMethods'') =
     Some (r_map BootstrapMethods (r_list bootstrap_read))"
  "flat_reader (str ''MethodParameters'') =
     Some (r_map MethodParameters read_method_parameters)"
  "flat_reader (str ''Module'') =
     Some (r_map Module module_read)"
  "flat_reader (str ''ModulePackages'') =
     Some (r_map ModulePackages r_u16_list)"
  "flat_reader (str ''ModuleMainClass'') =
     Some (r_map ModuleMainClass r_u16)"
  "flat_reader (str ''NestHost'') =
     Some (r_map NestHost r_u16)"
  "flat_reader (str ''NestMembers'') =
     Some (r_map NestMembers r_u16_list)"
  "flat_reader (str ''PermittedSubclasses'') =
     Some (r_map PermittedSubclasses r_u16_list)"
  by (simp_all add: flat_reader_def)

lemma flat_encoding:
  "encoding flat_write (ConstantValue x0) = encoding w_u16 x0"
  "encoding flat_write (StackMapTable x1) = encoding (w_list frame_write) x1"
  "encoding flat_write (Exceptions x2) = encoding w_u16_list x2"
  "encoding flat_write (InnerClasses x3) = encoding (w_list inner_class_write) x3"
  "encoding flat_write (EnclosingMethod a b) = be16 a @ be16 b"
  "encoding flat_write Synthetic = []"
  "encoding flat_write (Signature x6) = encoding w_u16 x6"
  "encoding flat_write (SourceFile x7) = encoding w_u16 x7"
  "encoding flat_write (SourceDebugExtension bs) = bs"
  "encoding flat_write (LineNumberTable x9) = encoding (w_list line_number_write) x9"
  "encoding flat_write (LocalVariableTable x10) = encoding (w_list local_variable_write) x10"
  "encoding flat_write (LocalVariableTypeTable x11) = encoding (w_list local_variable_type_write) x11"
  "encoding flat_write Deprecated = []"
  "encoding flat_write (RuntimeVisibleAnnotations x13) = encoding (w_list annotation_write) x13"
  "encoding flat_write (RuntimeInvisibleAnnotations x14) = encoding (w_list annotation_write) x14"
  "encoding flat_write (RuntimeVisibleParameterAnnotations x15) = encoding write_parameter_annotations x15"
  "encoding flat_write (RuntimeInvisibleParameterAnnotations x16) = encoding write_parameter_annotations x16"
  "encoding flat_write (RuntimeVisibleTypeAnnotations x17) = encoding (w_list type_annotation_write) x17"
  "encoding flat_write (RuntimeInvisibleTypeAnnotations x18) = encoding (w_list type_annotation_write) x18"
  "encoding flat_write (AnnotationDefault x19) = encoding element_value_write x19"
  "encoding flat_write (BootstrapMethods x20) = encoding (w_list bootstrap_write) x20"
  "encoding flat_write (MethodParameters x21) = encoding write_method_parameters x21"
  "encoding flat_write (Module x22) = encoding module_write x22"
  "encoding flat_write (ModulePackages x23) = encoding w_u16_list x23"
  "encoding flat_write (ModuleMainClass x24) = encoding w_u16 x24"
  "encoding flat_write (NestHost x25) = encoding w_u16 x25"
  "encoding flat_write (NestMembers x26) = encoding w_u16_list x26"
  "encoding flat_write (PermittedSubclasses x27) = encoding w_u16_list x27"
  by (simp_all only: encoding_def flat_write.simps w_do_simps w_u16_eq w_bytes_eq) simp_all

text \<open>The three arms that are not one sub-reader.\<close>

lemma parse_pair: "parse_all (r_bind r_u16 (\<lambda>class_index. r_map (EnclosingMethod class_index) r_u16)) bs = Some b
    \<longleftrightarrow> (\<exists>x y. b = EnclosingMethod x y \<and> bs = be16 x @ be16 y)"
proof
  assume "\<exists>x y. b = EnclosingMethod x y \<and> bs = be16 x @ be16 y"
  then obtain x y where b: "b = EnclosingMethod x y" "bs = be16 x @ be16 y @ []" by auto
  show "parse_all (r_bind r_u16 (\<lambda>class_index. r_map (EnclosingMethod class_index) r_u16)) bs = Some b"
    unfolding parse_all_iff b by (intro exI [of _ "\<lparr>src = [], pos = 4\<rparr>"]) (use r_u16_run [of y "[]"] in \<open>simp add: rd_run\<close>)
qed (auto simp: parse_all_iff rd_iff)

lemma parse_rest: "parse_all (\<lambda>r. r_map SourceDebugExtension (r_bytes (remaining r)) r) bs = Some b
    \<longleftrightarrow> b = SourceDebugExtension bs"
  by (auto simp: parse_all_iff rd_iff remaining_def intro!: exI [of _ "\<lparr>src = [], pos = length bs\<rparr>"])

lemma parse_empty: "parse_all (r_return x) bs = Some b \<longleftrightarrow> b = x \<and> bs = []"
  by (auto simp: parse_all_iff rd_iff)

lemmas parse_body = parse_pair parse_rest parse_empty u16.parse_all_eq u16_list.parse_all_eq
  frames.parse_all_eq inner_classes.parse_all_eq line_numbers.parse_all_eq local_variables.parse_all_eq
  local_variable_types.parse_all_eq annotations.parse_all_eq parameter_annotations.parse_all_eq
  type_annotations.parse_all_eq element_value.parse_all_eq bootstraps.parse_all_eq
  method_parameter_body.parse_all_eq module.parse_all_eq

lemma option_chainE:
  "(if c then Some p else q) = Some rd \<Longrightarrow> (c \<Longrightarrow> rd = p \<Longrightarrow> P) \<Longrightarrow> (q = Some rd \<Longrightarrow> P) \<Longrightarrow> P"
  by (cases c) auto

lemma parse_flat_iff:
  "parse_flat name bs = Some b \<longleftrightarrow> name = str (flat_name b) \<and> wf_flat b \<and> bs = encoding flat_write b"
proof
  assume "parse_flat name bs = Some b"
  then obtain rd where rd: "flat_reader name = Some rd" and b: "parse_all rd bs = Some b"
    by (auto simp: parse_flat_def bind_eq_Some_conv)
  from rd b show "name = str (flat_name b) \<and> wf_flat b \<and> bs = encoding flat_write b"
    unfolding flat_reader_def
    by (elim option_chainE) (auto simp: parse_body flat_encoding)
next
  assume "name = str (flat_name b) \<and> wf_flat b \<and> bs = encoding flat_write b"
  then show "parse_flat name bs = Some b"
    by (cases b) (auto simp: parse_flat_def flat_reader_name parse_body flat_encoding)
qed

end
