(* ===== verification/Opcodes.thy ===== *)
theory Opcodes
  imports Codec
begin

text \<open>
  The instructions of \<open>jals-classfile/src/instruction.rs\<close>, family by family. The Rust enum
  \<open>Instruction\<close> has 202 variants in opcode order; here it is cut, in that order, into one
  datatype per run of related opcodes, which the theory \<open>Instruction\<close> joins again. Each family
  has the arms of \<open>Instruction::read\<close> and of \<open>Instruction::write\<close> that concern it, and is shown
  to be a codec: byte-exact, but for the reserved bytes of \<open>invokeinterface\<close> and
  \<open>invokedynamic\<close>, which are skipped on reading and written as zeros. Mnemonics the enum shares
  with another one carry a prefix.
\<close>

definition write_branch :: "u8 \<Rightarrow> i16 \<Rightarrow> writer \<Rightarrow> writer" where
  "write_branch opcode offset = w_do [w_u8 opcode, w_u16 offset]"

lemma write_branch_eq [wr_eq]: "write_branch opcode offset w = w\<lparr>buf := buf w @ opcode # be16 offset\<rparr>"
  by (simp add: write_branch_def wr_eq)

subsection \<open>Constants\<close>

datatype const_insn =
    Nop | AconstNull | IconstM1 | Iconst0 | Iconst1 | Iconst2 | Iconst3 | Iconst4 | Iconst5
  | Lconst0 | Lconst1 | Fconst0 | Fconst1 | Fconst2 | Dconst0 | Dconst1 | Bipush i8 | Sipush i16
  | Ldc u8 | LdcW u16 | Ldc2W u16

definition const_read :: "u8 \<Rightarrow> const_insn rd" where
  "const_read opcode =
     (if opcode = 0x00 then r_return Nop
      else if opcode = 0x01 then r_return AconstNull
      else if opcode = 0x02 then r_return IconstM1
      else if opcode = 0x03 then r_return Iconst0
      else if opcode = 0x04 then r_return Iconst1
      else if opcode = 0x05 then r_return Iconst2
      else if opcode = 0x06 then r_return Iconst3
      else if opcode = 0x07 then r_return Iconst4
      else if opcode = 0x08 then r_return Iconst5
      else if opcode = 0x09 then r_return Lconst0
      else if opcode = 0x0A then r_return Lconst1
      else if opcode = 0x0B then r_return Fconst0
      else if opcode = 0x0C then r_return Fconst1
      else if opcode = 0x0D then r_return Fconst2
      else if opcode = 0x0E then r_return Dconst0
      else if opcode = 0x0F then r_return Dconst1
      else if opcode = 0x10 then r_map Bipush r_u8
      else if opcode = 0x11 then r_map Sipush r_u16
      else if opcode = 0x12 then r_map Ldc r_u8
      else if opcode = 0x13 then r_map LdcW r_u16
      else if opcode = 0x14 then r_map Ldc2W r_u16
      else r_fail (InvalidOpcode opcode))"

fun const_write :: "const_insn \<Rightarrow> writer \<Rightarrow> writer" where
  "const_write Nop = w_u8 0x00"
| "const_write AconstNull = w_u8 0x01"
| "const_write IconstM1 = w_u8 0x02"
| "const_write Iconst0 = w_u8 0x03"
| "const_write Iconst1 = w_u8 0x04"
| "const_write Iconst2 = w_u8 0x05"
| "const_write Iconst3 = w_u8 0x06"
| "const_write Iconst4 = w_u8 0x07"
| "const_write Iconst5 = w_u8 0x08"
| "const_write Lconst0 = w_u8 0x09"
| "const_write Lconst1 = w_u8 0x0A"
| "const_write Fconst0 = w_u8 0x0B"
| "const_write Fconst1 = w_u8 0x0C"
| "const_write Fconst2 = w_u8 0x0D"
| "const_write Dconst0 = w_u8 0x0E"
| "const_write Dconst1 = w_u8 0x0F"
| "const_write (Bipush v) = w_do [w_u8 0x10, w_u8 v]"
| "const_write (Sipush v) = w_do [w_u8 0x11, w_u16 v]"
| "const_write (Ldc v) = w_do [w_u8 0x12, w_u8 v]"
| "const_write (LdcW v) = w_do [w_u8 0x13, w_u16 v]"
| "const_write (Ldc2W v) = w_do [w_u8 0x14, w_u16 v]"

interpretation const: exact_codec "r_bind r_u8 const_read" const_write "\<lambda>_. True"
proof (rule exact_bufI)
  show "const_write x w = w\<lparr>buf := buf w @ buf (const_write x writer_new)\<rparr>" for x w
    by (cases x) (simp_all add: wr_eq)
next
  show "r_bind r_u8 const_read \<lparr>src = buf (const_write x writer_new) @ t, pos = q\<rparr> =
      Inr (x, \<lparr>src = t, pos = q + length (buf (const_write x writer_new))\<rparr>)" for x t q
    by (cases x) (simp_all add: wr_eq const_read_def rd_run)
next
  fix r x r' assume "r_bind r_u8 const_read r = Inr (x, r')"
  then obtain opcode r1 where r: "src r = opcode # src r1" "pos r1 = pos r + 1"
    and x: "const_read opcode r1 = Inr (x, r')" by (auto simp: rd_iff)
  from x have "src r = buf (const_write x writer_new) @ src r' \<and>
      pos r' = pos r + length (buf (const_write x writer_new))"
    unfolding const_read_def
    by (elim chainE) (simp_all add: r rd_iff wr_eq, (auto simp: r wr_eq)?)
  then show "True \<and> src r = buf (const_write x writer_new) @ src r' \<and>
      pos r' = pos r + length (buf (const_write x writer_new))" by simp
qed

lemma const_opcode: "\<exists>opcode rest. encoding const_write x = opcode # rest \<and> 0x00 \<le> opcode \<and> opcode \<le> 0x14"
  unfolding encoding_def by (cases x) (simp_all add: wr_eq)

subsection \<open>Loads\<close>

datatype load_insn =
    Iload u8 | Lload u8 | Fload u8 | Dload u8 | Aload u8 | Iload0 | Iload1 | Iload2 | Iload3
  | Lload0 | Lload1 | Lload2 | Lload3 | Fload0 | Fload1 | Fload2 | Fload3 | Dload0 | Dload1
  | Dload2 | Dload3 | Aload0 | Aload1 | Aload2 | Aload3 | Iaload | Laload | Faload | Daload
  | Aaload | Baload | Caload | Saload

definition load_read :: "u8 \<Rightarrow> load_insn rd" where
  "load_read opcode =
     (if opcode = 0x15 then r_map Iload r_u8
      else if opcode = 0x16 then r_map Lload r_u8
      else if opcode = 0x17 then r_map Fload r_u8
      else if opcode = 0x18 then r_map Dload r_u8
      else if opcode = 0x19 then r_map Aload r_u8
      else if opcode = 0x1A then r_return Iload0
      else if opcode = 0x1B then r_return Iload1
      else if opcode = 0x1C then r_return Iload2
      else if opcode = 0x1D then r_return Iload3
      else if opcode = 0x1E then r_return Lload0
      else if opcode = 0x1F then r_return Lload1
      else if opcode = 0x20 then r_return Lload2
      else if opcode = 0x21 then r_return Lload3
      else if opcode = 0x22 then r_return Fload0
      else if opcode = 0x23 then r_return Fload1
      else if opcode = 0x24 then r_return Fload2
      else if opcode = 0x25 then r_return Fload3
      else if opcode = 0x26 then r_return Dload0
      else if opcode = 0x27 then r_return Dload1
      else if opcode = 0x28 then r_return Dload2
      else if opcode = 0x29 then r_return Dload3
      else if opcode = 0x2A then r_return Aload0
      else if opcode = 0x2B then r_return Aload1
      else if opcode = 0x2C then r_return Aload2
      else if opcode = 0x2D then r_return Aload3
      else if opcode = 0x2E then r_return Iaload
      else if opcode = 0x2F then r_return Laload
      else if opcode = 0x30 then r_return Faload
      else if opcode = 0x31 then r_return Daload
      else if opcode = 0x32 then r_return Aaload
      else if opcode = 0x33 then r_return Baload
      else if opcode = 0x34 then r_return Caload
      else if opcode = 0x35 then r_return Saload
      else r_fail (InvalidOpcode opcode))"

fun load_write :: "load_insn \<Rightarrow> writer \<Rightarrow> writer" where
  "load_write (Iload v) = w_do [w_u8 0x15, w_u8 v]"
| "load_write (Lload v) = w_do [w_u8 0x16, w_u8 v]"
| "load_write (Fload v) = w_do [w_u8 0x17, w_u8 v]"
| "load_write (Dload v) = w_do [w_u8 0x18, w_u8 v]"
| "load_write (Aload v) = w_do [w_u8 0x19, w_u8 v]"
| "load_write Iload0 = w_u8 0x1A"
| "load_write Iload1 = w_u8 0x1B"
| "load_write Iload2 = w_u8 0x1C"
| "load_write Iload3 = w_u8 0x1D"
| "load_write Lload0 = w_u8 0x1E"
| "load_write Lload1 = w_u8 0x1F"
| "load_write Lload2 = w_u8 0x20"
| "load_write Lload3 = w_u8 0x21"
| "load_write Fload0 = w_u8 0x22"
| "load_write Fload1 = w_u8 0x23"
| "load_write Fload2 = w_u8 0x24"
| "load_write Fload3 = w_u8 0x25"
| "load_write Dload0 = w_u8 0x26"
| "load_write Dload1 = w_u8 0x27"
| "load_write Dload2 = w_u8 0x28"
| "load_write Dload3 = w_u8 0x29"
| "load_write Aload0 = w_u8 0x2A"
| "load_write Aload1 = w_u8 0x2B"
| "load_write Aload2 = w_u8 0x2C"
| "load_write Aload3 = w_u8 0x2D"
| "load_write Iaload = w_u8 0x2E"
| "load_write Laload = w_u8 0x2F"
| "load_write Faload = w_u8 0x30"
| "load_write Daload = w_u8 0x31"
| "load_write Aaload = w_u8 0x32"
| "load_write Baload = w_u8 0x33"
| "load_write Caload = w_u8 0x34"
| "load_write Saload = w_u8 0x35"

interpretation load: exact_codec "r_bind r_u8 load_read" load_write "\<lambda>_. True"
proof (rule exact_bufI)
  show "load_write x w = w\<lparr>buf := buf w @ buf (load_write x writer_new)\<rparr>" for x w
    by (cases x) (simp_all add: wr_eq)
next
  show "r_bind r_u8 load_read \<lparr>src = buf (load_write x writer_new) @ t, pos = q\<rparr> =
      Inr (x, \<lparr>src = t, pos = q + length (buf (load_write x writer_new))\<rparr>)" for x t q
    by (cases x) (simp_all add: wr_eq load_read_def rd_run)
next
  fix r x r' assume "r_bind r_u8 load_read r = Inr (x, r')"
  then obtain opcode r1 where r: "src r = opcode # src r1" "pos r1 = pos r + 1"
    and x: "load_read opcode r1 = Inr (x, r')" by (auto simp: rd_iff)
  from x have "src r = buf (load_write x writer_new) @ src r' \<and>
      pos r' = pos r + length (buf (load_write x writer_new))"
    unfolding load_read_def
    by (elim chainE) (simp_all add: r rd_iff wr_eq, (auto simp: r wr_eq)?)
  then show "True \<and> src r = buf (load_write x writer_new) @ src r' \<and>
      pos r' = pos r + length (buf (load_write x writer_new))" by simp
qed

lemma load_opcode: "\<exists>opcode rest. encoding load_write x = opcode # rest \<and> 0x15 \<le> opcode \<and> opcode \<le> 0x35"
  unfolding encoding_def by (cases x) (simp_all add: wr_eq)

subsection \<open>Stores\<close>

datatype store_insn =
    Istore u8 | Lstore u8 | Fstore u8 | Dstore u8 | Astore u8 | Istore0 | Istore1 | Istore2
  | Istore3 | Lstore0 | Lstore1 | Lstore2 | Lstore3 | Fstore0 | Fstore1 | Fstore2 | Fstore3
  | Dstore0 | Dstore1 | Dstore2 | Dstore3 | Astore0 | Astore1 | Astore2 | Astore3 | Iastore
  | Lastore | Fastore | Dastore | Aastore | Bastore | Castore | Sastore

definition store_read :: "u8 \<Rightarrow> store_insn rd" where
  "store_read opcode =
     (if opcode = 0x36 then r_map Istore r_u8
      else if opcode = 0x37 then r_map Lstore r_u8
      else if opcode = 0x38 then r_map Fstore r_u8
      else if opcode = 0x39 then r_map Dstore r_u8
      else if opcode = 0x3A then r_map Astore r_u8
      else if opcode = 0x3B then r_return Istore0
      else if opcode = 0x3C then r_return Istore1
      else if opcode = 0x3D then r_return Istore2
      else if opcode = 0x3E then r_return Istore3
      else if opcode = 0x3F then r_return Lstore0
      else if opcode = 0x40 then r_return Lstore1
      else if opcode = 0x41 then r_return Lstore2
      else if opcode = 0x42 then r_return Lstore3
      else if opcode = 0x43 then r_return Fstore0
      else if opcode = 0x44 then r_return Fstore1
      else if opcode = 0x45 then r_return Fstore2
      else if opcode = 0x46 then r_return Fstore3
      else if opcode = 0x47 then r_return Dstore0
      else if opcode = 0x48 then r_return Dstore1
      else if opcode = 0x49 then r_return Dstore2
      else if opcode = 0x4A then r_return Dstore3
      else if opcode = 0x4B then r_return Astore0
      else if opcode = 0x4C then r_return Astore1
      else if opcode = 0x4D then r_return Astore2
      else if opcode = 0x4E then r_return Astore3
      else if opcode = 0x4F then r_return Iastore
      else if opcode = 0x50 then r_return Lastore
      else if opcode = 0x51 then r_return Fastore
      else if opcode = 0x52 then r_return Dastore
      else if opcode = 0x53 then r_return Aastore
      else if opcode = 0x54 then r_return Bastore
      else if opcode = 0x55 then r_return Castore
      else if opcode = 0x56 then r_return Sastore
      else r_fail (InvalidOpcode opcode))"

fun store_write :: "store_insn \<Rightarrow> writer \<Rightarrow> writer" where
  "store_write (Istore v) = w_do [w_u8 0x36, w_u8 v]"
| "store_write (Lstore v) = w_do [w_u8 0x37, w_u8 v]"
| "store_write (Fstore v) = w_do [w_u8 0x38, w_u8 v]"
| "store_write (Dstore v) = w_do [w_u8 0x39, w_u8 v]"
| "store_write (Astore v) = w_do [w_u8 0x3A, w_u8 v]"
| "store_write Istore0 = w_u8 0x3B"
| "store_write Istore1 = w_u8 0x3C"
| "store_write Istore2 = w_u8 0x3D"
| "store_write Istore3 = w_u8 0x3E"
| "store_write Lstore0 = w_u8 0x3F"
| "store_write Lstore1 = w_u8 0x40"
| "store_write Lstore2 = w_u8 0x41"
| "store_write Lstore3 = w_u8 0x42"
| "store_write Fstore0 = w_u8 0x43"
| "store_write Fstore1 = w_u8 0x44"
| "store_write Fstore2 = w_u8 0x45"
| "store_write Fstore3 = w_u8 0x46"
| "store_write Dstore0 = w_u8 0x47"
| "store_write Dstore1 = w_u8 0x48"
| "store_write Dstore2 = w_u8 0x49"
| "store_write Dstore3 = w_u8 0x4A"
| "store_write Astore0 = w_u8 0x4B"
| "store_write Astore1 = w_u8 0x4C"
| "store_write Astore2 = w_u8 0x4D"
| "store_write Astore3 = w_u8 0x4E"
| "store_write Iastore = w_u8 0x4F"
| "store_write Lastore = w_u8 0x50"
| "store_write Fastore = w_u8 0x51"
| "store_write Dastore = w_u8 0x52"
| "store_write Aastore = w_u8 0x53"
| "store_write Bastore = w_u8 0x54"
| "store_write Castore = w_u8 0x55"
| "store_write Sastore = w_u8 0x56"

interpretation store: exact_codec "r_bind r_u8 store_read" store_write "\<lambda>_. True"
proof (rule exact_bufI)
  show "store_write x w = w\<lparr>buf := buf w @ buf (store_write x writer_new)\<rparr>" for x w
    by (cases x) (simp_all add: wr_eq)
next
  show "r_bind r_u8 store_read \<lparr>src = buf (store_write x writer_new) @ t, pos = q\<rparr> =
      Inr (x, \<lparr>src = t, pos = q + length (buf (store_write x writer_new))\<rparr>)" for x t q
    by (cases x) (simp_all add: wr_eq store_read_def rd_run)
next
  fix r x r' assume "r_bind r_u8 store_read r = Inr (x, r')"
  then obtain opcode r1 where r: "src r = opcode # src r1" "pos r1 = pos r + 1"
    and x: "store_read opcode r1 = Inr (x, r')" by (auto simp: rd_iff)
  from x have "src r = buf (store_write x writer_new) @ src r' \<and>
      pos r' = pos r + length (buf (store_write x writer_new))"
    unfolding store_read_def
    by (elim chainE) (simp_all add: r rd_iff wr_eq, (auto simp: r wr_eq)?)
  then show "True \<and> src r = buf (store_write x writer_new) @ src r' \<and>
      pos r' = pos r + length (buf (store_write x writer_new))" by simp
qed

lemma store_opcode: "\<exists>opcode rest. encoding store_write x = opcode # rest \<and> 0x36 \<le> opcode \<and> opcode \<le> 0x56"
  unfolding encoding_def by (cases x) (simp_all add: wr_eq)

subsection \<open>Operand stack\<close>

datatype stack_insn =
    Pop | Pop2 | Dup | DupX1 | DupX2 | Dup2 | Dup2X1 | Dup2X2 | Swap

definition stack_read :: "u8 \<Rightarrow> stack_insn rd" where
  "stack_read opcode =
     (if opcode = 0x57 then r_return Pop
      else if opcode = 0x58 then r_return Pop2
      else if opcode = 0x59 then r_return Dup
      else if opcode = 0x5A then r_return DupX1
      else if opcode = 0x5B then r_return DupX2
      else if opcode = 0x5C then r_return Dup2
      else if opcode = 0x5D then r_return Dup2X1
      else if opcode = 0x5E then r_return Dup2X2
      else if opcode = 0x5F then r_return Swap
      else r_fail (InvalidOpcode opcode))"

fun stack_write :: "stack_insn \<Rightarrow> writer \<Rightarrow> writer" where
  "stack_write Pop = w_u8 0x57"
| "stack_write Pop2 = w_u8 0x58"
| "stack_write Dup = w_u8 0x59"
| "stack_write DupX1 = w_u8 0x5A"
| "stack_write DupX2 = w_u8 0x5B"
| "stack_write Dup2 = w_u8 0x5C"
| "stack_write Dup2X1 = w_u8 0x5D"
| "stack_write Dup2X2 = w_u8 0x5E"
| "stack_write Swap = w_u8 0x5F"

interpretation stack: exact_codec "r_bind r_u8 stack_read" stack_write "\<lambda>_. True"
proof (rule exact_bufI)
  show "stack_write x w = w\<lparr>buf := buf w @ buf (stack_write x writer_new)\<rparr>" for x w
    by (cases x) (simp_all add: wr_eq)
next
  show "r_bind r_u8 stack_read \<lparr>src = buf (stack_write x writer_new) @ t, pos = q\<rparr> =
      Inr (x, \<lparr>src = t, pos = q + length (buf (stack_write x writer_new))\<rparr>)" for x t q
    by (cases x) (simp_all add: wr_eq stack_read_def rd_run)
next
  fix r x r' assume "r_bind r_u8 stack_read r = Inr (x, r')"
  then obtain opcode r1 where r: "src r = opcode # src r1" "pos r1 = pos r + 1"
    and x: "stack_read opcode r1 = Inr (x, r')" by (auto simp: rd_iff)
  from x have "src r = buf (stack_write x writer_new) @ src r' \<and>
      pos r' = pos r + length (buf (stack_write x writer_new))"
    unfolding stack_read_def
    by (elim chainE) (simp_all add: r rd_iff wr_eq, (auto simp: r wr_eq)?)
  then show "True \<and> src r = buf (stack_write x writer_new) @ src r' \<and>
      pos r' = pos r + length (buf (stack_write x writer_new))" by simp
qed

lemma stack_opcode: "\<exists>opcode rest. encoding stack_write x = opcode # rest \<and> 0x57 \<le> opcode \<and> opcode \<le> 0x5F"
  unfolding encoding_def by (cases x) (simp_all add: wr_eq)

subsection \<open>Arithmetic\<close>

datatype math_insn =
    Iadd | Ladd | Fadd | Dadd | Isub | Lsub | Fsub | Dsub | Imul | Lmul | Fmul | Dmul | Idiv
  | Ldiv | Fdiv | Ddiv | Irem | Lrem | Frem | Drem | Ineg | Lneg | Fneg | Dneg | Ishl | Lshl
  | Ishr | Lshr | Iushr | Lushr | Iand | Land | Ior | Lor | Ixor | Lxor
  | Iinc u8 i8 \<comment> \<open>index, value\<close>

definition math_read :: "u8 \<Rightarrow> math_insn rd" where
  "math_read opcode =
     (if opcode = 0x60 then r_return Iadd
      else if opcode = 0x61 then r_return Ladd
      else if opcode = 0x62 then r_return Fadd
      else if opcode = 0x63 then r_return Dadd
      else if opcode = 0x64 then r_return Isub
      else if opcode = 0x65 then r_return Lsub
      else if opcode = 0x66 then r_return Fsub
      else if opcode = 0x67 then r_return Dsub
      else if opcode = 0x68 then r_return Imul
      else if opcode = 0x69 then r_return Lmul
      else if opcode = 0x6A then r_return Fmul
      else if opcode = 0x6B then r_return Dmul
      else if opcode = 0x6C then r_return Idiv
      else if opcode = 0x6D then r_return Ldiv
      else if opcode = 0x6E then r_return Fdiv
      else if opcode = 0x6F then r_return Ddiv
      else if opcode = 0x70 then r_return Irem
      else if opcode = 0x71 then r_return Lrem
      else if opcode = 0x72 then r_return Frem
      else if opcode = 0x73 then r_return Drem
      else if opcode = 0x74 then r_return Ineg
      else if opcode = 0x75 then r_return Lneg
      else if opcode = 0x76 then r_return Fneg
      else if opcode = 0x77 then r_return Dneg
      else if opcode = 0x78 then r_return Ishl
      else if opcode = 0x79 then r_return Lshl
      else if opcode = 0x7A then r_return Ishr
      else if opcode = 0x7B then r_return Lshr
      else if opcode = 0x7C then r_return Iushr
      else if opcode = 0x7D then r_return Lushr
      else if opcode = 0x7E then r_return Iand
      else if opcode = 0x7F then r_return Land
      else if opcode = 0x80 then r_return Ior
      else if opcode = 0x81 then r_return Lor
      else if opcode = 0x82 then r_return Ixor
      else if opcode = 0x83 then r_return Lxor
      else if opcode = 0x84 then r_bind r_u8 (\<lambda>index. r_map (Iinc index) r_u8)
      else r_fail (InvalidOpcode opcode))"

fun math_write :: "math_insn \<Rightarrow> writer \<Rightarrow> writer" where
  "math_write Iadd = w_u8 0x60"
| "math_write Ladd = w_u8 0x61"
| "math_write Fadd = w_u8 0x62"
| "math_write Dadd = w_u8 0x63"
| "math_write Isub = w_u8 0x64"
| "math_write Lsub = w_u8 0x65"
| "math_write Fsub = w_u8 0x66"
| "math_write Dsub = w_u8 0x67"
| "math_write Imul = w_u8 0x68"
| "math_write Lmul = w_u8 0x69"
| "math_write Fmul = w_u8 0x6A"
| "math_write Dmul = w_u8 0x6B"
| "math_write Idiv = w_u8 0x6C"
| "math_write Ldiv = w_u8 0x6D"
| "math_write Fdiv = w_u8 0x6E"
| "math_write Ddiv = w_u8 0x6F"
| "math_write Irem = w_u8 0x70"
| "math_write Lrem = w_u8 0x71"
| "math_write Frem = w_u8 0x72"
| "math_write Drem = w_u8 0x73"
| "math_write Ineg = w_u8 0x74"
| "math_write Lneg = w_u8 0x75"
| "math_write Fneg = w_u8 0x76"
| "math_write Dneg = w_u8 0x77"
| "math_write Ishl = w_u8 0x78"
| "math_write Lshl = w_u8 0x79"
| "math_write Ishr = w_u8 0x7A"
| "math_write Lshr = w_u8 0x7B"
| "math_write Iushr = w_u8 0x7C"
| "math_write Lushr = w_u8 0x7D"
| "math_write Iand = w_u8 0x7E"
| "math_write Land = w_u8 0x7F"
| "math_write Ior = w_u8 0x80"
| "math_write Lor = w_u8 0x81"
| "math_write Ixor = w_u8 0x82"
| "math_write Lxor = w_u8 0x83"
| "math_write (Iinc index value) = w_do [w_u8 0x84, w_u8 index, w_u8 value]"

interpretation math: exact_codec "r_bind r_u8 math_read" math_write "\<lambda>_. True"
proof (rule exact_bufI)
  show "math_write x w = w\<lparr>buf := buf w @ buf (math_write x writer_new)\<rparr>" for x w
    by (cases x) (simp_all add: wr_eq)
next
  show "r_bind r_u8 math_read \<lparr>src = buf (math_write x writer_new) @ t, pos = q\<rparr> =
      Inr (x, \<lparr>src = t, pos = q + length (buf (math_write x writer_new))\<rparr>)" for x t q
    by (cases x) (simp_all add: wr_eq math_read_def rd_run)
next
  fix r x r' assume "r_bind r_u8 math_read r = Inr (x, r')"
  then obtain opcode r1 where r: "src r = opcode # src r1" "pos r1 = pos r + 1"
    and x: "math_read opcode r1 = Inr (x, r')" by (auto simp: rd_iff)
  from x have "src r = buf (math_write x writer_new) @ src r' \<and>
      pos r' = pos r + length (buf (math_write x writer_new))"
    unfolding math_read_def
    by (elim chainE) (simp_all add: r rd_iff wr_eq, (auto simp: r wr_eq)?)
  then show "True \<and> src r = buf (math_write x writer_new) @ src r' \<and>
      pos r' = pos r + length (buf (math_write x writer_new))" by simp
qed

lemma math_opcode: "\<exists>opcode rest. encoding math_write x = opcode # rest \<and> 0x60 \<le> opcode \<and> opcode \<le> 0x84"
  unfolding encoding_def by (cases x) (simp_all add: wr_eq)

subsection \<open>Conversions and comparisons\<close>

datatype convert_insn =
    I2l | I2f | I2d | L2i | L2f | L2d | F2i | F2l | F2d | D2i | D2l | D2f | I2b | I2c | I2s
  | Lcmp | Fcmpl | Fcmpg | Dcmpl | Dcmpg

definition convert_read :: "u8 \<Rightarrow> convert_insn rd" where
  "convert_read opcode =
     (if opcode = 0x85 then r_return I2l
      else if opcode = 0x86 then r_return I2f
      else if opcode = 0x87 then r_return I2d
      else if opcode = 0x88 then r_return L2i
      else if opcode = 0x89 then r_return L2f
      else if opcode = 0x8A then r_return L2d
      else if opcode = 0x8B then r_return F2i
      else if opcode = 0x8C then r_return F2l
      else if opcode = 0x8D then r_return F2d
      else if opcode = 0x8E then r_return D2i
      else if opcode = 0x8F then r_return D2l
      else if opcode = 0x90 then r_return D2f
      else if opcode = 0x91 then r_return I2b
      else if opcode = 0x92 then r_return I2c
      else if opcode = 0x93 then r_return I2s
      else if opcode = 0x94 then r_return Lcmp
      else if opcode = 0x95 then r_return Fcmpl
      else if opcode = 0x96 then r_return Fcmpg
      else if opcode = 0x97 then r_return Dcmpl
      else if opcode = 0x98 then r_return Dcmpg
      else r_fail (InvalidOpcode opcode))"

fun convert_write :: "convert_insn \<Rightarrow> writer \<Rightarrow> writer" where
  "convert_write I2l = w_u8 0x85"
| "convert_write I2f = w_u8 0x86"
| "convert_write I2d = w_u8 0x87"
| "convert_write L2i = w_u8 0x88"
| "convert_write L2f = w_u8 0x89"
| "convert_write L2d = w_u8 0x8A"
| "convert_write F2i = w_u8 0x8B"
| "convert_write F2l = w_u8 0x8C"
| "convert_write F2d = w_u8 0x8D"
| "convert_write D2i = w_u8 0x8E"
| "convert_write D2l = w_u8 0x8F"
| "convert_write D2f = w_u8 0x90"
| "convert_write I2b = w_u8 0x91"
| "convert_write I2c = w_u8 0x92"
| "convert_write I2s = w_u8 0x93"
| "convert_write Lcmp = w_u8 0x94"
| "convert_write Fcmpl = w_u8 0x95"
| "convert_write Fcmpg = w_u8 0x96"
| "convert_write Dcmpl = w_u8 0x97"
| "convert_write Dcmpg = w_u8 0x98"

interpretation convert: exact_codec "r_bind r_u8 convert_read" convert_write "\<lambda>_. True"
proof (rule exact_bufI)
  show "convert_write x w = w\<lparr>buf := buf w @ buf (convert_write x writer_new)\<rparr>" for x w
    by (cases x) (simp_all add: wr_eq)
next
  show "r_bind r_u8 convert_read \<lparr>src = buf (convert_write x writer_new) @ t, pos = q\<rparr> =
      Inr (x, \<lparr>src = t, pos = q + length (buf (convert_write x writer_new))\<rparr>)" for x t q
    by (cases x) (simp_all add: wr_eq convert_read_def rd_run)
next
  fix r x r' assume "r_bind r_u8 convert_read r = Inr (x, r')"
  then obtain opcode r1 where r: "src r = opcode # src r1" "pos r1 = pos r + 1"
    and x: "convert_read opcode r1 = Inr (x, r')" by (auto simp: rd_iff)
  from x have "src r = buf (convert_write x writer_new) @ src r' \<and>
      pos r' = pos r + length (buf (convert_write x writer_new))"
    unfolding convert_read_def
    by (elim chainE) (simp_all add: r rd_iff wr_eq, (auto simp: r wr_eq)?)
  then show "True \<and> src r = buf (convert_write x writer_new) @ src r' \<and>
      pos r' = pos r + length (buf (convert_write x writer_new))" by simp
qed

lemma convert_opcode: "\<exists>opcode rest. encoding convert_write x = opcode # rest \<and> 0x85 \<le> opcode \<and> opcode \<le> 0x98"
  unfolding encoding_def by (cases x) (simp_all add: wr_eq)

subsection \<open>Branches\<close>

datatype branch_insn =
    Ifeq i16 | Ifne i16 | Iflt i16 | Ifge i16 | Ifgt i16 | Ifle i16 | IfIcmpeq i16
  | IfIcmpne i16 | IfIcmplt i16 | IfIcmpge i16 | IfIcmpgt i16 | IfIcmple i16 | IfAcmpeq i16
  | IfAcmpne i16 | Goto i16 | Jsr i16 | Ret u8

definition branch_read :: "u8 \<Rightarrow> branch_insn rd" where
  "branch_read opcode =
     (if opcode = 0x99 then r_map Ifeq r_u16
      else if opcode = 0x9A then r_map Ifne r_u16
      else if opcode = 0x9B then r_map Iflt r_u16
      else if opcode = 0x9C then r_map Ifge r_u16
      else if opcode = 0x9D then r_map Ifgt r_u16
      else if opcode = 0x9E then r_map Ifle r_u16
      else if opcode = 0x9F then r_map IfIcmpeq r_u16
      else if opcode = 0xA0 then r_map IfIcmpne r_u16
      else if opcode = 0xA1 then r_map IfIcmplt r_u16
      else if opcode = 0xA2 then r_map IfIcmpge r_u16
      else if opcode = 0xA3 then r_map IfIcmpgt r_u16
      else if opcode = 0xA4 then r_map IfIcmple r_u16
      else if opcode = 0xA5 then r_map IfAcmpeq r_u16
      else if opcode = 0xA6 then r_map IfAcmpne r_u16
      else if opcode = 0xA7 then r_map Goto r_u16
      else if opcode = 0xA8 then r_map Jsr r_u16
      else if opcode = 0xA9 then r_map Ret r_u8
      else r_fail (InvalidOpcode opcode))"

fun branch_write :: "branch_insn \<Rightarrow> writer \<Rightarrow> writer" where
  "branch_write (Ifeq v) = write_branch 0x99 v"
| "branch_write (Ifne v) = write_branch 0x9A v"
| "branch_write (Iflt v) = write_branch 0x9B v"
| "branch_write (Ifge v) = write_branch 0x9C v"
| "branch_write (Ifgt v) = write_branch 0x9D v"
| "branch_write (Ifle v) = write_branch 0x9E v"
| "branch_write (IfIcmpeq v) = write_branch 0x9F v"
| "branch_write (IfIcmpne v) = write_branch 0xA0 v"
| "branch_write (IfIcmplt v) = write_branch 0xA1 v"
| "branch_write (IfIcmpge v) = write_branch 0xA2 v"
| "branch_write (IfIcmpgt v) = write_branch 0xA3 v"
| "branch_write (IfIcmple v) = write_branch 0xA4 v"
| "branch_write (IfAcmpeq v) = write_branch 0xA5 v"
| "branch_write (IfAcmpne v) = write_branch 0xA6 v"
| "branch_write (Goto v) = write_branch 0xA7 v"
| "branch_write (Jsr v) = write_branch 0xA8 v"
| "branch_write (Ret v) = w_do [w_u8 0xA9, w_u8 v]"

interpretation branch: exact_codec "r_bind r_u8 branch_read" branch_write "\<lambda>_. True"
proof (rule exact_bufI)
  show "branch_write x w = w\<lparr>buf := buf w @ buf (branch_write x writer_new)\<rparr>" for x w
    by (cases x) (simp_all add: wr_eq)
next
  show "r_bind r_u8 branch_read \<lparr>src = buf (branch_write x writer_new) @ t, pos = q\<rparr> =
      Inr (x, \<lparr>src = t, pos = q + length (buf (branch_write x writer_new))\<rparr>)" for x t q
    by (cases x) (simp_all add: wr_eq branch_read_def rd_run)
next
  fix r x r' assume "r_bind r_u8 branch_read r = Inr (x, r')"
  then obtain opcode r1 where r: "src r = opcode # src r1" "pos r1 = pos r + 1"
    and x: "branch_read opcode r1 = Inr (x, r')" by (auto simp: rd_iff)
  from x have "src r = buf (branch_write x writer_new) @ src r' \<and>
      pos r' = pos r + length (buf (branch_write x writer_new))"
    unfolding branch_read_def
    by (elim chainE) (simp_all add: r rd_iff wr_eq, (auto simp: r wr_eq)?)
  then show "True \<and> src r = buf (branch_write x writer_new) @ src r' \<and>
      pos r' = pos r + length (buf (branch_write x writer_new))" by simp
qed

lemma branch_opcode: "\<exists>opcode rest. encoding branch_write x = opcode # rest \<and> 0x99 \<le> opcode \<and> opcode \<le> 0xA9"
  unfolding encoding_def by (cases x) (simp_all add: wr_eq)

subsection \<open>Returns\<close>

datatype return_insn =
    Ireturn | Lreturn | Freturn | Dreturn | Areturn | Return

definition return_read :: "u8 \<Rightarrow> return_insn rd" where
  "return_read opcode =
     (if opcode = 0xAC then r_return Ireturn
      else if opcode = 0xAD then r_return Lreturn
      else if opcode = 0xAE then r_return Freturn
      else if opcode = 0xAF then r_return Dreturn
      else if opcode = 0xB0 then r_return Areturn
      else if opcode = 0xB1 then r_return Return
      else r_fail (InvalidOpcode opcode))"

fun return_write :: "return_insn \<Rightarrow> writer \<Rightarrow> writer" where
  "return_write Ireturn = w_u8 0xAC"
| "return_write Lreturn = w_u8 0xAD"
| "return_write Freturn = w_u8 0xAE"
| "return_write Dreturn = w_u8 0xAF"
| "return_write Areturn = w_u8 0xB0"
| "return_write Return = w_u8 0xB1"

interpretation return: exact_codec "r_bind r_u8 return_read" return_write "\<lambda>_. True"
proof (rule exact_bufI)
  show "return_write x w = w\<lparr>buf := buf w @ buf (return_write x writer_new)\<rparr>" for x w
    by (cases x) (simp_all add: wr_eq)
next
  show "r_bind r_u8 return_read \<lparr>src = buf (return_write x writer_new) @ t, pos = q\<rparr> =
      Inr (x, \<lparr>src = t, pos = q + length (buf (return_write x writer_new))\<rparr>)" for x t q
    by (cases x) (simp_all add: wr_eq return_read_def rd_run)
next
  fix r x r' assume "r_bind r_u8 return_read r = Inr (x, r')"
  then obtain opcode r1 where r: "src r = opcode # src r1" "pos r1 = pos r + 1"
    and x: "return_read opcode r1 = Inr (x, r')" by (auto simp: rd_iff)
  from x have "src r = buf (return_write x writer_new) @ src r' \<and>
      pos r' = pos r + length (buf (return_write x writer_new))"
    unfolding return_read_def
    by (elim chainE) (simp_all add: r rd_iff wr_eq, (auto simp: r wr_eq)?)
  then show "True \<and> src r = buf (return_write x writer_new) @ src r' \<and>
      pos r' = pos r + length (buf (return_write x writer_new))" by simp
qed

lemma return_opcode: "\<exists>opcode rest. encoding return_write x = opcode # rest \<and> 0xAC \<le> opcode \<and> opcode \<le> 0xB1"
  unfolding encoding_def by (cases x) (simp_all add: wr_eq)

subsection \<open>Members, objects and monitors\<close>

datatype object_insn =
    GetStatic u16 | PutStatic u16 | GetField u16 | PutField u16 | InvokeVirtual u16
  | InvokeSpecial u16 | InvokeStatic u16
  | InvokeInterface u16 u8 \<comment> \<open>index, count\<close>
  | InvokeDynamic u16 \<comment> \<open>index\<close>
  | New u16 | NewArray u8 | ANewArray u16 | ArrayLength | Athrow | CheckCast u16
  | InstanceOf u16 | MonitorEnter | MonitorExit

definition object_read :: "u8 \<Rightarrow> object_insn rd" where
  "object_read opcode =
     (if opcode = 0xB2 then r_map GetStatic r_u16
      else if opcode = 0xB3 then r_map PutStatic r_u16
      else if opcode = 0xB4 then r_map GetField r_u16
      else if opcode = 0xB5 then r_map PutField r_u16
      else if opcode = 0xB6 then r_map InvokeVirtual r_u16
      else if opcode = 0xB7 then r_map InvokeSpecial r_u16
      else if opcode = 0xB8 then r_map InvokeStatic r_u16
      else if opcode = 0xB9 then r_bind r_u16 (\<lambda>index. r_bind r_u8 (\<lambda>count. r_bind r_u8 (\<lambda>_.
         r_return (InvokeInterface index count))))
      else if opcode = 0xBA then r_bind r_u16 (\<lambda>index. r_bind r_u16 (\<lambda>_.
         r_return (InvokeDynamic index)))
      else if opcode = 0xBB then r_map New r_u16
      else if opcode = 0xBC then r_map NewArray r_u8
      else if opcode = 0xBD then r_map ANewArray r_u16
      else if opcode = 0xBE then r_return ArrayLength
      else if opcode = 0xBF then r_return Athrow
      else if opcode = 0xC0 then r_map CheckCast r_u16
      else if opcode = 0xC1 then r_map InstanceOf r_u16
      else if opcode = 0xC2 then r_return MonitorEnter
      else if opcode = 0xC3 then r_return MonitorExit
      else r_fail (InvalidOpcode opcode))"

fun object_write :: "object_insn \<Rightarrow> writer \<Rightarrow> writer" where
  "object_write (GetStatic v) = w_do [w_u8 0xB2, w_u16 v]"
| "object_write (PutStatic v) = w_do [w_u8 0xB3, w_u16 v]"
| "object_write (GetField v) = w_do [w_u8 0xB4, w_u16 v]"
| "object_write (PutField v) = w_do [w_u8 0xB5, w_u16 v]"
| "object_write (InvokeVirtual v) = w_do [w_u8 0xB6, w_u16 v]"
| "object_write (InvokeSpecial v) = w_do [w_u8 0xB7, w_u16 v]"
| "object_write (InvokeStatic v) = w_do [w_u8 0xB8, w_u16 v]"
| "object_write (InvokeInterface index count) =
     w_do [w_u8 0xB9, w_u16 index, w_u8 count, w_u8 0]"
| "object_write (InvokeDynamic index) = w_do [w_u8 0xBA, w_u16 index, w_u16 0]"
| "object_write (New v) = w_do [w_u8 0xBB, w_u16 v]"
| "object_write (NewArray v) = w_do [w_u8 0xBC, w_u8 v]"
| "object_write (ANewArray v) = w_do [w_u8 0xBD, w_u16 v]"
| "object_write ArrayLength = w_u8 0xBE"
| "object_write Athrow = w_u8 0xBF"
| "object_write (CheckCast v) = w_do [w_u8 0xC0, w_u16 v]"
| "object_write (InstanceOf v) = w_do [w_u8 0xC1, w_u16 v]"
| "object_write MonitorEnter = w_u8 0xC2"
| "object_write MonitorExit = w_u8 0xC3"

text \<open>The bytes the reader skips: the fifth of \<open>invokeinterface\<close>, the last two of \<open>invokedynamic\<close>.\<close>

fun object_reserved :: "object_insn \<Rightarrow> bool list" where
  "object_reserved (InvokeInterface index count) = [False, False, False, False, True]"
| "object_reserved (InvokeDynamic index) = [False, False, False, True, True]"
| "object_reserved i = plain_bytes (length (encoding object_write i))"

interpretation object: codec "r_bind r_u8 object_read" object_write "\<lambda>_. True" object_reserved
proof (rule codecI [where E = "\<lambda>x. buf (object_write x writer_new)"])
  show "object_write x w = w\<lparr>buf := buf w @ buf (object_write x writer_new)\<rparr>" for x w
    by (cases x) (simp_all add: wr_eq)
next
  show "r_bind r_u8 object_read \<lparr>src = buf (object_write x writer_new) @ t, pos = q\<rparr> =
      Inr (x, \<lparr>src = t, pos = q + length (buf (object_write x writer_new))\<rparr>)" for x t q
    by (cases x) (simp_all add: wr_eq object_read_def rd_run)
next
  fix r x r' assume "r_bind r_u8 object_read r = Inr (x, r')"
  then obtain opcode r1 where r: "src r = opcode # src r1" "pos r1 = pos r + 1"
    and x: "object_read opcode r1 = Inr (x, r')" by (auto simp: rd_iff)
  from x have "(\<exists>cs. src r1 = cs @ src r' \<and> spells (object_reserved x) (opcode # cs) (buf (object_write x writer_new))) \<and>
      pos r' = pos r + length (buf (object_write x writer_new))"
    unfolding object_read_def
    by (elim chainE) (simp_all add: r rd_iff wr_eq encoding_def, (auto simp: r wr_eq be16_def encoding_def)?)
  then show "True \<and> (\<exists>cs. src r = cs @ src r' \<and> spells (object_reserved x) cs (buf (object_write x writer_new))) \<and>
      pos r' = pos r + length (buf (object_write x writer_new))"
    using r by (metis append_Cons)
qed

lemma object_opcode: "\<exists>opcode rest. encoding object_write x = opcode # rest \<and> 0xB2 \<le> opcode \<and> opcode \<le> 0xC3"
  unfolding encoding_def by (cases x) (simp_all add: wr_eq)

end
