(* ===== verification/Instruction.thy ===== *)
theory Instruction
  imports Opcodes
begin

text \<open>
  \<open>jals-classfile/src/instruction.rs\<close>: the enum \<open>Instruction\<close> over its families, the \<open>wide\<close>
  forms, the two switches with their position-dependent padding, \<open>encoded_len\<close>, and the \<open>code\<close>
  array codec \<open>decode_code\<close> / \<open>encode_code\<close>. What an instruction encodes to depends on where it
  stands, so the codec lemmas speak of \<open>bytes_at n i\<close>, the bytes of \<open>i\<close> at code offset \<open>n\<close>.
\<close>

subsection \<open>Wide and extended forms\<close>

datatype wide_insn =
    Wide_Iload u16 | Wide_Lload u16 | Wide_Fload u16 | Wide_Dload u16 | Wide_Aload u16
  | Wide_Istore u16 | Wide_Lstore u16 | Wide_Fstore u16 | Wide_Dstore u16 | Wide_Astore u16
  | Wide_Ret u16 | Wide_Iinc u16 i16 \<comment> \<open>index, value\<close>

definition wide_read :: "wide_insn rd" where
  "wide_read = r_bind r_u8 (\<lambda>opcode.
     if opcode = 0x15 then r_map Wide_Iload r_u16
     else if opcode = 0x16 then r_map Wide_Lload r_u16
     else if opcode = 0x17 then r_map Wide_Fload r_u16
     else if opcode = 0x18 then r_map Wide_Dload r_u16
     else if opcode = 0x19 then r_map Wide_Aload r_u16
     else if opcode = 0x36 then r_map Wide_Istore r_u16
     else if opcode = 0x37 then r_map Wide_Lstore r_u16
     else if opcode = 0x38 then r_map Wide_Fstore r_u16
     else if opcode = 0x39 then r_map Wide_Dstore r_u16
     else if opcode = 0x3A then r_map Wide_Astore r_u16
     else if opcode = 0xA9 then r_map Wide_Ret r_u16
     else if opcode = 0x84 then r_bind r_u16 (\<lambda>index. r_map (Wide_Iinc index) r_u16)
     else r_fail (InvalidOpcode opcode))"

fun wide_write :: "wide_insn \<Rightarrow> writer \<Rightarrow> writer" where
  "wide_write (Wide_Iload v) = w_do [w_u8 0x15, w_u16 v]"
| "wide_write (Wide_Lload v) = w_do [w_u8 0x16, w_u16 v]"
| "wide_write (Wide_Fload v) = w_do [w_u8 0x17, w_u16 v]"
| "wide_write (Wide_Dload v) = w_do [w_u8 0x18, w_u16 v]"
| "wide_write (Wide_Aload v) = w_do [w_u8 0x19, w_u16 v]"
| "wide_write (Wide_Istore v) = w_do [w_u8 0x36, w_u16 v]"
| "wide_write (Wide_Lstore v) = w_do [w_u8 0x37, w_u16 v]"
| "wide_write (Wide_Fstore v) = w_do [w_u8 0x38, w_u16 v]"
| "wide_write (Wide_Dstore v) = w_do [w_u8 0x39, w_u16 v]"
| "wide_write (Wide_Astore v) = w_do [w_u8 0x3A, w_u16 v]"
| "wide_write (Wide_Ret v) = w_do [w_u8 0xA9, w_u16 v]"
| "wide_write (Wide_Iinc index v) = w_do [w_u8 0x84, w_u16 index, w_u16 v]"

interpretation wide: exact_codec wide_read wide_write "\<lambda>_. True"
proof (rule exact_bufI)
  show "wide_write x w = w\<lparr>buf := buf w @ buf (wide_write x writer_new)\<rparr>" for x w
    by (cases x) (simp_all add: wr_eq)
next
  show "wide_read \<lparr>src = buf (wide_write x writer_new) @ t, pos = q\<rparr> =
      Inr (x, \<lparr>src = t, pos = q + length (buf (wide_write x writer_new))\<rparr>)" for x t q
    by (cases x) (simp_all add: wr_eq wide_read_def rd_run)
next
  show "True \<and> src r = buf (wide_write x writer_new) @ src r' \<and>
      pos r' = pos r + length (buf (wide_write x writer_new))"
    if "wide_read r = Inr (x, r')" for r x r'
    using that by (auto simp: wide_read_def rd_iff wr_eq split: if_splits)
qed

datatype extended_insn =
    Wide wide_insn
  | MultiANewArray u16 u8 \<comment> \<open>index, dimensions\<close>
  | IfNull i16
  | IfNonNull i16
  | GotoW i32
  | JsrW i32

definition extended_read :: "u8 \<Rightarrow> extended_insn rd" where
  "extended_read opcode =
     (if opcode = 0xC4 then r_map Wide wide_read
      else if opcode = 0xC5 then r_bind r_u16 (\<lambda>index. r_map (MultiANewArray index) r_u8)
      else if opcode = 0xC6 then r_map IfNull r_u16
      else if opcode = 0xC7 then r_map IfNonNull r_u16
      else if opcode = 0xC8 then r_map GotoW r_u32
      else if opcode = 0xC9 then r_map JsrW r_u32
      else r_fail (InvalidOpcode opcode))"

fun extended_write :: "extended_insn \<Rightarrow> writer \<Rightarrow> writer" where
  "extended_write (Wide wide) = w_do [w_u8 0xC4, wide_write wide]"
| "extended_write (MultiANewArray index dimensions) =
     w_do [w_u8 0xC5, w_u16 index, w_u8 dimensions]"
| "extended_write (IfNull v) = write_branch 0xC6 v"
| "extended_write (IfNonNull v) = write_branch 0xC7 v"
| "extended_write (GotoW v) = w_do [w_u8 0xC8, w_u32 v]"
| "extended_write (JsrW v) = w_do [w_u8 0xC9, w_u32 v]"

interpretation extended: exact_codec "r_bind r_u8 extended_read" extended_write "\<lambda>_. True"
proof (rule exact_bufI)
  show "extended_write x w = w\<lparr>buf := buf w @ buf (extended_write x writer_new)\<rparr>" for x w
    by (cases x) (simp_all add: wr_eq)
next
  show "r_bind r_u8 extended_read \<lparr>src = buf (extended_write x writer_new) @ t, pos = q\<rparr> =
      Inr (x, \<lparr>src = t, pos = q + length (buf (extended_write x writer_new))\<rparr>)" for x t q
    by (cases x) (simp_all add: wr_eq extended_read_def rd_run)
next
  show "True \<and> src r = buf (extended_write x writer_new) @ src r' \<and>
      pos r' = pos r + length (buf (extended_write x writer_new))"
    if "r_bind r_u8 extended_read r = Inr (x, r')" for r x r'
    using that by (auto simp: extended_read_def rd_iff wr_eq split: if_splits)
qed

lemma extended_opcode:
  "\<exists>opcode rest. encoding extended_write x = opcode # rest \<and> 0xC4 \<le> opcode \<and> opcode \<le> 0xC9"
  unfolding encoding_def by (cases x) (simp_all add: wr_eq)

subsection \<open>Switches\<close>

datatype switch_insn =
    TableSwitch i32 i32 i32 "i32 list" \<comment> \<open>default, low, high, offsets\<close>
  | LookupSwitch i32 "(i32 \<times> i32) list" \<comment> \<open>default, pairs\<close>

definition skip_switch_padding :: "unit rd" where
  "skip_switch_padding r =
     (let pad = (4 - pos r mod 4) mod 4 in r_bind (r_bytes pad) (\<lambda>_. r_return ()) r)"

definition write_switch_padding :: "writer \<Rightarrow> writer" where
  "write_switch_padding w =
     (let pad = (4 - length (buf w) mod 4) mod 4 in w_for [0..<pad] (\<lambda>_. w_u8 0) w)"

text \<open>\<open>count\<close> is computed in \<open>i64\<close>, which \<open>high - low + 1\<close> cannot leave.\<close>

definition read_table_switch :: "switch_insn rd" where
  "read_table_switch =
     r_bind skip_switch_padding (\<lambda>_.
     r_bind r_u32 (\<lambda>dflt.
     r_bind r_u32 (\<lambda>low.
     r_bind r_u32 (\<lambda>high.
       let count = sint high - sint low + 1
       in if \<not> (0 \<le> count \<and> count \<le> 0xFFFFFFFF) then r_fail (Malformed ''tableswitch bounds'')
          else r_map (TableSwitch dflt low high) (r_times (nat count) r_u32)))))"

definition read_lookup_switch :: "switch_insn rd" where
  "read_lookup_switch =
     r_bind skip_switch_padding (\<lambda>_.
     r_bind r_u32 (\<lambda>dflt.
     r_bind r_u32 (\<lambda>npairs.
       r_map (LookupSwitch dflt)
         (r_times (unat npairs) (r_bind r_u32 (\<lambda>key. r_map (Pair key) r_u32))))))"

definition switch_read :: "u8 \<Rightarrow> switch_insn rd" where
  "switch_read opcode =
     (if opcode = 0xAA then read_table_switch
      else if opcode = 0xAB then read_lookup_switch
      else r_fail (InvalidOpcode opcode))"

definition write_pair :: "i32 \<times> i32 \<Rightarrow> writer \<Rightarrow> writer" where
  "write_pair p = (case p of (key, off) \<Rightarrow> w_do [w_u32 key, w_u32 off])"

fun switch_write :: "switch_insn \<Rightarrow> writer \<Rightarrow> writer" where
  "switch_write (TableSwitch dflt low high offsets) =
     w_do [w_u8 0xAA, write_switch_padding, w_u32 dflt, w_u32 low, w_u32 high,
       w_for offsets w_u32]"
| "switch_write (LookupSwitch dflt pairs) =
     w_do [w_u8 0xAB, write_switch_padding, w_u32 dflt, w_u32 (of_nat (length pairs)),
       w_for pairs write_pair]"

text \<open>
  A table holds an offset per key of its range, and neither table outgrows its 32-bit count.
\<close>

fun wf_switch :: "switch_insn \<Rightarrow> bool" where
  "wf_switch (TableSwitch dflt low high offsets) \<longleftrightarrow>
     int (length offsets) = sint high - sint low + 1 \<and> length offsets < 2 ^ 32"
| "wf_switch (LookupSwitch dflt pairs) \<longleftrightarrow> length pairs < 2 ^ 32"

definition switch_pad :: "nat \<Rightarrow> nat" where
  "switch_pad n = (4 - Suc n mod 4) mod 4"

fun switch_bytes :: "nat \<Rightarrow> switch_insn \<Rightarrow> u8 list" where
  "switch_bytes n (TableSwitch dflt low high offsets) =
     0xAA # replicate (switch_pad n) 0 @ be32 dflt @ be32 low @ be32 high
       @ concat (map (encoding w_u32) offsets)"
| "switch_bytes n (LookupSwitch dflt pairs) =
     0xAB # replicate (switch_pad n) 0 @ be32 dflt @ be32 (of_nat (length pairs))
       @ concat (map (encoding write_pair) pairs)"

interpretation u32: exact_codec r_u32 w_u32 "\<lambda>_. True"
  by (rule exact_codecI [where E = be32]) (auto simp: wr_eq rd_run rd_iff)

interpretation switch_pair: exact_codec "r_bind r_u32 (\<lambda>key. r_map (Pair key) r_u32)" write_pair "\<lambda>_. True"
proof (rule exact_codecI [where E = "\<lambda>(k, d). be32 k @ be32 d"])
  show "write_pair x w = w\<lparr>buf := buf w @ (case x of (k, d) \<Rightarrow> be32 k @ be32 d)\<rparr>" for x w
    by (cases x) (simp add: write_pair_def wr_eq)
next
  show "r_bind r_u32 (\<lambda>key. r_map (Pair key) r_u32) \<lparr>src = (case x of (k, d) \<Rightarrow> be32 k @ be32 d) @ t, pos = q\<rparr>
      = Inr (x, \<lparr>src = t, pos = q + length (case x of (k, d) \<Rightarrow> be32 k @ be32 d)\<rparr>)" for x t q
    by (cases x) (simp add: rd_run)
qed (auto simp: rd_iff)

lemma padding_eq: "w_for [0..<n] (\<lambda>_. w_u8 0) w = w\<lparr>buf := buf w @ replicate n 0\<rparr>"
  by (induction n arbitrary: w) (simp_all add: w_for_def wr_eq replicate_append_same)

lemma switch_write_eq: "switch_write i w = w\<lparr>buf := buf w @ switch_bytes (length (buf w)) i\<rparr>"
  by (cases i) (simp_all add: wr_eq write_switch_padding_def Let_def padding_eq switch_pad_def
      u32.w_for_eq switch_pair.w_for_eq)

lemma skip_iff [rd_iff]:
  "skip_switch_padding r = Inr (u, r') \<longleftrightarrow>
     (\<exists>bs. src r = bs @ src r' \<and> length bs = (4 - pos r mod 4) mod 4 \<and> pos r' = pos r + length bs)"
  by (auto simp: skip_switch_padding_def Let_def rd_iff)

lemma skip_run [rd_run]:
  "skip_switch_padding \<lparr>src = replicate (switch_pad q) 0 @ t, pos = Suc q\<rparr> =
     Inr ((), \<lparr>src = t, pos = Suc (q + switch_pad q)\<rparr>)"
  by (simp add: rd_iff switch_pad_def)

lemma switch_read_run:
  "wf_switch i \<Longrightarrow> r_bind r_u8 switch_read \<lparr>src = switch_bytes q i @ t, pos = q\<rparr> =
     Inr (i, \<lparr>src = t, pos = q + length (switch_bytes q i)\<rparr>)"
proof (induction i)
  case (TableSwitch dflt low high offsets)
  then have count: "sint high - sint low + 1 = int (length offsets)"
    "length offsets \<le> 0xFFFFFFFF" by simp_all
  then show ?case
    using u32.times_run [of offsets t "Suc (q + switch_pad q) + 12"]
    by (simp add: switch_read_def read_table_switch_def rd_run Let_def list_all_iff ac_simps)
next
  case (LookupSwitch dflt pairs)
  then show ?case
    using switch_pair.times_run [of pairs t "Suc (q + switch_pad q) + 8"]
    by (simp add: switch_read_def read_lookup_switch_def rd_run list_all_iff ac_simps)
qed

end
