(* ===== verification/Code_Array.thy ===== *)
theory Code_Array
  imports Instruction
begin

text \<open>
  The \<open>code\<close> array codec of \<open>jals-classfile/src/instruction.rs\<close>: the enum \<open>Instruction\<close> joined from
  its families, its \<open>read\<close>, \<open>write\<close> and \<open>encoded_len\<close>, and \<open>decode_code\<close> / \<open>encode_code\<close>.
  The families are told apart by the ranges their opcodes span.
\<close>

datatype instruction =
    Op_const const_insn
  | Op_load load_insn
  | Op_store store_insn
  | Op_stack stack_insn
  | Op_math math_insn
  | Op_convert convert_insn
  | Op_branch branch_insn
  | Op_switch switch_insn
  | Op_return return_insn
  | Op_object object_insn
  | Op_extended extended_insn

definition instruction_arm :: "u8 \<Rightarrow> instruction rd" where
  "instruction_arm opcode =
     (if opcode \<le> 0x14 then r_map Op_const (const_read opcode)
     else if opcode \<le> 0x35 then r_map Op_load (load_read opcode)
     else if opcode \<le> 0x56 then r_map Op_store (store_read opcode)
     else if opcode \<le> 0x5F then r_map Op_stack (stack_read opcode)
     else if opcode \<le> 0x84 then r_map Op_math (math_read opcode)
     else if opcode \<le> 0x98 then r_map Op_convert (convert_read opcode)
     else if opcode \<le> 0xA9 then r_map Op_branch (branch_read opcode)
     else if opcode \<le> 0xAB then r_map Op_switch (switch_read opcode)
     else if opcode \<le> 0xB1 then r_map Op_return (return_read opcode)
     else if opcode \<le> 0xC3 then r_map Op_object (object_read opcode)
     else if opcode \<le> 0xC9 then r_map Op_extended (extended_read opcode)
     else r_fail (InvalidOpcode opcode))"

definition instruction_read :: "instruction rd" where
  "instruction_read = r_bind r_u8 instruction_arm"

fun instruction_write :: "instruction \<Rightarrow> writer \<Rightarrow> writer" where
  "instruction_write (Op_const i) = const_write i"
| "instruction_write (Op_load i) = load_write i"
| "instruction_write (Op_store i) = store_write i"
| "instruction_write (Op_stack i) = stack_write i"
| "instruction_write (Op_math i) = math_write i"
| "instruction_write (Op_convert i) = convert_write i"
| "instruction_write (Op_branch i) = branch_write i"
| "instruction_write (Op_switch i) = switch_write i"
| "instruction_write (Op_return i) = return_write i"
| "instruction_write (Op_object i) = object_write i"
| "instruction_write (Op_extended i) = extended_write i"

definition encoded_len :: "instruction \<Rightarrow> nat \<Rightarrow> nat" where
  "encoded_len i pc =
     (let align = pc mod 4;
          w = instruction_write i (w_for [0..<align] (\<lambda>_. w_u8 0) writer_new)
      in length (buf w) - align)"

text \<open>The bytes of an instruction at offset \<open>n\<close>; only a switch looks at \<open>n\<close>.\<close>

fun bytes_at :: "nat \<Rightarrow> instruction \<Rightarrow> u8 list" where
  "bytes_at n (Op_const i) = encoding const_write i"
| "bytes_at n (Op_load i) = encoding load_write i"
| "bytes_at n (Op_store i) = encoding store_write i"
| "bytes_at n (Op_stack i) = encoding stack_write i"
| "bytes_at n (Op_math i) = encoding math_write i"
| "bytes_at n (Op_convert i) = encoding convert_write i"
| "bytes_at n (Op_branch i) = encoding branch_write i"
| "bytes_at n (Op_switch i) = switch_bytes n i"
| "bytes_at n (Op_return i) = encoding return_write i"
| "bytes_at n (Op_object i) = encoding object_write i"
| "bytes_at n (Op_extended i) = encoding extended_write i"

text \<open>
  Which bytes of an instruction at offset \<open>n\<close> the reader skips: the padding behind the opcode of a
  switch, and the reserved bytes of \<open>invokeinterface\<close> and \<open>invokedynamic\<close>.
\<close>

fun insn_reserved :: "nat \<Rightarrow> instruction \<Rightarrow> bool list" where
  "insn_reserved n (Op_switch i) = plain_bytes 1 @ replicate (switch_pad n) True @
     plain_bytes (length (switch_bytes n i) - 1 - switch_pad n)"
| "insn_reserved n (Op_object i) = object_reserved i"
| "insn_reserved n i = plain_bytes (length (bytes_at n i))"

fun wf_insn :: "instruction \<Rightarrow> bool" where
  "wf_insn (Op_switch i) = wf_switch i"
| "wf_insn _ = True"

lemma instruction_write_eq [wr_eq]:
  "instruction_write i w = w\<lparr>buf := buf w @ bytes_at (length (buf w)) i\<rparr>"
  by (cases i) (simp_all add: wr_eq switch_write_eq)

lemma bytes_at_mod: "bytes_at (n mod 4) i = bytes_at n i"
proof (cases i)
  case (Op_switch s)
  then show ?thesis by (cases s) (simp_all add: switch_pad_def mod_Suc_eq)
qed simp_all

lemma encoded_len_eq: "encoded_len i pc = length (bytes_at pc i)"
  by (simp add: encoded_len_def Let_def padding_eq wr_eq bytes_at_mod)

subsection \<open>Reading one instruction\<close>

lemma switch_opcode: "\<exists>opcode rest. switch_bytes n s = opcode # rest \<and> 0xAA \<le> opcode \<and> opcode \<le> 0xAB"
  by (cases s) simp_all

lemma arms:
  "opcode \<le> 0x14 \<Longrightarrow> instruction_arm opcode = r_map Op_const (const_read opcode)"
  "0x15 \<le> opcode \<Longrightarrow> opcode \<le> 0x35 \<Longrightarrow> instruction_arm opcode = r_map Op_load (load_read opcode)"
  "0x36 \<le> opcode \<Longrightarrow> opcode \<le> 0x56 \<Longrightarrow> instruction_arm opcode = r_map Op_store (store_read opcode)"
  "0x57 \<le> opcode \<Longrightarrow> opcode \<le> 0x5F \<Longrightarrow> instruction_arm opcode = r_map Op_stack (stack_read opcode)"
  "0x60 \<le> opcode \<Longrightarrow> opcode \<le> 0x84 \<Longrightarrow> instruction_arm opcode = r_map Op_math (math_read opcode)"
  "0x85 \<le> opcode \<Longrightarrow> opcode \<le> 0x98 \<Longrightarrow> instruction_arm opcode = r_map Op_convert (convert_read opcode)"
  "0x99 \<le> opcode \<Longrightarrow> opcode \<le> 0xA9 \<Longrightarrow> instruction_arm opcode = r_map Op_branch (branch_read opcode)"
  "0xAA \<le> opcode \<Longrightarrow> opcode \<le> 0xAB \<Longrightarrow> instruction_arm opcode = r_map Op_switch (switch_read opcode)"
  "0xAC \<le> opcode \<Longrightarrow> opcode \<le> 0xB1 \<Longrightarrow> instruction_arm opcode = r_map Op_return (return_read opcode)"
  "0xB2 \<le> opcode \<Longrightarrow> opcode \<le> 0xC3 \<Longrightarrow> instruction_arm opcode = r_map Op_object (object_read opcode)"
  "0xC4 \<le> opcode \<Longrightarrow> opcode \<le> 0xC9 \<Longrightarrow> instruction_arm opcode = r_map Op_extended (extended_read opcode)"
  by (simp_all add: instruction_arm_def word_le_nat_alt)

text \<open>A family's reader, run behind its own first byte, is what \<open>Instruction::read\<close> runs.\<close>

lemma arm_run:
  assumes "r_bind r_u8 f \<lparr>src = opcode # rest, pos = q\<rparr> = Inr (x, r')"
    and "instruction_arm opcode = r_map C (f opcode)"
  shows "instruction_read \<lparr>src = opcode # rest, pos = q\<rparr> = Inr (C x, r')"
  using assms by (simp add: instruction_read_def rd_run)

lemma instruction_read_run:
  assumes "wf_insn i"
  shows "instruction_read \<lparr>src = bytes_at q i @ t, pos = q\<rparr> =
    Inr (i, \<lparr>src = t, pos = q + length (bytes_at q i)\<rparr>)"
proof (cases i)
  case (Op_const x)
  then show ?thesis using const_opcode [of x] const.read_write [of x t q]
    by (auto intro!: arm_run [where f = const_read] arms(1))
next
  case (Op_load x)
  then show ?thesis using load_opcode [of x] load.read_write [of x t q]
    by (auto intro!: arm_run [where f = load_read] arms(2))
next
  case (Op_store x)
  then show ?thesis using store_opcode [of x] store.read_write [of x t q]
    by (auto intro!: arm_run [where f = store_read] arms(3))
next
  case (Op_stack x)
  then show ?thesis using stack_opcode [of x] stack.read_write [of x t q]
    by (auto intro!: arm_run [where f = stack_read] arms(4))
next
  case (Op_math x)
  then show ?thesis using math_opcode [of x] math.read_write [of x t q]
    by (auto intro!: arm_run [where f = math_read] arms(5))
next
  case (Op_convert x)
  then show ?thesis using convert_opcode [of x] convert.read_write [of x t q]
    by (auto intro!: arm_run [where f = convert_read] arms(6))
next
  case (Op_branch x)
  then show ?thesis using branch_opcode [of x] branch.read_write [of x t q]
    by (auto intro!: arm_run [where f = branch_read] arms(7))
next
  case (Op_switch x)
  then show ?thesis
    using switch_opcode [of q x] switch_read_run [of x q t] assms
    by (auto intro!: arm_run [where f = switch_read] arms(8))
next
  case (Op_return x)
  then show ?thesis using return_opcode [of x] return.read_write [of x t q]
    by (auto intro!: arm_run [where f = return_read] arms(9))
next
  case (Op_object x)
  then show ?thesis using object_opcode [of x] object.read_write [of x t q]
    by (auto intro!: arm_run [where f = object_read] arms(10))
next
  case (Op_extended x)
  then show ?thesis
    using extended_opcode [of x] extended.read_write [of x t q]
    by (auto intro!: arm_run [where f = extended_read] arms(11))
qed

text \<open>Backwards: which arm produced the value, and what its family's contract says of the bytes.\<close>

definition stood_at :: "reader \<Rightarrow> instruction \<Rightarrow> reader \<Rightarrow> bool" where
  "stood_at r i r' \<longleftrightarrow> wf_insn i \<and>
     (\<exists>cs. src r = cs @ src r' \<and> spells (insn_reserved (pos r) i) cs (bytes_at (pos r) i)) \<and>
     pos r' = pos r + length (bytes_at (pos r) i)"

lemma arm_back:
  assumes "codec (r_bind r_u8 f) wr (\<lambda>_. True) m"
    and "r_map C (f opcode) r1 = Inr (i, r')"
    and "src r = opcode # src r1" "pos r1 = pos r + 1"
    and "\<And>x. bytes_at (pos r) (C x) = encoding wr x" "\<And>x. insn_reserved (pos r) (C x) = m x"
    "\<And>x. wf_insn (C x)"
  shows "stood_at r i r'"
proof -
  from assms(2) obtain x where x: "f opcode r1 = Inr (x, r')" "i = C x" by (auto simp: rd_iff)
  then have "r_bind r_u8 f r = Inr (x, r')" using assms(3,4) by (auto simp: rd_iff)
  from codec.write_read [OF assms(1) this] show ?thesis using x assms(5,6,7) by (simp add: stood_at_def)
qed

lemma table_switch_back:
  assumes "read_table_switch r1 = Inr (s, r')" "src r = 0xAA # src r1" "pos r1 = pos r + 1"
  shows "stood_at r (Op_switch s) r'"
proof -
  obtain pad dflt low high offsets r2 where s: "s = TableSwitch dflt low high offsets"
    and r2: "src r1 = pad @ be32 dflt @ be32 low @ be32 high @ src r2" "pos r2 = pos r1 + length pad + 12"
    and pad: "length pad = switch_pad (pos r)"
    and count: "0 \<le> sint high - sint low + 1" "sint high - sint low + 1 \<le> 0xFFFFFFFF"
    and times: "r_times (nat (sint high - sint low + 1)) r_u32 r2 = Inr (offsets, r')"
    using assms by (auto simp: read_table_switch_def Let_def rd_iff switch_pad_def split: if_splits)
  have off: "length offsets = nat (sint high - sint low + 1)"
    "src r2 = concat (map (encoding w_u32) offsets) @ src r'"
    "pos r' = pos r2 + length (concat (map (encoding w_u32) offsets))"
    using u32.times_exact [OF times] by simp_all
  let ?cs = "0xAA # pad @ be32 dflt @ be32 low @ be32 high @ concat (map (encoding w_u32) offsets)"
  have "spells (insn_reserved (pos r) (Op_switch s)) ?cs (switch_bytes (pos r) s)"
    using s pad by (simp add: spells_append)
  moreover have "src r = ?cs @ src r'" using r2 off assms by simp
  moreover have "pos r' = pos r + length (switch_bytes (pos r) s)" "wf_switch s"
    using s r2(2) pad count off(1,3) assms(3) by simp_all
  ultimately show ?thesis unfolding stood_at_def bytes_at.simps wf_insn.simps by blast
qed

lemma lookup_switch_back:
  assumes "read_lookup_switch r1 = Inr (s, r')" "src r = 0xAB # src r1" "pos r1 = pos r + 1"
  shows "stood_at r (Op_switch s) r'"
proof -
  obtain pad dflt npairs pairs r2 where s: "s = LookupSwitch dflt pairs"
    and r2: "src r1 = pad @ be32 dflt @ be32 npairs @ src r2" "pos r2 = pos r1 + length pad + 8"
    and pad: "length pad = switch_pad (pos r)"
    and times: "r_times (unat npairs) (r_bind r_u32 (\<lambda>key. r_map (Pair key) r_u32)) r2 = Inr (pairs, r')"
    using assms by (auto simp: read_lookup_switch_def r_bind_iff r_map_iff skip_iff r_u32_iff switch_pad_def)
  have pairs: "length pairs = unat npairs"
    "src r2 = concat (map (encoding write_pair) pairs) @ src r'"
    "pos r' = pos r2 + length (concat (map (encoding write_pair) pairs))"
    using switch_pair.times_exact [OF times] by simp_all
  then have n: "npairs = of_nat (length pairs)" "length pairs < 2 ^ 32" by simp_all
  let ?cs = "0xAB # pad @ be32 dflt @ be32 npairs @ concat (map (encoding write_pair) pairs)"
  have "spells (insn_reserved (pos r) (Op_switch s)) ?cs (switch_bytes (pos r) s)"
    using s pad n by (simp add: spells_append)
  moreover have "src r = ?cs @ src r'" using r2 pairs assms by simp
  moreover have "pos r' = pos r + length (switch_bytes (pos r) s)" "wf_switch s"
    using s r2(2) pad pairs(3) n(2) assms(3) by simp_all
  ultimately show ?thesis unfolding stood_at_def bytes_at.simps wf_insn.simps by blast
qed

lemma switch_back:
  assumes "switch_read opcode r1 = Inr (s, r')" "src r = opcode # src r1" "pos r1 = pos r + 1"
  shows "stood_at r (Op_switch s) r'"
  using assms table_switch_back [of r1 s r' r] lookup_switch_back [of r1 s r' r]
  by (auto simp: switch_read_def rd_iff split: if_splits)

lemma instruction_read_back:
  assumes "instruction_read r = Inr (i, r')"
  shows "stood_at r i r'"
proof -
  from assms obtain opcode r1 where r: "src r = opcode # src r1" "pos r1 = pos r + 1"
    and arm: "instruction_arm opcode r1 = Inr (i, r')"
    by (auto simp: instruction_read_def rd_iff)
  note step = arm_back [OF _ _ r]
  show ?thesis
    using arm unfolding instruction_arm_def
  proof (elim chainE)
    assume "r_map Op_const (const_read opcode) r1 = Inr (i, r')"
    then show ?thesis by (rule step [OF const.codec_axioms]) simp_all
  next
    assume "r_map Op_load (load_read opcode) r1 = Inr (i, r')"
    then show ?thesis by (rule step [OF load.codec_axioms]) simp_all
  next
    assume "r_map Op_store (store_read opcode) r1 = Inr (i, r')"
    then show ?thesis by (rule step [OF store.codec_axioms]) simp_all
  next
    assume "r_map Op_stack (stack_read opcode) r1 = Inr (i, r')"
    then show ?thesis by (rule step [OF stack.codec_axioms]) simp_all
  next
    assume "r_map Op_math (math_read opcode) r1 = Inr (i, r')"
    then show ?thesis by (rule step [OF math.codec_axioms]) simp_all
  next
    assume "r_map Op_convert (convert_read opcode) r1 = Inr (i, r')"
    then show ?thesis by (rule step [OF convert.codec_axioms]) simp_all
  next
    assume "r_map Op_branch (branch_read opcode) r1 = Inr (i, r')"
    then show ?thesis by (rule step [OF branch.codec_axioms]) simp_all
  next
    assume "r_map Op_switch (switch_read opcode) r1 = Inr (i, r')"
    then show ?thesis using switch_back [OF _ r] by (auto simp: rd_iff)
  next
    assume "r_map Op_return (return_read opcode) r1 = Inr (i, r')"
    then show ?thesis by (rule step [OF return.codec_axioms]) simp_all
  next
    assume "r_map Op_object (object_read opcode) r1 = Inr (i, r')"
    then show ?thesis by (rule step [OF object.codec_axioms]) simp_all
  next
    assume "r_map Op_extended (extended_read opcode) r1 = Inr (i, r')"
    then show ?thesis by (rule step [OF extended.codec_axioms]) simp_all
  qed (simp add: rd_iff)
qed

lemma bytes_at_not_Nil [simp]: "bytes_at n i \<noteq> []"
  using const_opcode load_opcode store_opcode stack_opcode math_opcode convert_opcode branch_opcode
    switch_opcode return_opcode object_opcode extended_opcode
  by (cases i) (metis bytes_at.simps list.distinct(1))+

subsection \<open>The code array\<close>

text \<open>\<open>while r.remaining() > 0\<close>: every turn reads an opcode, so the input shrinks.\<close>

lemma instruction_read_shrinks:
  assumes "instruction_read r = Inr (i, r')"
  shows "length (src r') < length (src r)"
proof -
  from instruction_read_back [OF assms] obtain cs where
    "src r = cs @ src r'" "spells (insn_reserved (pos r) i) cs (bytes_at (pos r) i)"
    by (auto simp: stood_at_def)
  then show ?thesis by (cases cs) (auto dest: spells_length)
qed

function decode_code_from :: "reader \<Rightarrow> classfile_error + instruction list" where
  "decode_code_from r =
     (if remaining r > 0 then
        case instruction_read r of
          Inl e \<Rightarrow> Inl e
        | Inr (i, r') \<Rightarrow>
            (case decode_code_from r' of Inl e \<Rightarrow> Inl e | Inr out \<Rightarrow> Inr (i # out))
      else Inr [])"
  by pat_completeness auto
termination
  by (relation "measure (\<lambda>r. length (src r))") (auto dest: instruction_read_shrinks)

declare decode_code_from.simps [simp del]

definition decode_code :: "u8 list \<Rightarrow> classfile_error + instruction list" where
  "decode_code bs = decode_code_from (reader_new bs)"

definition encode_code :: "instruction list \<Rightarrow> u8 list" where
  "encode_code instructions = buf (w_for instructions instruction_write writer_new)"

text \<open>The bytes of consecutive instructions from offset \<open>n\<close> on, and the offset behind them.\<close>

fun code_bytes :: "nat \<Rightarrow> instruction list \<Rightarrow> u8 list" where
  "code_bytes n [] = []"
| "code_bytes n (i # is) = bytes_at n i @ code_bytes (n + length (bytes_at n i)) is"

text \<open>The reserved bytes of a whole code array, from offset \<open>n\<close> on.\<close>

fun reserved_in_code :: "nat \<Rightarrow> instruction list \<Rightarrow> bool list" where
  "reserved_in_code n [] = []"
| "reserved_in_code n (i # is) = insn_reserved n i @ reserved_in_code (n + encoded_len i n) is"

fun pc_after :: "nat \<Rightarrow> instruction list \<Rightarrow> nat" where
  "pc_after pc [] = pc"
| "pc_after pc (i # is) = pc_after (pc + encoded_len i pc) is"

lemma w_for_code: "w_for is instruction_write w = w\<lparr>buf := buf w @ code_bytes (length (buf w)) is\<rparr>"
  by (induction "is" arbitrary: w) (simp_all add: wr_eq)

lemma encode_code_eq: "encode_code is = code_bytes 0 is"
  by (simp add: encode_code_def w_for_code)

lemma code_bytes_append:
  "code_bytes n (is @ js) = code_bytes n is @ code_bytes (n + length (code_bytes n is)) js"
  by (induction "is" arbitrary: n) (simp_all add: add.assoc)

lemma pc_after_eq: "pc_after pc is = pc + length (code_bytes pc is)"
  by (induction "is" arbitrary: pc) (simp_all add: encoded_len_eq)

lemma decode_code_run:
  "list_all wf_insn is \<Longrightarrow> decode_code_from \<lparr>src = code_bytes q is, pos = q\<rparr> = Inr is"
proof (induction "is" arbitrary: q)
  case Nil
  then show ?case by (simp add: decode_code_from.simps remaining_def)
next
  case (Cons i "is")
  then show ?case
    by (subst decode_code_from.simps) (simp add: remaining_def instruction_read_run)
qed

lemma decode_code_back:
  "decode_code_from r = Inr is \<Longrightarrow>
     list_all wf_insn is \<and> spells (reserved_in_code (pos r) is) (src r) (code_bytes (pos r) is)"
proof (induction r arbitrary: "is" rule: decode_code_from.induct)
  case (1 r)
  show ?case
  proof (cases "src r = []")
    case True
    with "1.prems" show ?thesis by (subst (asm) decode_code_from.simps) (auto simp: remaining_def)
  next
    case False
    then have more: "remaining r > 0" by (simp add: remaining_def)
    with "1.prems" obtain i r' out where i: "instruction_read r = Inr (i, r')"
      and out: "decode_code_from r' = Inr out" and "is": "is = i # out"
      by (subst (asm) decode_code_from.simps) (auto split: sum.splits)
    from instruction_read_back [OF i] obtain cs where "wf_insn i" "src r = cs @ src r'"
      "spells (insn_reserved (pos r) i) cs (bytes_at (pos r) i)" "pos r' = pos r + length (bytes_at (pos r) i)"
      by (auto simp: stood_at_def)
    then show ?thesis
      using "1.IH" [OF more i refl out] "is" by (simp add: spells_append encoded_len_eq)
  qed
qed

lemma decode_encode_code:
  "list_all wf_insn is \<Longrightarrow> decode_code (encode_code is) = Inr is"
  by (simp add: decode_code_def encode_code_eq reader_new_def decode_code_run)

lemma encode_decode_code:
  "decode_code bs = Inr is \<Longrightarrow> list_all wf_insn is \<and> spells (reserved_in_code 0 is) bs (encode_code is)"
  using decode_code_back [of "reader_new bs" "is"]
  by (simp add: decode_code_def encode_code_eq reader_new_def)

lemma encode_code_length: "length (encode_code is) = pc_after 0 is"
  by (simp add: encode_code_eq pc_after_eq)

lemma instruction_at_pc:
  assumes "list_all wf_insn (is @ i # js)"
  shows "instruction_read
      \<lparr>src = drop (pc_after 0 is) (encode_code (is @ i # js)), pos = pc_after 0 is\<rparr> =
    Inr (i, \<lparr>src = drop (pc_after 0 (is @ [i])) (encode_code (is @ i # js)), pos = pc_after 0 (is @ [i])\<rparr>)"
  using assms
  by (simp add: encode_code_eq pc_after_eq code_bytes_append instruction_read_run)

subsection \<open>Properties\<close>

text \<open>C3: well-formed code is decoded back from its encoding, switch padding and \<open>wide\<close> forms
  included.\<close>

theorem code_round_trip:
  "list_all wf_insn is \<Longrightarrow> decode_code (encode_code is) = Inr is"
  by (rule decode_encode_code)

definition sample_code :: "instruction list" where
  "sample_code =
     [Op_const (Bipush 7), Op_extended (Wide (Wide_Iinc 300 0xFFFB)),
      Op_switch (TableSwitch 10 0 1 [20, 30]), Op_object (InvokeInterface 5 2),
      Op_switch (LookupSwitch 4 [(1, 2)]), Op_return Return]"

lemma code_round_trip_witness: "decode_code (encode_code sample_code) = Inr sample_code"
  by (rule code_round_trip) (simp add: sample_code_def)

text \<open>C4: bytes that decode are reproduced. Decoding yields well-formed instructions, and encoding
  these again gives the input back at every byte, except that exactly the bytes \<open>reserved_in_code\<close>
  marks (padding before a switch table, the fifth byte of \<open>invokeinterface\<close>, the last two of
  \<open>invokedynamic\<close>) come out as zeros; for valid bytecode, where they are zero, the two are equal.\<close>

theorem code_bytes_preserved:
  "decode_code bs = Inr is \<Longrightarrow> list_all wf_insn is \<and> length bs = length (reserved_in_code 0 is) \<and>
     encode_code is = clear_reserved (reserved_in_code 0 is) bs"
  using encode_decode_code [of bs "is"] by (simp add: spells_def)

lemma dereserved_in_code: "decode_code [0xB9, 0, 5, 2, 7] = Inr [Op_object (InvokeInterface 5 2)]"
  by (simp add: decode_code_def decode_code_from.simps remaining_def reader_new_def instruction_read_def
      instruction_arm_def object_read_def r_bind_def r_map_def r_return_def r_u8_def r_u16_def fill_eq
      from_be_def word_rcat_def)

lemma code_bytes_preserved_witness:
  "encode_code [Op_object (InvokeInterface 5 2)] =
     clear_reserved [False, False, False, False, True] [0xB9, 0, 5, 2, 7]"
  using code_bytes_preserved [OF dereserved_in_code] by simp

text \<open>C23: offsets. Summing \<open>encoded_len\<close> along the code gives every instruction's offset: a reader
  placed at the sum of the lengths before instruction \<open>i\<close> reads \<open>i\<close> and stops at the sum
  that includes it, whatever padding the position asks for.\<close>

theorem encoded_len_locates:
  "list_all wf_insn (is @ i # js) \<Longrightarrow>
     instruction_read
       \<lparr>src = drop (pc_after 0 is) (encode_code (is @ i # js)), pos = pc_after 0 is\<rparr> =
     Inr (i, \<lparr>src = drop (pc_after 0 (is @ [i])) (encode_code (is @ i # js)),
              pos = pc_after 0 (is @ [i])\<rparr>)"
  by (rule instruction_at_pc)

lemma encoded_len_locates_witness:
  "instruction_read
     \<lparr>src = drop (pc_after 0 [Op_const Nop])
        (encode_code ([Op_const Nop] @ Op_switch (TableSwitch 10 0 1 [20, 30]) # [Op_return Return])),
      pos = pc_after 0 [Op_const Nop]\<rparr> =
   Inr (Op_switch (TableSwitch 10 0 1 [20, 30]),
     \<lparr>src = drop (pc_after 0 ([Op_const Nop] @ [Op_switch (TableSwitch 10 0 1 [20, 30])]))
        (encode_code ([Op_const Nop] @ Op_switch (TableSwitch 10 0 1 [20, 30]) # [Op_return Return])),
      pos = pc_after 0 ([Op_const Nop] @ [Op_switch (TableSwitch 10 0 1 [20, 30])])\<rparr>)"
  by (rule encoded_len_locates) simp

text \<open>The reserved byte of \<open>invokeinterface\<close> is not kept: the code of \<open>dereserved_in_code\<close> comes back as
  other bytes.\<close>

lemma reserved_byte_lost: "encode_code [Op_object (InvokeInterface 5 2)] = [0xB9, 0, 5, 2, 0]"
  by (simp add: encode_code_def w_for_simps w_do_simps w_u8_eq w_u16_eq be16_def)

end
