(* ===== verification/Constant_Pool.thy ===== *)
theory Constant_Pool
  imports Codec Modified_Utf8 "HOL-Library.Mapping"
begin

text \<open>
  The constant pool, \<open>jals-classfile/src/constant_pool.rs\<close>: the entries with their codec, the
  pool with its 1-based two-slot layout, and the operations that build one (\<open>add\<close>, \<open>replace\<close>,
  \<open>intern\<close> and the typed interning functions). The \<open>BTreeMap\<close> of interned keys is a
  \<open>mapping\<close>; no operation reads its order. Floating-point constants are bit patterns.
\<close>

subsection \<open>Entries\<close>

datatype entry =
    Cp_Utf8 "u8 list"
  | Cp_Integer i32
  | Cp_Float f32_bits
  | Cp_Long i64
  | Cp_Double f64_bits
  | Cp_Class u16 \<comment> \<open>name_index\<close>
  | Cp_String u16 \<comment> \<open>string_index\<close>
  | Cp_FieldRef u16 u16 \<comment> \<open>class_index, name_and_type_index\<close>
  | Cp_MethodRef u16 u16
  | Cp_InterfaceMethodRef u16 u16
  | Cp_NameAndType u16 u16 \<comment> \<open>name_index, descriptor_index\<close>
  | Cp_MethodHandle u8 u16 \<comment> \<open>reference_kind, reference_index\<close>
  | Cp_MethodType u16 \<comment> \<open>descriptor_index\<close>
  | Cp_Dynamic u16 u16 \<comment> \<open>bootstrap_method_attr_index, name_and_type_index\<close>
  | Cp_InvokeDynamic u16 u16
  | Cp_Module u16
  | Cp_Package u16

definition entry_read :: "entry rd" where
  "entry_read = r_bind r_u8 (\<lambda>tag.
     if tag = 1 then r_bind r_u16 (\<lambda>len. r_map Cp_Utf8 (r_bytes (unat len)))
     else if tag = 3 then r_map Cp_Integer r_u32
     else if tag = 4 then r_map Cp_Float r_u32
     else if tag = 5 then r_map Cp_Long r_u64
     else if tag = 6 then r_map Cp_Double r_u64
     else if tag = 7 then r_map Cp_Class r_u16
     else if tag = 8 then r_map Cp_String r_u16
     else if tag = 9 then r_bind r_u16 (\<lambda>c. r_map (Cp_FieldRef c) r_u16)
     else if tag = 10 then r_bind r_u16 (\<lambda>c. r_map (Cp_MethodRef c) r_u16)
     else if tag = 11 then r_bind r_u16 (\<lambda>c. r_map (Cp_InterfaceMethodRef c) r_u16)
     else if tag = 12 then r_bind r_u16 (\<lambda>n. r_map (Cp_NameAndType n) r_u16)
     else if tag = 15 then r_bind r_u8 (\<lambda>k. r_map (Cp_MethodHandle k) r_u16)
     else if tag = 16 then r_map Cp_MethodType r_u16
     else if tag = 17 then r_bind r_u16 (\<lambda>b. r_map (Cp_Dynamic b) r_u16)
     else if tag = 18 then r_bind r_u16 (\<lambda>b. r_map (Cp_InvokeDynamic b) r_u16)
     else if tag = 19 then r_map Cp_Module r_u16
     else if tag = 20 then r_map Cp_Package r_u16
     else r_fail (InvalidConstantTag tag))"

fun entry_write :: "entry \<Rightarrow> writer \<Rightarrow> writer" where
  "entry_write (Cp_Utf8 bytes) =
     w_do [w_u8 1, w_u16 (of_nat (length bytes)), w_bytes bytes]"
| "entry_write (Cp_Integer v) = w_do [w_u8 3, w_u32 v]"
| "entry_write (Cp_Float v) = w_do [w_u8 4, w_u32 v]"
| "entry_write (Cp_Long v) = w_do [w_u8 5, w_u64 v]"
| "entry_write (Cp_Double v) = w_do [w_u8 6, w_u64 v]"
| "entry_write (Cp_Class n) = w_do [w_u8 7, w_u16 n]"
| "entry_write (Cp_String s) = w_do [w_u8 8, w_u16 s]"
| "entry_write (Cp_FieldRef c n) = w_do [w_u8 9, w_u16 c, w_u16 n]"
| "entry_write (Cp_MethodRef c n) = w_do [w_u8 10, w_u16 c, w_u16 n]"
| "entry_write (Cp_InterfaceMethodRef c n) = w_do [w_u8 11, w_u16 c, w_u16 n]"
| "entry_write (Cp_NameAndType n d) = w_do [w_u8 12, w_u16 n, w_u16 d]"
| "entry_write (Cp_MethodHandle k i) = w_do [w_u8 15, w_u8 k, w_u16 i]"
| "entry_write (Cp_MethodType d) = w_do [w_u8 16, w_u16 d]"
| "entry_write (Cp_Dynamic b n) = w_do [w_u8 17, w_u16 b, w_u16 n]"
| "entry_write (Cp_InvokeDynamic b n) = w_do [w_u8 18, w_u16 b, w_u16 n]"
| "entry_write (Cp_Module n) = w_do [w_u8 19, w_u16 n]"
| "entry_write (Cp_Package n) = w_do [w_u8 20, w_u16 n]"

fun wf_entry :: "entry \<Rightarrow> bool" where
  "wf_entry (Cp_Utf8 bytes) = (length bytes < 65536)"
| "wf_entry _ = True"

fun is_wide :: "entry \<Rightarrow> bool" where
  "is_wide (Cp_Long _) = True"
| "is_wide (Cp_Double _) = True"
| "is_wide _ = False"

lemma entry_write_appends: "entry_write x w = w\<lparr>buf := buf w @ buf (entry_write x writer_new)\<rparr>"
  by (cases x) (simp_all add: wr_eq)

lemma entry_read_write:
  "wf_entry x \<Longrightarrow> entry_read \<lparr>src = buf (entry_write x writer_new) @ t, pos = q\<rparr> =
     Inr (x, \<lparr>src = t, pos = q + length (buf (entry_write x writer_new))\<rparr>)"
  by (cases x) (simp_all add: wr_eq entry_read_def rd_run)

lemma entry_write_read:
  "entry_read r = Inr (x, r') \<Longrightarrow> wf_entry x \<and> src r = buf (entry_write x writer_new) @ src r' \<and>
     pos r' = pos r + length (buf (entry_write x writer_new))"
  by (auto simp: wr_eq entry_read_def rd_iff split: if_splits)

interpretation entry: exact_codec entry_read entry_write wf_entry
  by (intro exact_bufI entry_write_appends entry_read_write entry_write_read)

subsection \<open>The pool\<close>

datatype slot = Sentinel | Entry entry | Gap

datatype intern_key =
    Ik_Utf8 "u8 list"
  | Ik_Class u16
  | Ik_String u16
  | Ik_Integer i32
  | Ik_Long i64
  | Ik_Float u32
  | Ik_Double u64
  | Ik_NameAndType u16 u16
  | Ik_FieldRef u16 u16
  | Ik_MethodRef u16 u16
  | Ik_InterfaceMethodRef u16 u16

record constant_pool =
  entries :: "slot list"
  interned :: "(intern_key, u16) mapping"

definition pool_new :: constant_pool where
  "pool_new = \<lparr>entries = [Sentinel], interned = Mapping.empty\<rparr>"

text \<open>
  The \<open>while i < count\<close> loop. The counter is a \<open>u16\<close>: \<open>i += 2\<close> wraps as in a build without
  overflow checks (a build with them panics instead). Every turn consumes the bytes of an entry.
\<close>

lemma entry_bytes_not_Nil [simp]: "encoding entry_write e \<noteq> []"
  unfolding encoding_def by (cases e) (simp_all add: wr_eq)

lemma entry_read_shrinks:
  "entry_read r = Inr (e, r') \<Longrightarrow> length (src r') < length (src r)"
  by (simp add: entry.exact)

function pool_read_loop :: "u16 \<Rightarrow> u16 \<Rightarrow> slot list \<Rightarrow> slot list rd" where
  "pool_read_loop count i slots r =
     (if i < count then
        case entry_read r of
          Inl e \<Rightarrow> Inl e
        | Inr (e, r') \<Rightarrow>
            if is_wide e then pool_read_loop count (i + 2) (slots @ [Entry e, Gap]) r'
            else pool_read_loop count (i + 1) (slots @ [Entry e]) r'
      else Inr (slots, r))"
  by pat_completeness auto
termination
  by (relation "measure (\<lambda>(count, i, slots, r). length (src r))")
    (auto simp del: entry.exact dest: entry_read_shrinks)

declare pool_read_loop.simps [simp del]

definition pool_read :: "constant_pool rd" where
  "pool_read = r_bind r_u16 (\<lambda>count.
     r_map (\<lambda>slots. \<lparr>entries = slots, interned = Mapping.empty\<rparr>)
       (pool_read_loop count 1 [Sentinel]))"

fun slot_write :: "slot \<Rightarrow> writer \<Rightarrow> writer" where
  "slot_write (Entry e) w = entry_write e w"
| "slot_write Sentinel w = w"
| "slot_write Gap w = w"

definition pool_write :: "constant_pool \<Rightarrow> writer \<Rightarrow> writer" where
  "pool_write pool =
     w_do [w_u16 (of_nat (length (entries pool))), w_for (entries pool) slot_write]"

subsection \<open>Layout\<close>

text \<open>
  What every pool looks like behind the sentinel: well-formed entries, each wide one followed
  by its gap, and no other gap. \<open>wf_pool\<close> adds the sentinel and the \<open>u16\<close> count.
\<close>

fun wf_slots :: "slot list \<Rightarrow> bool" where
  "wf_slots [] = True"
| "wf_slots (Entry e # rest) =
     (wf_entry e \<and> (if is_wide e then (case rest of Gap # rest' \<Rightarrow> wf_slots rest' | _ \<Rightarrow> False)
                    else wf_slots rest))"
| "wf_slots _ = False"

definition wf_pool :: "constant_pool \<Rightarrow> bool" where
  "wf_pool pool \<longleftrightarrow> entries pool \<noteq> [] \<and> hd (entries pool) = Sentinel
     \<and> wf_slots (tl (entries pool)) \<and> length (entries pool) \<le> 0xFFFF"

lemma wf_slots_append:
  "wf_slots xs \<Longrightarrow> wf_slots (xs @ ys) \<longleftrightarrow> wf_slots ys"
proof (induction xs rule: wf_slots.induct)
  case (2 e rest)
  then show ?case by (cases "is_wide e") (simp_all split: list.splits slot.splits)
qed simp_all

definition slot_bytes :: "slot \<Rightarrow> u8 list" where
  "slot_bytes slot = (case slot of Entry e \<Rightarrow> encoding entry_write e | _ \<Rightarrow> [])"

lemma slot_write_eq [wr_eq]: "slot_write slot w = w\<lparr>buf := buf w @ slot_bytes slot\<rparr>"
  by (cases slot) (simp_all add: slot_bytes_def wr_eq)

lemma w_for_slots [wr_eq]:
  "w_for slots slot_write w = w\<lparr>buf := buf w @ concat (map slot_bytes slots)\<rparr>"
  by (induction slots arbitrary: w) (simp_all add: wr_eq)

lemma slot_bytes_simps [simp]:
  "slot_bytes Sentinel = []" "slot_bytes Gap = []" "slot_bytes (Entry e) = encoding entry_write e"
  by (simp_all add: slot_bytes_def)

lemma pool_write_eq [wr_eq]:
  "pool_write pool w = w\<lparr>buf := buf w @ be16 (of_nat (length (entries pool)))
     @ concat (map slot_bytes (entries pool))\<rparr>"
  by (simp add: pool_write_def wr_eq)

lemma pool_read_loop_run:
  assumes "wf_slots slots" and "length acc + length slots = unat count"
  shows "pool_read_loop count (of_nat (length acc)) acc
      \<lparr>src = concat (map slot_bytes slots) @ t, pos = q\<rparr> =
    Inr (acc @ slots, \<lparr>src = t, pos = q + length (concat (map slot_bytes slots))\<rparr>)"
  using assms
proof (induction slots arbitrary: acc q rule: wf_slots.induct)
  case 1
  then show ?case
    by (subst pool_read_loop.simps) (auto simp: word_less_nat_alt)
next
  case (2 e rest)
  have less: "(of_nat (length acc) :: u16) < count"
  proof -
    have "length acc < unat count" using 2(4) by simp
    moreover from this have "length acc < 65536" using unat_less_u16 [of count] by linarith
    ultimately show ?thesis by (simp add: word_less_nat_alt)
  qed
  have ok: "wf_entry e" using 2(3) by simp
  show ?case
  proof (cases "is_wide e")
    case True
    with 2(3) obtain rest' where rest': "rest = Gap # rest'" "wf_slots rest'"
      by (auto split: list.splits slot.splits)
    have "pool_read_loop count (of_nat (length (acc @ [Entry e, Gap]))) (acc @ [Entry e, Gap])
        \<lparr>src = concat (map slot_bytes rest') @ t, pos = q + length (encoding entry_write e)\<rparr> =
      Inr ((acc @ [Entry e, Gap]) @ rest', \<lparr>src = t, pos = q + length (encoding entry_write e)
        + length (concat (map slot_bytes rest'))\<rparr>)"
      using 2(4) rest' True by (intro 2(1)) auto
    then show ?thesis
      using less ok True rest'
      by (subst pool_read_loop.simps) (simp add: rd_run ac_simps)
  next
    case False
    have "pool_read_loop count (of_nat (length (acc @ [Entry e]))) (acc @ [Entry e])
        \<lparr>src = concat (map slot_bytes rest) @ t, pos = q + length (encoding entry_write e)\<rparr> =
      Inr ((acc @ [Entry e]) @ rest, \<lparr>src = t, pos = q + length (encoding entry_write e)
        + length (concat (map slot_bytes rest))\<rparr>)"
      using 2(3,4) False by (intro 2(2)) auto
    then show ?thesis
      using less ok False
      by (subst pool_read_loop.simps) (simp add: rd_run ac_simps)
  qed
qed simp_all

lemma pool_read_loop_back:
  "pool_read_loop count i acc r = Inr (slots, r') \<Longrightarrow>
     \<exists>new. slots = acc @ new \<and> wf_slots new \<and> src r = concat (map slot_bytes new) @ src r' \<and>
       pos r' = pos r + length (concat (map slot_bytes new))"
proof (induction count i acc r rule: pool_read_loop.induct)
  case (1 count i acc r)
  show ?case
  proof (cases "i < count")
    case False
    with "1.prems" show ?thesis by (auto simp: pool_read_loop.simps [of count i])
  next
    case True
    with "1.prems" obtain e r1 where e: "entry_read r = Inr (e, r1)"
      by (subst (asm) pool_read_loop.simps) (auto split: sum.splits)
    then have spec: "src r = encoding entry_write e @ src r1" "wf_entry e"
      "pos r1 = pos r + length (encoding entry_write e)" by (simp_all add: rd_iff)
    have loop: "pool_read_loop count i acc r =
        (if is_wide e then pool_read_loop count (i + 2) (acc @ [Entry e, Gap]) r1
         else pool_read_loop count (i + 1) (acc @ [Entry e]) r1)"
      using True e by (simp add: pool_read_loop.simps [of count i])
    show ?thesis
    proof (cases "is_wide e")
      case wide: True
      with loop "1.prems" have "pool_read_loop count (i + 2) (acc @ [Entry e, Gap]) r1 = Inr (slots, r')"
        by simp
      from "1.IH"(1) [OF True e refl wide this]
      obtain new where new: "slots = (acc @ [Entry e, Gap]) @ new" "wf_slots new"
        "src r1 = concat (map slot_bytes new) @ src r'"
        "pos r' = pos r1 + length (concat (map slot_bytes new))" by blast
      show ?thesis using new wide spec by (intro exI [of _ "Entry e # Gap # new"]) simp
    next
      case narrow: False
      with loop "1.prems" have "pool_read_loop count (i + 1) (acc @ [Entry e]) r1 = Inr (slots, r')"
        by simp
      from "1.IH"(2) [OF True e refl narrow this]
      obtain new where new: "slots = (acc @ [Entry e]) @ new" "wf_slots new"
        "src r1 = concat (map slot_bytes new) @ src r'"
        "pos r' = pos r1 + length (concat (map slot_bytes new))" by blast
      show ?thesis using new narrow spec by (intro exI [of _ "Entry e # new"]) simp
    qed
  qed
qed

subsection \<open>Round trips of the pool\<close>

lemma pool_read_run:
  assumes "wf_pool pool"
  shows "pool_read \<lparr>src = encoding pool_write pool @ t, pos = q\<rparr> =
    Inr (pool\<lparr>interned := Mapping.empty\<rparr>, \<lparr>src = t, pos = q + length (encoding pool_write pool)\<rparr>)"
proof -
  obtain slots m where pool: "pool = \<lparr>entries = Sentinel # slots, interned = m\<rparr>"
    and slots: "wf_slots slots" "Suc (length slots) \<le> 0xFFFF"
    using assms by (cases pool; cases "entries pool") (auto simp: wf_pool_def)
  have enc: "encoding pool_write pool =
      be16 (of_nat (Suc (length slots))) @ concat (map slot_bytes slots)"
    using pool by (simp add: encoding_def wr_eq)
  have "pool_read_loop (of_nat (Suc (length slots))) (of_nat (length [Sentinel])) [Sentinel]
      \<lparr>src = concat (map slot_bytes slots) @ t, pos = q + 2\<rparr> =
    Inr ([Sentinel] @ slots, \<lparr>src = t, pos = q + 2 + length (concat (map slot_bytes slots))\<rparr>)"
    using slots by (intro pool_read_loop_run) (simp_all del: of_nat_Suc)
  then show ?thesis
    unfolding enc by (simp add: pool pool_read_def rd_run of_nat_Suc [of 0] del: of_nat_Suc)
qed

text \<open>
  What the reader accepts: a count, then the bytes of exactly the entries it returns. The count
  it read is the number of slots unless a wide entry stands at the last index it declares.
\<close>

lemma pool_read_back:
  assumes "pool_read r = Inr (pool, r')"
  obtains count slots where "pool = \<lparr>entries = Sentinel # slots, interned = Mapping.empty\<rparr>"
    and "wf_slots slots"
    and "src r = be16 count @ concat (map slot_bytes slots) @ src r'"
    and "pos r' = pos r + 2 + length (concat (map slot_bytes slots))"
proof -
  obtain count r1 slots where c: "src r = be16 count @ src r1" "pos r1 = pos r + 2"
    and l: "pool_read_loop count 1 [Sentinel] r1 = Inr (slots, r')"
    and p: "pool = \<lparr>entries = slots, interned = Mapping.empty\<rparr>"
    using assms by (auto simp: pool_read_def rd_iff)
  from pool_read_loop_back [OF l] obtain new where "slots = [Sentinel] @ new" "wf_slots new"
    "src r1 = concat (map slot_bytes new) @ src r'"
    "pos r' = pos r1 + length (concat (map slot_bytes new))" by blast
  then show thesis using c p that [of new count] by simp
qed

subsection \<open>Properties\<close>

text \<open>a well-formed pool is read back from the bytes it writes, wherever they stand, with its
  two-slot entries and gaps in place; only the derived intern index is empty again.\<close>

theorem pool_round_trip:
  "wf_pool pool \<Longrightarrow> pool_read \<lparr>src = buf (pool_write pool writer_new) @ t, pos = q\<rparr> =
     Inr (pool\<lparr>interned := Mapping.empty\<rparr>,
          \<lparr>src = t, pos = q + length (buf (pool_write pool writer_new))\<rparr>)"
  using pool_read_run [of pool t q] by (simp add: encoding_def)

definition sample_pool :: constant_pool where
  "sample_pool =
     \<lparr>entries = [Sentinel, Entry (Cp_Utf8 [0x41]), Entry (Cp_Long 7), Gap, Entry (Cp_Class 1)],
      interned = Mapping.empty\<rparr>"

lemma pool_round_trip_witness:
  "pool_read \<lparr>src = buf (pool_write sample_pool writer_new) @ [0xFF], pos = 8\<rparr> =
     Inr (sample_pool\<lparr>interned := Mapping.empty\<rparr>,
          \<lparr>src = [0xFF], pos = 8 + length (buf (pool_write sample_pool writer_new))\<rparr>)"
  by (rule pool_round_trip) (simp add: sample_pool_def wf_pool_def)

text \<open>
  A \<open>Long\<close> at the last declared index: the reader accepts it, but its gap makes the pool one slot
  longer than the count it read, and that longer count is what \<open>write\<close> emits.
\<close>

lemma wide_entry_at_last_index:
  "pool_read \<lparr>src = be16 2 @ [5] @ be64 v, pos = 0\<rparr> =
     Inr (\<lparr>entries = [Sentinel, Entry (Cp_Long v), Gap], interned = Mapping.empty\<rparr>,
          \<lparr>src = [], pos = 11\<rparr>)"
  using r_u64_run [of v "[]" "Suc (Suc (Suc 0))"]
  by (simp add: pool_read_def rd_run pool_read_loop.simps entry_read_def)

end
