(* ===== verification/Interning.thy ===== *)
theory Interning
  imports Constant_Pool
begin

text \<open>
  Building a constant pool, \<open>jals-classfile/src/constant_pool.rs\<close>: \<open>get\<close>, \<open>next_index\<close>, \<open>add\<close>,
  \<open>replace\<close>, the lazily seeded intern index and the typed interning functions over it, and the
  two readers \<open>utf8\<close> and \<open>class_name\<close>. A \<open>&mut self\<close> method returning \<open>Option\<close> is a function
  from the pool to the option and the pool afterwards, so that what a failing call leaves behind
  is part of the model; \<open>op_bind\<close> is the \<open>?\<close> operator on it.
\<close>

type_synonym 'a pool_op = "constant_pool \<Rightarrow> 'a option \<times> constant_pool"

text \<open>A Rust \<open>str\<close>: its sequence of characters.\<close>

type_synonym chars = "uchar list"

definition op_bind :: "('p \<Rightarrow> 'a option \<times> 'p) \<Rightarrow> ('a \<Rightarrow> 'p \<Rightarrow> 'b option \<times> 'p) \<Rightarrow> 'p \<Rightarrow> 'b option \<times> 'p" where
  "op_bind m f p = (case m p of (None, p') \<Rightarrow> (None, p') | (Some x, p') \<Rightarrow> f x p')"

definition try_from_u16 :: "nat \<Rightarrow> u16 option" where
  "try_from_u16 n = (if n \<le> 0xFFFF then Some (of_nat n) else None)"

subsection \<open>Access and growth\<close>

definition pool_get :: "constant_pool \<Rightarrow> u16 \<Rightarrow> entry option" where
  "pool_get pool index =
     (if unat index < length (entries pool)
      then (case entries pool ! unat index of Entry e \<Rightarrow> Some e | _ \<Rightarrow> None)
      else None)"

definition next_index :: "constant_pool \<Rightarrow> u16" where
  "next_index pool = of_nat (length (entries pool))"

fun check_utf8_length :: "entry \<Rightarrow> unit option" where
  "check_utf8_length (Cp_Utf8 bytes) = (if length bytes > 0xFFFF then None else Some ())"
| "check_utf8_length _ = Some ()"

definition pool_add :: "entry \<Rightarrow> u16 pool_op" where
  "pool_add entry pool =
     (case check_utf8_length entry of
        None \<Rightarrow> (None, pool)
      | Some _ \<Rightarrow>
          let needed = (if is_wide entry then 2 else 1)
          in if length (entries pool) + needed > 0xFFFF then (None, pool)
             else case try_from_u16 (length (entries pool)) of
                    None \<Rightarrow> (None, pool)
                  | Some index \<Rightarrow>
                      let pushed = entries pool @ [Entry entry]
                      in (Some index,
                          pool\<lparr>entries := if is_wide entry then pushed @ [Gap] else pushed\<rparr>))"

definition pool_replace :: "u16 \<Rightarrow> entry \<Rightarrow> entry pool_op" where
  "pool_replace index entry pool =
     (if is_wide entry then (None, pool)
      else case check_utf8_length entry of
        None \<Rightarrow> (None, pool)
      | Some _ \<Rightarrow>
          if unat index < length (entries pool) then
            case entries pool ! unat index of
              Entry previous \<Rightarrow>
                if is_wide previous then (None, pool)
                else (Some previous,
                      pool\<lparr>entries := (entries pool)[unat index := Entry entry],
                           interned := Mapping.empty\<rparr>)
            | _ \<Rightarrow> (None, pool)
          else (None, pool))"

subsection \<open>The intern index\<close>

fun intern_key_of :: "entry \<Rightarrow> intern_key option" where
  "intern_key_of (Cp_Utf8 bytes) = Some (Ik_Utf8 bytes)"
| "intern_key_of (Cp_Class n) = Some (Ik_Class n)"
| "intern_key_of (Cp_String s) = Some (Ik_String s)"
| "intern_key_of (Cp_Integer v) = Some (Ik_Integer v)"
| "intern_key_of (Cp_Long v) = Some (Ik_Long v)"
| "intern_key_of (Cp_Float v) = Some (Ik_Float v)"
| "intern_key_of (Cp_Double v) = Some (Ik_Double v)"
| "intern_key_of (Cp_NameAndType n d) = Some (Ik_NameAndType n d)"
| "intern_key_of (Cp_FieldRef c n) = Some (Ik_FieldRef c n)"
| "intern_key_of (Cp_MethodRef c n) = Some (Ik_MethodRef c n)"
| "intern_key_of (Cp_InterfaceMethodRef c n) = Some (Ik_InterfaceMethodRef c n)"
| "intern_key_of _ = None"

definition seed_step :: "nat \<times> slot \<Rightarrow> (intern_key, u16) mapping \<Rightarrow> (intern_key, u16) mapping" where
  "seed_step ps m =
     (case ps of (position, slot) \<Rightarrow>
        case slot of
          Entry entry \<Rightarrow>
            (case (intern_key_of entry, try_from_u16 position) of
               (Some key, Some index) \<Rightarrow>
                 (if Mapping.lookup m key = None then Mapping.update key index m else m)
             | _ \<Rightarrow> m)
        | _ \<Rightarrow> m)"

definition seed_index :: "constant_pool \<Rightarrow> constant_pool" where
  "seed_index pool =
     (if \<not> Mapping.is_empty (interned pool) \<or> length (entries pool) \<le> 1 then pool
      else pool\<lparr>interned := fold seed_step (List.enumerate 0 (entries pool)) (interned pool)\<rparr>)"

definition intern :: "entry \<Rightarrow> u16 pool_op" where
  "intern entry pool =
     (case intern_key_of entry of
        None \<Rightarrow> pool_add entry pool
      | Some key \<Rightarrow>
          let seeded = seed_index pool
          in case Mapping.lookup (interned seeded) key of
               Some index \<Rightarrow> (Some index, seeded)
             | None \<Rightarrow> op_bind (pool_add entry)
                 (\<lambda>index pool'. (Some index,
                    pool'\<lparr>interned := Mapping.update key index (interned pool')\<rparr>)) seeded)"

subsection \<open>Typed interning\<close>

definition utf8_index :: "chars \<Rightarrow> u16 pool_op" where
  "utf8_index t = intern (Cp_Utf8 (encode_modified_utf8 t))"

definition class_index :: "chars \<Rightarrow> u16 pool_op" where
  "class_index internal_name =
     op_bind (utf8_index internal_name) (\<lambda>name_index. intern (Cp_Class name_index))"

definition string_index :: "chars \<Rightarrow> u16 pool_op" where
  "string_index t = op_bind (utf8_index t) (\<lambda>string_index. intern (Cp_String string_index))"

definition integer_index :: "i32 \<Rightarrow> u16 pool_op" where
  "integer_index v = intern (Cp_Integer v)"

definition long_index :: "i64 \<Rightarrow> u16 pool_op" where
  "long_index v = intern (Cp_Long v)"

definition float_index :: "f32_bits \<Rightarrow> u16 pool_op" where
  "float_index v = intern (Cp_Float v)"

definition double_index :: "f64_bits \<Rightarrow> u16 pool_op" where
  "double_index v = intern (Cp_Double v)"

definition name_and_type_index :: "chars \<Rightarrow> chars \<Rightarrow> u16 pool_op" where
  "name_and_type_index name descriptor =
     op_bind (utf8_index name) (\<lambda>name_index.
     op_bind (utf8_index descriptor) (\<lambda>descriptor_index.
       intern (Cp_NameAndType name_index descriptor_index)))"

definition method_type_index :: "chars \<Rightarrow> u16 pool_op" where
  "method_type_index descriptor =
     op_bind (utf8_index descriptor) (\<lambda>descriptor_index. intern (Cp_MethodType descriptor_index))"

definition field_ref_index :: "chars \<Rightarrow> chars \<Rightarrow> chars \<Rightarrow> u16 pool_op" where
  "field_ref_index owner name descriptor =
     op_bind (class_index owner) (\<lambda>class_index.
     op_bind (name_and_type_index name descriptor) (\<lambda>name_and_type_index.
       intern (Cp_FieldRef class_index name_and_type_index)))"

definition method_ref_index :: "chars \<Rightarrow> chars \<Rightarrow> chars \<Rightarrow> u16 pool_op" where
  "method_ref_index owner name descriptor =
     op_bind (class_index owner) (\<lambda>class_index.
     op_bind (name_and_type_index name descriptor) (\<lambda>name_and_type_index.
       intern (Cp_MethodRef class_index name_and_type_index)))"

definition interface_method_ref_index :: "chars \<Rightarrow> chars \<Rightarrow> chars \<Rightarrow> u16 pool_op" where
  "interface_method_ref_index owner name descriptor =
     op_bind (class_index owner) (\<lambda>class_index.
     op_bind (name_and_type_index name descriptor) (\<lambda>name_and_type_index.
       intern (Cp_InterfaceMethodRef class_index name_and_type_index)))"

definition method_handle_index :: "u8 \<Rightarrow> chars \<Rightarrow> chars \<Rightarrow> chars \<Rightarrow> bool \<Rightarrow> u16 pool_op" where
  "method_handle_index reference_kind owner name descriptor interface_owner =
     op_bind (if interface_owner then interface_method_ref_index owner name descriptor
              else method_ref_index owner name descriptor)
       (\<lambda>reference_index. intern (Cp_MethodHandle reference_kind reference_index))"

definition invoke_dynamic_index :: "u16 \<Rightarrow> chars \<Rightarrow> chars \<Rightarrow> u16 pool_op" where
  "invoke_dynamic_index bootstrap name descriptor =
     op_bind (name_and_type_index name descriptor)
       (\<lambda>name_and_type_index. intern (Cp_InvokeDynamic bootstrap name_and_type_index))"

definition utf8 :: "constant_pool \<Rightarrow> u16 \<Rightarrow> chars option" where
  "utf8 pool index =
     (case pool_get pool index of
        Some (Cp_Utf8 bytes) \<Rightarrow> Some (decode_modified_utf8 bytes)
      | _ \<Rightarrow> None)"

definition class_name :: "constant_pool \<Rightarrow> u16 \<Rightarrow> chars option" where
  "class_name pool index =
     (case pool_get pool index of
        Some (Cp_Class name_index) \<Rightarrow> utf8 pool name_index
      | _ \<Rightarrow> None)"

subsection \<open>Layout is kept\<close>

lemma check_utf8_length_eq: "check_utf8_length e = (if wf_entry e then Some () else None)"
  by (cases e) auto

lemma pool_add_cases:
  obtains (full) "pool_add e p = (None, p)"
      "\<not> (wf_entry e \<and> length (entries p) + (if is_wide e then 2 else 1) \<le> 0xFFFF)"
    | (added) "wf_entry e" "length (entries p) + (if is_wide e then 2 else 1) \<le> 0xFFFF"
        "pool_add e p = (Some (of_nat (length (entries p))),
           p\<lparr>entries := entries p @ (if is_wide e then [Entry e, Gap] else [Entry e])\<rparr>)"
proof (cases "wf_entry e \<and> length (entries p) + (if is_wide e then 2 else 1) \<le> 0xFFFF")
  case True
  then show thesis
    by (intro added) (auto simp: pool_add_def check_utf8_length_eq try_from_u16_def Let_def)
next
  case False
  then show thesis
    by (intro full) (auto simp: pool_add_def check_utf8_length_eq Let_def)
qed

lemma pool_add_wf:
  assumes "wf_pool p"
  shows "wf_pool (snd (pool_add e p))"
proof (cases rule: pool_add_cases [of e p])
  case added
  then show ?thesis
    using assms by (cases "entries p") (auto simp: wf_pool_def wf_slots_append)
qed (use assms in simp)

lemma wf_slots_update:
  "\<lbrakk>wf_slots xs; k < length xs; xs ! k = Entry old; \<not> is_wide old; wf_entry e; \<not> is_wide e\<rbrakk>
     \<Longrightarrow> wf_slots (xs[k := Entry e])"
proof (induction xs arbitrary: k rule: wf_slots.induct)
  case (2 e' rest)
  show ?case
  proof (cases "is_wide e'")
    case True
    with 2(3) obtain rest' where rest': "rest = Gap # rest'" "wf_slots rest'"
      by (auto split: list.splits slot.splits)
    with True 2(5,6) have "2 \<le> k" by (cases k; cases "k - 1") auto
    then obtain j where "k = Suc (Suc j)" by (metis add_2_eq_Suc le_iff_add)
    then show ?thesis using True rest' 2 by auto
  next
    case False
    then show ?thesis using 2 by (cases k) auto
  qed
qed simp_all

lemma pool_replace_cases:
  obtains (refused) "pool_replace i e p = (None, p)"
    | (replaced) old where "\<not> is_wide e" "wf_entry e" "unat i < length (entries p)"
        "entries p ! unat i = Entry old" "\<not> is_wide old"
        "pool_replace i e p = (Some old,
           p\<lparr>entries := (entries p)[unat i := Entry e], interned := Mapping.empty\<rparr>)"
proof (cases "\<not> is_wide e \<and> wf_entry e \<and> unat i < length (entries p) \<and>
    (\<exists>old. entries p ! unat i = Entry old \<and> \<not> is_wide old)")
  case True
  then obtain old where "entries p ! unat i = Entry old" "\<not> is_wide old" by blast
  with True show thesis
    by (intro replaced [of old]) (simp_all add: pool_replace_def check_utf8_length_eq)
next
  case False
  then have "pool_replace i e p = (None, p)"
    by (cases "entries p ! unat i") (auto simp: pool_replace_def check_utf8_length_eq)
  then show thesis by (rule refused)
qed

lemma pool_replace_wf:
  assumes "wf_pool p"
  shows "wf_pool (snd (pool_replace i e p))"
proof (cases rule: pool_replace_cases [of i e p])
  case (replaced old)
  obtain slots where p: "entries p = Sentinel # slots" "wf_slots slots"
    using assms by (cases "entries p") (auto simp: wf_pool_def)
  with replaced obtain k where k: "unat i = Suc k" by (cases "unat i") auto
  then show ?thesis
    using replaced p assms wf_slots_update [of slots k old e] by (auto simp: wf_pool_def)
qed (use assms in simp)

subsection \<open>The index answers as a scan\<close>

text \<open>
  The specification of the intern index: the first slot holding a key. \<open>coherent\<close> is the
  promise of the \<open>interned\<close> field: it is empty, or it answers every key as that scan does.
\<close>

fun slot_key :: "slot \<Rightarrow> intern_key option" where
  "slot_key (Entry e) = intern_key_of e"
| "slot_key _ = None"

fun scan :: "intern_key \<Rightarrow> nat \<Rightarrow> slot list \<Rightarrow> nat option" where
  "scan k i [] = None"
| "scan k i (s # ss) = (if slot_key s = Some k then Some i else scan k (Suc i) ss)"

definition find_key :: "constant_pool \<Rightarrow> intern_key \<Rightarrow> u16 option" where
  "find_key pool k = map_option of_nat (scan k 0 (entries pool))"

definition seeded :: "constant_pool \<Rightarrow> bool" where
  "seeded pool \<longleftrightarrow> (\<forall>k. Mapping.lookup (interned pool) k = find_key pool k)"

definition coherent :: "constant_pool \<Rightarrow> bool" where
  "coherent pool \<longleftrightarrow> Mapping.is_empty (interned pool) \<or> seeded pool"

lemma intern_key_inject:
  "intern_key_of e = Some k \<Longrightarrow> intern_key_of e' = Some k \<Longrightarrow> e = e'"
  by (cases e; cases e') auto

lemma lookup_seed_step:
  assumes "position \<le> 0xFFFF"
  shows "Mapping.lookup (seed_step (position, slot) m) k =
    (case Mapping.lookup m k of
       Some i \<Rightarrow> Some i
     | None \<Rightarrow> if slot_key slot = Some k then Some (of_nat position) else None)"
  using assms
  by (cases slot) (auto simp: seed_step_def try_from_u16_def lookup_update' split: option.split)

lemma lookup_seed:
  "n + length slots \<le> 0x10000 \<Longrightarrow>
     Mapping.lookup (fold seed_step (List.enumerate n slots) m) k =
       (case Mapping.lookup m k of
          Some i \<Rightarrow> Some i
        | None \<Rightarrow> map_option of_nat (scan k n slots))"
proof (induction slots arbitrary: n m)
  case (Cons slot slots)
  then have "n \<le> 0xFFFF" by simp
  with Cons show ?case
    by (simp add: lookup_seed_step split: option.split)
qed (simp split: option.split)

lemma seed_index_seeded:
  assumes "wf_pool p" "coherent p"
  shows "seeded (seed_index p)"
proof (cases "Mapping.is_empty (interned p)")
  case False
  then show ?thesis using assms by (simp add: coherent_def seed_index_def)
next
  case True
  then have none: "Mapping.lookup (interned p) k = None" for k
    by (simp add: Mapping.is_empty_def dom_empty keys_dom_lookup)
  show ?thesis
  proof (cases "length (entries p) \<le> 1")
    case True
    with assms have "entries p = [Sentinel]"
      by (cases "entries p") (auto simp: wf_pool_def)
    then show ?thesis by (simp add: seeded_def seed_index_def find_key_def none)
  next
    case False
    then show ?thesis
      using assms \<open>Mapping.is_empty (interned p)\<close>
      by (simp add: seeded_def seed_index_def find_key_def lookup_seed none wf_pool_def)
  qed
qed

lemma seed_index_entries [simp]: "entries (seed_index p) = entries p"
  by (simp add: seed_index_def)

lemma scan_append:
  "scan k i (xs @ ys) = (case scan k i xs of Some j \<Rightarrow> Some j | None \<Rightarrow> scan k (i + length xs) ys)"
  by (induction xs arbitrary: i) (auto split: option.split)

lemma scan_Some:
  "scan k i slots = Some j \<Longrightarrow> i \<le> j \<and> j < i + length slots \<and> slot_key (slots ! (j - i)) = Some k"
proof (induction slots arbitrary: i)
  case (Cons s ss)
  show ?case
  proof (cases "slot_key s = Some k")
    case False
    with Cons.prems have "scan k (Suc i) ss = Some j" by simp
    from Cons.IH [OF this] show ?thesis by (auto simp: nth_Cons')
  qed (use Cons in auto)
qed simp

lemma scan_prefix: "scan k i xs = Some j \<Longrightarrow> scan k i (xs @ ys) = Some j"
  by (simp add: scan_append)

lemma find_key_get:
  assumes "wf_pool p" "find_key p k = Some i" "intern_key_of e = Some k"
  shows "pool_get p i = Some e"
proof -
  from assms(2) obtain j where j: "scan k 0 (entries p) = Some j" "i = of_nat j"
    by (auto simp: find_key_def)
  from scan_Some [OF j(1)] have "j < length (entries p)" "slot_key (entries p ! j) = Some k" by simp_all
  moreover from this assms(1) have "unat i = j" using j(2) by (simp add: wf_pool_def)
  ultimately show ?thesis
    using assms(3) by (cases "entries p ! j") (auto simp: pool_get_def intro: intern_key_inject)
qed

text \<open>Interning, in terms of the scan: hand back the first holder of the key, or append.\<close>

lemma intern_by_scan:
  assumes "wf_pool p" "coherent p"
  shows "fst (intern e p) =
      (case Option.bind (intern_key_of e) (find_key p) of
         Some i \<Rightarrow> Some i | None \<Rightarrow> fst (pool_add e p))"
    and "entries (snd (intern e p)) =
      (case Option.bind (intern_key_of e) (find_key p) of
         Some i \<Rightarrow> entries p | None \<Rightarrow> entries (snd (pool_add e p)))"
proof -
  have find: "Mapping.lookup (interned (seed_index p)) k = find_key p k" for k
    using seed_index_seeded [OF assms] by (simp add: seeded_def find_key_def)
  have add: "fst (pool_add e (seed_index p)) = fst (pool_add e p) \<and>
      entries (snd (pool_add e (seed_index p))) = entries (snd (pool_add e p))"
    by (simp add: pool_add_def check_utf8_length_eq Let_def split: option.split)
  show "fst (intern e p) =
      (case Option.bind (intern_key_of e) (find_key p) of
         Some i \<Rightarrow> Some i | None \<Rightarrow> fst (pool_add e p))"
    using add by (auto simp: intern_def Let_def find op_bind_def split: option.split prod.split)
  show "entries (snd (intern e p)) =
      (case Option.bind (intern_key_of e) (find_key p) of
         Some i \<Rightarrow> entries p | None \<Rightarrow> entries (snd (pool_add e p)))"
    using add by (auto simp: intern_def Let_def find op_bind_def split: option.split prod.split)
qed

lemma wf_pool_entries: "entries p = entries q \<Longrightarrow> wf_pool p \<longleftrightarrow> wf_pool q"
  by (simp add: wf_pool_def)

lemma intern_wf: "wf_pool p \<Longrightarrow> wf_pool (snd (intern e p))"
  using pool_add_wf [of "seed_index p" e] pool_add_wf [of p e] wf_pool_entries [OF seed_index_entries, of p]
  by (auto simp: intern_def Let_def op_bind_def split: option.split prod.split)
    (auto simp: wf_pool_def split: option.splits prod.splits)

lemma intern_coherent:
  assumes "wf_pool p" "coherent p"
  shows "coherent (snd (intern e p))"
proof (cases "intern_key_of e")
  case None
  show ?thesis
  proof (cases rule: pool_add_cases [of e p])
    case full
    then show ?thesis using assms None by (simp add: intern_def)
  next
    case added
    then show ?thesis
      using assms None
      by (auto simp: intern_def coherent_def seeded_def find_key_def scan_append split: option.split)
  qed
next
  case (Some key)
  have seeded: "seeded (seed_index p)" by (rule seed_index_seeded [OF assms])
  show ?thesis
  proof (cases "find_key p key")
    case found: (Some i)
    then show ?thesis
      using seeded Some by (auto simp: intern_def Let_def coherent_def seeded_def find_key_def)
  next
    case miss: None
    then have look: "Mapping.lookup (interned (seed_index p)) key = None"
      using seeded by (simp add: seeded_def find_key_def)
    show ?thesis
    proof (cases rule: pool_add_cases [of e "seed_index p"])
      case full
      then show ?thesis using seeded Some look by (simp add: intern_def Let_def coherent_def op_bind_def)
    next
      case added
      with Some look have after: "snd (intern e p) =
          \<lparr>entries = entries p @ (if is_wide e then [Entry e, Gap] else [Entry e]),
           interned = Mapping.update key (of_nat (length (entries p))) (interned (seed_index p))\<rparr>"
        by (simp add: intern_def Let_def op_bind_def)
      have "seeded (snd (intern e p))"
        using seeded miss Some
        by (auto simp: after seeded_def find_key_def scan_append lookup_update' split: option.splits)
      then show ?thesis by (simp add: coherent_def)
    qed
  qed
qed

lemma pool_get_append: "pool_get p i = Some x \<Longrightarrow> entries q = entries p @ new \<Longrightarrow> pool_get q i = Some x"
  by (auto simp: pool_get_def nth_append split: if_splits)

lemma pool_get_entries: "entries p = entries q \<Longrightarrow> pool_get p i = pool_get q i"
  by (simp add: pool_get_def)

lemma pool_add_keeps: "pool_get p i = Some x \<Longrightarrow> pool_get (snd (pool_add e p)) i = Some x"
  by (cases rule: pool_add_cases [of e p]) (auto intro: pool_get_append)

lemma pool_add_get:
  assumes "pool_add e p = (Some i, p')"
  shows "pool_get p' i = Some e"
proof (cases rule: pool_add_cases [of e p])
  case added
  then have "length (entries p) < 65536" by (simp split: if_splits)
  with added assms show ?thesis by (auto simp: pool_get_def nth_append)
qed (use assms in simp)

lemma intern_get:
  assumes "wf_pool p" "coherent p" "intern e p = (Some i, p')"
  shows "pool_get p' i = Some e"
proof (cases "Option.bind (intern_key_of e) (find_key p)")
  case (Some j)
  then have "pool_get p j = Some e" and "i = j"
    using assms intern_by_scan(1) [OF assms(1,2), of e]
    by (auto simp: bind_eq_Some_conv intro: find_key_get)
  moreover have "entries p' = entries p"
    using Some assms intern_by_scan(2) [OF assms(1,2), of e] by simp
  ultimately show ?thesis using pool_get_entries [of p' p] by simp
next
  case None
  with assms have "fst (pool_add e p) = Some i" "entries p' = entries (snd (pool_add e p))"
    using intern_by_scan [OF assms(1,2), of e] by simp_all
  then show ?thesis
    using pool_add_get [of e p i "snd (pool_add e p)"] pool_get_entries by (metis prod.collapse)
qed

lemma intern_keeps:
  assumes "wf_pool p" "coherent p" "pool_get p i = Some x"
  shows "pool_get (snd (intern e p)) i = Some x"
proof (cases "Option.bind (intern_key_of e) (find_key p)")
  case None
  then have "entries (snd (intern e p)) = entries (snd (pool_add e p))"
    using intern_by_scan(2) [OF assms(1,2), of e] by simp
  from pool_get_entries [OF this] show ?thesis using pool_add_keeps [OF assms(3)] by simp
next
  case (Some j)
  then have "entries (snd (intern e p)) = entries p"
    using intern_by_scan(2) [OF assms(1,2), of e] by simp
  from pool_get_entries [OF this] show ?thesis using assms(3) by simp
qed

subsection \<open>The interface of interning\<close>

text \<open>
  What the typed interning functions rely on: an operation that keeps the invariant and every
  entry already there, and whose index, when it gives one, holds the entry asked for.
  \<open>delivers m P\<close> says that \<open>m\<close> keeps both and that \<open>P\<close> holds of the index it returns in the
  pool it leaves; it composes along \<open>?\<close>.
\<close>

locale interner =
  fixes op :: "'e \<Rightarrow> 'p \<Rightarrow> u16 option \<times> 'p" and get :: "'p \<Rightarrow> u16 \<Rightarrow> 'e option" and inv :: "'p \<Rightarrow> bool"
  assumes op_inv: "inv p \<Longrightarrow> inv (snd (op e p))"
    and op_get: "inv p \<Longrightarrow> op e p = (Some i, p') \<Longrightarrow> get p' i = Some e"
    and op_keeps: "inv p \<Longrightarrow> get p i = Some x \<Longrightarrow> get (snd (op e p)) i = Some x"
begin

definition keeps :: "'p \<Rightarrow> 'p \<Rightarrow> bool" where
  "keeps p p' \<longleftrightarrow> (\<forall>i x. get p i = Some x \<longrightarrow> get p' i = Some x)"

definition stable :: "('p \<Rightarrow> bool) \<Rightarrow> bool" where
  "stable Q \<longleftrightarrow> (\<forall>p p'. Q p \<longrightarrow> keeps p p' \<longrightarrow> Q p')"

definition delivers :: "('p \<Rightarrow> u16 option \<times> 'p) \<Rightarrow> (u16 \<Rightarrow> 'p \<Rightarrow> bool) \<Rightarrow> bool" where
  "delivers m P \<longleftrightarrow> (\<forall>p. inv p \<longrightarrow> inv (snd (m p)) \<and> keeps p (snd (m p)) \<and>
     (\<forall>i. fst (m p) = Some i \<longrightarrow> P i (snd (m p))))"

lemma delivers_op: "delivers (op e) (\<lambda>i p. get p i = Some e)"
  using op_inv op_keeps op_get by (auto simp: delivers_def keeps_def prod_eq_iff)

lemma stable_get: "stable (\<lambda>p. get p i = Some e)"
  by (simp add: stable_def keeps_def)

lemma delivers_bind:
  assumes "delivers m P" "\<And>i. stable (P i)" "\<And>i. delivers (f i) (Q i)"
  shows "delivers (op_bind m f) (\<lambda>j p. \<exists>i. P i p \<and> Q i j p)"
  unfolding delivers_def
proof (intro allI impI)
  fix p assume inv: "inv p"
  have m: "inv (snd (m p))" "keeps p (snd (m p))" "\<And>i. fst (m p) = Some i \<Longrightarrow> P i (snd (m p))"
    using assms(1) inv by (auto simp: delivers_def)
  show "inv (snd (op_bind m f p)) \<and> keeps p (snd (op_bind m f p)) \<and>
      (\<forall>j. fst (op_bind m f p) = Some j \<longrightarrow>
         (\<exists>i. P i (snd (op_bind m f p)) \<and> Q i j (snd (op_bind m f p))))"
  proof (cases "fst (m p)")
    case None
    then show ?thesis using m by (cases "m p") (simp add: op_bind_def)
  next
    case (Some i)
    have f: "inv (snd (f i (snd (m p))))" "keeps (snd (m p)) (snd (f i (snd (m p))))"
      "\<And>j. fst (f i (snd (m p))) = Some j \<Longrightarrow> Q i j (snd (f i (snd (m p))))"
      using assms(3) [of i] m(1) by (auto simp: delivers_def)
    have "P i (snd (f i (snd (m p))))"
      using assms(2) [of i] m(3) [OF Some] f(2) by (auto simp: stable_def)
    moreover have "op_bind m f p = f i (snd (m p))"
      using Some by (cases "m p") (simp add: op_bind_def)
    ultimately show ?thesis using m(2) f by (auto simp: keeps_def)
  qed
qed

lemma delivers_weaken: "delivers m P \<Longrightarrow> (\<And>i p. P i p \<Longrightarrow> Q i p) \<Longrightarrow> delivers m Q"
  by (auto simp: delivers_def)

lemma delivers_if: "delivers m P \<Longrightarrow> delivers n P \<Longrightarrow> delivers (if b then m else n) P"
  by simp

lemma delivers_run:
  "delivers m P \<Longrightarrow> inv p \<Longrightarrow> m p = (Some i, p') \<Longrightarrow> P i p' \<and> inv p' \<and> keeps p p'"
  by (auto simp: delivers_def)

end

interpretation adder: interner pool_add pool_get wf_pool
  by unfold_locales (auto intro: pool_add_wf pool_add_get pool_add_keeps)

interpretation pool: interner intern pool_get "\<lambda>p. wf_pool p \<and> coherent p"
  by unfold_locales (auto intro: intern_wf intern_coherent intern_get intern_keeps)

subsection \<open>What the typed functions deliver\<close>

text \<open>The pair behind a \<open>NameAndType\<close> index, and the member behind a reference index.\<close>

definition nat_names :: "constant_pool \<Rightarrow> u16 \<Rightarrow> chars \<Rightarrow> chars \<Rightarrow> bool" where
  "nat_names p i name descriptor \<longleftrightarrow>
     (case pool_get p i of
        Some (Cp_NameAndType n d) \<Rightarrow> utf8 p n = Some name \<and> utf8 p d = Some descriptor
      | _ \<Rightarrow> False)"

definition ref_names :: "(u16 \<Rightarrow> u16 \<Rightarrow> entry) \<Rightarrow> constant_pool \<Rightarrow> u16 \<Rightarrow> chars \<Rightarrow> chars \<Rightarrow> chars \<Rightarrow> bool" where
  "ref_names con p i owner name descriptor \<longleftrightarrow>
     (\<exists>c n. pool_get p i = Some (con c n) \<and> class_name p c = Some owner \<and>
       nat_names p n name descriptor)"

lemma utf8_iff: "utf8 p i = Some t \<longleftrightarrow> (\<exists>bs. pool_get p i = Some (Cp_Utf8 bs) \<and> t = decode_modified_utf8 bs)"
  by (auto simp: utf8_def split: option.splits entry.splits)

lemma class_name_iff: "class_name p i = Some t \<longleftrightarrow> (\<exists>n. pool_get p i = Some (Cp_Class n) \<and> utf8 p n = Some t)"
  by (auto simp: class_name_def split: option.splits entry.splits)

lemma nat_names_iff: "nat_names p i a b \<longleftrightarrow>
    (\<exists>n d. pool_get p i = Some (Cp_NameAndType n d) \<and> utf8 p n = Some a \<and> utf8 p d = Some b)"
  by (auto simp: nat_names_def split: option.splits entry.splits)

lemma stable_names:
  "pool.stable (\<lambda>p. utf8 p i = Some t)" "pool.stable (\<lambda>p. class_name p i = Some t)"
  "pool.stable (\<lambda>p. nat_names p i a b)" "pool.stable (\<lambda>p. ref_names con p i c a b)"
  unfolding pool.stable_def pool.keeps_def ref_names_def class_name_iff nat_names_iff utf8_iff
  by blast+

lemma utf8_delivers: "is_text t \<Longrightarrow> pool.delivers (utf8_index t) (\<lambda>i p. utf8 p i = Some t)"
  unfolding utf8_index_def
  by (rule pool.delivers_weaken [OF pool.delivers_op]) (simp add: utf8_iff decode_encode)

lemmas deliver_step = pool.delivers_weaken [OF pool.delivers_bind [OF _ _ pool.delivers_op]]

lemma class_delivers: "is_text t \<Longrightarrow> pool.delivers (class_index t) (\<lambda>i p. class_name p i = Some t)"
  unfolding class_index_def
  by (rule deliver_step [OF utf8_delivers stable_names(1)]) (auto simp: class_name_iff)

lemma string_delivers: "is_text t \<Longrightarrow>
    pool.delivers (string_index t) (\<lambda>i p. \<exists>n. utf8 p n = Some t \<and> pool_get p i = Some (Cp_String n))"
  unfolding string_index_def
  by (rule deliver_step [OF utf8_delivers stable_names(1)])

lemma method_type_delivers: "is_text t \<Longrightarrow>
    pool.delivers (method_type_index t) (\<lambda>i p. \<exists>n. utf8 p n = Some t \<and> pool_get p i = Some (Cp_MethodType n))"
  unfolding method_type_index_def
  by (rule deliver_step [OF utf8_delivers stable_names(1)])

lemma nat_delivers:
  assumes "is_text a" "is_text b"
  shows "pool.delivers (name_and_type_index a b) (\<lambda>i p. nat_names p i a b)"
  unfolding name_and_type_index_def
  by (rule pool.delivers_weaken [OF pool.delivers_bind [OF utf8_delivers [OF assms(1)] stable_names(1)
        pool.delivers_bind [OF utf8_delivers [OF assms(2)] stable_names(1) pool.delivers_op]]])
    (auto simp: nat_names_iff)

text \<open>The three member references differ in their constructor alone.\<close>

lemma ref_delivers:
  assumes "is_text c" "is_text a" "is_text b"
  shows "pool.delivers (op_bind (class_index c) (\<lambda>ci. op_bind (name_and_type_index a b)
      (\<lambda>ni. intern (con ci ni)))) (\<lambda>i p. ref_names con p i c a b)"
  by (rule pool.delivers_weaken [OF pool.delivers_bind [OF class_delivers [OF assms(1)] stable_names(2)
        pool.delivers_bind [OF nat_delivers [OF assms(2,3)] stable_names(3) pool.delivers_op]]])
    (auto simp: ref_names_def)

lemmas member_delivers =
  ref_delivers [where con = Cp_FieldRef, folded field_ref_index_def]
  ref_delivers [where con = Cp_MethodRef, folded method_ref_index_def]
  ref_delivers [where con = Cp_InterfaceMethodRef, folded interface_method_ref_index_def]

lemma method_handle_delivers:
  assumes "is_text c" "is_text a" "is_text b"
  shows "pool.delivers (method_handle_index kind c a b interface_owner) (\<lambda>i p. \<exists>m.
     ref_names (if interface_owner then Cp_InterfaceMethodRef else Cp_MethodRef) p m c a b \<and>
     pool_get p i = Some (Cp_MethodHandle kind m))"
  unfolding method_handle_index_def
  by (rule pool.delivers_bind [OF _ stable_names(4) pool.delivers_op])
    (simp add: member_delivers assms)

lemma invoke_dynamic_delivers:
  assumes "is_text a" "is_text b"
  shows "pool.delivers (invoke_dynamic_index boot a b) (\<lambda>i p. \<exists>n.
     nat_names p n a b \<and> pool_get p i = Some (Cp_InvokeDynamic boot n))"
  unfolding invoke_dynamic_index_def
  by (rule pool.delivers_bind [OF nat_delivers [OF assms] stable_names(3) pool.delivers_op])

subsection \<open>Properties\<close>

text \<open>C18: the intern index answers as a scan of the pool would. In a well-formed pool whose index is
  coherent, interning an entry gives the first index already holding it, and appends it only when
  there is none; entries no key exists for are always appended. A pool with an empty index is
  coherent, and interning and replacing keep it so (\<open>interning_keeps_coherence\<close>); a direct \<open>add\<close>
  behind a seeded index does not (\<open>add_hides_from_intern\<close>).\<close>

theorem intern_answers_as_scan:
  "wf_pool p \<Longrightarrow> coherent p \<Longrightarrow>
     fst (intern e p) =
       (case Option.bind (intern_key_of e) (find_key p) of
          Some i \<Rightarrow> Some i | None \<Rightarrow> fst (pool_add e p)) \<and>
     entries (snd (intern e p)) =
       (case Option.bind (intern_key_of e) (find_key p) of
          Some i \<Rightarrow> entries p | None \<Rightarrow> entries (snd (pool_add e p)))"
  using intern_by_scan [of p e] by simp

lemma sample_pool_inv: "wf_pool sample_pool" "coherent sample_pool"
  by (simp_all add: sample_pool_def wf_pool_def coherent_def Mapping.is_empty_empty)

lemma intern_answers_as_scan_witness:
  "fst (intern (Cp_Long 7) sample_pool) = Some 2 \<and>
   entries (snd (intern (Cp_Integer 7) sample_pool)) = entries sample_pool @ [Entry (Cp_Integer 7)]"
  using intern_answers_as_scan [OF sample_pool_inv, of "Cp_Long 7"]
    intern_answers_as_scan [OF sample_pool_inv, of "Cp_Integer 7"]
  by (simp add: find_key_def sample_pool_def pool_add_def try_from_u16_def)

text \<open>C20: the layout invariant. Adding, replacing and interning keep a well-formed pool well-formed,
  in any order and whatever the state of the intern index: the sentinel, every wide entry with its
  gap, lengths and counts within \<open>u16\<close>.\<close>

theorem pool_operations_keep_layout:
  "wf_pool p \<Longrightarrow>
     wf_pool (snd (pool_add e p)) \<and> wf_pool (snd (pool_replace i e p)) \<and> wf_pool (snd (intern e p))"
  by (simp add: pool_add_wf pool_replace_wf intern_wf)

lemma pool_operations_keep_layout_witness:
  "wf_pool (snd (pool_add (Cp_Double 1) sample_pool)) \<and>
   wf_pool (snd (pool_replace 1 (Cp_Double 1) sample_pool)) \<and>
   wf_pool (snd (intern (Cp_Double 1) sample_pool))"
  by (rule pool_operations_keep_layout [OF sample_pool_inv(1)])

lemma replace_coherent: "coherent p \<Longrightarrow> coherent (snd (pool_replace i e p))"
  by (cases rule: pool_replace_cases [of i e p]) (simp_all add: coherent_def Mapping.is_empty_empty)

text \<open>C19: the index stays coherent under interning and replacing, so a pool built by these
  operations from the empty one, or from one read from bytes, never interns a duplicate.\<close>

theorem interning_keeps_coherence:
  "wf_pool p \<Longrightarrow> coherent p \<Longrightarrow>
     coherent (snd (intern e p)) \<and> coherent (snd (pool_replace i e' p))"
  by (simp add: intern_coherent replace_coherent)

lemma interning_keeps_coherence_witness:
  "coherent (snd (intern (Cp_Class 1) sample_pool)) \<and>
   coherent (snd (pool_replace 4 (Cp_Class 2) sample_pool))"
  by (rule interning_keeps_coherence [OF sample_pool_inv])

text \<open>A class interned by name is found by name. The index \<open>class_index\<close> returns names the very
  text in the resulting pool, and every index handed out before keeps its entry.\<close>

theorem class_index_names_class:
  "wf_pool p \<Longrightarrow> coherent p \<Longrightarrow> is_text name \<Longrightarrow> class_index name p = (Some i, p') \<Longrightarrow>
     class_name p' i = Some name \<and> (\<forall>j x. pool_get p j = Some x \<longrightarrow> pool_get p' j = Some x)"
  using pool.delivers_run [OF class_delivers, of name p i p'] by (simp add: pool.keeps_def)

lemma sample_class_index:
  "class_index [0x42] sample_pool = (Some 6, snd (class_index [0x42] sample_pool))"
  by (simp add: prod_eq_iff class_index_def utf8_index_def intern_def op_bind_def sample_pool_def
      seed_index_def seed_step_def pool_add_def try_from_u16_def encode_modified_utf8_def encode_char_def
      Mapping.is_empty_empty lookup_update' Let_def List.enumerate_simps)

lemma class_index_names_class_witness:
  "class_name (snd (class_index [0x42] sample_pool)) 6 = Some [0x42]"
  using class_index_names_class [OF sample_pool_inv _ sample_class_index]
  by (simp add: is_text_def is_scalar_def)

text \<open>C22: a member reference resolves to its parts. Interning a method reference (or, with the other
  constructors, a field or interface method reference) leaves a pool in which the returned index
  leads to exactly the owner, name and descriptor given.\<close>

theorem member_reference_resolves:
  "wf_pool p \<Longrightarrow> coherent p \<Longrightarrow> is_text c \<Longrightarrow> is_text a \<Longrightarrow> is_text d \<Longrightarrow>
     (field_ref_index c a d p = (Some i, p') \<longrightarrow> ref_names Cp_FieldRef p' i c a d) \<and>
     (method_ref_index c a d p = (Some i, p') \<longrightarrow> ref_names Cp_MethodRef p' i c a d) \<and>
     (interface_method_ref_index c a d p = (Some i, p') \<longrightarrow>
        ref_names Cp_InterfaceMethodRef p' i c a d)"
  using pool.delivers_run [OF member_delivers(1), of c a d p i p']
    pool.delivers_run [OF member_delivers(2), of c a d p i p']
    pool.delivers_run [OF member_delivers(3), of c a d p i p']
  by simp

lemma sample_method_ref:
  "method_ref_index [0x42] [0x43] [0x44] sample_pool =
     (Some 10, snd (method_ref_index [0x42] [0x43] [0x44] sample_pool))"
  by (simp add: prod_eq_iff method_ref_index_def class_index_def name_and_type_index_def utf8_index_def
      intern_def op_bind_def sample_pool_def seed_index_def seed_step_def pool_add_def try_from_u16_def
      encode_modified_utf8_def encode_char_def Mapping.is_empty_empty lookup_update' Let_def
      List.enumerate_simps Mapping.is_empty_def)

lemma member_reference_resolves_witness:
  "ref_names Cp_MethodRef (snd (method_ref_index [0x42] [0x43] [0x44] sample_pool)) 10 [0x42] [0x43] [0x44]"
  using member_reference_resolves [OF sample_pool_inv, of "[0x42]" "[0x43]" "[0x44]"] sample_method_ref
  by (simp add: is_text_def is_scalar_def)

text \<open>Replacing an entry changes that index alone. On success the index held the returned entry
  and now holds the new one, every other index keeps its entry, and the pool has the same count.\<close>

theorem replace_changes_one_index:
  "pool_replace i e p = (Some old, p') \<Longrightarrow>
     pool_get p i = Some old \<and> pool_get p' i = Some e \<and> next_index p' = next_index p \<and>
     (\<forall>j. j \<noteq> i \<longrightarrow> pool_get p' j = pool_get p j)"
  by (cases rule: pool_replace_cases [of i e p])
    (auto simp: pool_get_def next_index_def nth_list_update word_unat_eq_iff)

lemma replace_changes_one_index_witness:
  "pool_get (snd (pool_replace 4 (Cp_Class 2) sample_pool)) 4 = Some (Cp_Class 2)"
proof -
  have "pool_replace 4 (Cp_Class 2) sample_pool =
      (Some (Cp_Class 1), snd (pool_replace 4 (Cp_Class 2) sample_pool))"
    by (simp add: pool_replace_def sample_pool_def)
  from replace_changes_one_index [OF this] show ?thesis by simp
qed

text \<open>
  Interning behind a direct \<open>add\<close>: once the index is seeded, an entry added directly is not in it,
  and interning that entry appends a second copy where a scan would find the first.
\<close>

lemma add_hides_from_intern:
  "let p = snd (intern (Cp_Integer 1) pool_new);
       (added, p') = pool_add (Cp_Integer 2) p
   in added = Some 2 \<and> find_key p' (Ik_Integer 2) = Some 2 \<and>
      fst (intern (Cp_Integer 2) p') = Some 3"
  by (simp add: Let_def pool_new_def intern_def seed_index_def pool_add_def try_from_u16_def
      op_bind_def Mapping.is_empty_empty find_key_def lookup_update' Mapping.is_empty_def)

end
