(* ===== verification/Attribute.thy ===== *)
theory Attribute
  imports Attribute_Body Code_Array Interning
begin

text \<open>
  \<open>jals-classfile/src/attribute.rs\<close>: \<open>Attribute\<close>, the bodies that hold further attributes
  (\<open>Code\<close>, \<open>Record\<close>), the \<open>Unknown\<close> fallback, the dispatch on the attribute's name and the
  back-patched length. The reader recurses through \<open>Code\<close> and \<open>Record\<close>; like that of element
  values it carries a depth bound, set to the input's length, and \<open>attribute_read_rec\<close> shows that
  the bound never shows. Everything is byte-exact but the reserved bytes inside bytecode, which
  \<open>attribute_reserved\<close> locates.
\<close>

subsection \<open>The \<open>code\<close> array behind its length\<close>

definition r_lift :: "classfile_error + 'a \<Rightarrow> 'a rd" where
  "r_lift v r = (case v of Inl e \<Rightarrow> Inl e | Inr x \<Rightarrow> Inr (x, r))"

definition code_array_read :: "instruction list rd" where
  "code_array_read = r_bind r_u32 (\<lambda>code_length.
     r_bind (r_bytes (unat code_length)) (\<lambda>bytes. r_lift (decode_code bytes)))"

definition code_array_write :: "instruction list \<Rightarrow> writer \<Rightarrow> writer" where
  "code_array_write instructions =
     (let code = encode_code instructions in w_do [w_u32 (of_nat (length code)), w_bytes code])"

definition wf_code_array :: "instruction list \<Rightarrow> bool" where
  "wf_code_array code \<longleftrightarrow> list_all wf_insn code \<and> length (encode_code code) < 2 ^ 32"

lemma r_lift_iff [rd_iff]: "r_lift v r = Inr (x, r') \<longleftrightarrow> v = Inr x \<and> r' = r"
  by (cases v) (auto simp: r_lift_def)

definition code_array_reserved :: "instruction list \<Rightarrow> bool list" where
  "code_array_reserved code = plain_bytes 4 @ reserved_in_code 0 code"

interpretation code_array: codec code_array_read code_array_write wf_code_array code_array_reserved
proof (rule codecI [where E = "\<lambda>c. be32 (of_nat (length (encode_code c))) @ encode_code c"])
  show "code_array_write x w = w\<lparr>buf := buf w @ be32 (of_nat (length (encode_code x))) @ encode_code x\<rparr>" for x w
    by (simp add: code_array_write_def Let_def wr_eq)
next
  show "code_array_read \<lparr>src = (be32 (of_nat (length (encode_code x))) @ encode_code x) @ t, pos = q\<rparr> =
      Inr (x, \<lparr>src = t, pos = q + length (be32 (of_nat (length (encode_code x))) @ encode_code x)\<rparr>)"
    if "wf_code_array x" for x t q
    using that by (simp add: wf_code_array_def code_array_read_def rd_run r_lift_def decode_encode_code)
next
  fix r x r' assume "code_array_read r = Inr (x, r')"
  then obtain n bs where r: "src r = be32 n @ bs @ src r'" "length bs = unat n" "pos r' = pos r + 4 + length bs"
    and x: "decode_code bs = Inr x"
    by (auto simp: code_array_read_def rd_iff)
  from encode_decode_code [OF x] have wf: "list_all wf_insn x" and z: "spells (reserved_in_code 0 x) bs (encode_code x)"
    by simp_all
  have len: "length (encode_code x) = unat n" using spells_length [OF z] r(2) by simp
  then have n: "n = of_nat (length (encode_code x))" "length (encode_code x) < 2 ^ 32" by simp_all
  have "spells (code_array_reserved x) (be32 n @ bs) (be32 (of_nat (length (encode_code x))) @ encode_code x)"
    using z len by (simp add: code_array_reserved_def spells_plain_append)
  then show "wf_code_array x \<and>
      (\<exists>cs. src r = cs @ src r' \<and>
         spells (code_array_reserved x) cs (be32 (of_nat (length (encode_code x))) @ encode_code x)) \<and>
      pos r' = pos r + length (be32 (of_nat (length (encode_code x))) @ encode_code x)"
    using r wf n(2) len by (auto simp: wf_code_array_def intro!: exI [of _ "be32 n @ bs"])
qed

subsection \<open>Attributes\<close>

datatype attribute = Attribute (attr_name_index: u16) (attr_body: attribute_body)
and attribute_body =
    Flat flat_body
  | Code code_attribute
  | Record "record_component list"
  | Unknown "u8 list"
and code_attribute =
    Code_Attribute (ca_max_stack: u16) (ca_max_locals: u16) (ca_code: "instruction list")
      (ca_exception_table: "exception_table_entry list") (ca_attributes: "attribute list")
and record_component =
    Record_Component (rc_name_index: u16) (rc_descriptor_index: u16) (rc_attributes: "attribute list")

text \<open>The readers, given the one for the attributes inside.\<close>

definition code_read_with :: "attribute rd \<Rightarrow> code_attribute rd" where
  "code_read_with rec =
     r_bind r_u16 (\<lambda>max_stack.
     r_bind r_u16 (\<lambda>max_locals.
     r_bind code_array_read (\<lambda>code.
     r_bind (r_list exception_read) (\<lambda>exception_table.
     r_bind (r_list rec) (\<lambda>attributes.
       r_return (Code_Attribute max_stack max_locals code exception_table attributes))))))"

definition component_read_with :: "attribute rd \<Rightarrow> record_component rd" where
  "component_read_with rec =
     r_bind r_u16 (\<lambda>name_index.
     r_bind r_u16 (\<lambda>descriptor_index.
     r_bind (r_list rec) (\<lambda>attributes.
       r_return (Record_Component name_index descriptor_index attributes))))"

definition body_parse_with :: "attribute rd \<Rightarrow> chars \<Rightarrow> u8 list \<Rightarrow> attribute_body option" where
  "body_parse_with rec name bytes =
     (if name = str ''Code'' then parse_all (r_map Code (code_read_with rec)) bytes
      else if name = str ''Record'' then
        parse_all (r_map Record (r_list (component_read_with rec))) bytes
      else map_option Flat (parse_flat name bytes))"

definition attribute_read_with :: "attribute rd \<Rightarrow> constant_pool \<Rightarrow> attribute rd" where
  "attribute_read_with rec pool =
     r_bind r_u16 (\<lambda>name_index.
     r_bind r_u32 (\<lambda>len.
     r_bind (r_bytes (unat len)) (\<lambda>body_bytes.
       let parsed = (case utf8 pool name_index of
                       Some name \<Rightarrow> body_parse_with rec name body_bytes
                     | None \<Rightarrow> None)
       in r_return (Attribute name_index
            (case parsed of Some b \<Rightarrow> b | None \<Rightarrow> Unknown body_bytes)))))"

fun attribute_read_bounded :: "constant_pool \<Rightarrow> nat \<Rightarrow> attribute rd" where
  "attribute_read_bounded pool 0 = r_bind r_u16 (\<lambda>_. r_fail (Malformed ''depth''))"
| "attribute_read_bounded pool (Suc n) =
     attribute_read_with (attribute_read_bounded pool n) pool"

definition attribute_read :: "constant_pool \<Rightarrow> attribute rd" where
  "attribute_read pool = unbounded (attribute_read_bounded pool)"

definition attributes_read_all :: "constant_pool \<Rightarrow> attribute list rd" where
  "attributes_read_all pool = r_list (attribute_read pool)"

fun attribute_write :: "attribute \<Rightarrow> writer \<Rightarrow> writer"
  and body_write :: "attribute_body \<Rightarrow> writer \<Rightarrow> writer"
  and code_write :: "code_attribute \<Rightarrow> writer \<Rightarrow> writer"
  and component_write :: "record_component \<Rightarrow> writer \<Rightarrow> writer" where
  "attribute_write (Attribute name_index b) =
     (\<lambda>w. case reserve_u32_len (w_u16 name_index w) of
            (patch, w') \<Rightarrow> patch_u32_len patch (body_write b w'))"
| "body_write (Flat b) = flat_write b"
| "body_write (Code c) = code_write c"
| "body_write (Record components) = w_list component_write components"
| "body_write (Unknown bytes) = w_bytes bytes"
| "code_write (Code_Attribute max_stack max_locals code exception_table attributes) =
     w_do [w_u16 max_stack, w_u16 max_locals, code_array_write code,
       w_list exception_write exception_table, w_list attribute_write attributes]"
| "component_write (Record_Component name_index descriptor_index attributes) =
     w_do [w_u16 name_index, w_u16 descriptor_index, w_list attribute_write attributes]"

definition attributes_write_all :: "attribute list \<Rightarrow> writer \<Rightarrow> writer" where
  "attributes_write_all attrs = w_list attribute_write attrs"

subsection \<open>Reserved bytes of an attribute\<close>

text \<open>
  Only the \<open>code\<close> array of a \<open>Code\<close> attribute has reserved bytes; attributes nested in \<open>Code\<close> and
  \<open>Record\<close> are walked for further ones.
\<close>

fun attribute_reserved :: "attribute \<Rightarrow> bool list"
  and body_reserved :: "attribute_body \<Rightarrow> bool list"
  and reserved_in_code_attribute :: "code_attribute \<Rightarrow> bool list"
  and component_reserved :: "record_component \<Rightarrow> bool list" where
  "attribute_reserved (Attribute name_index b) = plain_bytes 6 @ body_reserved b"
| "body_reserved (Flat b) = plain_bytes (length (encoding flat_write b))"
| "body_reserved (Code c) = reserved_in_code_attribute c"
| "body_reserved (Record components) = list_mask component_reserved components"
| "body_reserved (Unknown bytes) = plain_bytes (length bytes)"
| "reserved_in_code_attribute (Code_Attribute max_stack max_locals code exception_table attributes) =
     plain_bytes 4 @ code_array_reserved code @
     plain_bytes (length (encoding (w_list exception_write) exception_table)) @
     list_mask attribute_reserved attributes"
| "component_reserved (Record_Component name_index descriptor_index attributes) =
     plain_bytes 4 @ list_mask attribute_reserved attributes"

subsection \<open>Well-formed attributes\<close>

definition wf_code_with :: "(attribute \<Rightarrow> bool) \<Rightarrow> code_attribute \<Rightarrow> bool" where
  "wf_code_with ok c \<longleftrightarrow> wf_code_array (ca_code c) \<and> length (ca_exception_table c) < 65536 \<and>
     wf_list ok (ca_attributes c)"

definition wf_component_with :: "(attribute \<Rightarrow> bool) \<Rightarrow> record_component \<Rightarrow> bool" where
  "wf_component_with ok c \<longleftrightarrow> wf_list ok (rc_attributes c)"

text \<open>
  A body is well-formed under its name; \<open>Unknown\<close> only when the name has no reader or the reader
  refuses the bytes.
\<close>

definition wf_body_with :: "attribute rd \<Rightarrow> (attribute \<Rightarrow> bool) \<Rightarrow> chars option \<Rightarrow> attribute_body \<Rightarrow> bool" where
  "wf_body_with rec ok name b \<longleftrightarrow>
     (case b of
        Flat f \<Rightarrow> name = Some (str (flat_name f)) \<and> wf_flat f
      | Code c \<Rightarrow> name = Some (str ''Code'') \<and> wf_code_with ok c
      | Record cs \<Rightarrow> name = Some (str ''Record'') \<and> wf_list (wf_component_with ok) cs
      | Unknown bytes \<Rightarrow>
          (case name of None \<Rightarrow> True | Some n \<Rightarrow> body_parse_with rec n bytes = None))"

definition wf_attribute_with :: "attribute rd \<Rightarrow> (attribute \<Rightarrow> bool) \<Rightarrow> constant_pool \<Rightarrow> attribute \<Rightarrow> bool" where
  "wf_attribute_with rec ok pool a \<longleftrightarrow>
     wf_body_with rec ok (utf8 pool (attr_name_index a)) (attr_body a) \<and>
     length (encoding body_write (attr_body a)) < 2 ^ 32"

fun wf_attribute_to :: "constant_pool \<Rightarrow> nat \<Rightarrow> attribute \<Rightarrow> bool" where
  "wf_attribute_to pool 0 = (\<lambda>_. False)"
| "wf_attribute_to pool (Suc n) =
     wf_attribute_with (attribute_read_bounded pool n) (wf_attribute_to pool n) pool"

definition wf_attribute :: "constant_pool \<Rightarrow> attribute \<Rightarrow> bool" where
  "wf_attribute pool a \<longleftrightarrow> wf_attribute_to pool (length (encoding attribute_write a)) a"

subsection \<open>The contract, one level at a time\<close>

lemma patched_append:
  assumes "\<And>w. wr w = w\<lparr>buf := buf w @ bs\<rparr>"
  shows "(case reserve_u32_len w of (patch, w') \<Rightarrow> patch_u32_len patch (wr w')) =
    w\<lparr>buf := buf w @ be32 (of_nat (length bs)) @ bs\<rparr>"
  using patch_reserved [where b = "buf w" and w = w and body = bs] by (simp add: reserve_u32_len_def assms)

lemma attribute_write_appends:
  "attribute_write a w = w\<lparr>buf := buf w @ encoding attribute_write a\<rparr>"
  "body_write b w = w\<lparr>buf := buf w @ encoding body_write b\<rparr>"
  "code_write c w = w\<lparr>buf := buf w @ encoding code_write c\<rparr>"
  "component_write d w = w\<lparr>buf := buf w @ encoding component_write d\<rparr>"
proof (induction a and b and c and d arbitrary: w and w and w and w)
  case (Attribute n b)
  show ?case by (rule appendsI) (simp add: patched_append [OF Attribute] wr_eq)
next
  case (Flat b)
  show ?case
    by (rule appendsI [where bs = "encoding flat_write b"]) (cases b; simp add: wr_eq flat_encoding)
next
  case (Code c)
  show ?case by (rule appendsI) (simp add: Code)
next
  case (Record cs)
  then show ?case by (intro appendsI) (simp add: w_list_appends [of cs component_write])
next
  case (Unknown bs)
  show ?case by (rule appendsI) (simp add: wr_eq)
next
  case (Code_Attribute ms ml code et attrs)
  then show ?case
    by (intro appendsI) (simp add: wr_eq w_list_appends [of attrs attribute_write])
next
  case (Record_Component n d attrs)
  then show ?case by (intro appendsI) (simp add: wr_eq w_list_appends [of attrs attribute_write])
qed

lemma attribute_encoding:
  "encoding attribute_write (Attribute n b) =
     be16 n @ be32 (of_nat (length (encoding body_write b))) @ encoding body_write b"
  by (rule encoding_eqI) (simp add: patched_append [OF attribute_write_appends(2)] wr_eq)

lemma code_step:
  assumes "codec rec attribute_write ok attribute_reserved"
  shows "codec (code_read_with rec) code_write (wf_code_with ok) reserved_in_code_attribute"
proof -
  let ?f = "\<lambda>(ms, ml, c, et, as). Code_Attribute ms ml c et as"
  let ?g = "\<lambda>c. (ca_max_stack c, ca_max_locals c, ca_code c, ca_exception_table c, ca_attributes c)"
  note parts = codec_map [where f = ?f and g = ?g, OF codec_pair [OF u16.codec_axioms codec_pair [OF u16.codec_axioms
    codec_pair [OF code_array.codec_axioms codec_pair [OF exceptions.codec_axioms codec.list_codec [OF assms]]]]]]
  have rd: "code_read_with rec = r_map ?f (r_bind r_u16 (\<lambda>a. r_map (Pair a) (r_bind r_u16 (\<lambda>b. r_map (Pair b)
      (r_bind code_array_read (\<lambda>c. r_map (Pair c) (r_bind (r_list exception_read)
        (\<lambda>d. r_map (Pair d) (r_list rec)))))))))"
    by (simp add: code_read_with_def r_map_bind r_map_map r_bind_assoc) (simp add: r_map_def)
  have wr: "code_write c = (\<lambda>(x, y). w_do [w_u16 x, (\<lambda>(x, y). w_do [w_u16 x, (\<lambda>(x, y). w_do [code_array_write x,
      (\<lambda>(x, y). w_do [w_list exception_write x, w_list attribute_write y]) y]) y]) y]) (?g c)" for c
    by (cases c) (simp add: fun_eq_iff w_do_simps)
  have ok: "wf_code_with ok c = (\<lambda>(x, y). True \<and> (\<lambda>(x, y). True \<and> (\<lambda>(x, y). wf_code_array x \<and>
      (\<lambda>(x, y). wf_list (\<lambda>_. True) x \<and> wf_list ok y) y) y) y) (?g c)" for c
    by (simp add: wf_code_with_def)
  have mask: "reserved_in_code_attribute c = (\<lambda>(x, y). plain_bytes (length (encoding w_u16 x)) @
      (\<lambda>(x, y). plain_bytes (length (encoding w_u16 x)) @ (\<lambda>(x, y). code_array_reserved x @
      (\<lambda>(x, y). plain_bytes (length (encoding (w_list exception_write) x)) @ list_mask attribute_reserved y) y) y) y) (?g c)" for c
    by (cases c) (simp add: encoding_u16 numeral_eq_Suc)
  have "codec (code_read_with rec) (\<lambda>c. code_write c) (\<lambda>c. wf_code_with ok c) (\<lambda>c. reserved_in_code_attribute c)"
    unfolding rd wr ok mask by (rule parts) (auto simp: code_attribute.expand)
  then show ?thesis by simp
qed

lemma component_step:
  assumes "codec rec attribute_write ok attribute_reserved"
  shows "codec (component_read_with rec) component_write (wf_component_with ok) component_reserved"
proof -
  let ?f = "\<lambda>(n, d, as). Record_Component n d as"
  let ?g = "\<lambda>c. (rc_name_index c, rc_descriptor_index c, rc_attributes c)"
  note parts = codec_map [where f = ?f and g = ?g, OF codec_pair [OF u16.codec_axioms codec_pair [OF u16.codec_axioms
    codec.list_codec [OF assms]]]]
  have rd: "component_read_with rec = r_map ?f (r_bind r_u16 (\<lambda>a. r_map (Pair a)
      (r_bind r_u16 (\<lambda>b. r_map (Pair b) (r_list rec)))))"
    by (simp add: component_read_with_def r_map_bind r_map_map r_bind_assoc) (simp add: r_map_def)
  have wr: "component_write c = (\<lambda>(x, y). w_do [w_u16 x, (\<lambda>(x, y). w_do [w_u16 x, w_list attribute_write y]) y]) (?g c)"
    for c by (cases c) (simp add: fun_eq_iff w_do_simps)
  have ok: "wf_component_with ok c = (\<lambda>(x, y). True \<and> (\<lambda>(x, y). True \<and> wf_list ok y) y) (?g c)" for c
    by (simp add: wf_component_with_def)
  have mask: "component_reserved c = (\<lambda>(x, y). plain_bytes (length (encoding w_u16 x)) @
      (\<lambda>(x, y). plain_bytes (length (encoding w_u16 x)) @ list_mask attribute_reserved y) y) (?g c)" for c
    by (cases c) (simp add: encoding_u16 numeral_eq_Suc)
  have "codec (component_read_with rec) (\<lambda>c. component_write c) (\<lambda>c. wf_component_with ok c) (\<lambda>c. component_reserved c)"
    unfolding rd wr ok mask by (rule parts) (auto simp: record_component.expand)
  then show ?thesis by simp
qed

text \<open>Parsing a whole body with a codec's reader.\<close>

lemma parse_all_run:
  assumes "codec rd wr ok M" "ok x"
  shows "parse_all (r_map C rd) (encoding wr x) = Some (C x)"
  using codec.read_write [OF assms, of "[]" 0] by (simp add: parse_all_iff rd_iff)

lemma parse_all_back:
  assumes "codec rd wr ok M" "parse_all (r_map C rd) bs = Some b"
  shows "\<exists>x. b = C x \<and> ok x \<and> spells (M x) bs (encoding wr x)"
proof -
  from assms(2) obtain x r where "rd \<lparr>src = bs, pos = 0\<rparr> = Inr (x, r)" "src r = []" "b = C x"
    by (auto simp: parse_all_iff rd_iff)
  then show ?thesis using codec.write_read [OF assms(1)] by fastforce
qed

lemma body_encoding:
  "encoding body_write (Flat f) = encoding flat_write f"
  "encoding body_write (Code c) = encoding code_write c"
  "encoding body_write (Record cs) = encoding (w_list component_write) cs"
  "encoding body_write (Unknown bs) = bs"
  by (simp_all only: encoding_def body_write.simps w_bytes_eq) simp

lemma flat_name_not [simp]:
  "flat_name f \<noteq> ''Code''" "flat_name f \<noteq> ''Record''"
  by (cases f; simp)+

lemma body_parse_run:
  assumes "codec rec attribute_write ok attribute_reserved" "wf_body_with rec ok (Some name) b" "\<nexists>bs. b = Unknown bs"
  shows "body_parse_with rec name (encoding body_write b) = Some b"
proof (cases b)
  case (Flat f)
  then show ?thesis
    using assms(2) parse_flat_iff [of name "encoding flat_write f" f]
    by (simp add: wf_body_with_def body_parse_with_def body_encoding)
next
  case (Code c)
  then show ?thesis
    using assms(2) parse_all_run [OF code_step [OF assms(1)], of c Code]
    by (simp add: wf_body_with_def body_parse_with_def body_encoding)
next
  case (Record cs)
  then show ?thesis
    using assms(2) parse_all_run [OF codec.list_codec [OF component_step [OF assms(1)]], of cs Record]
    by (simp add: wf_body_with_def body_parse_with_def body_encoding)
next
  case (Unknown bs)
  with assms(3) show ?thesis by simp
qed

lemma body_parse_back:
  assumes "codec rec attribute_write ok attribute_reserved" "body_parse_with rec name bs = Some b"
  shows "wf_body_with rec ok (Some name) b \<and> spells (body_reserved b) bs (encoding body_write b)"
proof -
  consider "name = str ''Code''" "parse_all (r_map Code (code_read_with rec)) bs = Some b"
    | "name = str ''Record''" "parse_all (r_map Record (r_list (component_read_with rec))) bs = Some b"
    | f where "parse_flat name bs = Some f" "b = Flat f"
    using assms(2) by (auto simp: body_parse_with_def split: if_splits)
  then show ?thesis
  proof cases
    case 1
    from parse_all_back [OF code_step [OF assms(1)] 1(2)] show ?thesis
      using 1 by (auto simp: wf_body_with_def body_encoding)
  next
    case 2
    from parse_all_back [OF codec.list_codec [OF component_step [OF assms(1)]] 2(2)] show ?thesis
      using 2 by (auto simp: wf_body_with_def body_encoding)
  next
    case 3
    then show ?thesis by (auto simp: wf_body_with_def body_encoding parse_flat_iff)
  qed
qed

text \<open>The body an attribute gets: parsed under its name, or kept as it stood.\<close>

definition body_for :: "attribute rd \<Rightarrow> constant_pool \<Rightarrow> u16 \<Rightarrow> u8 list \<Rightarrow> attribute_body" where
  "body_for rec pool n bs =
     (case (case utf8 pool n of Some name \<Rightarrow> body_parse_with rec name bs | None \<Rightarrow> None) of
        Some b \<Rightarrow> b | None \<Rightarrow> Unknown bs)"

lemma body_for_run:
  assumes "codec rec attribute_write ok attribute_reserved" "wf_body_with rec ok (utf8 pool n) b"
  shows "body_for rec pool n (encoding body_write b) = b"
proof (cases "\<exists>bs. b = Unknown bs")
  case True
  then show ?thesis
    using assms(2) by (auto simp: body_for_def wf_body_with_def body_encoding split: option.splits)
next
  case False
  then obtain name where name: "utf8 pool n = Some name"
    using assms(2) by (auto simp: wf_body_with_def split: attribute_body.splits)
  have "body_parse_with rec name (encoding body_write b) = Some b"
    using assms(2) False name by (intro body_parse_run [OF assms(1)]) simp_all
  then show ?thesis by (simp add: body_for_def name)
qed

lemma body_for_back:
  assumes "codec rec attribute_write ok attribute_reserved"
  shows "wf_body_with rec ok (utf8 pool n) (body_for rec pool n bs) \<and>
    spells (body_reserved (body_for rec pool n bs)) bs (encoding body_write (body_for rec pool n bs))"
proof (cases "utf8 pool n")
  case (Some name)
  then show ?thesis
    using body_parse_back [OF assms, of name bs]
    by (cases "body_parse_with rec name bs") (auto simp: body_for_def wf_body_with_def body_encoding)
qed (simp add: body_for_def wf_body_with_def body_encoding)

lemma attribute_read_with_eq:
  "attribute_read_with rec pool = r_bind r_u16 (\<lambda>n. r_bind r_u32 (\<lambda>len. r_bind (r_bytes (unat len))
     (\<lambda>bs. r_return (Attribute n (body_for rec pool n bs)))))"
  by (simp add: attribute_read_with_def body_for_def)

lemma attribute_step:
  assumes "codec rec attribute_write ok attribute_reserved"
  shows "codec (attribute_read_with rec pool) attribute_write (wf_attribute_with rec ok pool) attribute_reserved"
proof (rule codecI [where E = "\<lambda>a. be16 (attr_name_index a) @
    be32 (of_nat (length (encoding body_write (attr_body a)))) @ encoding body_write (attr_body a)"])
  show "attribute_write x w = w\<lparr>buf := buf w @ be16 (attr_name_index x) @
      be32 (of_nat (length (encoding body_write (attr_body x)))) @ encoding body_write (attr_body x)\<rparr>" for x w
    using attribute_write_appends(1) [of x w] by (cases x) (simp add: attribute_encoding)
next
  fix x t q assume wf: "wf_attribute_with rec ok pool x"
  then have "body_for rec pool (attr_name_index x) (encoding body_write (attr_body x)) = attr_body x"
    by (intro body_for_run [OF assms]) (simp add: wf_attribute_with_def)
  moreover have "length (encoding body_write (attr_body x)) < 4294967296"
    using wf by (simp add: wf_attribute_with_def)
  ultimately show "attribute_read_with rec pool \<lparr>src = (be16 (attr_name_index x) @
        be32 (of_nat (length (encoding body_write (attr_body x)))) @ encoding body_write (attr_body x)) @ t, pos = q\<rparr> =
      Inr (x, \<lparr>src = t, pos = q + length (be16 (attr_name_index x) @
        be32 (of_nat (length (encoding body_write (attr_body x)))) @ encoding body_write (attr_body x))\<rparr>)"
    by (simp add: attribute_read_with_eq rd_run)
next
  fix r x r' assume "attribute_read_with rec pool r = Inr (x, r')"
  then obtain n len bs where r: "src r = be16 n @ be32 len @ bs @ src r'" "length bs = unat len"
    "pos r' = pos r + 6 + length bs" and x: "x = Attribute n (body_for rec pool n bs)"
    by (auto simp: attribute_read_with_eq rd_iff)
  let ?e = "encoding body_write (attr_body x)"
  have b: "wf_body_with rec ok (utf8 pool n) (attr_body x)" "spells (body_reserved (attr_body x)) bs ?e"
    using body_for_back [OF assms, of pool n bs] x by simp_all
  then have len: "length ?e = unat len" using r(2) spells_length [OF b(2)] by simp
  then have "len = of_nat (length ?e)" "length ?e < 2 ^ 32" by simp_all
  moreover have "spells (attribute_reserved x) (be16 n @ be32 len @ bs) (be16 n @ be32 (of_nat (length ?e)) @ ?e)"
    using b len x spells_plain_append [of "be16 n @ be32 len" 6] by (cases x) simp
  ultimately show "wf_attribute_with rec ok pool x \<and>
      (\<exists>cs. src r = cs @ src r' \<and> spells (attribute_reserved x) cs (be16 (attr_name_index x) @ be32 (of_nat (length ?e)) @ ?e)) \<and>
      pos r' = pos r + length (be16 (attr_name_index x) @ be32 (of_nat (length ?e)) @ ?e)"
    using r b len by (auto simp: wf_attribute_with_def x intro!: exI [of _ "be16 n @ be32 len @ bs"])
qed

subsection \<open>Recursion without a bound\<close>

lemma attribute_bounded_codec:
  "codec (attribute_read_bounded pool n) attribute_write (wf_attribute_to pool n) attribute_reserved"
proof (induction n)
  case 0
  have "appending attribute_write" using attribute_write_appends(1) by (simp add: appending_def)
  then show ?case by unfold_locales (simp_all add: rd_iff)
next
  case (Suc n)
  then show ?case by (simp add: attribute_step)
qed

lemma parse_all_agree:
  "agree n rd1 rd2 \<Longrightarrow> length bs \<le> n \<Longrightarrow> parse_all rd1 bs = parse_all rd2 bs"
  by (simp add: parse_all_def agree_def reader_new_def)

lemma attribute_with_agree:
  assumes agree: "agree n rec1 rec2" and shrinks: "shrinks rec1"
  shows "agree (Suc n) (attribute_read_with rec1 pool) (attribute_read_with rec2 pool)"
proof -
  have list: "agree n (r_list rec1) (r_list rec2)" by (rule agree_list [OF assms])
  have "agree n (r_map Code (code_read_with rec1)) (r_map Code (code_read_with rec2))"
    unfolding code_read_with_def
    by (intro agree_map agree_bind list agree_refl u16.shrinking codec.shrinking [OF code_array.codec_axioms]
        codec.shrinking [OF exceptions.codec_axioms])
      (auto simp: r_list_def intro!: shrinks_bind shrinks_times shrinks u16.shrinking)
  moreover have "shrinks (component_read_with rec1)"
    unfolding component_read_with_def r_list_def
    by (intro shrinks_bind shrinks_times u16.shrinking shrinks shrinks_return)
  moreover have "agree n (component_read_with rec1) (component_read_with rec2)"
    unfolding component_read_with_def
    by (intro agree_bind list agree_refl u16.shrinking)
      (auto simp: r_list_def intro!: shrinks_bind shrinks_times shrinks u16.shrinking)
  ultimately have parse: "body_parse_with rec1 name bs = body_parse_with rec2 name bs"
    if "length bs \<le> n" for name bs
    using that unfolding body_parse_with_def
    by (simp add: parse_all_agree [of n] agree_map agree_list)
  have body: "body_for rec1 pool i bs = body_for rec2 pool i bs" if "length bs \<le> n" for i bs
    using parse [OF that] by (simp add: body_for_def split: option.split)
  show ?thesis
    unfolding agree_def
  proof (intro allI impI)
    fix r :: reader assume r: "length (src r) \<le> Suc n"
    have "r_bind (r_bytes k) (\<lambda>bs. r_return (Attribute i (body_for rec1 pool i bs))) s =
        r_bind (r_bytes k) (\<lambda>bs. r_return (Attribute i (body_for rec2 pool i bs))) s"
      if "length (src s) \<le> n" for k i and s :: reader
    proof (cases "r_bytes k s")
      case (Inr x)
      obtain bs s' where bs: "r_bytes k s = Inr (bs, s')" using Inr by (cases x) simp
      then have "length bs \<le> n" using that by (simp add: r_bytes_iff)
      then show ?thesis using body [of bs i] by (simp add: r_bind_def r_return_def bs)
    qed (simp add: r_bind_def)
    then have inner: "agree n (r_bind (r_bytes k) (\<lambda>bs. r_return (Attribute i (body_for rec1 pool i bs))))
        (r_bind (r_bytes k) (\<lambda>bs. r_return (Attribute i (body_for rec2 pool i bs))))" for k i
      by (simp add: agree_def)
    have "shrinks r_u32" by (rule codec.shrinking [OF u32.codec_axioms])
    then have after: "agree n (r_bind r_u32 (\<lambda>len. r_bind (r_bytes (unat len)) (\<lambda>bs. r_return (Attribute i (body_for rec1 pool i bs)))))
        (r_bind r_u32 (\<lambda>len. r_bind (r_bytes (unat len)) (\<lambda>bs. r_return (Attribute i (body_for rec2 pool i bs)))))" for i
      by (intro agree_bind agree_refl inner)
    show "attribute_read_with rec1 pool r = attribute_read_with rec2 pool r"
    proof (cases "r_u16 r")
      case (Inr x)
      obtain i s where s: "r_u16 r = Inr (i, s)" using Inr by (cases x) simp
      then have "length (src s) \<le> n" using r by (simp add: r_u16_iff)
      then show ?thesis
        using after [of i] unfolding attribute_read_with_eq agree_def
        by (simp add: r_bind_def [of r_u16] s)
    qed (simp add: attribute_read_with_eq r_bind_def)
  qed
qed

lemma attribute_bounded_agree:
  "agree n (attribute_read_bounded pool n) (attribute_read_bounded pool (Suc n))"
proof (induction n)
  case 0
  show ?case by (auto simp: agree_def attribute_read_with_eq r_bind_def r_u16_def fill_eq)
next
  case (Suc n)
  then show ?case
    by (simp only: attribute_read_bounded.simps(2) attribute_with_agree
        codec.shrinking [OF attribute_bounded_codec])
qed

lemma attribute_codec: "codec (attribute_read pool) attribute_write (wf_attribute pool) attribute_reserved"
  unfolding attribute_read_def wf_attribute_def [abs_def]
  by (rule unbounded_codec [OF attribute_bounded_codec attribute_bounded_agree])

interpretation attribute: codec "attribute_read pool" attribute_write "wf_attribute pool" attribute_reserved for pool
  by (rule attribute_codec)

lemma attribute_read_rec: "attribute_read pool = attribute_read_with (attribute_read pool) pool"
proof
  fix r :: reader
  show "attribute_read pool r = attribute_read_with (attribute_read pool) pool r"
  proof (cases "length (src r)")
    case 0
    then show ?thesis
      by (simp add: attribute_read_def unbounded_def attribute_read_with_eq r_bind_def r_u16_def fill_eq)
  next
    case (Suc n)
    have "agree n (attribute_read_bounded pool n) (attribute_read pool)"
      using unbounded_agree [of "attribute_read_bounded pool" n, OF attribute_bounded_agree]
      by (simp add: attribute_read_def agree_def)
    from attribute_with_agree [OF this codec.shrinking [OF attribute_bounded_codec]]
    have "agree (Suc n) (attribute_read_bounded pool (Suc n)) (attribute_read_with (attribute_read pool) pool)"
      by simp
    then show ?thesis
      using Suc by (simp add: attribute_read_def unbounded_def agree_def del: attribute_read_bounded.simps)
  qed
qed

lemma wf_attribute_rec:
  "wf_attribute pool a = wf_attribute_with (attribute_read pool) (wf_attribute pool) pool a"
proof -
  have "codec (attribute_read pool) attribute_write
      (wf_attribute_with (attribute_read pool) (wf_attribute pool) pool) attribute_reserved"
    using attribute_step [OF attribute_codec, of pool pool] by (simp only: attribute_read_rec [symmetric])
  then show ?thesis using codec_ok_unique attribute_codec by metis
qed

lemma attributes_all_eq: "attributes_write_all = w_list attribute_write"
  by (simp add: fun_eq_iff attributes_write_all_def)

interpretation attributes: codec "attributes_read_all pool" attributes_write_all
    "wf_list (wf_attribute pool)" "list_mask attribute_reserved" for pool
  unfolding attributes_read_all_def attributes_all_eq by (rule attribute.list_codec)

subsection \<open>Properties\<close>

text \<open>A body that is neither \<open>Code\<close> nor \<open>Record\<close> is its bytes.\<close>

lemma unmarked_body:
  assumes "spells (body_reserved b) bs (encoding body_write b)"
  shows "case b of Flat f \<Rightarrow> body_reserved b = plain_bytes (length bs) | Unknown kept \<Rightarrow> kept = bs | _ \<Rightarrow> True"
proof (cases b)
  case (Flat f)
  then show ?thesis using spells_length [OF assms] by (simp add: body_encoding)
next
  case (Unknown kept)
  then show ?thesis using assms by (simp add: body_encoding)
qed simp_all

text \<open>C5: no attribute is ever refused or lost. Any bytes behind a name index and their length
  read as an attribute with that index, which consumes exactly them. Writing the attribute appends
  the index, the length patched in behind it, and the bytes again, cleared exactly where
  \<open>body_reserved\<close> marks a reserved byte of bytecode; unless the body parsed as \<open>Code\<close> or
  \<open>Record\<close> nothing is marked and all bytes come back as they were, \<open>Unknown\<close> holding them.\<close>

theorem attribute_never_lost:
  "length bs < 2 ^ 32 \<Longrightarrow>
     \<exists>b. attribute_read pool \<lparr>src = be16 n @ be32 (of_nat (length bs)) @ bs @ t, pos = q\<rparr> =
           Inr (Attribute n b, \<lparr>src = t, pos = q + 6 + length bs\<rparr>) \<and>
         buf (attribute_write (Attribute n b) w) =
           buf w @ be16 n @ be32 (of_nat (length bs)) @ clear_reserved (body_reserved b) bs \<and>
         length (body_reserved b) = length bs \<and>
         (case b of Flat f \<Rightarrow> body_reserved b = plain_bytes (length bs)
          | Unknown kept \<Rightarrow> kept = bs | _ \<Rightarrow> True)"
proof -
  let ?b = "body_for (attribute_read pool) pool n bs"
  have b: "spells (body_reserved ?b) bs (encoding body_write ?b)"
    using body_for_back [OF attribute_codec [of pool], where pool = pool and n = n and bs = bs] by simp
  then have e: "encoding body_write ?b = clear_reserved (body_reserved ?b) bs"
    and len: "length (body_reserved ?b) = length bs" "length (encoding body_write ?b) = length bs"
    by (simp_all add: spells_def clear_reserved_def)
  assume "length bs < 2 ^ 32"
  then have "attribute_read pool \<lparr>src = be16 n @ be32 (of_nat (length bs)) @ bs @ t, pos = q\<rparr> =
      Inr (Attribute n ?b, \<lparr>src = t, pos = q + 6 + length bs\<rparr>)"
    by (subst attribute_read_rec) (simp add: attribute_read_with_eq rd_run)
  moreover have "buf (attribute_write (Attribute n ?b) w) =
      buf w @ be16 n @ be32 (of_nat (length bs)) @ clear_reserved (body_reserved ?b) bs"
    using len by (subst attribute_write_appends(1)) (simp add: attribute_encoding e)
  moreover have "case ?b of Flat f \<Rightarrow> body_reserved ?b = plain_bytes (length bs)
      | Unknown kept \<Rightarrow> kept = bs | _ \<Rightarrow> True"
    by (rule unmarked_body [OF b])
  ultimately show ?thesis using len(1) by blast
qed

lemma attribute_never_lost_witness:
  "\<exists>b. attribute_read sample_pool \<lparr>src = be16 1 @ be32 (of_nat (length [0xDE :: u8, 0xAD])) @
           [0xDE, 0xAD] @ [], pos = 0\<rparr> =
         Inr (Attribute 1 b, \<lparr>src = [], pos = 0 + 6 + length [0xDE :: u8, 0xAD]\<rparr>) \<and>
       buf (attribute_write (Attribute 1 b) writer_new) = buf writer_new @ be16 1 @
         be32 (of_nat (length [0xDE :: u8, 0xAD])) @ clear_reserved (body_reserved b) [0xDE, 0xAD] \<and>
       length (body_reserved b) = length [0xDE :: u8, 0xAD] \<and>
       (case b of Flat f \<Rightarrow> body_reserved b = plain_bytes (length [0xDE :: u8, 0xAD])
        | Unknown kept \<Rightarrow> kept = [0xDE, 0xAD] | _ \<Rightarrow> True)"
  by (rule attribute_never_lost) simp

text \<open>The attribute reader is the recursion of the source. With no bound in sight, it reads the
  header, the bytes, and parses them under the name with itself for the attributes inside \<open>Code\<close>
  and \<open>Record\<close>.\<close>

theorem attribute_read_unbounded:
  "attribute_read pool = attribute_read_with (attribute_read pool) pool"
  by (rule attribute_read_rec)

end
