(* ===== verification/Class_File.thy ===== *)
theory Class_File
  imports Attribute
begin

text \<open>
  \<open>jals-classfile/src/class_file.rs\<close>, \<open>field.rs\<close>, \<open>method.rs\<close> and \<open>flags.rs\<close>: the members, the
  \<open>ClassFile\<close> and its entry points \<open>read\<close> and \<open>write\<close>. The access-flag newtypes are their raw
  \<open>u16\<close>.
\<close>

subsection \<open>Access flags\<close>

type_synonym access_flags = u16

definition flags_contains :: "access_flags \<Rightarrow> u16 \<Rightarrow> bool" where
  "flags_contains flags m \<longleftrightarrow> flags AND m = m"

definition class_is_interface :: "access_flags \<Rightarrow> bool" where
  "class_is_interface flags = flags_contains flags 0x0200"

definition class_is_annotation :: "access_flags \<Rightarrow> bool" where
  "class_is_annotation flags = flags_contains flags 0x2000"

definition class_is_enum :: "access_flags \<Rightarrow> bool" where
  "class_is_enum flags = flags_contains flags 0x4000"

definition class_is_abstract :: "access_flags \<Rightarrow> bool" where
  "class_is_abstract flags = flags_contains flags 0x0400"

definition class_is_module :: "access_flags \<Rightarrow> bool" where
  "class_is_module flags = flags_contains flags 0x8000"

definition field_is_static :: "access_flags \<Rightarrow> bool" where
  "field_is_static flags = flags_contains flags 0x0008"

definition field_is_public :: "access_flags \<Rightarrow> bool" where
  "field_is_public flags = flags_contains flags 0x0001"

definition field_is_enum :: "access_flags \<Rightarrow> bool" where
  "field_is_enum flags = flags_contains flags 0x4000"

definition method_is_static :: "access_flags \<Rightarrow> bool" where
  "method_is_static flags = flags_contains flags 0x0008"

definition method_is_public :: "access_flags \<Rightarrow> bool" where
  "method_is_public flags = flags_contains flags 0x0001"

definition method_is_varargs :: "access_flags \<Rightarrow> bool" where
  "method_is_varargs flags = flags_contains flags 0x0080"

definition method_is_abstract :: "access_flags \<Rightarrow> bool" where
  "method_is_abstract flags = flags_contains flags 0x0400"

lemma flags_contains_bits: "flags_contains flags m \<longleftrightarrow> (\<forall>n. bit m n \<longrightarrow> bit flags n)"
proof
  assume "flags_contains flags m"
  then have "bit (flags AND m) n = bit m n" for n by (simp add: flags_contains_def)
  then show "\<forall>n. bit m n \<longrightarrow> bit flags n" by (auto simp: bit_and_iff)
next
  assume "\<forall>n. bit m n \<longrightarrow> bit flags n"
  then show "flags_contains flags m"
    unfolding flags_contains_def by (intro bit_word_eqI) (auto simp: bit_and_iff)
qed

subsection \<open>Members\<close>

record field_info =
  fi_access_flags :: access_flags
  fi_name_index :: u16
  fi_descriptor_index :: u16
  fi_attributes :: "attribute list"

record method_info =
  mi_access_flags :: access_flags
  mi_name_index :: u16
  mi_descriptor_index :: u16
  mi_attributes :: "attribute list"

definition field_read :: "constant_pool \<Rightarrow> field_info rd" where
  "field_read pool =
     r_bind r_u16 (\<lambda>access_flags.
     r_bind r_u16 (\<lambda>name_index.
     r_bind r_u16 (\<lambda>descriptor_index.
     r_bind (attributes_read_all pool) (\<lambda>attributes.
       r_return \<lparr>fi_access_flags = access_flags, fi_name_index = name_index,
         fi_descriptor_index = descriptor_index, fi_attributes = attributes\<rparr>))))"

definition field_write :: "field_info \<Rightarrow> writer \<Rightarrow> writer" where
  "field_write f =
     w_do [w_u16 (fi_access_flags f), w_u16 (fi_name_index f), w_u16 (fi_descriptor_index f),
       attributes_write_all (fi_attributes f)]"

definition method_read :: "constant_pool \<Rightarrow> method_info rd" where
  "method_read pool =
     r_bind r_u16 (\<lambda>access_flags.
     r_bind r_u16 (\<lambda>name_index.
     r_bind r_u16 (\<lambda>descriptor_index.
     r_bind (attributes_read_all pool) (\<lambda>attributes.
       r_return \<lparr>mi_access_flags = access_flags, mi_name_index = name_index,
         mi_descriptor_index = descriptor_index, mi_attributes = attributes\<rparr>))))"

definition method_write :: "method_info \<Rightarrow> writer \<Rightarrow> writer" where
  "method_write m =
     w_do [w_u16 (mi_access_flags m), w_u16 (mi_name_index m), w_u16 (mi_descriptor_index m),
       attributes_write_all (mi_attributes m)]"

definition wf_field :: "constant_pool \<Rightarrow> field_info \<Rightarrow> bool" where
  "wf_field pool f \<longleftrightarrow> wf_list (wf_attribute pool) (fi_attributes f)"

definition wf_method :: "constant_pool \<Rightarrow> method_info \<Rightarrow> bool" where
  "wf_method pool m \<longleftrightarrow> wf_list (wf_attribute pool) (mi_attributes m)"

definition field_reserved :: "field_info \<Rightarrow> bool list" where
  "field_reserved f = plain_bytes 6 @ list_mask attribute_reserved (fi_attributes f)"

definition method_reserved :: "method_info \<Rightarrow> bool list" where
  "method_reserved m = plain_bytes 6 @ list_mask attribute_reserved (mi_attributes m)"

text \<open>Both are three indices and a run of attributes.\<close>

lemma member_codec:
  assumes "\<And>y. f (g y) = y" "\<And>x. g (f x) = x"
  shows "codec (r_bind r_u16 (\<lambda>a. r_bind r_u16 (\<lambda>b. r_bind r_u16 (\<lambda>c.
      r_bind (attributes_read_all pool) (\<lambda>as. r_return (f (a, b, c, as)))))))
    (\<lambda>y. case g y of (a, b, c, as) \<Rightarrow> w_do [w_u16 a, w_u16 b, w_u16 c, attributes_write_all as])
    (\<lambda>y. case g y of (a, b, c, as) \<Rightarrow> wf_list (wf_attribute pool) as)
    (\<lambda>y. case g y of (a, b, c, as) \<Rightarrow> plain_bytes 6 @ list_mask attribute_reserved as)"
proof -
  note parts = codec_map [where f = f and g = g, OF codec_pair [OF u16.codec_axioms codec_pair [OF u16.codec_axioms
    codec_pair [OF u16.codec_axioms attributes.codec_axioms]]] assms]
  have rd: "r_bind r_u16 (\<lambda>a. r_bind r_u16 (\<lambda>b. r_bind r_u16 (\<lambda>c.
      r_bind (attributes_read_all pool) (\<lambda>as. r_return (f (a, b, c, as)))))) =
    r_map f (r_bind r_u16 (\<lambda>a. r_map (Pair a) (r_bind r_u16 (\<lambda>b. r_map (Pair b)
      (r_bind r_u16 (\<lambda>c. r_map (Pair c) (attributes_read_all pool)))))))"
    by (simp add: r_map_bind r_map_map) (simp add: r_map_def)
  have wr: "(case g y of (a, b, c, as) \<Rightarrow> w_do [w_u16 a, w_u16 b, w_u16 c, attributes_write_all as]) =
    (\<lambda>(x, y). w_do [w_u16 x, (\<lambda>(x, y). w_do [w_u16 x, (\<lambda>(x, y). w_do [w_u16 x,
      attributes_write_all y]) y]) y]) (g y)" for y
    by (cases "g y") (simp add: fun_eq_iff w_do_simps)
  have ok: "(case g y of (a, b, c, as) \<Rightarrow> wf_list (wf_attribute pool) as) =
    (\<lambda>(x, y). True \<and> (\<lambda>(x, y). True \<and> (\<lambda>(x, y). True \<and> wf_list (wf_attribute pool) y) y) y) (g y)" for y
    by (cases "g y") simp
  have mask: "(case g y of (a, b, c, as) \<Rightarrow> plain_bytes 6 @ list_mask attribute_reserved as) =
    (\<lambda>(x, y). plain_bytes (length (encoding w_u16 x)) @ (\<lambda>(x, y). plain_bytes (length (encoding w_u16 x)) @
      (\<lambda>(x, y). plain_bytes (length (encoding w_u16 x)) @ list_mask attribute_reserved y) y) y) (g y)" for y
    by (cases "g y") (simp add: numeral_eq_Suc)
  show ?thesis unfolding rd wr ok mask by (rule parts)
qed

interpretation field: codec "field_read pool" field_write "wf_field pool" field_reserved for pool
  using member_codec [of
      "\<lambda>(a, b, c, as). \<lparr>fi_access_flags = a, fi_name_index = b, fi_descriptor_index = c, fi_attributes = as\<rparr>"
      "\<lambda>f. (fi_access_flags f, fi_name_index f, fi_descriptor_index f, fi_attributes f)" pool]
  by (simp add: split_beta field_read_def field_write_def [abs_def] wf_field_def [abs_def]
      field_reserved_def [abs_def])

interpretation method_: codec "method_read pool" method_write "wf_method pool" method_reserved for pool
  using member_codec [of
      "\<lambda>(a, b, c, as). \<lparr>mi_access_flags = a, mi_name_index = b, mi_descriptor_index = c, mi_attributes = as\<rparr>"
      "\<lambda>f. (mi_access_flags f, mi_name_index f, mi_descriptor_index f, mi_attributes f)" pool]
  by (simp add: split_beta method_read_def method_write_def [abs_def] wf_method_def [abs_def]
      method_reserved_def [abs_def])

subsection \<open>The class file\<close>

record class_file =
  minor_version :: u16
  major_version :: u16
  cf_pool :: constant_pool
  cf_access_flags :: access_flags
  this_class :: u16
  super_class :: u16
  cf_interfaces :: "u16 list"
  cf_fields :: "field_info list"
  cf_methods :: "method_info list"
  cf_attributes :: "attribute list"

definition magic :: u32 where
  "magic = 0xCAFEBABE"

definition class_new :: "u16 \<Rightarrow> u16 \<Rightarrow> constant_pool \<Rightarrow> class_file" where
  "class_new major minor pool =
     \<lparr>minor_version = minor, major_version = major, cf_pool = pool, cf_access_flags = 0,
      this_class = 0, super_class = 0, cf_interfaces = [], cf_fields = [], cf_methods = [],
      cf_attributes = []\<rparr>"

definition class_rd :: "class_file rd" where
  "class_rd =
     r_bind r_u32 (\<lambda>m.
     if m \<noteq> magic then r_fail (BadMagic m) else
     r_bind r_u16 (\<lambda>minor.
     r_bind r_u16 (\<lambda>major.
     r_bind pool_read (\<lambda>pool.
     r_bind r_u16 (\<lambda>access_flags.
     r_bind r_u16 (\<lambda>this.
     r_bind r_u16 (\<lambda>super.
     r_bind r_u16_list (\<lambda>interfaces.
     r_bind (r_list (field_read pool)) (\<lambda>fields.
     r_bind (r_list (method_read pool)) (\<lambda>methods.
     r_bind (attributes_read_all pool) (\<lambda>attributes.
     r_bind expect_eof (\<lambda>_.
       r_return \<lparr>minor_version = minor, major_version = major, cf_pool = pool,
         cf_access_flags = access_flags, this_class = this, super_class = super,
         cf_interfaces = interfaces, cf_fields = fields, cf_methods = methods,
         cf_attributes = attributes\<rparr>))))))))))))"

definition class_read :: "u8 list \<Rightarrow> classfile_error + class_file" where
  "class_read bytes = map_sum id fst (class_rd (reader_new bytes))"

definition class_write :: "class_file \<Rightarrow> u8 list" where
  "class_write cf =
     buf (w_do [w_u32 magic, w_u16 (minor_version cf), w_u16 (major_version cf),
       pool_write (cf_pool cf), w_u16 (cf_access_flags cf), w_u16 (this_class cf),
       w_u16 (super_class cf), w_u16_list (cf_interfaces cf), w_list field_write (cf_fields cf),
       w_list method_write (cf_methods cf), attributes_write_all (cf_attributes cf)] writer_new)"

text \<open>What stands behind the pool, given the pool.\<close>

definition wf_class :: "class_file \<Rightarrow> bool" where
  "wf_class cf \<longleftrightarrow> wf_pool (cf_pool cf) \<and> length (cf_interfaces cf) < 65536 \<and>
     wf_list (wf_field (cf_pool cf)) (cf_fields cf) \<and>
     wf_list (wf_method (cf_pool cf)) (cf_methods cf) \<and>
     wf_list (wf_attribute (cf_pool cf)) (cf_attributes cf)"

subsection \<open>The intern index does not matter to the codec\<close>

lemma utf8_entries: "entries p = entries p' \<Longrightarrow> utf8 p = utf8 p'"
  by (simp add: fun_eq_iff utf8_def pool_get_def)

lemma attribute_read_entries:
  assumes "entries p = entries p'"
  shows "attribute_read p = attribute_read p'" and "wf_attribute p = wf_attribute p'"
proof -
  have rd: "attribute_read_bounded p n = attribute_read_bounded p' n" for n
    by (induction n) (simp_all add: attribute_read_with_def utf8_entries [OF assms])
  then show "attribute_read p = attribute_read p'"
    by (simp add: attribute_read_def fun_eq_iff unbounded_def)
  have "wf_attribute_to p n = wf_attribute_to p' n" for n
    by (induction n) (simp_all add: rd wf_attribute_with_def [abs_def] utf8_entries [OF assms])
  then show "wf_attribute p = wf_attribute p'" by (simp add: wf_attribute_def fun_eq_iff)
qed

lemma wf_member_entries:
  assumes "entries p = entries p'"
  shows "wf_field p = wf_field p'" and "wf_method p = wf_method p'"
  using attribute_read_entries(2) [OF assms] by (simp_all add: wf_field_def [abs_def] wf_method_def [abs_def])

interpretation fields: codec "r_list (field_read pool)" "w_list field_write" "wf_list (wf_field pool)"
    "list_mask field_reserved" for pool
  by (rule field.list_codec)

interpretation methods: codec "r_list (method_read pool)" "w_list method_write" "wf_list (wf_method pool)"
    "list_mask method_reserved" for pool
  by (rule method_.list_codec)

subsection \<open>Reading back what was written\<close>

definition forget_index :: "class_file \<Rightarrow> class_file" where
  "forget_index cf = cf\<lparr>cf_pool := (cf_pool cf)\<lparr>interned := Mapping.empty\<rparr>\<rparr>"

lemma pool_encoding: "encoding pool_write p = be16 (of_nat (length (entries p))) @ concat (map slot_bytes (entries p))"
  by (rule encoding_eqI) (simp add: wr_eq)

lemma pool_write_append: "pool_write p w = w\<lparr>buf := buf w @ encoding pool_write p\<rparr>"
  by (simp add: wr_eq pool_encoding)

definition class_tail :: "class_file \<Rightarrow> u8 list" where
  "class_tail cf =
     be16 (cf_access_flags cf) @ be16 (this_class cf) @ be16 (super_class cf) @
     encoding w_u16_list (cf_interfaces cf) @ encoding (w_list field_write) (cf_fields cf) @
     encoding (w_list method_write) (cf_methods cf) @ encoding attributes_write_all (cf_attributes cf)"

lemma class_write_eq:
  "class_write cf = be32 magic @ be16 (minor_version cf) @ be16 (major_version cf) @
     encoding pool_write (cf_pool cf) @ class_tail cf"
  unfolding class_write_def class_tail_def
  by (simp only: w_do_simps w_u32_eq w_u16_eq pool_write_append u16_list.append_eq fields.append_eq
      methods.append_eq attributes.append_eq) simp

lemma class_rd_run:
  assumes "wf_class cf"
  shows "class_rd (reader_new (class_write cf @ t)) =
    (if t = [] then Inr (forget_index cf, \<lparr>src = [], pos = length (class_write cf)\<rparr>) else Inl TrailingBytes)"
proof -
  let ?p = "(cf_pool cf)\<lparr>interned := Mapping.empty\<rparr>"
  have e: "entries ?p = entries (cf_pool cf)" by simp
  have wf: "wf_pool (cf_pool cf)" "length (cf_interfaces cf) < 65536"
    "wf_list (wf_field ?p) (cf_fields cf)" "wf_list (wf_method ?p) (cf_methods cf)"
    "wf_list (wf_attribute ?p) (cf_attributes cf)"
    using assms wf_member_entries [OF e] attribute_read_entries(2) [OF e] by (simp_all add: wf_class_def)
  have eof: "expect_eof \<lparr>src = t, pos = q\<rparr> =
      (if t = [] then Inr ((), \<lparr>src = t, pos = q\<rparr>) else Inl TrailingBytes)" for q
    by (cases t) (auto simp: expect_eof_def slice_read_def read_from_slice_def Let_def)
  show ?thesis
    unfolding class_write_eq class_tail_def
    by (simp add: class_rd_def reader_new_def rd_run pool_read_run [OF wf(1)] wf(2-5) eof forget_index_def)
qed

text \<open>
  The reserved bytes of a class file: none in the header, the pool, the flags, the indices and the
  interfaces, and within fields, methods and attributes only those of \<open>Code\<close> attributes.
\<close>

definition class_reserved :: "class_file \<Rightarrow> bool list" where
  "class_reserved cf =
     plain_bytes (10 + length (concat (map slot_bytes (entries (cf_pool cf)))) + 8 + 2 * length (cf_interfaces cf)) @
     list_mask field_reserved (cf_fields cf) @ list_mask method_reserved (cf_methods cf) @
     list_mask attribute_reserved (cf_attributes cf)"

lemma interfaces_length: "length (encoding w_u16_list xs) = 2 + 2 * length xs"
  by (simp add: u16_list_eq u16.encoding_list length_concat comp_def sum_list_triv)

text \<open>
  Backwards: a file that reads as \<open>cf\<close> is what \<open>cf\<close> writes, up to reserved bytes inside bytecode,
  except for the two bytes of the pool count, which \<open>write\<close> derives from the slots.
\<close>

lemma class_rd_back:
  assumes "class_rd (reader_new bs) = Inr (cf, r')"
  obtains count rest where "bs = be32 magic @ be16 (minor_version cf) @ be16 (major_version cf) @
      be16 count @ rest"
    and "spells (class_reserved cf) (be32 magic @ be16 (minor_version cf) @ be16 (major_version cf) @
      be16 (of_nat (length (entries (cf_pool cf)))) @ rest) (class_write cf)"
    and "wf_slots (tl (entries (cf_pool cf)))" "hd (entries (cf_pool cf)) = Sentinel"
    and "interned (cf_pool cf) = Mapping.empty" "length (entries (cf_pool cf)) \<le> 0xFFFF \<longrightarrow> wf_class cf"
proof -
  obtain r1 r2 r3 r4 r5 r6 where m: "bs = be32 magic @ be16 (minor_version cf) @ be16 (major_version cf) @ src r1"
    and pool: "pool_read r1 = Inr (cf_pool cf, r2)"
    and flags: "src r2 = be16 (cf_access_flags cf) @ be16 (this_class cf) @ be16 (super_class cf) @
        encoding w_u16_list (cf_interfaces cf) @ src r3" "length (cf_interfaces cf) < 65536"
    and fields: "r_list (field_read (cf_pool cf)) r3 = Inr (cf_fields cf, r4)"
    and methods: "r_list (method_read (cf_pool cf)) r4 = Inr (cf_methods cf, r5)"
    and attrs: "attributes_read_all (cf_pool cf) r5 = Inr (cf_attributes cf, r6)"
    and eof: "src r6 = []"
    using assms by (auto simp: class_rd_def rd_iff reader_new_def split: if_splits)
  from pool_read_back [OF pool] obtain count slots where p:
    "cf_pool cf = \<lparr>entries = Sentinel # slots, interned = Mapping.empty\<rparr>" "wf_slots slots"
    "src r1 = be16 count @ concat (map slot_bytes slots) @ src r2" by blast
  from fields.write_read [OF fields] obtain fs where f: "wf_list (wf_field (cf_pool cf)) (cf_fields cf)"
    "src r3 = fs @ src r4" "spells (list_mask field_reserved (cf_fields cf)) fs (encoding (w_list field_write) (cf_fields cf))" by blast
  from methods.write_read [OF methods] obtain ms where ms: "wf_list (wf_method (cf_pool cf)) (cf_methods cf)"
    "src r4 = ms @ src r5" "spells (list_mask method_reserved (cf_methods cf)) ms (encoding (w_list method_write) (cf_methods cf))" by blast
  from attributes.write_read [OF attrs] obtain as where as: "wf_list (wf_attribute (cf_pool cf)) (cf_attributes cf)"
    "src r5 = as @ src r6" "spells (list_mask attribute_reserved (cf_attributes cf)) as (encoding attributes_write_all (cf_attributes cf))" by blast
  define rest where "rest = concat (map slot_bytes slots) @ be16 (cf_access_flags cf) @ be16 (this_class cf) @
    be16 (super_class cf) @ encoding w_u16_list (cf_interfaces cf) @ fs @ ms @ as"
  let ?front = "be32 magic @ be16 (minor_version cf) @ be16 (major_version cf) @
      be16 (of_nat (length (entries (cf_pool cf)))) @ concat (map slot_bytes slots) @ be16 (cf_access_flags cf) @
      be16 (this_class cf) @ be16 (super_class cf) @ encoding w_u16_list (cf_interfaces cf)"
  show thesis
  proof (rule that [of count rest])
    show "bs = be32 magic @ be16 (minor_version cf) @ be16 (major_version cf) @ be16 count @ rest"
      using m p flags f ms as eof by (simp add: rest_def)
    show "spells (class_reserved cf) (be32 magic @ be16 (minor_version cf) @ be16 (major_version cf) @
        be16 (of_nat (length (entries (cf_pool cf)))) @ rest) (class_write cf)"
      unfolding class_write_eq class_tail_def pool_encoding rest_def class_reserved_def
      using p(1) spells_plain_append [of ?front "length ?front", OF refl spells_append [OF f(3) spells_append [OF ms(3) as(3)]]]
      by (simp add: interfaces_length add.assoc)
    show "wf_slots (tl (entries (cf_pool cf)))" "hd (entries (cf_pool cf)) = Sentinel"
      "interned (cf_pool cf) = Mapping.empty" using p by simp_all
    show "length (entries (cf_pool cf)) \<le> 0xFFFF \<longrightarrow> wf_class cf"
      using p flags(2) f(1) ms(1) as(1) by (simp add: wf_class_def wf_pool_def)
  qed
qed

subsection \<open>Properties\<close>

text \<open>A class with a source file, an attribute of unknown name and a method with code.\<close>

definition sample_class :: class_file where
  "sample_class =
     \<lparr>minor_version = 0, major_version = 69,
      cf_pool = \<lparr>entries = [Sentinel, Entry (Cp_Utf8 [0x41]), Entry (Cp_Class 1),
          Entry (Cp_Utf8 [0x53, 0x6F, 0x75, 0x72, 0x63, 0x65, 0x46, 0x69, 0x6C, 0x65]),
          Entry (Cp_Utf8 [0x43, 0x6F, 0x64, 0x65])], interned = Mapping.empty\<rparr>,
      cf_access_flags = 0x21, this_class = 2, super_class = 0, cf_interfaces = [], cf_fields = [],
      cf_methods = [\<lparr>mi_access_flags = 9, mi_name_index = 1, mi_descriptor_index = 1,
          mi_attributes = [Attribute 4 (Code (Code_Attribute 1 0 [Op_const Nop, Op_return Return] [] []))]\<rparr>],
      cf_attributes = [Attribute 3 (Flat (SourceFile 1)), Attribute 1 (Unknown [0xDE, 0xAD])]\<rparr>"

lemma sample_names:
  "utf8 (cf_pool sample_class) 1 = Some (str ''A'')"
  "utf8 (cf_pool sample_class) 3 = Some (str ''SourceFile'')"
  "utf8 (cf_pool sample_class) 4 = Some (str ''Code'')"
  by (simp_all add: utf8_def pool_get_def sample_class_def decode_modified_utf8_def is_ascii_def str_def)

lemma sample_encodings:
  "encoding body_write (Code (Code_Attribute 1 0 [Op_const Nop, Op_return Return] [] [])) =
     [0, 1, 0, 0, 0, 0, 0, 2, 0, 0xB1, 0, 0, 0, 0]"
  "encoding body_write (Flat (SourceFile 1)) = [0, 1]"
  by (simp_all add: encoding_def w_do_simps w_for_simps w_list_def code_array_write_def encode_code_def
      Let_def w_u16_eq w_u32_eq w_bytes_eq w_u8_eq be16_def be32_def)

lemma sample_class_wf: "wf_class sample_class"
proof -
  have a: "wf_attribute (cf_pool sample_class) (Attribute 4 (Code (Code_Attribute 1 0 [Op_const Nop, Op_return Return] [] [])))"
    by (subst wf_attribute_rec) (simp add: wf_attribute_with_def wf_body_with_def sample_names
        sample_encodings wf_code_with_def wf_code_array_def wf_list_def encode_code_def w_for_simps w_u8_eq)
  have b: "wf_attribute (cf_pool sample_class) (Attribute 3 (Flat (SourceFile 1)))"
    by (subst wf_attribute_rec) (simp add: wf_attribute_with_def wf_body_with_def sample_names sample_encodings)
  have c: "wf_attribute (cf_pool sample_class) (Attribute 1 (Unknown [0xDE, 0xAD]))"
    by (subst wf_attribute_rec) (simp add: wf_attribute_with_def wf_body_with_def sample_names body_encoding
        body_parse_with_def parse_flat_def flat_reader_def)
  have pool: "wf_pool (cf_pool sample_class)" by (simp add: wf_pool_def sample_class_def)
  show ?thesis
    using a b c pool by (simp add: wf_class_def wf_list_def wf_method_def) (simp add: sample_class_def wf_method_def wf_list_def)
qed

lemma sample_class_reads: "class_read (class_write sample_class) = Inr (forget_index sample_class)"
  using class_rd_run [OF sample_class_wf, of "[]"] by (simp add: class_read_def)

text \<open>C1: writing and reading a class file. A well-formed class is read back from the bytes it
  writes: versions, pool, flags, members, code and attributes (the derived intern index apart).\<close>

theorem class_round_trip:
  "wf_class cf \<Longrightarrow> class_read (class_write cf) = Inr (forget_index cf)"
  using class_rd_run [of cf "[]"] by (simp add: class_read_def)

lemma class_round_trip_witness: "class_read (class_write sample_class) = Inr (forget_index sample_class)"
  by (rule class_round_trip [OF sample_class_wf])

text \<open>C2: reading and writing a class file. What reads as a class is written back byte for byte,
  except for the two bytes of the pool count, which \<open>write\<close> derives, and except that exactly the
  bytes \<open>class_reserved\<close> marks, all of them inside code arrays, come out as zeros; and the class is
  well-formed whenever its pool fits the count.\<close>

theorem class_bytes_preserved:
  "class_read bs = Inr cf \<Longrightarrow>
     length bs = length (class_reserved cf) \<and>
     class_write cf = clear_reserved (class_reserved cf)
       (take 8 bs @ be16 (of_nat (length (entries (cf_pool cf)))) @ drop 10 bs) \<and>
     (length (entries (cf_pool cf)) \<le> 0xFFFF \<longrightarrow> wf_class cf)"
proof -
  assume "class_read bs = Inr cf"
  then obtain r' where "class_rd (reader_new bs) = Inr (cf, r')"
    by (auto simp: class_read_def map_sum_def split: sum.splits)
  then obtain count rest where "bs = be32 magic @ be16 (minor_version cf) @ be16 (major_version cf) @
      be16 count @ rest"
    and "spells (class_reserved cf) (be32 magic @ be16 (minor_version cf) @ be16 (major_version cf) @
      be16 (of_nat (length (entries (cf_pool cf)))) @ rest) (class_write cf)"
    and "wf_slots (tl (entries (cf_pool cf)))" "hd (entries (cf_pool cf)) = Sentinel"
    and "interned (cf_pool cf) = Mapping.empty"
    and "length (entries (cf_pool cf)) \<le> 0xFFFF \<longrightarrow> wf_class cf"
    by (rule class_rd_back)
  then show ?thesis by (simp add: spells_def)
qed

lemma class_bytes_preserved_witness:
  "class_write (forget_index sample_class) = clear_reserved (class_reserved (forget_index sample_class))
     (take 8 (class_write sample_class) @ be16 5 @ drop 10 (class_write sample_class))"
  using class_bytes_preserved [OF sample_class_reads]
  by (simp add: forget_index_def sample_class_def)

text \<open>rewriting is stable. Once a class has been read, writing it and reading that again gives
  the same class, so further round trips change neither the model nor the bytes.\<close>

theorem class_rewrite_stable:
  "class_read bs = Inr cf \<Longrightarrow> length (entries (cf_pool cf)) \<le> 0xFFFF \<Longrightarrow>
     class_read (class_write cf) = Inr cf"
proof -
  assume "class_read bs = Inr cf" and len: "length (entries (cf_pool cf)) \<le> 0xFFFF"
  then obtain r' where "class_rd (reader_new bs) = Inr (cf, r')"
    by (auto simp: class_read_def map_sum_def split: sum.splits)
  then have "wf_class cf" "interned (cf_pool cf) = Mapping.empty"
    using len by (auto elim: class_rd_back)
  moreover from this(2) have "forget_index cf = cf" by (simp add: forget_index_def)
  ultimately show ?thesis using class_rd_run [of cf "[]"] by (simp add: class_read_def)
qed

lemma class_rewrite_stable_witness:
  "class_read (class_write (forget_index sample_class)) = Inr (forget_index sample_class)"
  using class_rewrite_stable [OF sample_class_reads]
  by (simp add: forget_index_def sample_class_def)

text \<open>trailing bytes are refused. Any byte behind a well-formed class file makes reading fail
  with \<open>TrailingBytes\<close>.\<close>

theorem class_trailing_bytes:
  "wf_class cf \<Longrightarrow> t \<noteq> [] \<Longrightarrow> class_read (class_write cf @ t) = Inl TrailingBytes"
  using class_rd_run [of cf t] by (simp add: class_read_def)

lemma class_trailing_bytes_witness: "class_read (class_write sample_class @ [0]) = Inl TrailingBytes"
  by (rule class_trailing_bytes [OF sample_class_wf]) simp

text \<open>A wrong magic is reported before anything else is read, and fewer than four bytes are an
  unexpected end at offset 0.\<close>

theorem class_magic_checked:
  "if length bs < 4 then class_read bs = Inl (UnexpectedEof 0 4)
   else from_be (take 4 bs) = magic \<or> class_read bs = Inl (BadMagic (from_be (take 4 bs)))"
  by (auto simp: class_read_def class_rd_def r_bind_def r_u32_def fill_eq reader_new_def r_return_def
      r_fail_def)

text \<open>Access flags. \<open>contains\<close> holds exactly when every bit of the mask is set, so a mask of
  several flags is contained when each of them is, whatever other bits survive.\<close>

theorem flags_contains_all_bits:
  "flags_contains flags m \<longleftrightarrow> {n. bit m n} \<subseteq> {n. bit flags n}"
  by (auto simp: flags_contains_bits)

end
