(* ===== verification/Descriptor.thy ===== *)
theory Descriptor
  imports Bytes
begin

text \<open>
  \<open>jals-classfile/src/descriptor.rs\<close>: field and method descriptors, their parser and their
  rendering. A Rust string is the list of its bytes (\<open>string\<close>); the parser's cursor is the rest of
  the text. All punctuation is ASCII, so no position it stops at splits a character.
\<close>

subsection \<open>Types\<close>

datatype base_type = B_Byte | B_Char | B_Double | B_Float | B_Int | B_Long | B_Short | B_Boolean

definition from_byte :: "char \<Rightarrow> base_type option" where
  "from_byte b =
     (if b = CHR ''B'' then Some B_Byte
      else if b = CHR ''C'' then Some B_Char
      else if b = CHR ''D'' then Some B_Double
      else if b = CHR ''F'' then Some B_Float
      else if b = CHR ''I'' then Some B_Int
      else if b = CHR ''J'' then Some B_Long
      else if b = CHR ''S'' then Some B_Short
      else if b = CHR ''Z'' then Some B_Boolean
      else None)"

definition from_atype :: "u8 \<Rightarrow> base_type option" where
  "from_atype atype =
     (if atype = 4 then Some B_Boolean
      else if atype = 5 then Some B_Char
      else if atype = 6 then Some B_Float
      else if atype = 7 then Some B_Double
      else if atype = 8 then Some B_Byte
      else if atype = 9 then Some B_Short
      else if atype = 10 then Some B_Int
      else if atype = 11 then Some B_Long
      else None)"

fun as_char :: "base_type \<Rightarrow> char" where
  "as_char B_Byte = CHR ''B''"
| "as_char B_Char = CHR ''C''"
| "as_char B_Double = CHR ''D''"
| "as_char B_Float = CHR ''F''"
| "as_char B_Int = CHR ''I''"
| "as_char B_Long = CHR ''J''"
| "as_char B_Short = CHR ''S''"
| "as_char B_Boolean = CHR ''Z''"

fun keyword :: "base_type \<Rightarrow> string" where
  "keyword B_Byte = ''byte''"
| "keyword B_Char = ''char''"
| "keyword B_Double = ''double''"
| "keyword B_Float = ''float''"
| "keyword B_Int = ''int''"
| "keyword B_Long = ''long''"
| "keyword B_Short = ''short''"
| "keyword B_Boolean = ''boolean''"

datatype field_type =
    Base base_type
  | Object string
  | Array field_type

datatype return_type = Void | Type field_type

record method_descriptor =
  md_params :: "field_type list"
  md_return_type :: return_type

subsection \<open>The parser\<close>

type_synonym 'a parse = "string \<Rightarrow> classfile_error + 'a \<times> string"

definition p_expect :: "char \<Rightarrow> unit parse" where
  "p_expect b s =
     (case s of
        c # rest \<Rightarrow> if c = b then Inr ((), rest) else Inl (Malformed ''descriptor: unexpected character'')
      | [] \<Rightarrow> Inl (Malformed ''descriptor: unexpected character''))"

definition p_class_name :: "string parse" where
  "p_class_name s =
     (if CHR '';'' \<in> set s
      then Inr (takeWhile (\<lambda>c. c \<noteq> CHR '';'') s, tl (dropWhile (\<lambda>c. c \<noteq> CHR '';'') s))
      else Inl (Malformed ''descriptor: unterminated L..;''))"

fun p_field_type :: "field_type parse" where
  "p_field_type [] = Inl (Malformed ''descriptor: expected a field type'')"
| "p_field_type (b # rest) =
     (if b = CHR ''['' then
        (case p_field_type rest of Inl e \<Rightarrow> Inl e | Inr (t, s) \<Rightarrow> Inr (Array t, s))
      else if b = CHR ''L'' then
        (case p_class_name rest of Inl e \<Rightarrow> Inl e | Inr (name, s) \<Rightarrow> Inr (Object name, s))
      else case from_byte b of
        Some base \<Rightarrow> Inr (Base base, rest)
      | None \<Rightarrow> Inl (Malformed ''descriptor: expected a field type''))"

definition p_return_type :: "return_type parse" where
  "p_return_type s =
     (case s of
        c # rest \<Rightarrow>
          if c = CHR ''V'' then Inr (Void, rest)
          else (case p_field_type s of Inl e \<Rightarrow> Inl e | Inr (t, s') \<Rightarrow> Inr (Type t, s'))
      | [] \<Rightarrow> (case p_field_type s of Inl e \<Rightarrow> Inl e | Inr (t, s') \<Rightarrow> Inr (Type t, s')))"

definition field_parse :: "string \<Rightarrow> classfile_error + field_type" where
  "field_parse s =
     (case p_field_type s of
        Inl e \<Rightarrow> Inl e
      | Inr (t, rest) \<Rightarrow>
          if rest = [] then Inr t else Inl (Malformed ''descriptor: trailing characters''))"

subsection \<open>Rendering\<close>

fun field_render :: "field_type \<Rightarrow> string" where
  "field_render (Base b) = [as_char b]"
| "field_render (Object name) = ''L'' @ name @ '';''"
| "field_render (Array inner) = ''['' @ field_render inner"

fun return_render :: "return_type \<Rightarrow> string" where
  "return_render Void = ''V''"
| "return_render (Type t) = field_render t"

definition method_render :: "method_descriptor \<Rightarrow> string" where
  "method_render m =
     ''('' @ concat (map field_render (md_params m)) @ '')'' @ return_render (md_return_type m)"

text \<open>A class name ends at the first semicolon, so a renderable one holds none.\<close>

fun wf_field_type :: "field_type \<Rightarrow> bool" where
  "wf_field_type (Base b) \<longleftrightarrow> True"
| "wf_field_type (Object name) \<longleftrightarrow> CHR '';'' \<notin> set name"
| "wf_field_type (Array inner) \<longleftrightarrow> wf_field_type inner"

fun wf_return_type :: "return_type \<Rightarrow> bool" where
  "wf_return_type Void \<longleftrightarrow> True"
| "wf_return_type (Type t) \<longleftrightarrow> wf_field_type t"

definition wf_method_descriptor :: "method_descriptor \<Rightarrow> bool" where
  "wf_method_descriptor m \<longleftrightarrow> list_all wf_field_type (md_params m) \<and> wf_return_type (md_return_type m)"

subsection \<open>Parsing inverts rendering\<close>

lemma from_byte_iff: "from_byte b = Some t \<longleftrightarrow> b = as_char t"
  by (cases t) (auto simp: from_byte_def split: if_splits)

lemma from_byte_as_char [simp]: "from_byte (as_char t) = Some t"
  by (simp add: from_byte_iff)

lemma as_char_inject [simp]: "as_char t = as_char u \<longleftrightarrow> t = u"
  by (metis from_byte_as_char option.inject)

lemma as_char_not [simp]:
  "as_char t \<noteq> CHR ''[''" "as_char t \<noteq> CHR ''L''" "as_char t \<noteq> CHR ''V''" "as_char t \<noteq> CHR '')''"
  by (cases t; simp)+

lemma p_class_name_iff:
  "p_class_name s = Inr (name, s') \<longleftrightarrow> CHR '';'' \<notin> set name \<and> s = name @ '';'' @ s'"
proof
  assume "p_class_name s = Inr (name, s')"
  then have mem: "CHR '';'' \<in> set s" and name: "name = takeWhile (\<lambda>c. c \<noteq> CHR '';'') s"
    and s': "s' = tl (dropWhile (\<lambda>c. c \<noteq> CHR '';'') s)"
    by (auto simp: p_class_name_def split: if_splits)
  then obtain rest where "dropWhile (\<lambda>c. c \<noteq> CHR '';'') s = CHR '';'' # rest"
    by (cases "dropWhile (\<lambda>c. c \<noteq> CHR '';'') s") (auto simp: dropWhile_eq_Cons_conv dropWhile_eq_Nil_conv)
  then have "s = takeWhile (\<lambda>c. c \<noteq> CHR '';'') s @ CHR '';'' # rest"
    by (metis takeWhile_dropWhile_id)
  then show "CHR '';'' \<notin> set name \<and> s = name @ '';'' @ s'"
    using name s' \<open>dropWhile _ s = _\<close> by (auto dest: set_takeWhileD)
next
  assume "CHR '';'' \<notin> set name \<and> s = name @ '';'' @ s'"
  then show "p_class_name s = Inr (name, s')"
    by (auto simp: p_class_name_def takeWhile_append dropWhile_append)
qed

lemma p_field_type_iff:
  "p_field_type s = Inr (t, s') \<longleftrightarrow> wf_field_type t \<and> s = field_render t @ s'"
proof (induction s arbitrary: t rule: p_field_type.induct)
  case 1
  show ?case by (cases t) auto
next
  case (2 b rest)
  note flip [simp] = as_char_not [symmetric]
  consider "b = CHR ''[''" | "b = CHR ''L''" | "b \<noteq> CHR ''[''" "b \<noteq> CHR ''L''" by blast
  then show ?case
  proof cases
    case 1
    show ?thesis
    proof (cases t)
      case (Array inner)
      then show ?thesis using 1 2 [of inner] by (auto split: sum.splits)
    qed (use 1 in \<open>auto split: sum.splits\<close>)
  next
    case 2
    show ?thesis
    proof (cases t)
      case (Object name)
      then show ?thesis using 2 p_class_name_iff [of rest name s'] by (auto split: sum.splits)
    qed (use 2 in \<open>auto split: sum.splits\<close>)
  next
    case 3
    then show ?thesis by (cases t) (auto simp: from_byte_iff split: option.splits)
  qed
qed

lemma field_render_not_Nil [simp]: "field_render t \<noteq> []"
  by (cases t) simp_all

lemma p_field_type_shrinks: "p_field_type s = Inr (t, s') \<Longrightarrow> length s' < length s"
  by (simp add: p_field_type_iff)

lemma field_parse_iff: "field_parse s = Inr t \<longleftrightarrow> wf_field_type t \<and> s = field_render t"
proof -
  have "field_parse s = Inr t \<longleftrightarrow> p_field_type s = Inr (t, [])"
    by (auto simp: field_parse_def split: sum.splits prod.splits if_splits)
  then show ?thesis by (simp add: p_field_type_iff)
qed

text \<open>The first character tells a \<open>V\<close> from a field type, and a parameter from the \<open>)\<close>.\<close>

lemma render_first:
  "CHR ''V'' # rest \<noteq> field_render t @ s'" "CHR '')'' # rest \<noteq> field_render t @ s'"
  using as_char_not [symmetric] by (cases t; simp)+

lemma p_return_type_iff: "p_return_type s = Inr (t, s') \<longleftrightarrow> wf_return_type t \<and> s = return_render t @ s'"
proof (cases "\<exists>rest. s = CHR ''V'' # rest")
  case True
  then show ?thesis
    using render_first(1) by (cases t) (auto simp: p_return_type_def)
next
  case False
  then have "p_return_type s = Inr (t, s') \<longleftrightarrow> (\<exists>f. t = Type f \<and> p_field_type s = Inr (f, s'))"
    by (cases s) (auto simp: p_return_type_def split: sum.splits)
  then show ?thesis using False by (cases t) (auto simp: p_field_type_iff)
qed

subsection \<open>Method descriptors\<close>

text \<open>\<open>while self.peek() != Some(b')')\<close>; at the end of the text \<open>field_type\<close> fails.\<close>

function p_params :: "field_type list parse" where
  "p_params s =
     (if s \<noteq> [] \<and> hd s = CHR '')'' then Inr ([], s)
      else case p_field_type s of
        Inl e \<Rightarrow> Inl e
      | Inr (t, s1) \<Rightarrow>
          (case p_params s1 of Inl e \<Rightarrow> Inl e | Inr (ts, s2) \<Rightarrow> Inr (t # ts, s2)))"
  by pat_completeness auto
termination
  by (relation "measure length") (auto dest: p_field_type_shrinks)

declare p_params.simps [simp del]

definition method_parse :: "string \<Rightarrow> classfile_error + method_descriptor" where
  "method_parse s =
     (case p_expect (CHR ''('') s of
        Inl e \<Rightarrow> Inl e
      | Inr (_, s1) \<Rightarrow>
     (case p_params s1 of
        Inl e \<Rightarrow> Inl e
      | Inr (params, s2) \<Rightarrow>
     (case p_expect (CHR '')'') s2 of
        Inl e \<Rightarrow> Inl e
      | Inr (_, s3) \<Rightarrow>
     (case p_return_type s3 of
        Inl e \<Rightarrow> Inl e
      | Inr (return_type, rest) \<Rightarrow>
          if rest = [] then Inr \<lparr>md_params = params, md_return_type = return_type\<rparr>
          else Inl (Malformed ''descriptor: trailing characters'')))))"

lemma p_params_iff:
  "p_params s = Inr (ts, s') \<longleftrightarrow>
     list_all wf_field_type ts \<and> s = concat (map field_render ts) @ s' \<and> s' \<noteq> [] \<and> hd s' = CHR '')''"
proof (induction s arbitrary: ts rule: p_params.induct)
  case (1 s)
  show ?case
  proof (cases "s \<noteq> [] \<and> hd s = CHR '')''")
    case True
    have "ts = []" if "s = concat (map field_render ts) @ s'"
    proof (rule ccontr)
      assume "ts \<noteq> []"
      then obtain t ts' where "ts = t # ts'" by (cases ts) auto
      moreover obtain rest where "s = CHR '')'' # rest" using True by (cases s) auto
      ultimately show False
        using that render_first(2) [of rest t "concat (map field_render ts') @ s'"] by simp
    qed
    then show ?thesis using True by (auto simp: p_params.simps [of s])
  next
    case False
    have step: "p_params s = Inr (ts, s') \<longleftrightarrow>
        (\<exists>t s1 ts'. p_field_type s = Inr (t, s1) \<and> p_params s1 = Inr (ts', s') \<and> ts = t # ts')"
      using False by (subst p_params.simps) (auto split: sum.splits)
    show ?thesis
    proof (cases ts)
      case Nil
      then show ?thesis using step False unfolding Nil by auto
    next
      case (Cons t ts')
      have "p_params s1 = Inr (ts', s') \<longleftrightarrow> list_all wf_field_type ts' \<and>
          s1 = concat (map field_render ts') @ s' \<and> s' \<noteq> [] \<and> hd s' = CHR '')''"
        if "p_field_type s = Inr (t, s1)" for s1
        using "1.IH" [OF False that refl] by blast
      moreover have "p_params s = Inr (t # ts', s') \<longleftrightarrow>
          (\<exists>s1. p_field_type s = Inr (t, s1) \<and> p_params s1 = Inr (ts', s'))"
        using step unfolding Cons by auto
      ultimately show ?thesis unfolding Cons by (auto simp: p_field_type_iff)
    qed
  qed
qed

lemma p_expect_iff: "p_expect b s = Inr (u, s') \<longleftrightarrow> s = b # s'"
  by (cases s) (auto simp: p_expect_def)

lemma method_parse_iff: "method_parse s = Inr m \<longleftrightarrow> wf_method_descriptor m \<and> s = method_render m"
proof -
  have "method_parse s = Inr m \<longleftrightarrow> (\<exists>s1 s2 s3 ps t. p_expect (CHR ''('') s = Inr ((), s1) \<and>
      p_params s1 = Inr (ps, s2) \<and> p_expect (CHR '')'') s2 = Inr ((), s3) \<and>
      p_return_type s3 = Inr (t, []) \<and> m = \<lparr>md_params = ps, md_return_type = t\<rparr>)"
    by (auto simp: method_parse_def split: sum.splits prod.splits if_splits)
  also have "\<dots> \<longleftrightarrow> wf_method_descriptor m \<and> s = method_render m"
    by (cases m) (auto simp: p_expect_iff p_params_iff p_return_type_iff wf_method_descriptor_def method_render_def)
  finally show ?thesis .
qed

subsection \<open>Properties\<close>

text \<open>C27: a method descriptor parses exactly when it is the rendering of a descriptor whose class
  names hold no semicolon, and then to that descriptor: parsing and rendering are inverse to each
  other, and every other text is an error.\<close>

theorem method_descriptor_parse_render:
  "method_parse s = Inr m \<longleftrightarrow> wf_method_descriptor m \<and> s = method_render m"
  by (rule method_parse_iff)

text \<open>The same for a field descriptor, which consumes its whole text or is refused.\<close>

theorem field_descriptor_parse_render:
  "field_parse s = Inr t \<longleftrightarrow> wf_field_type t \<and> s = field_render t"
  by (rule field_parse_iff)

end
