(* ===== verification/Signature.thy ===== *)
theory Signature
  imports Descriptor
begin

text \<open>
  \<open>jals-classfile/src/signature.rs\<close>: generic signatures, their parser and their rendering. As in
  \<open>Descriptor\<close>, text is the list of its bytes and the parser's cursor is the rest of the text. The
  parser is mutually recursive through class types and their arguments; its loops are recursive
  functions of their own. All of them return on every text: each call consumes a byte before the
  cycle closes, which the termination proof shows.
\<close>

subsection \<open>Types\<close>

datatype type_signature =
    Sig_Base base_type
  | Sig_Class class_type_signature
  | Sig_Variable string
  | Sig_Array type_signature
and class_type_signature = Class_Type string "type_argument list" "simple_class_type list"
and simple_class_type = Simple_Class string "type_argument list"
and type_argument = Any | Exact type_signature | Extends type_signature | Super type_signature

record type_parameter =
  tp_name :: string
  class_bound :: "type_signature option"
  interface_bounds :: "type_signature list"

record class_signature =
  cs_type_parameters :: "type_parameter list"
  superclass :: class_type_signature
  superinterfaces :: "class_type_signature list"

datatype result_signature = Result_Void | Result_Type type_signature

datatype throws_signature = Throws_Class class_type_signature | Throws_Variable string

record method_signature =
  ms_type_parameters :: "type_parameter list"
  parameters :: "type_signature list"
  ms_result :: result_signature
  ms_throws :: "throws_signature list"

definition is_java_lang_object :: "type_signature \<Rightarrow> bool" where
  "is_java_lang_object t = (t = Sig_Class (Class_Type ''java/lang/Object'' [] []))"

subsection \<open>The parser\<close>

definition p_bind :: "classfile_error + 'a \<times> string \<Rightarrow> ('a \<Rightarrow> 'b parse) \<Rightarrow> classfile_error + 'b \<times> string" where
  "p_bind m f = (case m of Inl e \<Rightarrow> Inl e | Inr (a, s) \<Rightarrow> f a s)"

definition peek :: "string \<Rightarrow> char option" where
  "peek s = (case s of [] \<Rightarrow> None | c # _ \<Rightarrow> Some c)"

definition s_expect :: "char \<Rightarrow> unit parse" where
  "s_expect b s =
     (if peek s = Some b then Inr ((), tl s) else Inl (Malformed ''signature: unexpected character''))"

definition read_until :: "string \<Rightarrow> string \<Rightarrow> string \<times> string" where
  "read_until terminators s =
     (takeWhile (\<lambda>c. c \<notin> set terminators) s, dropWhile (\<lambda>c. c \<notin> set terminators) s)"

definition p_type_variable :: "string parse" where
  "p_type_variable s =
     (case read_until '';'' s of (name, s1) \<Rightarrow> p_bind (s_expect (CHR '';'') s1) (\<lambda>_ s2. Inr (name, s2)))"

lemma p_bind_cong [fundef_cong]:
  "m = m' \<Longrightarrow> (\<And>a s. m' = Inr (a, s) \<Longrightarrow> f a s = f' a s) \<Longrightarrow> p_bind m f = p_bind m' f'"
  by (auto simp: p_bind_def split: sum.splits)

function p_java_type :: "type_signature parse"
  and p_reference_type :: "type_signature parse"
  and p_class_type :: "class_type_signature parse"
  and p_suffixes :: "simple_class_type list parse"
  and p_arguments_opt :: "type_argument list parse"
  and p_arguments :: "type_argument list parse"
  and p_argument :: "type_argument parse" where
  "p_java_type s =
     (case Option.bind (peek s) from_byte of
        Some base \<Rightarrow> Inr (Sig_Base base, tl s)
      | None \<Rightarrow> p_reference_type s)"
| "p_reference_type s =
     (if peek s = Some (CHR ''L'') then p_bind (p_class_type s) (\<lambda>c s1. Inr (Sig_Class c, s1))
      else if peek s = Some (CHR ''T'') then
        p_bind (p_type_variable (tl s)) (\<lambda>name s1. Inr (Sig_Variable name, s1))
      else if peek s = Some (CHR ''['') then
        p_bind (p_java_type (tl s)) (\<lambda>t s1. Inr (Sig_Array t, s1))
      else Inl (Malformed ''signature: expected a reference type''))"
| "p_class_type s =
     p_bind (s_expect (CHR ''L'') s) (\<lambda>_ s1.
       case read_until ''<.;'' s1 of (name, s2) \<Rightarrow>
         p_bind (p_arguments_opt s2) (\<lambda>type_arguments s3.
         p_bind (p_suffixes s3) (\<lambda>suffixes s4.
         p_bind (s_expect (CHR '';'') s4) (\<lambda>_ s5.
           Inr (Class_Type name type_arguments suffixes, s5)))))"
| "p_suffixes s =
     (if peek s = Some (CHR ''.'') then
        case read_until ''<.;'' (tl s) of (name, s1) \<Rightarrow>
          p_bind (p_arguments_opt s1) (\<lambda>type_arguments s2.
          p_bind (p_suffixes s2) (\<lambda>suffixes s3.
            Inr (Simple_Class name type_arguments # suffixes, s3)))
      else Inr ([], s))"
| "p_arguments_opt s = (if peek s = Some (CHR ''<'') then p_arguments (tl s) else Inr ([], s))"
| "p_arguments s =
     (if peek s = Some (CHR ''>'') then Inr ([], tl s)
      else if peek s = None then Inl (Malformed ''signature: unterminated <'')
      else p_bind (p_argument s) (\<lambda>arg s1.
           p_bind (p_arguments s1) (\<lambda>args s2. Inr (arg # args, s2))))"
| "p_argument s =
     (if peek s = Some (CHR ''*'') then Inr (Any, tl s)
      else if peek s = Some (CHR ''+'') then
        p_bind (p_reference_type (tl s)) (\<lambda>t s1. Inr (Extends t, s1))
      else if peek s = Some (CHR ''-'') then
        p_bind (p_reference_type (tl s)) (\<lambda>t s1. Inr (Super t, s1))
      else p_bind (p_reference_type s) (\<lambda>t s1. Inr (Exact t, s1)))"
  by pat_completeness auto

lemma p_bind_Inr: "p_bind m f = Inr r \<longleftrightarrow> (\<exists>a s. m = Inr (a, s) \<and> f a s = Inr r)"
  by (auto simp: p_bind_def split: sum.splits)

lemma case_prod_Inr: "case_prod f p = Inr r \<longleftrightarrow> (\<exists>a b. p = (a, b) \<and> f a b = Inr r)"
  by (cases p) simp

lemma peek_Some: "peek s = Some c \<longleftrightarrow> (\<exists>rest. s = c # rest)"
  by (cases s) (auto simp: peek_def)

lemma peek_None: "peek s = None \<longleftrightarrow> s = []"
  by (cases s) (auto simp: peek_def)

lemma s_expect_iff: "s_expect b s = Inr (u, s') \<longleftrightarrow> s = b # s'"
  by (auto simp: s_expect_def peek_Some split: if_splits)

lemma read_until_length: "read_until ts s = (name, s') \<Longrightarrow> length s' \<le> length s"
  by (auto simp: read_until_def length_dropWhile_le)

lemma p_type_variable_length: "p_type_variable s = Inr (name, s') \<Longrightarrow> length s' < length s"
  by (auto simp: p_type_variable_def p_bind_Inr s_expect_iff split: prod.splits dest!: read_until_length)

text \<open>
  No parser returns more than it was given, and the ones that read a construct return less. This is
  shown along the recursion, before it is known to end, and is what makes it end.
\<close>

abbreviation sig_dom where
  "sig_dom \<equiv> p_java_type_p_reference_type_p_class_type_p_suffixes_p_arguments_opt_p_arguments_p_argument_dom"

lemma parsers_shrink_on_dom:
  shows "sig_dom (Inl (Inl s1)) \<Longrightarrow> \<forall>t s'. p_java_type s1 = Inr (t, s') \<longrightarrow> length s' < length s1"
    and "sig_dom (Inl (Inr (Inl s2))) \<Longrightarrow> \<forall>t s'. p_reference_type s2 = Inr (t, s') \<longrightarrow> length s' < length s2"
    and "sig_dom (Inl (Inr (Inr s3))) \<Longrightarrow> \<forall>t s'. p_class_type s3 = Inr (t, s') \<longrightarrow> length s' < length s3"
    and "sig_dom (Inr (Inl (Inl s4))) \<Longrightarrow> \<forall>t s'. p_suffixes s4 = Inr (t, s') \<longrightarrow> length s' \<le> length s4"
    and "sig_dom (Inr (Inl (Inr s5))) \<Longrightarrow> \<forall>t s'. p_arguments_opt s5 = Inr (t, s') \<longrightarrow> length s' \<le> length s5"
    and "sig_dom (Inr (Inr (Inl s6))) \<Longrightarrow> \<forall>t s'. p_arguments s6 = Inr (t, s') \<longrightarrow> length s' < length s6"
    and "sig_dom (Inr (Inr (Inr s7))) \<Longrightarrow> \<forall>t s'. p_argument s7 = Inr (t, s') \<longrightarrow> length s' < length s7"
proof (induction s1 and s2 and s3 and s4 and s5 and s6 and s7
    rule: p_java_type_p_reference_type_p_class_type_p_suffixes_p_arguments_opt_p_arguments_p_argument.pinduct)
  case (1 s)
  then show ?case
    by (auto simp: p_java_type.psimps bind_eq_Some_conv peek_Some split: option.splits)
next
  case (2 s)
  then show ?case
    by (auto simp: p_reference_type.psimps p_bind_Inr peek_Some dest!: p_type_variable_length split: if_splits)
next
  case (3 s)
  show ?case
  proof (intro allI impI)
    fix t s' assume "p_class_type s = Inr (t, s')"
    with "3.hyps" obtain s1 name s2 args s3 sufs s4 where *: "s_expect (CHR ''L'') s = Inr ((), s1)"
      "read_until ''<.;'' s1 = (name, s2)" "p_arguments_opt s2 = Inr (args, s3)"
      "p_suffixes s3 = Inr (sufs, s4)" "s4 = CHR '';'' # s'" "s = CHR ''L'' # s1"
      by (auto simp: p_class_type.psimps p_bind_Inr s_expect_iff case_prod_Inr)
    have "length s3 \<le> length s2" using "3.IH"(1) [OF *(1) *(2) [symmetric]] *(3) by blast
    moreover have "length s4 \<le> length s3"
      using "3.IH"(2) [OF *(1) *(2) [symmetric] *(3)] *(4) by blast
    moreover have "length s2 \<le> length s1" by (rule read_until_length [OF *(2)])
    ultimately show "length s' < length s" using *(5,6) by simp
  qed
next
  case (4 s)
  show ?case
  proof (intro allI impI)
    fix t s' assume r: "p_suffixes s = Inr (t, s')"
    show "length s' \<le> length s"
    proof (cases "peek s = Some (CHR ''.'')")
      case True
      with r "4.hyps" obtain name s1 args s2 sufs where *: "read_until ''<.;'' (tl s) = (name, s1)"
        "p_arguments_opt s1 = Inr (args, s2)" "p_suffixes s2 = Inr (sufs, s')"
        by (auto simp: p_suffixes.psimps p_bind_Inr case_prod_Inr)
      have "length s2 \<le> length s1" using "4.IH"(1) [OF True *(1) [symmetric]] *(2) by blast
      moreover have "length s' \<le> length s2"
        using "4.IH"(2) [OF True *(1) [symmetric] *(2)] *(3) by blast
      moreover have "length s1 \<le> length (tl s)" by (rule read_until_length [OF *(1)])
      ultimately show ?thesis by simp
    qed (use r "4.hyps" in \<open>simp add: p_suffixes.psimps\<close>)
  qed
next
  case (5 s)
  then show ?case by (auto simp: p_arguments_opt.psimps peek_Some split: if_splits)
next
  case (6 s)
  then show ?case
    by (auto simp: p_arguments.psimps p_bind_Inr peek_Some peek_None split: if_splits)
next
  case (7 s)
  then show ?case
    by (auto simp: p_argument.psimps p_bind_Inr peek_Some split: if_splits)
qed

lemma sig_dom_all: "All sig_dom"
proof (relation "measures
    [case_sum (case_sum length (case_sum length length))
       (case_sum (case_sum length length) (case_sum length length)),
     case_sum (case_sum (\<lambda>_. 2) (case_sum (\<lambda>_. 1) (\<lambda>_. 0)))
       (case_sum (case_sum (\<lambda>_. 0) (\<lambda>_. 0)) (case_sum (\<lambda>_. 3) (\<lambda>_. 2)))]")
qed (auto simp: peek_Some peek_None s_expect_iff dest!: read_until_length [OF sym] parsers_shrink_on_dom(4-7) [rule_format])

termination p_java_type by (rule sig_dom_all)

lemmas signature_parsers =
  p_java_type.simps p_reference_type.simps p_class_type.simps p_suffixes.simps p_arguments_opt.simps
  p_arguments.simps p_argument.simps

declare signature_parsers [simp del]

lemma parsers_shrink:
  "p_java_type s = Inr (t, s') \<Longrightarrow> length s' < length s"
  "p_reference_type s = Inr (t, s') \<Longrightarrow> length s' < length s"
  "p_class_type s = Inr (c, s') \<Longrightarrow> length s' < length s"
  using parsers_shrink_on_dom(1-3) [OF spec [OF sig_dom_all]] by blast+

subsection \<open>Type parameters and the two whole signatures\<close>

function p_interface_bounds :: "type_signature list parse" where
  "p_interface_bounds s =
     (if peek s = Some (CHR '':'') then
        p_bind (p_reference_type (tl s)) (\<lambda>b s1.
        p_bind (p_interface_bounds s1) (\<lambda>bs s2. Inr (b # bs, s2)))
      else Inr ([], s))"
  by pat_completeness auto
termination
  by (relation "measure length") (auto simp: peek_Some dest: parsers_shrink)

definition starts_reference_type :: "string \<Rightarrow> bool" where
  "starts_reference_type s = (peek s \<in> {Some (CHR ''L''), Some (CHR ''T''), Some (CHR ''['')})"

definition p_class_bound :: "type_signature option parse" where
  "p_class_bound s =
     (if starts_reference_type s then p_bind (p_reference_type s) (\<lambda>t s1. Inr (Some t, s1))
      else Inr (None, s))"

definition p_type_parameter :: "type_parameter parse" where
  "p_type_parameter s =
     (case read_until '':'' s of (name, s1) \<Rightarrow>
      p_bind (s_expect (CHR '':'') s1) (\<lambda>_ s2.
      p_bind (p_class_bound s2) (\<lambda>bound s3.
      p_bind (p_interface_bounds s3) (\<lambda>bounds s4.
        Inr (\<lparr>tp_name = name, class_bound = bound, interface_bounds = bounds\<rparr>, s4)))))"

declare p_interface_bounds.simps [simp del]

lemma p_interface_bounds_length: "p_interface_bounds s = Inr (bs, s') \<Longrightarrow> length s' \<le> length s"
proof (induction s arbitrary: bs rule: p_interface_bounds.induct)
  case (1 s)
  show ?case
  proof (cases "peek s = Some (CHR '':'')")
    case True
    with "1.prems" obtain b s1 bs' where *: "p_reference_type (tl s) = Inr (b, s1)"
      "p_interface_bounds s1 = Inr (bs', s')"
      by (subst (asm) p_interface_bounds.simps) (auto simp: p_bind_Inr)
    have "length s' \<le> length s1" by (rule "1.IH" [OF True *])
    moreover have "length s1 < length (tl s)" by (rule parsers_shrink(2) [OF *(1)])
    ultimately show ?thesis by simp
  qed (use "1.prems" in \<open>simp add: p_interface_bounds.simps [of s]\<close>)
qed

lemma p_type_parameter_length:
  assumes "p_type_parameter s = Inr (p, s')"
  shows "length s' < length s"
proof -
  obtain name s1 s2 s3 bounds where *: "read_until '':'' s = (name, s1)" "s1 = CHR '':'' # s2"
    "s3 = s2 \<or> (\<exists>bound. p_reference_type s2 = Inr (bound, s3))" "p_interface_bounds s3 = Inr (bounds, s')"
    using assms by (fastforce simp: p_type_parameter_def p_class_bound_def p_bind_Inr case_prod_Inr s_expect_iff split: if_splits)
  have "length s1 \<le> length s" by (rule read_until_length [OF *(1)])
  moreover have "length s3 \<le> length s2" using *(3) by (auto dest: parsers_shrink(2))
  moreover have "length s' \<le> length s3" by (rule p_interface_bounds_length [OF *(4)])
  ultimately show ?thesis using *(2) by simp
qed

text \<open>The loops of \<open>type_parameters_opt\<close>, of the superinterfaces, the parameters and the throws.\<close>

function p_type_parameters :: "type_parameter list parse" where
  "p_type_parameters s =
     (if peek s = Some (CHR ''>'') then Inr ([], tl s)
      else if peek s = None then Inl (Malformed ''signature: unterminated <'')
      else p_bind (p_type_parameter s) (\<lambda>p s1.
           p_bind (p_type_parameters s1) (\<lambda>ps s2. Inr (p # ps, s2))))"
  by pat_completeness auto
termination
  by (relation "measure length") (auto dest: p_type_parameter_length)

definition p_type_parameters_opt :: "type_parameter list parse" where
  "p_type_parameters_opt s = (if peek s = Some (CHR ''<'') then p_type_parameters (tl s) else Inr ([], s))"

function p_superinterfaces :: "class_type_signature list parse" where
  "p_superinterfaces s =
     (if peek s = None then Inr ([], s)
      else p_bind (p_class_type s) (\<lambda>c s1.
           p_bind (p_superinterfaces s1) (\<lambda>cs s2. Inr (c # cs, s2))))"
  by pat_completeness auto
termination
  by (relation "measure length") (auto dest: parsers_shrink)

function p_parameters :: "type_signature list parse" where
  "p_parameters s =
     (if peek s = Some (CHR '')'') then Inr ([], s)
      else if peek s = None then Inl (Malformed ''signature: unterminated ('')
      else p_bind (p_java_type s) (\<lambda>t s1.
           p_bind (p_parameters s1) (\<lambda>ts s2. Inr (t # ts, s2))))"
  by pat_completeness auto
termination
  by (relation "measure length") (auto dest: parsers_shrink)

definition p_throws_clause :: "throws_signature parse" where
  "p_throws_clause s =
     (if peek s = Some (CHR ''T'')
      then p_bind (p_type_variable (tl s)) (\<lambda>name s1. Inr (Throws_Variable name, s1))
      else p_bind (p_class_type s) (\<lambda>c s1. Inr (Throws_Class c, s1)))"

lemma p_throws_clause_length: "p_throws_clause s = Inr (t, s') \<Longrightarrow> length s' < length s"
  by (auto simp: p_throws_clause_def p_bind_Inr peek_Some dest!: p_type_variable_length parsers_shrink split: if_splits)

function p_throws :: "throws_signature list parse" where
  "p_throws s =
     (if peek s = Some (CHR ''^'') then
        p_bind (p_throws_clause (tl s)) (\<lambda>t s1.
        p_bind (p_throws s1) (\<lambda>ts s2. Inr (t # ts, s2)))
      else Inr ([], s))"
  by pat_completeness auto
termination
  by (relation "measure length") (auto simp: peek_Some dest: p_throws_clause_length)

lemmas signature_loops =
  p_interface_bounds.simps p_type_parameters.simps p_superinterfaces.simps p_parameters.simps p_throws.simps

declare signature_loops [simp del]

definition p_class_signature :: "class_signature parse" where
  "p_class_signature s =
     p_bind (p_type_parameters_opt s) (\<lambda>ps s1.
     p_bind (p_class_type s1) (\<lambda>super s2.
     p_bind (p_superinterfaces s2) (\<lambda>interfaces s3.
       Inr (\<lparr>cs_type_parameters = ps, superclass = super, superinterfaces = interfaces\<rparr>, s3))))"

definition p_result :: "result_signature parse" where
  "p_result s =
     (if peek s = Some (CHR ''V'') then Inr (Result_Void, tl s)
      else p_bind (p_java_type s) (\<lambda>t s1. Inr (Result_Type t, s1)))"

definition p_method_signature :: "method_signature parse" where
  "p_method_signature s =
     p_bind (p_type_parameters_opt s) (\<lambda>type_parameters s1.
     p_bind (s_expect (CHR ''('') s1) (\<lambda>_ s2.
     p_bind (p_parameters s2) (\<lambda>params s3.
     p_bind (s_expect (CHR '')'') s3) (\<lambda>_ s4.
     p_bind (p_result s4) (\<lambda>res s5.
     p_bind (p_throws s5) (\<lambda>throws s6.
       Inr (\<lparr>ms_type_parameters = type_parameters, parameters = params, ms_result = res,
         ms_throws = throws\<rparr>, s6)))))))"

definition at_eof :: "classfile_error + 'a \<times> string \<Rightarrow> classfile_error + 'a" where
  "at_eof m = (case m of
       Inl e \<Rightarrow> Inl e
     | Inr (a, s) \<Rightarrow> if s = [] then Inr a else Inl (Malformed ''signature: trailing characters''))"

definition type_signature_parse :: "string \<Rightarrow> classfile_error + type_signature" where
  "type_signature_parse s = at_eof (p_reference_type s)"

definition class_signature_parse :: "string \<Rightarrow> classfile_error + class_signature" where
  "class_signature_parse s = at_eof (p_class_signature s)"

definition method_signature_parse :: "string \<Rightarrow> classfile_error + method_signature" where
  "method_signature_parse s = at_eof (p_method_signature s)"

subsection \<open>Rendering\<close>

fun type_render :: "type_signature \<Rightarrow> string"
  and class_type_render :: "class_type_signature \<Rightarrow> string"
  and simple_render :: "simple_class_type \<Rightarrow> string"
  and argument_render :: "type_argument \<Rightarrow> string" where
  "type_render (Sig_Base b) = [as_char b]"
| "type_render (Sig_Class c) = class_type_render c"
| "type_render (Sig_Variable name) = ''T'' @ name @ '';''"
| "type_render (Sig_Array inner) = ''['' @ type_render inner"
| "class_type_render (Class_Type name args sufs) =
     ''L'' @ name @ (if args = [] then [] else ''<'' @ concat (map argument_render args) @ ''>'') @
     concat (map simple_render sufs) @ '';''"
| "simple_render (Simple_Class name args) =
     ''.'' @ name @ (if args = [] then [] else ''<'' @ concat (map argument_render args) @ ''>'')"
| "argument_render Any = ''*''"
| "argument_render (Exact t) = type_render t"
| "argument_render (Extends t) = ''+'' @ type_render t"
| "argument_render (Super t) = ''-'' @ type_render t"

definition parameter_render :: "type_parameter \<Rightarrow> string" where
  "parameter_render p =
     tp_name p @ '':'' @ (case class_bound p of None \<Rightarrow> [] | Some t \<Rightarrow> type_render t) @
     concat (map (\<lambda>b. '':'' @ type_render b) (interface_bounds p))"

definition parameters_render :: "type_parameter list \<Rightarrow> string" where
  "parameters_render ps = (if ps = [] then [] else ''<'' @ concat (map parameter_render ps) @ ''>'')"

definition class_signature_render :: "class_signature \<Rightarrow> string" where
  "class_signature_render c =
     parameters_render (cs_type_parameters c) @ class_type_render (superclass c) @
     concat (map class_type_render (superinterfaces c))"

fun result_render :: "result_signature \<Rightarrow> string" where
  "result_render Result_Void = ''V''"
| "result_render (Result_Type t) = type_render t"

fun throws_render :: "throws_signature \<Rightarrow> string" where
  "throws_render (Throws_Class c) = ''^'' @ class_type_render c"
| "throws_render (Throws_Variable name) = ''^T'' @ name @ '';''"

definition method_signature_render :: "method_signature \<Rightarrow> string" where
  "method_signature_render m =
     parameters_render (ms_type_parameters m) @ ''('' @ concat (map type_render (parameters m)) @ '')'' @
     result_render (ms_result m) @ concat (map throws_render (ms_throws m))"

end
