(* ===== verification/Signature_Round_Trip.thy ===== *)
theory Signature_Round_Trip
  imports Signature "HOL-Library.Sublist"
begin

text \<open>
  Parsing against rendering for the generic signatures of \<open>Signature\<close>: which values a text can
  carry, that their rendering is read back, and that a text which parses is the rendering of what was
  read unless it holds an empty list \<open><>\<close>.
\<close>

subsection \<open>Well-formed signatures\<close>

text \<open>
  Names stop where the parser stops reading them. A bound or type argument is a reference type. In a
  list of type parameters every name but the first must not be empty (a \<open>:\<close> would be read as a
  further bound), none starts with the closing \<open>>\<close>, and behind a parameter without any bound a name
  starting with \<open>L\<close>, \<open>T\<close> or \<open>[\<close> would be read as that bound.
\<close>

fun is_reference :: "type_signature \<Rightarrow> bool" where
  "is_reference (Sig_Base _) \<longleftrightarrow> False"
| "is_reference _ \<longleftrightarrow> True"

fun wf_type :: "type_signature \<Rightarrow> bool"
  and wf_class_type :: "class_type_signature \<Rightarrow> bool"
  and wf_simple :: "simple_class_type \<Rightarrow> bool"
  and wf_argument :: "type_argument \<Rightarrow> bool" where
  "wf_type (Sig_Base b) \<longleftrightarrow> True"
| "wf_type (Sig_Class c) \<longleftrightarrow> wf_class_type c"
| "wf_type (Sig_Variable name) \<longleftrightarrow> CHR '';'' \<notin> set name"
| "wf_type (Sig_Array inner) \<longleftrightarrow> wf_type inner"
| "wf_class_type (Class_Type name args sufs) \<longleftrightarrow>
     set name \<inter> set ''<.;'' = {} \<and> list_all wf_argument args \<and> list_all wf_simple sufs"
| "wf_simple (Simple_Class name args) \<longleftrightarrow> set name \<inter> set ''<.;'' = {} \<and> list_all wf_argument args"
| "wf_argument Any \<longleftrightarrow> True"
| "wf_argument (Exact t) \<longleftrightarrow> is_reference t \<and> wf_type t"
| "wf_argument (Extends t) \<longleftrightarrow> is_reference t \<and> wf_type t"
| "wf_argument (Super t) \<longleftrightarrow> is_reference t \<and> wf_type t"

definition wf_reference :: "type_signature \<Rightarrow> bool" where
  "wf_reference t \<longleftrightarrow> is_reference t \<and> wf_type t"

definition wf_parameter :: "type_parameter \<Rightarrow> bool" where
  "wf_parameter p \<longleftrightarrow> CHR '':'' \<notin> set (tp_name p) \<and> peek (tp_name p) \<noteq> Some (CHR ''>'') \<and>
     pred_option wf_reference (class_bound p) \<and> list_all wf_reference (interface_bounds p)"

definition may_follow :: "type_parameter \<Rightarrow> type_parameter \<Rightarrow> bool" where
  "may_follow p q \<longleftrightarrow> tp_name q \<noteq> [] \<and>
     \<not> (class_bound p = None \<and> interface_bounds p = [] \<and> starts_reference_type (tp_name q))"

definition wf_parameters :: "type_parameter list \<Rightarrow> bool" where
  "wf_parameters ps \<longleftrightarrow> list_all wf_parameter ps \<and> successively may_follow ps"

definition wf_class_signature :: "class_signature \<Rightarrow> bool" where
  "wf_class_signature c \<longleftrightarrow> wf_parameters (cs_type_parameters c) \<and> wf_class_type (superclass c) \<and>
     list_all wf_class_type (superinterfaces c)"

fun wf_result :: "result_signature \<Rightarrow> bool" where
  "wf_result Result_Void \<longleftrightarrow> True"
| "wf_result (Result_Type t) \<longleftrightarrow> wf_type t"

fun wf_throws :: "throws_signature \<Rightarrow> bool" where
  "wf_throws (Throws_Class c) \<longleftrightarrow> wf_class_type c"
| "wf_throws (Throws_Variable name) \<longleftrightarrow> CHR '';'' \<notin> set name"

definition wf_method_signature :: "method_signature \<Rightarrow> bool" where
  "wf_method_signature m \<longleftrightarrow> wf_parameters (ms_type_parameters m) \<and> list_all wf_type (parameters m) \<and>
     wf_result (ms_result m) \<and> list_all wf_throws (ms_throws m)"

subsection \<open>Reading back a rendering\<close>

lemma peek_Cons [simp]: "peek (c # s) = Some c"
  by (simp add: peek_def)

lemma peek_Nil [simp]: "peek [] = None"
  by (simp add: peek_def)

lemma peek_append: "peek (a @ b) = (case peek a of None \<Rightarrow> peek b | Some c \<Rightarrow> Some c)"
  by (cases a) simp_all

lemma p_bind_simps [simp]: "p_bind (Inr (a, s)) f = f a s" "p_bind (Inl e) f = Inl e"
  by (simp_all add: p_bind_def)

lemma s_expect_Cons [simp]: "s_expect b (b # s) = Inr ((), s)"
  by (simp add: s_expect_def)

lemma read_until_run:
  assumes "set name \<inter> set ts = {}" "peek s \<in> Some ` set ts"
  shows "read_until ts (name @ s) = (name, s)"
proof -
  obtain c rest where "s = c # rest" "c \<in> set ts" using assms(2) by (cases s) auto
  moreover have "\<forall>x\<in>set name. x \<notin> set ts" using assms(1) by auto
  ultimately show ?thesis by (simp add: read_until_def)
qed

lemma p_type_variable_run:
  "CHR '';'' \<notin> set name \<Longrightarrow> p_type_variable (name @ CHR '';'' # s) = Inr (name, s)"
  using read_until_run [of name "'';''" "CHR '';'' # s"] by (simp add: p_type_variable_def)

lemma type_first: "is_reference t \<Longrightarrow> peek (type_render t @ s) \<in> {Some (CHR ''L''), Some (CHR ''T''), Some (CHR ''['')}"
  by (cases t; cases "case t of Sig_Class c \<Rightarrow> c | _ \<Rightarrow> Class_Type [] [] []") auto

lemma argument_first: "wf_argument a \<Longrightarrow> peek (argument_render a @ s) \<notin> {None, Some (CHR ''>'')}"
  by (cases a) (auto dest: type_first [of _ s])

text \<open>What the induction hypothesis says of an argument, and the two runs it gives.\<close>

definition argument_runs :: "type_argument \<Rightarrow> bool" where
  "argument_runs a \<longleftrightarrow> (\<forall>s. p_argument (argument_render a @ s) = Inr (a, s))"

lemma p_arguments_run:
  "list_all argument_runs args \<Longrightarrow> list_all wf_argument args \<Longrightarrow>
     p_arguments (concat (map argument_render args) @ CHR ''>'' # s) = Inr (args, s)"
proof (induction args)
  case (Cons a args)
  then show ?case
    using argument_first [of a "concat (map argument_render args) @ CHR ''>'' # s"]
    by (subst p_arguments.simps) (auto simp: argument_runs_def)
qed (simp add: p_arguments.simps)

lemma p_arguments_opt_run:
  assumes "list_all argument_runs args" "list_all wf_argument args" "peek s \<noteq> Some (CHR ''<'')"
  shows "p_arguments_opt ((if args = [] then [] else ''<'' @ concat (map argument_render args) @ ''>'') @ s) =
    Inr (args, s)"
  using p_arguments_run [OF assms(1,2), of s] assms(3) by (simp add: p_arguments_opt.simps)

fun simple_runs :: "simple_class_type \<Rightarrow> bool" where
  "simple_runs (Simple_Class name args) \<longleftrightarrow> list_all argument_runs args"

lemma suffixes_first: "peek (concat (map simple_render sufs) @ CHR '';'' # s) \<in> {Some (CHR ''.''), Some (CHR '';'')}"
  by (cases sufs rule: list.exhaust; cases "hd sufs") auto

lemma p_suffixes_run:
  "list_all simple_runs sufs \<Longrightarrow> list_all wf_simple sufs \<Longrightarrow>
     p_suffixes (concat (map simple_render sufs) @ CHR '';'' # s) = Inr (sufs, CHR '';'' # s)"
proof (induction sufs)
  case (Cons suf sufs)
  obtain name args where suf: "suf = Simple_Class name args" by (cases suf)
  let ?rest = "concat (map simple_render sufs) @ CHR '';'' # s"
  let ?args = "if args = [] then [] else ''<'' @ concat (map argument_render args) @ ''>''"
  have "peek ?rest \<noteq> Some (CHR ''<'')" using suffixes_first [of sufs s] by auto
  then have "p_arguments_opt (?args @ ?rest) = Inr (args, ?rest)"
    using Cons.prems suf by (intro p_arguments_opt_run) auto
  moreover have "read_until ''<.;'' (name @ ?args @ ?rest) = (name, ?args @ ?rest)"
    using Cons.prems suf suffixes_first [of sufs s] by (intro read_until_run) auto
  ultimately show ?case
    using Cons suf by (subst p_suffixes.simps) simp
qed (simp add: p_suffixes.simps)

lemma p_java_type_reference: "is_reference t \<Longrightarrow> p_java_type (type_render t @ s) = p_reference_type (type_render t @ s)"
  using type_first [of t s] by (auto simp: p_java_type.simps from_byte_def)

lemma p_argument_exact:
  "is_reference t \<Longrightarrow> p_argument (type_render t @ s) =
     p_bind (p_reference_type (type_render t @ s)) (\<lambda>t s1. Inr (Exact t, s1))"
  using type_first [of t s] by (auto simp: p_argument.simps)

lemma p_class_type_run:
  assumes "list_all argument_runs args" "list_all wf_argument args"
    and "list_all simple_runs sufs" "list_all wf_simple sufs" "set name \<inter> set ''<.;'' = {}"
  shows "p_class_type (class_type_render (Class_Type name args sufs) @ s) = Inr (Class_Type name args sufs, s)"
proof -
  let ?rest = "concat (map simple_render sufs) @ CHR '';'' # s"
  let ?args = "if args = [] then [] else ''<'' @ concat (map argument_render args) @ ''>''"
  have "peek ?rest \<noteq> Some (CHR ''<'')" using suffixes_first [of sufs s] by auto
  then have "p_arguments_opt (?args @ ?rest) = Inr (args, ?rest)"
    using assms by (intro p_arguments_opt_run) auto
  moreover have "read_until ''<.;'' (name @ ?args @ ?rest) = (name, ?args @ ?rest)"
    using assms suffixes_first [of sufs s] by (intro read_until_run) auto
  ultimately show ?thesis
    using p_suffixes_run [OF assms(3,4), of s] by (simp add: p_class_type.simps)
qed

lemma p_reference_type_class:
  "p_reference_type (class_type_render c @ s) = p_bind (p_class_type (class_type_render c @ s)) (\<lambda>c s. Inr (Sig_Class c, s))"
  by (cases c) (simp add: p_reference_type.simps)

lemma signature_runs:
  shows "wf_type t \<Longrightarrow> (\<forall>s. p_java_type (type_render t @ s) = Inr (t, s)) \<and>
      (is_reference t \<longrightarrow> (\<forall>s. p_reference_type (type_render t @ s) = Inr (t, s)))"
    and "wf_class_type c \<Longrightarrow> (\<forall>s. p_class_type (class_type_render c @ s) = Inr (c, s))"
    and "wf_simple suf \<Longrightarrow> simple_runs suf"
    and "wf_argument a \<Longrightarrow> argument_runs a"
proof (induction t and c and suf and a)
  case (Sig_Base b)
  then show ?case by (simp add: p_java_type.simps)
next
  case (Sig_Class c)
  then have "p_reference_type (type_render (Sig_Class c) @ s) = Inr (Sig_Class c, s)" for s
    by (simp add: p_reference_type_class)
  then show ?case using p_java_type_reference [of "Sig_Class c"] by simp
next
  case (Sig_Variable name)
  then have "p_reference_type (type_render (Sig_Variable name) @ s) = Inr (Sig_Variable name, s)" for s
    by (simp add: p_reference_type.simps p_type_variable_run)
  then show ?case using p_java_type_reference [of "Sig_Variable name"] by simp
next
  case (Sig_Array inner)
  then have "p_reference_type (type_render (Sig_Array inner) @ s) = Inr (Sig_Array inner, s)" for s
    by (simp add: p_reference_type.simps)
  then show ?case using p_java_type_reference [of "Sig_Array inner"] by simp
next
  case (Class_Type name args sufs)
  then show ?case by (intro allI p_class_type_run) (auto simp: list_all_iff)
next
  case (Simple_Class name args)
  then show ?case by (auto simp: list_all_iff)
next
  case Any
  then show ?case by (simp add: argument_runs_def p_argument.simps)
next
  case (Exact t)
  then show ?case using p_argument_exact [of t] by (simp add: argument_runs_def)
qed (simp_all add: argument_runs_def p_argument.simps)

lemma p_reference_type_run: "wf_reference t \<Longrightarrow> p_reference_type (type_render t @ s) = Inr (t, s)"
  using signature_runs(1) [of t] by (simp add: wf_reference_def)

lemma p_java_type_run: "wf_type t \<Longrightarrow> p_java_type (type_render t @ s) = Inr (t, s)"
  using signature_runs(1) [of t] by simp

lemma p_class_type_wf_run: "wf_class_type c \<Longrightarrow> p_class_type (class_type_render c @ s) = Inr (c, s)"
  using signature_runs(2) [of c] by simp

lemma p_interface_bounds_run:
  "list_all wf_reference bs \<Longrightarrow> peek s \<noteq> Some (CHR '':'') \<Longrightarrow>
     p_interface_bounds (concat (map (\<lambda>b. '':'' @ type_render b) bs) @ s) = Inr (bs, s)"
proof (induction bs)
  case (Cons b bs)
  then show ?case by (subst p_interface_bounds.simps) (simp add: p_reference_type_run)
qed (simp add: p_interface_bounds.simps)

text \<open>What stands behind a parameter: not a \<open>:\<close>, and no bound where it has none.\<close>

definition ends_parameter :: "type_parameter \<Rightarrow> string \<Rightarrow> bool" where
  "ends_parameter p s \<longleftrightarrow> peek s \<noteq> Some (CHR '':'') \<and>
     \<not> (class_bound p = None \<and> interface_bounds p = [] \<and> starts_reference_type s)"

lemma p_type_parameter_run:
  assumes "wf_parameter p" "ends_parameter p s"
  shows "p_type_parameter (parameter_render p @ s) = Inr (p, s)"
proof -
  let ?bounds = "concat (map (\<lambda>b. '':'' @ type_render b) (interface_bounds p)) @ s"
  let ?bound = "(case class_bound p of None \<Rightarrow> [] | Some t \<Rightarrow> type_render t) @ ?bounds"
  have "read_until '':'' (tp_name p @ '':'' @ ?bound) = (tp_name p, '':'' @ ?bound)"
    using assms(1) by (intro read_until_run) (auto simp: wf_parameter_def)
  moreover have "p_interface_bounds ?bounds = Inr (interface_bounds p, s)"
    using assms by (intro p_interface_bounds_run) (auto simp: wf_parameter_def ends_parameter_def)
  moreover have "p_class_bound ?bound = Inr (class_bound p, ?bounds)"
  proof (cases "class_bound p")
    case None
    then have "\<not> starts_reference_type ?bounds"
      using assms(2) by (cases "interface_bounds p") (auto simp: ends_parameter_def starts_reference_type_def)
    then show ?thesis using None by (simp add: p_class_bound_def)
  next
    case (Some t)
    then have t: "wf_reference t" using assms(1) by (simp add: wf_parameter_def)
    then have "starts_reference_type (type_render t @ ?bounds)"
      using type_first [of t ?bounds] by (simp add: starts_reference_type_def wf_reference_def)
    then show ?thesis using Some t by (simp add: p_class_bound_def p_reference_type_run)
  qed
  ultimately show ?thesis by (simp add: p_type_parameter_def parameter_render_def)
qed

lemma may_follow_ends: "may_follow p q \<Longrightarrow> wf_parameter q \<Longrightarrow> ends_parameter p (parameter_render q @ s)"
  by (cases "tp_name q")
    (auto simp: may_follow_def ends_parameter_def parameter_render_def wf_parameter_def starts_reference_type_def)

lemma p_type_parameters_run:
  "wf_parameters ps \<Longrightarrow> p_type_parameters (concat (map parameter_render ps) @ CHR ''>'' # s) = Inr (ps, s)"
proof (induction ps)
  case (Cons p ps)
  let ?rest = "concat (map parameter_render ps) @ CHR ''>'' # s"
  have wf: "wf_parameter p" "wf_parameters ps"
    using Cons.prems by (cases ps; simp add: wf_parameters_def)+
  have "ends_parameter p ?rest"
  proof (cases ps)
    case (Cons q qs)
    then show ?thesis using Cons.prems may_follow_ends [of p q] by (simp add: wf_parameters_def)
  qed (simp add: ends_parameter_def starts_reference_type_def)
  moreover have "peek (parameter_render p @ ?rest) \<notin> {None, Some (CHR ''>'')}"
    using wf(1) by (cases "tp_name p") (auto simp: parameter_render_def wf_parameter_def)
  ultimately show ?case
    using Cons.IH wf by (subst p_type_parameters.simps) (simp add: p_type_parameter_run)
qed (simp add: p_type_parameters.simps)

lemma p_type_parameters_opt_run:
  "wf_parameters ps \<Longrightarrow> peek s \<noteq> Some (CHR ''<'') \<Longrightarrow> p_type_parameters_opt (parameters_render ps @ s) = Inr (ps, s)"
  by (simp add: p_type_parameters_opt_def parameters_render_def p_type_parameters_run)

lemma p_superinterfaces_run:
  "list_all wf_class_type cs \<Longrightarrow> p_superinterfaces (concat (map class_type_render cs)) = Inr (cs, [])"
proof (induction cs)
  case (Cons c cs)
  then show ?case
    by (cases c) (subst p_superinterfaces.simps, simp del: class_type_render.simps
      add: p_class_type_wf_run, simp)
qed (simp add: p_superinterfaces.simps)

lemma p_parameters_run:
  "list_all wf_type ts \<Longrightarrow> p_parameters (concat (map type_render ts) @ CHR '')'' # s) = Inr (ts, CHR '')'' # s)"
proof (induction ts)
  case (Cons t ts)
  have "peek (type_render t @ r) \<notin> {None, Some (CHR '')'')}" for r
    using type_first [of t r] by (cases t) (auto simp: as_char_not)
  then show ?case
    using Cons by (subst p_parameters.simps) (simp add: p_java_type_run)
qed (simp add: p_parameters.simps)

lemma p_throws_run: "list_all wf_throws ts \<Longrightarrow> p_throws (concat (map throws_render ts)) = Inr (ts, [])"
proof (induction ts)
  case (Cons t ts)
  have "p_throws_clause (tl (throws_render t) @ s) = Inr (t, s)" for s
  proof (cases t)
    case (Throws_Class c)
    then show ?thesis
      using Cons.prems p_class_type_wf_run [of c s] by (cases c) (simp add: p_throws_clause_def)
  qed (use Cons.prems in \<open>simp add: p_throws_clause_def p_type_variable_run\<close>)
  moreover have "throws_render t = CHR ''^'' # tl (throws_render t)" by (cases t) simp_all
  ultimately show ?case
    using Cons by (subst p_throws.simps) (simp, metis append_Cons list.sel(3) p_bind_simps(1) peek_Cons)
qed (simp add: p_throws.simps)

subsection \<open>Rendering back what was read\<close>

text \<open>
  The parser drops one thing, an empty argument or parameter list \<open><>\<close>. A stretch of text without one
  is exactly the rendering of what was read from it.
\<close>

definition renders_to :: "string \<Rightarrow> string \<Rightarrow> bool" where
  "renders_to raw r \<longleftrightarrow> sublist ''<>'' raw \<or> raw = r"

lemma renders_to_refl [simp]: "renders_to raw raw"
  by (simp add: renders_to_def)

lemma renders_to_append: "renders_to a r \<Longrightarrow> renders_to b q \<Longrightarrow> renders_to (a @ b) (r @ q)"
  by (auto simp: renders_to_def intro: sublist_appendI sublist_append_leftI sublist_append_rightI sublist_order.order.trans)

definition reads :: "'a parse \<Rightarrow> ('a \<Rightarrow> bool) \<Rightarrow> ('a \<Rightarrow> string) \<Rightarrow> string \<Rightarrow> bool" where
  "reads rd ok render s \<longleftrightarrow> (\<forall>x s'. rd s = Inr (x, s') \<longrightarrow>
     ok x \<and> (\<exists>raw. s = raw @ s' \<and> renders_to raw (render x)))"

lemma readsI:
  "(\<And>x s'. rd s = Inr (x, s') \<Longrightarrow> ok x \<and> (\<exists>raw. s = raw @ s' \<and> renders_to raw (render x))) \<Longrightarrow> reads rd ok render s"
  by (simp add: reads_def)

lemma readsD:
  assumes "reads rd ok render s" "rd s = Inr (x, s')"
  obtains raw where "ok x" "s = raw @ s'" "renders_to raw (render x)"
  using assms by (auto simp: reads_def)

lemma read_until_iff:
  assumes "read_until ts s = (name, s')"
  shows "s = name @ s'" and "set name \<inter> set ts = {}" and "peek s' = None \<or> peek s' \<in> Some ` set ts"
proof -
  have *: "name = takeWhile (\<lambda>c. c \<notin> set ts) s" "s' = dropWhile (\<lambda>c. c \<notin> set ts) s"
    using assms by (simp_all add: read_until_def)
  show "s = name @ s'" by (simp add: *)
  show "set name \<inter> set ts = {}" unfolding * by (auto dest: set_takeWhileD)
  show "peek s' = None \<or> peek s' \<in> Some ` set ts"
  proof (cases s')
    case (Cons c rest)
    then have "c \<in> set ts" using *(2) [symmetric] by (simp add: dropWhile_eq_Cons_conv)
    then show ?thesis by (simp add: Cons)
  qed simp
qed

lemma p_type_variable_iff: "p_type_variable s = Inr (name, s') \<longleftrightarrow> CHR '';'' \<notin> set name \<and> s = name @ CHR '';'' # s'"
proof
  assume "p_type_variable s = Inr (name, s')"
  then obtain s1 where "read_until '';'' s = (name, s1)" "s1 = CHR '';'' # s'"
    by (auto simp: p_type_variable_def p_bind_Inr case_prod_Inr s_expect_iff)
  then show "CHR '';'' \<notin> set name \<and> s = name @ CHR '';'' # s'" using read_until_iff(1,2) by fastforce
qed (simp add: p_type_variable_run)

definition arguments_render :: "type_argument list \<Rightarrow> string" where
  "arguments_render args = (if args = [] then [] else ''<'' @ concat (map argument_render args) @ ''>'')"

text \<open>Behind the \<open><\<close>: with no argument the text is the closing bracket alone.\<close>

definition reads_arguments :: "string \<Rightarrow> bool" where
  "reads_arguments s \<longleftrightarrow> (\<forall>args s'. p_arguments s = Inr (args, s') \<longrightarrow>
     list_all wf_argument args \<and> (\<exists>raw. s = raw @ s' \<and>
       renders_to raw (concat (map argument_render args) @ ''>'') \<and> (args = [] \<longrightarrow> raw = ''>'')))"

text \<open>One character in front of a construct, and the four parsers that put several in a row.\<close>

lemma reads_prefixed:
  assumes "reads sub ok render rest"
    and "\<And>x s'. rd (c # rest) = Inr (x, s') \<Longrightarrow> \<exists>t. sub rest = Inr (t, s') \<and> x = f t"
    and "\<And>t. ok t \<Longrightarrow> ok' (f t) \<and> render' (f t) = c # render t"
  shows "reads rd ok' render' (c # rest)"
proof (rule readsI)
  fix x s' assume "rd (c # rest) = Inr (x, s')"
  with assms(2) obtain t where t: "sub rest = Inr (t, s')" "x = f t" by blast
  from assms(1) t(1) obtain raw where "ok t" "rest = raw @ s'" "renders_to raw (render t)" by (rule readsD)
  then show "ok' x \<and> (\<exists>raw. c # rest = raw @ s' \<and> renders_to raw (render' x))"
    using assms(3) [of t] t(2) renders_to_append [of "[c]" "[c]" raw "render t"]
    by (auto intro!: exI [of _ "c # raw"])
qed

lemma reads_class_type:
  assumes opt: "\<And>s1 name s2. s = CHR ''L'' # s1 \<Longrightarrow> read_until ''<.;'' s1 = (name, s2) \<Longrightarrow>
      reads p_arguments_opt (list_all wf_argument) arguments_render s2"
    and sufs: "\<And>s1 name s2 args s3. s = CHR ''L'' # s1 \<Longrightarrow> read_until ''<.;'' s1 = (name, s2) \<Longrightarrow>
      p_arguments_opt s2 = Inr (args, s3) \<Longrightarrow>
      reads p_suffixes (list_all wf_simple) (\<lambda>sufs. concat (map simple_render sufs)) s3"
  shows "reads p_class_type wf_class_type class_type_render s"
proof (rule readsI)
  fix c s' assume "p_class_type s = Inr (c, s')"
  then obtain s1 name s2 args s3 sufs where *: "s = CHR ''L'' # s1" "read_until ''<.;'' s1 = (name, s2)"
    "p_arguments_opt s2 = Inr (args, s3)" "p_suffixes s3 = Inr (sufs, CHR '';'' # s')" "c = Class_Type name args sufs"
    by (auto simp: p_class_type.simps p_bind_Inr case_prod_Inr s_expect_iff)
  obtain araw where a: "list_all wf_argument args" "s2 = araw @ s3" "renders_to araw (arguments_render args)"
    using opt [OF *(1,2)] *(3) by (rule readsD)
  obtain sraw where b: "list_all wf_simple sufs" "s3 = sraw @ CHR '';'' # s'"
    "renders_to sraw (concat (map simple_render sufs))"
    using sufs [OF *(1-3)] *(4) by (rule readsD)
  have "renders_to ((CHR ''L'' # name) @ araw @ sraw @ '';'')
      ((CHR ''L'' # name) @ arguments_render args @ concat (map simple_render sufs) @ '';'')"
    using a(3) b(3) by (intro renders_to_append renders_to_refl)
  then show "wf_class_type c \<and> (\<exists>raw. s = raw @ s' \<and> renders_to raw (class_type_render c))"
    using * a(1,2) b(1,2) read_until_iff(1,2) [OF *(2)]
    by (auto simp: arguments_render_def intro!: exI [of _ "(CHR ''L'' # name) @ araw @ sraw @ '';''"])
qed

lemma reads_suffixes:
  assumes opt: "\<And>s1 name s2. s = CHR ''.'' # s1 \<Longrightarrow> read_until ''<.;'' s1 = (name, s2) \<Longrightarrow>
      reads p_arguments_opt (list_all wf_argument) arguments_render s2"
    and sufs: "\<And>s1 name s2 args s3. s = CHR ''.'' # s1 \<Longrightarrow> read_until ''<.;'' s1 = (name, s2) \<Longrightarrow>
      p_arguments_opt s2 = Inr (args, s3) \<Longrightarrow>
      reads p_suffixes (list_all wf_simple) (\<lambda>sufs. concat (map simple_render sufs)) s3"
  shows "reads p_suffixes (list_all wf_simple) (\<lambda>sufs. concat (map simple_render sufs)) s"
proof (cases "peek s = Some (CHR ''.'')")
  case True
  then obtain s1 where s: "s = CHR ''.'' # s1" by (auto simp: peek_Some)
  show ?thesis
  proof (rule readsI)
    fix x s' assume "p_suffixes s = Inr (x, s')"
    then obtain name s2 args s3 sufs' where *: "read_until ''<.;'' s1 = (name, s2)"
      "p_arguments_opt s2 = Inr (args, s3)" "p_suffixes s3 = Inr (sufs', s')" "x = Simple_Class name args # sufs'"
      by (auto simp: s p_suffixes.simps [of "_ # _"] p_bind_Inr case_prod_Inr)
    obtain araw where a: "list_all wf_argument args" "s2 = araw @ s3" "renders_to araw (arguments_render args)"
      using opt [OF s *(1)] *(2) by (rule readsD)
    obtain sraw where b: "list_all wf_simple sufs'" "s3 = sraw @ s'"
      "renders_to sraw (concat (map simple_render sufs'))"
      using sufs [OF s *(1,2)] *(3) by (rule readsD)
    have "renders_to ((CHR ''.'' # name) @ araw @ sraw)
        ((CHR ''.'' # name) @ arguments_render args @ concat (map simple_render sufs'))"
      using a(3) b(3) by (intro renders_to_append renders_to_refl)
    then show "list_all wf_simple x \<and> (\<exists>raw. s = raw @ s' \<and> renders_to raw (concat (map simple_render x)))"
      using * a(1,2) b(1,2) read_until_iff(1,2) [OF *(1)] s
      by (auto simp: arguments_render_def intro!: exI [of _ "(CHR ''.'' # name) @ araw @ sraw"])
  qed
qed (simp add: reads_def p_suffixes.simps)

lemma reads_arguments_opt:
  assumes "\<And>rest. s = CHR ''<'' # rest \<Longrightarrow> reads_arguments rest"
  shows "reads p_arguments_opt (list_all wf_argument) arguments_render s"
proof (cases "peek s = Some (CHR ''<'')")
  case True
  then obtain rest where s: "s = CHR ''<'' # rest" by (auto simp: peek_Some)
  show ?thesis
  proof (rule readsI)
    fix args s' assume "p_arguments_opt s = Inr (args, s')"
    then have "p_arguments rest = Inr (args, s')" by (simp add: s p_arguments_opt.simps)
    with assms [OF s] obtain raw where t: "list_all wf_argument args" "rest = raw @ s'" "args = [] \<longrightarrow> raw = ''>''"
      "renders_to raw (concat (map argument_render args) @ ''>'')"
      unfolding reads_arguments_def by blast
    have "renders_to (''<'' @ raw) (arguments_render args)"
      using t(3) renders_to_append [OF renders_to_refl t(4), of "''<''"]
      by (cases "args = []") (simp_all add: arguments_render_def renders_to_def)
    then show "list_all wf_argument args \<and> (\<exists>raw. s = raw @ s' \<and> renders_to raw (arguments_render args))"
      using t(1,2) s by (auto intro!: exI [of _ "''<'' @ raw"])
  qed
qed (simp add: reads_def p_arguments_opt.simps arguments_render_def)

lemma reads_arguments_step:
  assumes arg: "peek s \<notin> {Some (CHR ''>''), None} \<Longrightarrow> reads p_argument wf_argument argument_render s"
    and args: "\<And>a s1. peek s \<notin> {Some (CHR ''>''), None} \<Longrightarrow> p_argument s = Inr (a, s1) \<Longrightarrow> reads_arguments s1"
  shows "reads_arguments s"
  unfolding reads_arguments_def
proof (intro allI impI)
  fix args s' assume r: "p_arguments s = Inr (args, s')"
  show "list_all wf_argument args \<and> (\<exists>raw. s = raw @ s' \<and>
     renders_to raw (concat (map argument_render args) @ ''>'') \<and> (args = [] \<longrightarrow> raw = ''>''))"
  proof (cases "peek s = Some (CHR ''>'')")
    case True
    then obtain rest where "s = CHR ''>'' # rest" by (auto simp: peek_Some)
    then show ?thesis using r by (auto simp: p_arguments.simps intro!: exI [of _ "''>''"])
  next
    case False
    with r obtain a s1 args' where *: "peek s \<notin> {Some (CHR ''>''), None}" "p_argument s = Inr (a, s1)"
      "p_arguments s1 = Inr (args', s')" "args = a # args'"
      by (auto simp: p_arguments.simps [of s] p_bind_Inr split: if_splits)
    obtain araw where a: "wf_argument a" "s = araw @ s1" "renders_to araw (argument_render a)"
      using arg [OF *(1)] *(2) by (rule readsD)
    obtain raw where "list_all wf_argument args'" "s1 = raw @ s'"
      "renders_to raw (concat (map argument_render args') @ ''>'')"
      using assms(2) [OF *(1,2)] *(3) unfolding reads_arguments_def by blast
    then show ?thesis
      using a *(4) renders_to_append [of araw "argument_render a" raw] by auto
  qed
qed

lemma signature_reads:
  shows "reads p_java_type wf_type type_render s1"
    and "reads p_reference_type wf_reference type_render s2"
    and "reads p_class_type wf_class_type class_type_render s3"
    and "reads p_suffixes (list_all wf_simple) (\<lambda>sufs. concat (map simple_render sufs)) s4"
    and "reads p_arguments_opt (list_all wf_argument) arguments_render s5"
    and "reads_arguments s6"
    and "reads p_argument wf_argument argument_render s7"
proof (induction s1 and s2 and s3 and s4 and s5 and s6 and s7
    rule: p_java_type_p_reference_type_p_class_type_p_suffixes_p_arguments_opt_p_arguments_p_argument.induct)
  case (1 s)
  show ?case
  proof (cases "Option.bind (peek s) from_byte")
    case None
    then have "p_java_type s = p_reference_type s" by (simp add: p_java_type.simps)
    moreover have "reads p_reference_type wf_reference type_render s" by (rule 1 [OF None])
    ultimately show ?thesis by (simp add: reads_def wf_reference_def)
  next
    case (Some b)
    then obtain rest where "s = as_char b # rest" by (auto simp: bind_eq_Some_conv peek_Some from_byte_iff)
    then show ?thesis by (auto simp: reads_def p_java_type.simps intro!: exI [of _ "[as_char b]"])
  qed
next
  case (2 s)
  consider "peek s = Some (CHR ''L'')" | rest where "s = CHR ''T'' # rest" | rest where "s = CHR ''['' # rest"
    | "peek s \<notin> {Some (CHR ''L''), Some (CHR ''T''), Some (CHR ''['')}" by (auto simp: peek_Some)
  then show ?case
  proof cases
    case 1
    then show ?thesis using "2.IH"(1)
      by (auto simp: reads_def p_reference_type.simps [of s] p_bind_Inr wf_reference_def)
  next
    case 2
    show ?thesis unfolding 2
      by (rule readsI) (auto simp: p_reference_type.simps p_bind_Inr p_type_variable_iff wf_reference_def
        intro!: exI [of _ "CHR ''T'' # _ @ '';''"])
  next
    case 3
    then have "reads p_java_type wf_type type_render rest" using "2.IH"(2) by simp
    then show ?thesis unfolding 3
      by (rule reads_prefixed [where f = Sig_Array])
        (auto simp: p_reference_type.simps p_bind_Inr wf_reference_def)
  next
    case 4
    then show ?thesis by (auto simp: reads_def p_reference_type.simps [of s])
  qed
next
  case (3 s)
  show ?case
  proof (rule reads_class_type)
    fix s1 name s2 assume *: "s = CHR ''L'' # s1" "read_until ''<.;'' s1 = (name, s2)"
    then show "reads p_arguments_opt (list_all wf_argument) arguments_render s2"
      using "3.IH"(1) [of "()" s1 name s2] by simp
    fix args s3 assume "p_arguments_opt s2 = Inr (args, s3)"
    then show "reads p_suffixes (list_all wf_simple) (\<lambda>sufs. concat (map simple_render sufs)) s3"
      using "3.IH"(2) [of "()" s1 name s2 args s3] * by simp
  qed
next
  case (4 s)
  show ?case
  proof (rule reads_suffixes)
    fix s1 name s2 assume *: "s = CHR ''.'' # s1" "read_until ''<.;'' s1 = (name, s2)"
    then show "reads p_arguments_opt (list_all wf_argument) arguments_render s2"
      using "4.IH"(1) [of name s2] by simp
    fix args s3 assume "p_arguments_opt s2 = Inr (args, s3)"
    then show "reads p_suffixes (list_all wf_simple) (\<lambda>sufs. concat (map simple_render sufs)) s3"
      using "4.IH"(2) [of name s2 args s3] * by simp
  qed
next
  case (5 s)
  then show ?case by (intro reads_arguments_opt) simp
next
  case (6 s)
  show ?case
  proof (rule reads_arguments_step)
    assume s: "peek s \<notin> {Some (CHR ''>''), None}"
    then show "reads p_argument wf_argument argument_render s" using "6.IH"(1) by simp
    fix a s1 assume "p_argument s = Inr (a, s1)"
    then show "reads_arguments s1" using "6.IH"(2) [of a s1] s by simp
  qed
next
  case (7 s)
  consider rest where "s = CHR ''*'' # rest" | rest where "s = CHR ''+'' # rest" | rest where "s = CHR ''-'' # rest"
    | "peek s \<notin> {Some (CHR ''*''), Some (CHR ''+''), Some (CHR ''-'')}" by (auto simp: peek_Some)
  then show ?case
  proof cases
    case 1
    then show ?thesis by (auto simp: reads_def p_argument.simps intro!: exI [of _ "''*''"])
  next
    case 2
    then have "reads p_reference_type wf_reference type_render rest" using "7.IH"(1) by simp
    then show ?thesis unfolding 2
      by (rule reads_prefixed [where f = Extends]) (auto simp: p_argument.simps p_bind_Inr wf_reference_def)
  next
    case 3
    then have "reads p_reference_type wf_reference type_render rest" using "7.IH"(2) by simp
    then show ?thesis unfolding 3
      by (rule reads_prefixed [where f = Super]) (auto simp: p_argument.simps p_bind_Inr wf_reference_def)
  next
    case 4
    then have "reads p_reference_type wf_reference type_render s" using "7.IH"(3) by simp
    then show ?thesis using 4 by (auto simp: reads_def p_argument.simps [of s] p_bind_Inr wf_reference_def)
  qed
qed

lemma p_interface_bounds_reads:
  "p_interface_bounds s = Inr (bs, s') \<Longrightarrow> list_all wf_reference bs \<and> peek s' \<noteq> Some (CHR '':'') \<and>
     (\<exists>raw. s = raw @ s' \<and> renders_to raw (concat (map (\<lambda>b. '':'' @ type_render b) bs)))"
proof (induction s arbitrary: bs rule: p_interface_bounds.induct)
  case (1 s)
  show ?case
  proof (cases "peek s = Some (CHR '':'')")
    case True
    with "1.prems" obtain b s1 bs' where *: "p_reference_type (tl s) = Inr (b, s1)"
      "p_interface_bounds s1 = Inr (bs', s')" "bs = b # bs'"
      by (auto simp: p_interface_bounds.simps [of s] p_bind_Inr)
    obtain braw where b: "wf_reference b" "tl s = braw @ s1" "renders_to braw (type_render b)"
      using signature_reads(2) *(1) by (rule readsD)
    obtain raw where "list_all wf_reference bs'" "peek s' \<noteq> Some (CHR '':'')" "s1 = raw @ s'"
      "renders_to raw (concat (map (\<lambda>b. '':'' @ type_render b) bs'))"
      using "1.IH" [OF True *(1,2)] by blast
    moreover from this b(3) have "renders_to ('':'' @ braw @ raw)
        ('':'' @ type_render b @ concat (map (\<lambda>b. '':'' @ type_render b) bs'))"
      by (intro renders_to_append renders_to_refl)
    ultimately show ?thesis
      using b(1,2) *(3) True by (auto simp: peek_Some intro!: exI [of _ "'':'' @ braw @ raw"])
  qed (use "1.prems" in \<open>simp add: p_interface_bounds.simps\<close>)
qed

lemma p_interface_bounds_Nil: "p_interface_bounds s = Inr ([], s') \<Longrightarrow> s' = s"
  by (subst (asm) p_interface_bounds.simps) (auto simp: p_bind_Inr split: if_splits)

lemma p_class_bound_reads:
  assumes "p_class_bound s = Inr (bound, s')"
  shows "pred_option wf_reference bound \<and> (bound = None \<longrightarrow> s' = s \<and> \<not> starts_reference_type s) \<and>
    (\<exists>raw. s = raw @ s' \<and> renders_to raw (case bound of None \<Rightarrow> [] | Some t \<Rightarrow> type_render t))"
proof (cases "starts_reference_type s")
  case True
  with assms obtain t where t: "p_reference_type s = Inr (t, s')" "bound = Some t"
    by (auto simp: p_class_bound_def p_bind_Inr)
  show ?thesis using signature_reads(2) t(1) by (rule readsD) (use t(2) in auto)
qed (use assms in \<open>simp add: p_class_bound_def\<close>)

lemma p_type_parameter_reads:
  assumes "p_type_parameter s = Inr (p, s')" "peek s \<noteq> Some (CHR ''>'')"
  shows "wf_parameter p \<and> ends_parameter p s' \<and> tp_name p = takeWhile (\<lambda>c. c \<noteq> CHR '':'') s \<and>
    (\<exists>raw. s = raw @ s' \<and> renders_to raw (parameter_render p))"
proof -
  obtain name s1 s2 bound s3 bounds where *: "read_until '':'' s = (name, s1)" "s1 = CHR '':'' # s2"
    "p_class_bound s2 = Inr (bound, s3)" "p_interface_bounds s3 = Inr (bounds, s')"
    "p = \<lparr>tp_name = name, class_bound = bound, interface_bounds = bounds\<rparr>"
    using assms by (auto simp: p_type_parameter_def p_bind_Inr case_prod_Inr s_expect_iff)
  have name: "s = name @ CHR '':'' # s2" "CHR '':'' \<notin> set name" "name = takeWhile (\<lambda>c. c \<noteq> CHR '':'') s"
    using read_until_iff(1,2) [OF *(1)] *(1,2) by (auto simp: read_until_def)
  obtain braw where b: "pred_option wf_reference bound" "bound = None \<longrightarrow> s3 = s2 \<and> \<not> starts_reference_type s2"
    "s2 = braw @ s3" "renders_to braw (case bound of None \<Rightarrow> [] | Some t \<Rightarrow> type_render t)"
    using p_class_bound_reads [OF *(3)] by blast
  obtain iraw where i: "list_all wf_reference bounds" "peek s' \<noteq> Some (CHR '':'')" "s3 = iraw @ s'"
    "renders_to iraw (concat (map (\<lambda>b. '':'' @ type_render b) bounds))"
    using p_interface_bounds_reads [OF *(4)] by blast
  have "renders_to (name @ '':'' @ braw @ iraw) (parameter_render p)"
    unfolding parameter_render_def *(5) type_parameter.select_convs
    by (intro renders_to_append renders_to_refl b(4) i(4))
  moreover have "wf_parameter p"
    using name(1,2) b(1) i(1) *(5) assms(2) by (cases name) (auto simp: wf_parameter_def)
  moreover have "ends_parameter p s'"
    using b(2) i(2) *(4,5) by (auto simp: ends_parameter_def dest: p_interface_bounds_Nil)
  moreover have "s = (name @ '':'' @ braw @ iraw) @ s'" using name(1) b(3) i(3) by simp
  moreover have "tp_name p = takeWhile (\<lambda>c. c \<noteq> CHR '':'') s" using name(3) *(5) by simp
  ultimately show ?thesis by blast
qed

lemma p_type_parameters_reads:
  "p_type_parameters s = Inr (ps, s') \<Longrightarrow> wf_parameters ps \<and>
     (ps \<noteq> [] \<longrightarrow> tp_name (hd ps) = takeWhile (\<lambda>c. c \<noteq> CHR '':'') s) \<and> (ps = [] \<longrightarrow> s = CHR ''>'' # s') \<and>
     (\<exists>raw. s = raw @ s' \<and> renders_to raw (concat (map parameter_render ps) @ ''>''))"
proof (induction s arbitrary: ps rule: p_type_parameters.induct)
  case (1 s)
  show ?case
  proof (cases "peek s = Some (CHR ''>'')")
    case True
    then show ?thesis using "1.prems"
      by (auto simp: p_type_parameters.simps [of s] peek_Some wf_parameters_def intro!: exI [of _ "''>''"])
  next
    case False
    with "1.prems" obtain p s1 qs where *: "peek s \<noteq> None" "p_type_parameter s = Inr (p, s1)"
      "p_type_parameters s1 = Inr (qs, s')" "ps = p # qs"
      by (auto simp: p_type_parameters.simps [of s] p_bind_Inr split: if_splits)
    obtain praw where p: "wf_parameter p" "ends_parameter p s1" "tp_name p = takeWhile (\<lambda>c. c \<noteq> CHR '':'') s"
      "s = praw @ s1" "renders_to praw (parameter_render p)"
      using p_type_parameter_reads [OF *(2) False] by blast
    obtain raw where ih: "wf_parameters qs" "qs \<noteq> [] \<longrightarrow> tp_name (hd qs) = takeWhile (\<lambda>c. c \<noteq> CHR '':'') s1"
      "s1 = raw @ s'" "renders_to raw (concat (map parameter_render qs) @ ''>'')"
      "qs = [] \<longrightarrow> s1 = CHR ''>'' # s'"
      using "1.IH" [OF False *(1,2,3)] by blast
    have "qs \<noteq> [] \<longrightarrow> may_follow p (hd qs)"
    proof
      assume "qs \<noteq> []"
      then have name: "tp_name (hd qs) = takeWhile (\<lambda>c. c \<noteq> CHR '':'') s1" using ih(2) by simp
      have "s1 \<noteq> []" using *(3) by (auto simp: p_type_parameters.simps)
      then show "may_follow p (hd qs)"
        using name p(2) by (cases s1) (auto simp: may_follow_def ends_parameter_def starts_reference_type_def)
    qed
    then have "wf_parameters ps" using *(4) ih(1) p(1) by (cases qs) (auto simp: wf_parameters_def)
    moreover have "renders_to (praw @ raw) (concat (map parameter_render ps) @ ''>'')"
      using *(4) p(5) ih(4) by (auto intro!: renders_to_append)
    ultimately show ?thesis using *(4) p(3,4) ih(3) by auto
  qed
qed

lemma p_type_parameters_opt_reads: "reads p_type_parameters_opt wf_parameters parameters_render s"
proof (rule readsI)
  fix ps s' assume r: "p_type_parameters_opt s = Inr (ps, s')"
  show "wf_parameters ps \<and> (\<exists>raw. s = raw @ s' \<and> renders_to raw (parameters_render ps))"
  proof (cases "peek s = Some (CHR ''<'')")
    case True
    with r obtain rest where s: "s = CHR ''<'' # rest" and "p_type_parameters rest = Inr (ps, s')"
      by (auto simp: peek_Some p_type_parameters_opt_def)
    then obtain raw where *: "wf_parameters ps" "ps = [] \<longrightarrow> rest = CHR ''>'' # s'" "rest = raw @ s'"
      "renders_to raw (concat (map parameter_render ps) @ ''>'')"
      using p_type_parameters_reads by blast
    have "renders_to (''<'' @ raw) (parameters_render ps)"
      using *(2,3) renders_to_append [OF renders_to_refl *(4), of "''<''"]
      by (cases "ps = []") (simp_all add: parameters_render_def renders_to_def)
    then show ?thesis using *(1,3) s by (auto intro!: exI [of _ "''<'' @ raw"])
  qed (use r in \<open>simp add: p_type_parameters_opt_def wf_parameters_def parameters_render_def\<close>)
qed

text \<open>The plain loops read item after item.\<close>

lemma reads_item:
  assumes "reads item ok render s" "item s = Inr (x, s1)"
    and "list_all ok xs \<and> (\<exists>raw. s1 = raw @ s' \<and> renders_to raw (concat (map render xs)))"
  shows "list_all ok (x # xs) \<and> (\<exists>raw. s = raw @ s' \<and> renders_to raw (concat (map render (x # xs))))"
proof -
  obtain raw where "ok x" "s = raw @ s1" "renders_to raw (render x)" using assms(1,2) by (rule readsD)
  moreover obtain raw' where "list_all ok xs" "s1 = raw' @ s'" "renders_to raw' (concat (map render xs))"
    using assms(3) by blast
  ultimately show ?thesis by (auto intro!: exI [of _ "raw @ raw'"] renders_to_append)
qed

lemma p_superinterfaces_reads:
  "p_superinterfaces s = Inr (cs, s') \<Longrightarrow> list_all wf_class_type cs \<and>
     (\<exists>raw. s = raw @ s' \<and> renders_to raw (concat (map class_type_render cs)))"
proof (induction s arbitrary: cs rule: p_superinterfaces.induct)
  case (1 s)
  show ?case
  proof (cases "peek s = None")
    case False
    with "1.prems" obtain c s1 cs' where *: "p_class_type s = Inr (c, s1)"
      "p_superinterfaces s1 = Inr (cs', s')" "cs = c # cs'"
      by (auto simp: p_superinterfaces.simps [of s] p_bind_Inr)
    show ?thesis unfolding *(3)
      by (rule reads_item [OF signature_reads(3) *(1) "1.IH" [OF False *(1,2)]])
  qed (use "1.prems" in \<open>simp add: p_superinterfaces.simps\<close>)
qed

lemma p_parameters_reads:
  "p_parameters s = Inr (ts, s') \<Longrightarrow> list_all wf_type ts \<and>
     (\<exists>raw. s = raw @ s' \<and> renders_to raw (concat (map type_render ts)))"
proof (induction s arbitrary: ts rule: p_parameters.induct)
  case (1 s)
  show ?case
  proof (cases "peek s = Some (CHR '')'')")
    case False
    with "1.prems" obtain t s1 ts' where *: "peek s \<noteq> None" "p_java_type s = Inr (t, s1)"
      "p_parameters s1 = Inr (ts', s')" "ts = t # ts'"
      by (auto simp: p_parameters.simps [of s] p_bind_Inr split: if_splits)
    show ?thesis unfolding *(4)
      by (rule reads_item [OF signature_reads(1) *(2) "1.IH" [OF False *(1,2,3)]])
  qed (use "1.prems" in \<open>simp add: p_parameters.simps\<close>)
qed

lemma p_throws_clause_reads: "reads p_throws_clause wf_throws (\<lambda>t. tl (throws_render t)) s"
proof (rule readsI)
  fix t s' assume r: "p_throws_clause s = Inr (t, s')"
  show "wf_throws t \<and> (\<exists>raw. s = raw @ s' \<and> renders_to raw (tl (throws_render t)))"
  proof (cases "peek s = Some (CHR ''T'')")
    case True
    then show ?thesis using r
      by (auto simp: p_throws_clause_def p_bind_Inr peek_Some p_type_variable_iff intro!: exI [of _ "CHR ''T'' # _ @ '';''"])
  next
    case False
    with r obtain c where c: "p_class_type s = Inr (c, s')" "t = Throws_Class c"
      by (auto simp: p_throws_clause_def p_bind_Inr)
    show ?thesis using signature_reads(3) c(1) by (rule readsD) (use c(2) in auto)
  qed
qed

lemma p_throws_reads:
  "p_throws s = Inr (ts, s') \<Longrightarrow> list_all wf_throws ts \<and>
     (\<exists>raw. s = raw @ s' \<and> renders_to raw (concat (map throws_render ts)))"
proof (induction s arbitrary: ts rule: p_throws.induct)
  case (1 s)
  show ?case
  proof (cases "peek s = Some (CHR ''^'')")
    case True
    with "1.prems" obtain t s1 ts' where *: "p_throws_clause (tl s) = Inr (t, s1)"
      "p_throws s1 = Inr (ts', s')" "ts = t # ts'"
      by (auto simp: p_throws.simps [of s] p_bind_Inr)
    obtain raw where t: "wf_throws t" "tl s = raw @ s1" "renders_to raw (tl (throws_render t))"
      using p_throws_clause_reads *(1) by (rule readsD)
    obtain raws where ih: "list_all wf_throws ts'" "s1 = raws @ s'" "renders_to raws (concat (map throws_render ts'))"
      using "1.IH" [OF True *(1,2)] by blast
    have "throws_render t = ''^'' @ tl (throws_render t)" by (cases t) simp_all
    then have "renders_to (''^'' @ raw) (throws_render t)"
      using renders_to_append [OF renders_to_refl t(3), of "''^''"] by simp
    from renders_to_append [OF this ih(3)] show ?thesis
      using *(3) t(1,2) ih(1,2) True by (auto simp: peek_Some intro!: exI [of _ "''^'' @ raw @ raws"])
  qed (use "1.prems" in \<open>simp add: p_throws.simps\<close>)
qed

subsection \<open>Whole signatures\<close>

lemma class_type_first: "peek (class_type_render c @ s) = Some (CHR ''L'')"
  by (cases c) simp

lemma p_class_signature_run: "wf_class_signature c \<Longrightarrow> p_class_signature (class_signature_render c) = Inr (c, [])"
proof -
  assume wf: "wf_class_signature c"
  then have "p_type_parameters_opt (parameters_render (cs_type_parameters c) @ class_type_render (superclass c) @ s) =
      Inr (cs_type_parameters c, class_type_render (superclass c) @ s)" for s
    by (intro p_type_parameters_opt_run) (simp_all add: wf_class_signature_def class_type_first)
  then show ?thesis
    using wf by (simp add: p_class_signature_def class_signature_render_def wf_class_signature_def
      p_class_type_wf_run p_superinterfaces_run)
qed

lemma p_method_signature_run: "wf_method_signature m \<Longrightarrow> p_method_signature (method_signature_render m) = Inr (m, [])"
proof -
  assume wf: "wf_method_signature m"
  have "p_type_parameters_opt (parameters_render (ms_type_parameters m) @ CHR ''('' # s) =
      Inr (ms_type_parameters m, CHR ''('' # s)" for s
    using wf by (intro p_type_parameters_opt_run) (simp_all add: wf_method_signature_def)
  moreover have "p_parameters (concat (map type_render (parameters m)) @ CHR '')'' # s) =
      Inr (parameters m, CHR '')'' # s)" for s
    using wf by (intro p_parameters_run) (simp add: wf_method_signature_def)
  moreover have "p_result (result_render (ms_result m) @ s) = Inr (ms_result m, s)" for s
  proof (cases "ms_result m")
    case (Result_Type t)
    have "peek (type_render t @ s) \<noteq> Some (CHR ''V'')"
      using type_first [of t s] by (cases t) auto
    then show ?thesis using wf Result_Type by (simp add: p_result_def wf_method_signature_def p_java_type_run)
  qed (simp add: p_result_def)
  ultimately show ?thesis
    using wf by (simp add: p_method_signature_def method_signature_render_def wf_method_signature_def p_throws_run)
qed

lemma reads_bind:
  assumes "reads rd ok render s" "rd s = Inr (x, s1)" "\<exists>raw. s1 = raw @ s' \<and> renders_to raw r"
  shows "ok x \<and> (\<exists>raw. s = raw @ s' \<and> renders_to raw (render x @ r))"
proof -
  obtain raw where "ok x" "s = raw @ s1" "renders_to raw (render x)" using assms(1,2) by (rule readsD)
  moreover obtain raw' where "s1 = raw' @ s'" "renders_to raw' r" using assms(3) by blast
  ultimately show ?thesis by (auto intro!: exI [of _ "raw @ raw'"] renders_to_append)
qed

lemma p_class_signature_reads: "reads p_class_signature wf_class_signature class_signature_render s"
proof (rule readsI)
  fix c s' assume "p_class_signature s = Inr (c, s')"
  then obtain ps s1 super s2 ifs where *: "p_type_parameters_opt s = Inr (ps, s1)" "p_class_type s1 = Inr (super, s2)"
    "p_superinterfaces s2 = Inr (ifs, s')" "c = \<lparr>cs_type_parameters = ps, superclass = super, superinterfaces = ifs\<rparr>"
    by (auto simp: p_class_signature_def p_bind_Inr)
  note ifs = p_superinterfaces_reads [OF *(3)]
  note super = reads_bind [OF signature_reads(3) *(2) ifs [THEN conjunct2]]
  note ps = reads_bind [OF p_type_parameters_opt_reads *(1) super [THEN conjunct2]]
  show "wf_class_signature c \<and> (\<exists>raw. s = raw @ s' \<and> renders_to raw (class_signature_render c))"
    using ifs super ps by (simp add: *(4) wf_class_signature_def class_signature_render_def)
qed

lemma p_result_reads: "reads p_result wf_result result_render s"
proof (cases "peek s = Some (CHR ''V'')")
  case True
  then show ?thesis by (auto simp: reads_def p_result_def peek_Some intro!: exI [of _ "''V''"])
next
  case False
  then show ?thesis
    using signature_reads(1) [of s] by (auto simp: reads_def p_result_def p_bind_Inr)
qed

lemma reads_expect:
  assumes "s_expect b s = Inr (u, s1)" "\<exists>raw. s1 = raw @ s' \<and> renders_to raw r"
  shows "\<exists>raw. s = raw @ s' \<and> renders_to raw ([b] @ r)"
proof -
  obtain raw where "s1 = raw @ s'" "renders_to raw r" using assms(2) by blast
  then show ?thesis
    using assms(1) renders_to_append [OF renders_to_refl, of raw r "[b]"]
    by (auto simp: s_expect_iff intro!: exI [of _ "b # raw"])
qed

lemma p_parameters_all_reads: "reads p_parameters (list_all wf_type) (\<lambda>ts. concat (map type_render ts)) s"
  by (rule readsI) (rule p_parameters_reads)

lemma p_method_signature_reads: "reads p_method_signature wf_method_signature method_signature_render s"
proof (rule readsI)
  fix m s' assume "p_method_signature s = Inr (m, s')"
  then obtain ps s1 s2 params s3 s4 res s5 throws where *: "p_type_parameters_opt s = Inr (ps, s1)"
    "s_expect (CHR ''('') s1 = Inr ((), s2)" "p_parameters s2 = Inr (params, s3)"
    "s_expect (CHR '')'') s3 = Inr ((), s4)" "p_result s4 = Inr (res, s5)" "p_throws s5 = Inr (throws, s')"
    "m = \<lparr>ms_type_parameters = ps, parameters = params, ms_result = res, ms_throws = throws\<rparr>"
    by (auto simp: p_method_signature_def p_bind_Inr)
  note throws = p_throws_reads [OF *(6)]
  note res = reads_bind [OF p_result_reads *(5) throws [THEN conjunct2]]
  note close = reads_expect [OF *(4) res [THEN conjunct2]]
  note params = reads_bind [OF p_parameters_all_reads *(3) close]
  note opened = reads_expect [OF *(2) params [THEN conjunct2]]
  note ps = reads_bind [OF p_type_parameters_opt_reads *(1) opened]
  show "wf_method_signature m \<and> (\<exists>raw. s = raw @ s' \<and> renders_to raw (method_signature_render m))"
    using throws res params ps by (simp add: *(7) wf_method_signature_def method_signature_render_def)
qed

lemma at_eof_iff: "at_eof m = Inr x \<longleftrightarrow> m = Inr (x, [])"
  by (auto simp: at_eof_def split: sum.splits if_splits)

text \<open>A parser that reads and is run by its rendering: what the three entry points share.\<close>

lemma parse_render_iff:
  assumes "\<And>x. ok x \<Longrightarrow> rd (render x) = Inr (x, [])" "\<And>s. reads rd ok render s"
  shows "at_eof (rd (render x)) = Inr x \<longleftrightarrow> ok x"
    and "at_eof (rd s) = Inr x \<Longrightarrow> ok x \<and> (sublist ''<>'' s \<or> render x = s)"
proof -
  show "at_eof (rd s) = Inr x \<Longrightarrow> ok x \<and> (sublist ''<>'' s \<or> render x = s)" for s
    using readsD [OF assms(2) [of s]] by (auto simp: at_eof_iff renders_to_def)
  from this [of "render x"] show "at_eof (rd (render x)) = Inr x \<longleftrightarrow> ok x"
    by (auto simp: at_eof_iff assms(1))
qed

subsection \<open>Properties\<close>

text \<open>C30: generic signatures survive rendering exactly when they are well-formed. For field, class and
  method signatures alike, the rendering of a value parses back to that value if its names end where
  the parser stops and its type parameters cannot run into each other, and only then.\<close>

theorem signature_render_parse:
  "(type_signature_parse (type_render t) = Inr t \<longleftrightarrow> wf_reference t) \<and>
   (class_signature_parse (class_signature_render c) = Inr c \<longleftrightarrow> wf_class_signature c) \<and>
   (method_signature_parse (method_signature_render m) = Inr m \<longleftrightarrow> wf_method_signature m)"
  unfolding type_signature_parse_def class_signature_parse_def method_signature_parse_def
  using parse_render_iff(1) [where rd = p_reference_type, OF _ signature_reads(2)]
    p_reference_type_run [of _ "[]"]
    parse_render_iff(1) [where rd = p_class_signature, OF p_class_signature_run p_class_signature_reads]
    parse_render_iff(1) [where rd = p_method_signature, OF p_method_signature_run p_method_signature_reads]
  by simp

text \<open>C31: reading a signature loses nothing but empty lists. A text that parses as a class or method
  signature gives a well-formed value, and unless the text holds an empty list \<open><>\<close>, rendering the
  value gives the text back.\<close>

theorem signature_parse_render:
  "(class_signature_parse s = Inr c \<longrightarrow>
      wf_class_signature c \<and> (sublist ''<>'' s \<or> class_signature_render c = s)) \<and>
   (method_signature_parse s = Inr m \<longrightarrow>
      wf_method_signature m \<and> (sublist ''<>'' s \<or> method_signature_render m = s))"
  unfolding class_signature_parse_def method_signature_parse_def
  using parse_render_iff(2) [where rd = p_class_signature, OF p_class_signature_run p_class_signature_reads]
    parse_render_iff(2) [where rd = p_method_signature, OF p_method_signature_run p_method_signature_reads]
  by blast

definition sample_signature :: class_signature where
  "sample_signature =
     \<lparr>cs_type_parameters = [\<lparr>tp_name = ''T'', class_bound = None,
          interface_bounds = [Sig_Class (Class_Type ''A'' [Exact (Sig_Variable ''T''), Any] [])]\<rparr>],
      superclass = Class_Type ''B'' [] [Simple_Class ''C'' [Super (Sig_Array (Sig_Base B_Int))]],
      superinterfaces = []\<rparr>"

lemma sample_signature_parses:
  "class_signature_parse ''<T::LA<TT;*>;>LB.C<-[I>;'' = Inr sample_signature"
proof -
  have "wf_class_signature sample_signature"
    by (simp add: sample_signature_def wf_class_signature_def wf_parameters_def wf_parameter_def wf_reference_def)
  from p_class_signature_run [OF this] show ?thesis
    by (simp add: class_signature_parse_def at_eof_def class_signature_render_def sample_signature_def
        parameters_render_def parameter_render_def)
qed

lemma signature_parse_render_witness:
  "wf_class_signature sample_signature \<and>
   (sublist ''<>'' ''<T::LA<TT;*>;>LB.C<-[I>;'' \<or>
    class_signature_render sample_signature = ''<T::LA<TT;*>;>LB.C<-[I>;'')"
  using signature_parse_render [THEN conjunct1, THEN mp, OF sample_signature_parses] .

end
