(* ===== verification/Version.thy ===== *)
theory Version
  imports Prelude
begin

text \<open>
  \<open>jals-resolve/src/version.rs\<close>: Maven versions, their order, and version requirements. A Rust
  string is the list of its characters; the \<open>char\<close> of HOL is a code point up to \<open>U+00FF\<close>, and the
  three classifications the code takes from the standard library (lower case, white space, ASCII
  digits) are written out for these. On such text the byte order of \<open>str\<close> is the order of code points.
\<close>

subsection \<open>Characters and text\<close>

definition ascii_digit :: "char \<Rightarrow> bool" where
  "ascii_digit c \<longleftrightarrow> c \<in> set ''0123456789''"

definition white_space :: "char \<Rightarrow> bool" where
  "white_space c \<longleftrightarrow> of_char c \<in> {9, 10, 11, 12, 13, 32, 0x85, 0xA0 :: nat}"

definition to_lowercase :: "char \<Rightarrow> char" where
  "to_lowercase c =
     (let n = of_char c :: nat
      in if 65 \<le> n \<and> n \<le> 90 \<or> 0xC0 \<le> n \<and> n \<le> 0xDE \<and> n \<noteq> 0xD7 then char_of (n + 32) else c)"

definition utf8_length :: "string \<Rightarrow> nat" where
  "utf8_length s = sum_list (map (\<lambda>c. if (of_char c :: nat) < 0x80 then 1 else 2) s)"

definition trim :: "string \<Rightarrow> string" where
  "trim s = rev (dropWhile white_space (rev (dropWhile white_space s)))"

fun split_on :: "(char \<Rightarrow> bool) \<Rightarrow> string \<Rightarrow> string list" where
  "split_on sep [] = [[]]"
| "split_on sep (c # s) =
     (if sep c then [] # split_on sep s
      else case split_on sep s of [] \<Rightarrow> [[c]] | part # parts \<Rightarrow> (c # part) # parts)"

text \<open>\<open>chars[i..j]\<close> of a vector of characters.\<close>

definition slice :: "'a list \<Rightarrow> nat \<Rightarrow> nat \<Rightarrow> 'a list" where
  "slice xs i j = take (j - i) (drop i xs)"

subsection \<open>Orderings\<close>

datatype ordering = Less | Equal | Greater

fun ord_reverse :: "ordering \<Rightarrow> ordering" where
  "ord_reverse Less = Greater"
| "ord_reverse Equal = Equal"
| "ord_reverse Greater = Less"

definition ord_then :: "ordering \<Rightarrow> ordering \<Rightarrow> ordering" where
  "ord_then a b = (case a of Equal \<Rightarrow> b | _ \<Rightarrow> a)"

definition nat_cmp :: "nat \<Rightarrow> nat \<Rightarrow> ordering" where
  "nat_cmp a b = (if a < b then Less else if a = b then Equal else Greater)"

fun str_cmp :: "string \<Rightarrow> string \<Rightarrow> ordering" where
  "str_cmp [] [] = Equal"
| "str_cmp [] (_ # _) = Less"
| "str_cmp (_ # _) [] = Greater"
| "str_cmp (a # as) (b # bs) = ord_then (nat_cmp (of_char a) (of_char b)) (str_cmp as bs)"

subsection \<open>Items\<close>

datatype item = V_Number string | V_Text string | V_List "item list"

datatype raw_item = Raw_Number string | Raw_Text string | Raw_List nat

definition qualifiers :: "string list" where
  "qualifiers = [''alpha'', ''beta'', ''milestone'', ''rc'', ''snapshot'', [], ''sp'']"

definition release_index :: nat where
  "release_index = 5"

fun position :: "'a \<Rightarrow> 'a list \<Rightarrow> nat option" where
  "position x [] = None"
| "position x (y # ys) = (if x = y then Some 0 else map_option Suc (position x ys))"

definition qualifier_index :: "string \<Rightarrow> nat option" where
  "qualifier_index text = position text qualifiers"

definition alias_of :: "string \<Rightarrow> bool \<Rightarrow> string" where
  "alias_of text followed_by_digit =
     (if followed_by_digit \<and> text = ''a'' then ''alpha''
      else if followed_by_digit \<and> text = ''b'' then ''beta''
      else if followed_by_digit \<and> text = ''m'' then ''milestone''
      else if text \<in> {''ga'', ''final'', ''release''} then []
      else if text = ''cr'' then ''rc''
      else text)"

definition normalize_number :: "string \<Rightarrow> string" where
  "normalize_number text =
     (let trimmed = dropWhile (\<lambda>c. c = CHR ''0'') text in if trimmed = [] then ''0'' else trimmed)"

definition make_raw_item :: "bool \<Rightarrow> string \<Rightarrow> raw_item" where
  "make_raw_item is_digit text =
     (if is_digit then Raw_Number (normalize_number text) else Raw_Text (alias_of text False))"

fun is_null :: "item \<Rightarrow> bool" where
  "is_null (V_Number number) \<longleftrightarrow> number = ''0''"
| "is_null (V_Text text) \<longleftrightarrow> qualifier_index text = Some release_index"
| "is_null (V_List items) \<longleftrightarrow> items = []"

fun is_list :: "item \<Rightarrow> bool" where
  "is_list (V_List _) \<longleftrightarrow> True"
| "is_list _ \<longleftrightarrow> False"

text \<open>The loop of \<open>normalize\<close>, with \<open>i\<close> as it stands before the decrement.\<close>

fun normalize_loop :: "nat \<Rightarrow> item list \<Rightarrow> item list" where
  "normalize_loop 0 items = items"
| "normalize_loop (Suc i) items =
     (if is_null (items ! i) then normalize_loop i (take i items @ drop (Suc i) items)
      else if \<not> is_list (items ! i) then items
      else normalize_loop i items)"

definition normalize :: "item list \<Rightarrow> item list" where
  "normalize items = normalize_loop (length items) items"

subsection \<open>Parsing\<close>

text \<open>The arena of lists, the list being filled, and the segment being scanned.\<close>

type_synonym arena = "raw_item list list"

record scan_state =
  sc_arena :: arena
  sc_current :: nat
  sc_digit :: bool
  sc_start :: nat

definition scan_new :: scan_state where
  "scan_new = \<lparr>sc_arena = [[]], sc_current = 0, sc_digit = False, sc_start = 0\<rparr>"

definition push :: "raw_item \<Rightarrow> scan_state \<Rightarrow> scan_state" where
  "push raw s = s\<lparr>sc_arena := (sc_arena s)[sc_current s := sc_arena s ! sc_current s @ [raw]]\<rparr>"

definition open_child :: "scan_state \<Rightarrow> scan_state" where
  "open_child s =
     (let child = length (sc_arena s)
      in (push (Raw_List child) (s\<lparr>sc_arena := sc_arena s @ [[]]\<rparr>))\<lparr>sc_current := child\<rparr>)"

definition scan_step :: "string \<Rightarrow> nat \<times> char \<Rightarrow> scan_state \<Rightarrow> scan_state" where
  "scan_step chars ic s =
     (case ic of (i, ch) \<Rightarrow>
        let segment = (if i = sc_start s then Raw_Number ''0''
                       else make_raw_item (sc_digit s) (slice chars (sc_start s) i))
        in if ch = CHR ''.'' then (push segment s)\<lparr>sc_start := i + 1\<rparr>
           else if ch = CHR ''-'' then open_child ((push segment s)\<lparr>sc_start := i + 1\<rparr>)
           else if ascii_digit ch then
             (if \<not> sc_digit s \<and> i > sc_start s
              then open_child ((push (Raw_Text (alias_of (slice chars (sc_start s) i) True)) s)\<lparr>sc_start := i\<rparr>)
              else s)\<lparr>sc_digit := True\<rparr>
           else
             (if sc_digit s \<and> i > sc_start s
              then open_child ((push (make_raw_item True (slice chars (sc_start s) i)) s)\<lparr>sc_start := i\<rparr>)
              else s)\<lparr>sc_digit := False\<rparr>)"

definition scan_end :: "string \<Rightarrow> scan_state \<Rightarrow> scan_state" where
  "scan_end chars s =
     (if length chars > sc_start s then push (make_raw_item (sc_digit s) (drop (sc_start s) chars)) s else s)"

definition scan_chars :: "string \<Rightarrow> scan_state" where
  "scan_chars chars = scan_end chars (fold (scan_step chars) (List.enumerate 0 chars) scan_new)"

text \<open>
  A child stands behind its parent in the arena, so following children ends within as many steps as
  there are lists; \<open>materialize_step\<close> below shows that the bound never cuts a list short.
\<close>

definition materialize_with :: "(nat \<Rightarrow> item list) \<Rightarrow> raw_item list \<Rightarrow> item list" where
  "materialize_with rec raws =
     normalize (map (\<lambda>raw. case raw of
         Raw_Number number \<Rightarrow> V_Number number
       | Raw_Text q \<Rightarrow> V_Text q
       | Raw_List child \<Rightarrow> V_List (rec child)) raws)"

fun materialize_bounded :: "nat \<Rightarrow> arena \<Rightarrow> nat \<Rightarrow> item list" where
  "materialize_bounded 0 arena index = []"
| "materialize_bounded (Suc n) arena index =
     materialize_with (materialize_bounded n arena) (arena ! index)"

definition materialize :: "arena \<Rightarrow> nat \<Rightarrow> item list" where
  "materialize arena index = materialize_bounded (length arena - index) arena index"

definition parse_items :: "string \<Rightarrow> item list" where
  "parse_items version = materialize (sc_arena (scan_chars version)) 0"

record version =
  v_raw :: string
  v_items :: "item list"

datatype requirement_error = EmptyOperand | MalformedRange | WildcardComponents

datatype version_error = Empty string | Whitespace string | Requirement string requirement_error

definition version_parse :: "string \<Rightarrow> version_error + version" where
  "version_parse raw =
     (if trim raw = [] then Inl (Empty raw)
      else if list_ex white_space raw then Inl (Whitespace raw)
      else Inr \<lparr>v_raw = raw, v_items = parse_items (map to_lowercase raw)\<rparr>)"

subsection \<open>Comparison\<close>

definition compare_numbers :: "string \<Rightarrow> string \<Rightarrow> ordering" where
  "compare_numbers l r = ord_then (nat_cmp (length l) (length r)) (str_cmp l r)"

definition compare_qualifiers :: "string \<Rightarrow> string \<Rightarrow> ordering" where
  "compare_qualifiers l r =
     (case (qualifier_index l, qualifier_index r) of
        (Some a, Some b) \<Rightarrow> nat_cmp a b
      | (None, None) \<Rightarrow> str_cmp l r
      | (Some _, None) \<Rightarrow> Less
      | (None, Some _) \<Rightarrow> Greater)"

fun compare_to_none :: "item \<Rightarrow> ordering"
  and compare_list_to_none :: "item list \<Rightarrow> ordering" where
  "compare_to_none (V_Number number) = (if number = ''0'' then Equal else Greater)"
| "compare_to_none (V_Text text) =
     (case qualifier_index text of None \<Rightarrow> Greater | Some index \<Rightarrow> nat_cmp index release_index)"
| "compare_to_none (V_List items) = compare_list_to_none items"
| "compare_list_to_none [] = Equal"
| "compare_list_to_none (item # items) =
     (case compare_to_none item of Equal \<Rightarrow> compare_list_to_none items | c \<Rightarrow> c)"

fun compare_item :: "item \<Rightarrow> item \<Rightarrow> ordering"
  and compare_items :: "item list \<Rightarrow> item list \<Rightarrow> ordering" where
  "compare_item (V_Number a) (V_Number b) = compare_numbers a b"
| "compare_item (V_Text a) (V_Text b) = compare_qualifiers a b"
| "compare_item (V_List a) (V_List b) = compare_items a b"
| "compare_item (V_Number _) (V_Text _) = Greater"
| "compare_item (V_Number _) (V_List _) = Greater"
| "compare_item (V_List _) (V_Text _) = Greater"
| "compare_item (V_Text _) (V_Number _) = Less"
| "compare_item (V_Text _) (V_List _) = Less"
| "compare_item (V_List _) (V_Number _) = Less"
| "compare_items [] [] = Equal"
| "compare_items (a # as) (b # bs) =
     (case compare_item a b of Equal \<Rightarrow> compare_items as bs | c \<Rightarrow> c)"
| "compare_items (a # as) [] =
     (case compare_to_none a of Equal \<Rightarrow> compare_items as [] | c \<Rightarrow> c)"
| "compare_items [] (b # bs) =
     (case ord_reverse (compare_to_none b) of Equal \<Rightarrow> compare_items [] bs | c \<Rightarrow> c)"

definition version_cmp :: "version \<Rightarrow> version \<Rightarrow> ordering" where
  "version_cmp a b = compare_items (v_items a) (v_items b)"

definition version_eq :: "version \<Rightarrow> version \<Rightarrow> bool" where
  "version_eq a b \<longleftrightarrow> version_cmp a b = Equal"

text \<open>What \<open>Hash\<close> feeds to the hasher.\<close>

fun decimal :: "nat \<Rightarrow> string" where
  "decimal n = (if n < 10 then [char_of (48 + n)] else decimal (n div 10) @ [char_of (48 + n mod 10)])"

declare decimal.simps [simp del]

fun canonical_item :: "item \<Rightarrow> string"
  and canonical_slice :: "item list \<Rightarrow> string" where
  "canonical_item (V_Number number) = ''n'' @ number @ '';''"
| "canonical_item (V_Text text) = ''s'' @ decimal (utf8_length text) @ '':'' @ text @ '';''"
| "canonical_item (V_List inner) = ''['' @ canonical_slice inner @ '']''"
| "canonical_slice [] = []"
| "canonical_slice (item # items) = canonical_item item @ canonical_slice items"

definition version_hash_input :: "version \<Rightarrow> string" where
  "version_hash_input v = canonical_slice (v_items v)"

fun items_are_prerelease :: "item list \<Rightarrow> bool"
  and item_is_prerelease :: "item \<Rightarrow> bool" where
  "items_are_prerelease [] \<longleftrightarrow> False"
| "items_are_prerelease (item # items) \<longleftrightarrow> item_is_prerelease item \<or> items_are_prerelease items"
| "item_is_prerelease (V_Text text) \<longleftrightarrow>
     (case qualifier_index text of None \<Rightarrow> False | Some index \<Rightarrow> index < release_index)"
| "item_is_prerelease (V_List inner) \<longleftrightarrow> items_are_prerelease inner"
| "item_is_prerelease (V_Number _) \<longleftrightarrow> False"

definition is_prerelease :: "version \<Rightarrow> bool" where
  "is_prerelease v = items_are_prerelease (v_items v)"

definition numeric_components :: "version \<Rightarrow> string list" where
  "numeric_components v =
     map normalize_number (take 3 (takeWhile (\<lambda>part. part \<noteq> [] \<and> list_all ascii_digit part)
       (split_on (\<lambda>c. c \<in> set ''.-_'') (v_raw v))))"

end
