(* ===== verification/Version_Order.thy ===== *)
theory Version_Order
  imports Version
begin

text \<open>
  The order of versions as \<open>cmp\<close> of \<open>jals-resolve/src/version.rs\<close> computes it: antisymmetric, with
  equality the identity of the parsed items (so that hashing agrees with it), but not transitive in
  general.
\<close>

subsection \<open>Comparators\<close>

text \<open>The two laws every comparison of the file obeys, and what follows from them.\<close>

locale comparison =
  fixes cmp :: "'a \<Rightarrow> 'a \<Rightarrow> ordering"
  assumes flip [simp]: "ord_reverse (cmp x y) = cmp y x"
    and equal_iff: "cmp x y = Equal \<longleftrightarrow> x = y"
begin

lemma refl [simp]: "cmp x x = Equal"
  by (simp add: equal_iff)

lemma greater_iff: "cmp x y = Greater \<longleftrightarrow> cmp y x = Less"
  using flip [of x y] by (cases "cmp x y") (auto simp del: flip)

lemma trichotomy: "cmp x y = Less \<or> x = y \<or> cmp y x = Less"
  using greater_iff [of x y] by (cases "cmp x y") (simp_all add: equal_iff)

lemma irreflexive: "cmp x y = Less \<Longrightarrow> cmp y x \<noteq> Less"
  using greater_iff [of x y] by auto

end

lemma ord_reverse_simps [simp]:
  "ord_reverse (ord_reverse a) = a"
  "ord_reverse a = Equal \<longleftrightarrow> a = Equal" "ord_reverse a = Less \<longleftrightarrow> a = Greater" "ord_reverse a = Greater \<longleftrightarrow> a = Less"
  by (cases a; simp)+

lemma ord_then_simps [simp]:
  "ord_then Equal b = b" "ord_then Less b = Less" "ord_then Greater b = Greater"
  by (simp_all add: ord_then_def)

lemma ord_then_eq: "ord_then a b = Equal \<longleftrightarrow> a = Equal \<and> b = Equal"
  by (cases a) simp_all

lemma ord_then_cong: "(a = Equal \<Longrightarrow> b = b') \<Longrightarrow> ord_then a b = ord_then a b'"
  by (cases a) simp_all

lemma ord_then_reverse: "ord_reverse (ord_then a b) = ord_then (ord_reverse a) (ord_reverse b)"
  by (cases a) simp_all

lemma case_ordering_then [simp]: "(case a of Equal \<Rightarrow> b | Less \<Rightarrow> Less | Greater \<Rightarrow> Greater) = ord_then a b"
  by (cases a) simp_all

interpretation nat_cmp: comparison nat_cmp
  by unfold_locales (auto simp: nat_cmp_def)

lemma str_cmp_flip: "ord_reverse (str_cmp a b) = str_cmp b a"
  by (induction a b rule: str_cmp.induct) (simp_all add: ord_then_reverse)

lemma str_cmp_eq: "str_cmp a b = Equal \<longleftrightarrow> a = b"
  by (induction a b rule: str_cmp.induct) (simp_all add: ord_then_eq nat_cmp.equal_iff)

interpretation str_cmp: comparison str_cmp
  by unfold_locales (rule str_cmp_flip str_cmp_eq)+

interpretation number_cmp: comparison compare_numbers
proof
  fix x y
  show "ord_reverse (compare_numbers x y) = compare_numbers y x"
    by (simp add: compare_numbers_def ord_then_reverse)
qed (auto simp: compare_numbers_def ord_then_eq nat_cmp.equal_iff str_cmp.equal_iff)

lemma position_nth: "position x xs = Some i \<Longrightarrow> i < length xs \<and> xs ! i = x"
  by (induction xs arbitrary: i) (auto split: if_splits)

interpretation qualifier_cmp: comparison compare_qualifiers
proof
  fix x y
  show "ord_reverse (compare_qualifiers x y) = compare_qualifiers y x"
    by (simp add: compare_qualifiers_def split: option.split)
  show "compare_qualifiers x y = Equal \<longleftrightarrow> x = y"
    by (auto simp: compare_qualifiers_def nat_cmp.equal_iff str_cmp.equal_iff qualifier_index_def
        dest: position_nth split: option.splits)
qed

subsection \<open>Items\<close>

lemma compare_to_none_as_empty:
  "compare_items items [] = compare_list_to_none items"
  "compare_items [] items = ord_reverse (compare_list_to_none items)"
  by (induction items) (simp_all add: ord_then_reverse)

lemma compare_flip:
  "ord_reverse (compare_item a b) = compare_item b a"
  "ord_reverse (compare_items as bs) = compare_items bs as"
proof (induction a b and as bs rule: compare_item_compare_items.induct)
  case (11 a as b bs)
  then have "compare_item b a = Equal \<Longrightarrow> compare_item a b = Equal" by (metis ord_reverse_simps(2))
  then show ?case using 11 by (simp add: ord_then_reverse) (rule ord_then_cong, simp)
next
  case (12 a as)
  then show ?case by (simp add: ord_then_reverse) (rule ord_then_cong, simp)
next
  case (13 b bs)
  then show ?case by (simp add: ord_then_reverse) (rule ord_then_cong, simp)
qed simp_all

subsection \<open>Normalized items\<close>

text \<open>
  \<open>normalize\<close> leaves no null item at the end of a list, at any depth. On such lists padding never
  makes two different versions equal: the last item of the longer one always decides.
\<close>

fun normal :: "item list \<Rightarrow> bool"
  and normal_item :: "item \<Rightarrow> bool" where
  "normal [] \<longleftrightarrow> True"
| "normal (item # items) \<longleftrightarrow> normal_item item \<and> normal items \<and> (items = [] \<longrightarrow> \<not> is_null item)"
| "normal_item (V_List inner) \<longleftrightarrow> normal inner"
| "normal_item _ \<longleftrightarrow> True"

lemma normal_iff: "normal items \<longleftrightarrow> list_all normal_item items \<and> (items \<noteq> [] \<longrightarrow> \<not> is_null (last items))"
  by (induction items) auto

lemma compare_to_none_normal:
  "normal items \<Longrightarrow> compare_list_to_none items = Equal \<longleftrightarrow> items = []"
  "normal_item item \<Longrightarrow> compare_to_none item = Equal \<longleftrightarrow> is_null item"
proof (induction items and item rule: normal_normal_item.induct)
  case (2 item items)
  then show ?case by (cases items) (auto simp: ord_then_eq)
qed (auto simp: nat_cmp.equal_iff split: option.split)

lemma compare_normal_eq:
  "normal_item a \<Longrightarrow> normal_item b \<Longrightarrow> compare_item a b = Equal \<longleftrightarrow> a = b"
  "normal as \<Longrightarrow> normal bs \<Longrightarrow> compare_items as bs = Equal \<longleftrightarrow> as = bs"
proof (induction a b and as bs rule: compare_item_compare_items.induct)
  case (12 a as)
  then show ?case
    using compare_to_none_normal(1) [of "a # as"] compare_to_none_as_empty(1) [of "a # as"] by simp
next
  case (13 b bs)
  then show ?case
    using compare_to_none_normal(1) [of "b # bs"] compare_to_none_as_empty(2) [of "b # bs"] by simp
qed (auto simp: number_cmp.equal_iff qualifier_cmp.equal_iff ord_then_eq)

lemma normalize_loop_last:
  "i \<le> length items \<Longrightarrow> (\<forall>j\<in>{i..<length items}. \<not> is_null (items ! j)) \<Longrightarrow>
     set (normalize_loop i items) \<subseteq> set items \<and>
     (normalize_loop i items \<noteq> [] \<longrightarrow> \<not> is_null (last (normalize_loop i items)))"
proof (induction i items rule: normalize_loop.induct)
  case (1 items)
  then show ?case by (cases items rule: rev_cases) (auto dest: bspec [of _ _ "length _"])
next
  case (2 i items)
  let ?rest = "take i items @ drop (Suc i) items"
  show ?case
  proof (cases "is_null (items ! i)")
    case True
    have "\<forall>j\<in>{i..<length ?rest}. \<not> is_null (?rest ! j)"
      using "2.prems" by (auto simp: nth_append min_def)
    moreover have "i \<le> length ?rest" using "2.prems" by simp
    moreover have "set ?rest \<subseteq> set items" by (auto dest: in_set_takeD in_set_dropD)
    ultimately show ?thesis using "2.IH"(1) [OF True] True by auto
  next
    case False
    then have later: "\<forall>j\<in>{i..<length items}. \<not> is_null (items ! j)"
      using "2.prems"(2) by (metis atLeastLessThan_iff le_neq_implies_less Suc_leI)
    show ?thesis
    proof (cases "is_list (items ! i)")
      case True
      then show ?thesis using "2.IH"(2) [OF False] later False "2.prems"(1) by simp
    next
      case no_list: False
      have "length items - 1 \<in> {i..<length items}" using "2.prems"(1) by auto
      then have "\<not> is_null (last items)" using later "2.prems"(1) by (metis last_conv_nth list.size(3) not_less_zero Suc_le_lessD le_zero_eq)
      then show ?thesis using False no_list by simp
    qed
  qed
qed

lemma normal_normalize: "list_all normal_item items \<Longrightarrow> normal (normalize items)"
  using normalize_loop_last [of "length items" items] by (auto simp: normalize_def normal_iff list_all_iff)

lemma normal_materialize: "normal (materialize_bounded n arena index)"
  by (induction n arbitrary: index)
    (auto intro!: normal_normalize simp: materialize_with_def list_all_iff split: raw_item.splits)

lemma version_parse_normal: "version_parse raw = Inr v \<Longrightarrow> normal (v_items v)"
  by (auto simp: version_parse_def parse_items_def materialize_def normal_materialize split: if_splits)

subsection \<open>Children stand behind their parents\<close>

text \<open>
  The recursion of \<open>materialize\<close> ends because a child list is created behind its parent. On such an
  arena the bound of the model is never reached: the recursion of the source holds as it stands.
\<close>

definition children :: "raw_item list \<Rightarrow> nat set" where
  "children raws = {child. Raw_List child \<in> set raws}"

definition forward_linked :: "arena \<Rightarrow> bool" where
  "forward_linked arena \<longleftrightarrow> (\<forall>i<length arena. children (arena ! i) \<subseteq> {i<..<length arena})"

lemma forwardI:
  assumes "\<And>i child. i < length arena \<Longrightarrow> child \<in> children (arena ! i) \<Longrightarrow> i < child \<and> child < length arena"
  shows "forward_linked arena"
  unfolding forward_linked_def
proof (intro allI impI subsetI)
  fix i child assume "i < length arena" "child \<in> children (arena ! i)"
  then have "i < child \<and> child < length arena" by (rule assms)
  then show "child \<in> {i<..<length arena}" by simp
qed

lemma forwardD:
  assumes "forward_linked arena" "child \<in> children (arena ! i)" "i < length arena"
  shows "i < child \<and> child < length arena"
proof -
  have "children (arena ! i) \<subseteq> {i<..<length arena}" using assms(1,3) by (simp add: forward_linked_def)
  then show ?thesis using assms(2) by auto
qed

lemma materialize_with_cong:
  "(\<And>child. child \<in> children raws \<Longrightarrow> f child = g child) \<Longrightarrow> materialize_with f raws = materialize_with g raws"
  by (auto simp: materialize_with_def children_def intro!: arg_cong [of _ _ normalize] split: raw_item.split)

lemma materialize_bounded_enough:
  assumes "forward_linked arena" "i < length arena" "length arena - i \<le> n"
  shows "materialize_bounded n arena i = materialize arena i"
  using assms(2,3)
proof (induction "length arena - i" arbitrary: i n rule: less_induct)
  case less
  obtain m where n: "n = Suc m" using less.prems by (cases n) auto
  obtain k where k: "length arena - i = Suc k" using less.prems(1) by (cases "length arena - i") auto
  have "materialize_bounded m arena child = materialize_bounded k arena child"
    if "child \<in> children (arena ! i)" for child
  proof -
    have c: "i < child" "child < length arena"
      using forwardD [OF assms(1) that less.prems(1)] by simp_all
    then have "length arena - child \<le> k" "length arena - child \<le> m" "length arena - child < length arena - i"
      using k n less.prems(2) by auto
    then show ?thesis using less.hyps [of child m] less.hyps [of child k] c(2) by simp
  qed
  then have "materialize_bounded (Suc m) arena i = materialize_bounded (Suc k) arena i"
    by (auto intro: materialize_with_cong)
  then show ?case by (simp only: n materialize_def k)
qed

lemma materialize_step:
  assumes "forward_linked arena" "i < length arena"
  shows "materialize arena i = materialize_with (materialize arena) (arena ! i)"
proof -
  have "materialize arena i = materialize_bounded (Suc (length arena)) arena i"
    by (rule materialize_bounded_enough [OF assms, symmetric]) simp
  also have "\<dots> = materialize_with (materialize arena) (arena ! i)"
    unfolding materialize_bounded.simps
    by (rule materialize_with_cong) (use assms in \<open>auto dest!: forwardD intro!: materialize_bounded_enough\<close>)
  finally show ?thesis .
qed

text \<open>The scanner always fills the last list, and opens the next one behind it.\<close>

definition scan_ok :: "scan_state \<Rightarrow> bool" where
  "scan_ok s \<longleftrightarrow> length (sc_arena s) = Suc (sc_current s) \<and> forward_linked (sc_arena s)"

lemma scan_ok_update [simp]:
  "scan_ok (s\<lparr>sc_start := n\<rparr>) = scan_ok s" "scan_ok (s\<lparr>sc_digit := d\<rparr>) = scan_ok s"
  by (simp_all add: scan_ok_def)

lemma forward_append_atom:
  assumes "forward_linked arena" "children [raw] = {}"
  shows "forward_linked (arena[k := arena ! k @ [raw]])"
proof -
  have "children (arena ! k @ [raw]) = children (arena ! k)" using assms(2) by (auto simp: children_def)
  then have "children (arena[k := arena ! k @ [raw]] ! i) = children (arena ! i)" if "i < length arena" for i
    using that by (cases "i = k") simp_all
  then show ?thesis using forwardD [OF assms(1)] by (intro forwardI) simp
qed

lemma forward_append_child:
  assumes "forward_linked arena" "length arena = Suc k"
  shows "forward_linked ((arena @ [[]])[k := (arena @ [[]]) ! k @ [Raw_List (length arena)]])"
proof -
  have "children (arena ! k @ [Raw_List (Suc k)]) = insert (Suc k) (children (arena ! k))"
    by (auto simp: children_def)
  moreover have "children [] = {}" by (simp add: children_def)
  ultimately show ?thesis
    using forwardD [OF assms(1)] assms(2)
    by (intro forwardI) (fastforce simp: nth_list_update nth_append less_Suc_eq split: if_splits)
qed

lemma scan_ok_push: "scan_ok s \<Longrightarrow> children [raw] = {} \<Longrightarrow> scan_ok (push raw s)"
  by (simp add: scan_ok_def push_def forward_append_atom)

lemma scan_ok_open: "scan_ok s \<Longrightarrow> scan_ok (open_child s)"
  using forward_append_child [of "sc_arena s" "sc_current s"]
  by (simp add: scan_ok_def push_def open_child_def Let_def)

lemma atoms [simp]:
  "children [make_raw_item d q] = {}" "children [Raw_Number n] = {}" "children [Raw_Text q] = {}"
  by (simp_all add: children_def make_raw_item_def)

lemma scan_ok_step: "scan_ok s \<Longrightarrow> scan_ok (scan_step chars ic s)"
  by (auto simp: scan_step_def Let_def intro!: scan_ok_push scan_ok_open split: prod.split)

lemma scan_ok_chars: "scan_ok (scan_chars chars)"
proof -
  have "scan_ok (fold (scan_step chars) ics s)" if "scan_ok s" for ics s
    using that by (induction ics arbitrary: s) (simp_all add: scan_ok_step)
  moreover have "scan_ok scan_new" by (simp add: scan_new_def scan_ok_def forward_linked_def children_def)
  ultimately show ?thesis
    by (simp add: scan_chars_def scan_end_def scan_ok_push)
qed

subsection \<open>Properties\<close>

text \<open>C32: equality of versions is the identity of what was parsed, and hashing agrees with it. The
  comparison pads the shorter version, yet two versions compare equal only if their items are the
  same; so \<open>==\<close> is an equivalence, equal versions feed the hasher the same bytes, and comparing the
  other way round gives the reverse.\<close>

theorem version_equality:
  "version_parse a = Inr v \<Longrightarrow> version_parse b = Inr w \<Longrightarrow>
     (version_eq v w \<longleftrightarrow> v_items v = v_items w) \<and>
     (version_eq v w \<longrightarrow> version_hash_input v = version_hash_input w) \<and>
     version_cmp w v = ord_reverse (version_cmp v w)"
  using compare_normal_eq(2) [OF version_parse_normal version_parse_normal, of a v b w]
  by (simp add: version_eq_def version_cmp_def version_hash_input_def compare_flip)

lemma one_point_zero: "version_parse ''1.0'' = Inr \<lparr>v_raw = ''1.0'', v_items = [V_Number ''1'']\<rparr>"
  by code_simp

lemma one: "version_parse ''1'' = Inr \<lparr>v_raw = ''1'', v_items = [V_Number ''1'']\<rparr>"
  by code_simp

lemma version_equality_witness:
  "version_hash_input \<lparr>v_raw = ''1.0'', v_items = [V_Number ''1'']\<rparr> =
   version_hash_input \<lparr>v_raw = ''1'', v_items = [V_Number ''1'']\<rparr>"
  using version_equality [OF one_point_zero one] by simp

text \<open>C33: parsing a version ends, in range, with normalized lists. In the arena the scanner leaves,
  every list that is referred to stands behind the list that refers to it and within the arena, so
  the recursion that materializes it never indexes out of range and ends: following references
  \<open>n\<close> deep for any \<open>n\<close> from the number of lists on gives the parsed items. And no list of the parsed
  version, at any depth, ends in a null item.\<close>

theorem parsed_items_normal:
  "version_parse raw = Inr v \<Longrightarrow> sc_arena (scan_chars (map to_lowercase raw)) = arena \<Longrightarrow>
     arena \<noteq> [] \<and> forward_linked arena \<and>
     (\<forall>k. materialize_bounded (length arena + k) arena 0 = v_items v) \<and> normal (v_items v)"
  using scan_ok_chars [of "map to_lowercase raw"] version_parse_normal [of raw v]
    materialize_bounded_enough [of arena 0]
  by (auto simp: scan_ok_def version_parse_def parse_items_def simp del: materialize_bounded.simps split: if_splits)

lemma sample_version_parse:
  "version_parse ''1-rc2'' = Inr \<lparr>v_raw = ''1-rc2'', v_items = [V_Number ''1'', V_List [V_Text ''rc'', V_List [V_Number ''2'']]]\<rparr>"
  "sc_arena (scan_chars (map to_lowercase ''1-rc2'')) =
     [[Raw_Number ''1'', Raw_List 1], [Raw_Text ''rc'', Raw_List 2], [Raw_Number ''2'']]"
  by code_simp+

lemma parsed_items_normal_witness:
  "materialize_bounded (Suc (Suc (Suc 4)))
     [[Raw_Number ''1'', Raw_List 1], [Raw_Text ''rc'', Raw_List 2], [Raw_Number ''2'']] 0 =
     [V_Number ''1'', V_List [V_Text ''rc'', V_List [V_Number ''2'']]]"
  using parsed_items_normal [OF sample_version_parse, THEN conjunct2, THEN conjunct2, THEN conjunct1, THEN spec [of _ 4]]
  by (simp del: materialize_bounded.simps)

text \<open>
  The order is not transitive, although \<open>Ord\<close> promises a total order: a list outranks a qualifier,
  while against an absent item both are ranked by the qualifier they hold.
\<close>

lemma version_order_cycle:
  "map_sum id (\<lambda>v. v_items v) (version_parse ''1-alpha'') = Inr [V_Number ''1'', V_List [V_Text ''alpha'']]"
  "map_sum id (\<lambda>v. v_items v) (version_parse ''1.sp'') = Inr [V_Number ''1'', V_Text ''sp'']"
  "compare_items [V_Number ''1'', V_List [V_Text ''alpha'']] [V_Number ''1''] = Less"
  "compare_items [V_Number ''1''] [V_Number ''1'', V_Text ''sp''] = Less"
  "compare_items [V_Number ''1'', V_Text ''sp''] [V_Number ''1'', V_List [V_Text ''alpha'']] = Less"
  by code_simp+

end
