(* ===== verification/Version_Req.thy ===== *)
theory Version_Req
  imports Version
begin

text \<open>
  Version requirements of \<open>jals-resolve/src/version.rs\<close>: Cargo's caret, tilde, exact and wildcard
  forms and Maven's ranges, their parser and \<open>matches\<close>.
\<close>

subsection \<open>Requirements\<close>

record version_bound =
  vb_version :: version
  vb_inclusive :: bool

record version_range =
  vr_lower :: "version_bound option"
  vr_upper :: "version_bound option"

datatype req_kind =
    Rk_Any
  | Rk_Caret version
  | Rk_Tilde version
  | Rk_Exact version
  | Rk_Wildcard "string option" "string option" \<comment> \<open>major, minor\<close>
  | Rk_Ranges "version_range list"

record version_req =
  vq_raw :: string
  vq_kind :: req_kind

definition range_matches :: "version_range \<Rightarrow> version \<Rightarrow> bool" where
  "range_matches rng v \<longleftrightarrow>
     \<not> (case vr_lower rng of
          None \<Rightarrow> False
        | Some lower \<Rightarrow>
            (case version_cmp v (vb_version lower) of
               Less \<Rightarrow> True | Equal \<Rightarrow> \<not> vb_inclusive lower | Greater \<Rightarrow> False)) \<and>
     \<not> (case vr_upper rng of
          None \<Rightarrow> False
        | Some upper \<Rightarrow>
            (case version_cmp v (vb_version upper) of
               Greater \<Rightarrow> True | Equal \<Rightarrow> \<not> vb_inclusive upper | Less \<Rightarrow> False))"

subsection \<open>Derived bounds\<close>

text \<open>Incrementing a decimal from its last digit, the digits in reverse.\<close>

fun bump_digits :: "nat list \<Rightarrow> nat list" where
  "bump_digits [] = [1]"
| "bump_digits (d # ds) = (if d = 9 then 0 # bump_digits ds else (d + 1) # ds)"

definition bump :: "string \<Rightarrow> string" where
  "bump component =
     map (\<lambda>digit. char_of (48 + digit))
       (rev (bump_digits (rev (map (\<lambda>byte. of_char byte - 48) component))))"

text \<open>
  The version of three decimal components. The code unwraps the parse, which cannot fail on digits
  (\<open>numeric_parses\<close>).
\<close>

definition numeric :: "string \<Rightarrow> string \<Rightarrow> string \<Rightarrow> version" where
  "numeric major minor patch = projr (version_parse (major @ ''.'' @ minor @ ''.'' @ patch))"

definition component_or_zero :: "string list \<Rightarrow> nat \<Rightarrow> string" where
  "component_or_zero components i = (if i < length components then components ! i else ''0'')"

definition next_compatible :: "version \<Rightarrow> version" where
  "next_compatible base =
     (let components = numeric_components base;
          major = component_or_zero components 0;
          minor = component_or_zero components 1;
          patch = component_or_zero components 2;
          has_minor = length components > 1;
          has_patch = length components > 2
      in if major \<noteq> ''0'' then numeric (bump major) ''0'' ''0''
         else if has_minor \<and> minor \<noteq> ''0'' then numeric ''0'' (bump minor) ''0''
         else if has_patch then numeric ''0'' ''0'' (bump patch)
         else if has_minor then numeric ''0'' ''1'' ''0''
         else numeric ''1'' ''0'' ''0'')"

definition next_tilde :: "version \<Rightarrow> version option" where
  "next_tilde base =
     (case numeric_components base of
        [] \<Rightarrow> None
      | [major] \<Rightarrow> Some (numeric (bump major) ''0'' ''0'')
      | major # minor # _ \<Rightarrow> Some (numeric major (bump minor) ''0''))"

definition admits_prerelease :: "version \<Rightarrow> version \<Rightarrow> bool" where
  "admits_prerelease base v \<longleftrightarrow> is_prerelease base \<or> \<not> is_prerelease v"

text \<open>\<open>version >= bound\<close> and \<open>version < bound\<close> as \<open>PartialOrd\<close> derives them from \<open>cmp\<close>.\<close>

definition version_ge :: "version \<Rightarrow> version \<Rightarrow> bool" where
  "version_ge v w \<longleftrightarrow> version_cmp v w \<noteq> Less"

definition version_lt :: "version \<Rightarrow> version \<Rightarrow> bool" where
  "version_lt v w \<longleftrightarrow> version_cmp v w = Less"

definition req_matches :: "version_req \<Rightarrow> version \<Rightarrow> bool" where
  "req_matches req v \<longleftrightarrow>
     (case vq_kind req of
        Rk_Any \<Rightarrow> True
      | Rk_Exact base \<Rightarrow> version_eq v base
      | Rk_Caret base \<Rightarrow>
          admits_prerelease base v \<and> version_ge v base \<and> version_lt v (next_compatible base)
      | Rk_Tilde base \<Rightarrow>
          admits_prerelease base v \<and> version_ge v base \<and>
            (case next_tilde base of None \<Rightarrow> True | Some upper \<Rightarrow> version_lt v upper)
      | Rk_Wildcard major minor \<Rightarrow>
          \<not> is_prerelease v \<and>
            (case (major, minor) of
               (None, _) \<Rightarrow> True
             | (Some major, None) \<Rightarrow>
                 version_ge v (numeric major ''0'' ''0'') \<and> version_lt v (numeric (bump major) ''0'' ''0'')
             | (Some major, Some minor) \<Rightarrow>
                 version_ge v (numeric major minor ''0'') \<and> version_lt v (numeric major (bump minor) ''0''))
      | Rk_Ranges ranges \<Rightarrow> list_ex (\<lambda>rng. range_matches rng v) ranges)"

definition exact_base :: "version_req \<Rightarrow> version option" where
  "exact_base req =
     (case vq_kind req of
        Rk_Exact base \<Rightarrow> Some base
      | Rk_Ranges [rng] \<Rightarrow>
          (case (vr_lower rng, vr_upper rng) of
             (Some lower, Some upper) \<Rightarrow>
               (if vb_inclusive lower \<and> vb_inclusive upper \<and> version_eq (vb_version lower) (vb_version upper)
                then Some (vb_version lower) else None)
           | _ \<Rightarrow> None)
      | _ \<Rightarrow> None)"

definition pinned_base :: "version_req \<Rightarrow> version option" where
  "pinned_base req =
     (case vq_kind req of
        Rk_Exact base \<Rightarrow> Some base
      | Rk_Caret base \<Rightarrow> Some base
      | Rk_Tilde base \<Rightarrow> Some base
      | _ \<Rightarrow> exact_base req)"

subsection \<open>Parsing\<close>

definition malformed :: "string \<Rightarrow> version_error" where
  "malformed raw = Requirement raw MalformedRange"

definition operand :: "string \<Rightarrow> string \<Rightarrow> version_error + version" where
  "operand operand_text raw =
     (case version_parse operand_text of Inl _ \<Rightarrow> Inl (Requirement raw EmptyOperand) | Inr v \<Rightarrow> Inr v)"

definition is_wildcard :: "string \<Rightarrow> bool" where
  "is_wildcard part \<longleftrightarrow> part \<in> {''*'', ''x'', ''X''}"

text \<open>One component of a wildcard: \<open>Some None\<close> for a wildcard, \<open>None\<close> for an error.\<close>

definition wildcard_component :: "string \<Rightarrow> string option option" where
  "wildcard_component part =
     (if is_wildcard part then Some None
      else if part \<noteq> [] \<and> list_all ascii_digit part then Some (Some (normalize_number part))
      else None)"

definition parse_wildcard :: "string \<Rightarrow> string \<Rightarrow> version_error + req_kind" where
  "parse_wildcard trimmed raw =
     (let parts = split_on (\<lambda>c. c = CHR ''.'') trimmed;
          bad = Inl (Requirement raw WildcardComponents)
      in if parts = [] \<or> length parts > 3 then bad
         else case wildcard_component (parts ! 0) of None \<Rightarrow> bad | Some major \<Rightarrow>
              case (if length parts > 1 then wildcard_component (parts ! 1) else Some None) of
                None \<Rightarrow> bad
              | Some minor \<Rightarrow>
                  if length parts > 2 \<and> \<not> is_wildcard (parts ! 2) then bad
                  else Inr (Rk_Wildcard major minor))"

definition parse_bound :: "string \<Rightarrow> bool \<Rightarrow> string \<Rightarrow> version_error + version_bound option" where
  "parse_bound bound_text inclusive raw =
     (if bound_text = [] then Inr None
      else case version_parse bound_text of
        Inl _ \<Rightarrow> Inl (malformed raw)
      | Inr v \<Rightarrow> Inr (Some \<lparr>vb_version = v, vb_inclusive = inclusive\<rparr>))"

definition parse_range_content :: "string \<Rightarrow> bool \<Rightarrow> bool \<Rightarrow> string \<Rightarrow> version_error + version_range" where
  "parse_range_content content lower_inclusive upper_inclusive raw =
     (if content = [] then Inl (malformed raw)
      else if CHR '','' \<notin> set content then
        (case version_parse content of
           Inl _ \<Rightarrow> Inl (malformed raw)
         | Inr v \<Rightarrow> Inr \<lparr>vr_lower = Some \<lparr>vb_version = v, vb_inclusive = True\<rparr>,
                       vr_upper = Some \<lparr>vb_version = v, vb_inclusive = True\<rparr>\<rparr>)
      else
        let lower_text = trim (takeWhile (\<lambda>c. c \<noteq> CHR '','') content);
            upper_text = trim (tl (dropWhile (\<lambda>c. c \<noteq> CHR '','') content))
        in if CHR '','' \<in> set upper_text then Inl (malformed raw)
           else case parse_bound lower_text lower_inclusive raw of Inl e \<Rightarrow> Inl e | Inr lower \<Rightarrow>
                case parse_bound upper_text upper_inclusive raw of Inl e \<Rightarrow> Inl e | Inr upper \<Rightarrow>
                  Inr \<lparr>vr_lower = lower, vr_upper = upper\<rparr>)"

text \<open>The loop over the ranges of \<open>chars[i..]\<close>; at least one is required of the whole text.\<close>

function parse_range_list :: "string \<Rightarrow> string \<Rightarrow> version_error + version_range list" where
  "parse_range_list chars raw =
     (case dropWhile (\<lambda>c. c = CHR '' '') chars of
        [] \<Rightarrow> Inr []
      | bracket # rest \<Rightarrow>
          if bracket \<noteq> CHR ''['' \<and> bracket \<noteq> CHR ''('' then Inl (malformed raw)
          else case dropWhile (\<lambda>c. c \<noteq> CHR '']'' \<and> c \<noteq> CHR '')'') rest of
            [] \<Rightarrow> Inl (malformed raw)
          | closing # behind \<Rightarrow>
              (case parse_range_content (takeWhile (\<lambda>c. c \<noteq> CHR '']'' \<and> c \<noteq> CHR '')'') rest)
                      (bracket = CHR ''['') (closing = CHR '']'') raw of
                 Inl e \<Rightarrow> Inl e
               | Inr rng \<Rightarrow>
                   if behind \<noteq> [] \<and> hd behind \<noteq> CHR '','' then Inl (malformed raw)
                   else (case parse_range_list (tl behind) raw of
                           Inl e \<Rightarrow> Inl e | Inr ranges \<Rightarrow> Inr (rng # ranges))))"
  by pat_completeness auto
termination
proof (relation "measure (\<lambda>(chars, raw). length chars)")
  fix chars rest behind :: string and bracket closing :: char
  assume "dropWhile (\<lambda>c. c = CHR '' '') chars = bracket # rest"
    and "dropWhile (\<lambda>c. c \<noteq> CHR '']'' \<and> c \<noteq> CHR '')'') rest = closing # behind"
  then have "length (bracket # rest) \<le> length chars" "length (closing # behind) \<le> length rest"
    by (metis length_dropWhile_le)+
  then show "((tl behind, raw), chars, raw) \<in> measure (\<lambda>(chars, raw). length chars)" for raw by simp
qed simp

declare parse_range_list.simps [simp del]

definition parse_ranges :: "string \<Rightarrow> string \<Rightarrow> version_error + version_range list" where
  "parse_ranges trimmed raw =
     (case parse_range_list trimmed raw of
        Inl e \<Rightarrow> Inl e
      | Inr ranges \<Rightarrow> if ranges = [] then Inl (malformed raw) else Inr ranges)"

definition req_kind_parse :: "string \<Rightarrow> string \<Rightarrow> version_error + req_kind" where
  "req_kind_parse trimmed raw =
     (if trimmed \<noteq> [] \<and> hd trimmed \<in> set ''[('' then map_sum id Rk_Ranges (parse_ranges trimmed raw)
      else if trimmed = ''*'' then Inr Rk_Any
      else if set trimmed \<inter> set '',[]()'' \<noteq> {} then Inl (Requirement raw MalformedRange)
      else if trimmed \<noteq> [] \<and> hd trimmed = CHR ''='' then map_sum id Rk_Exact (operand (tl trimmed) raw)
      else if trimmed \<noteq> [] \<and> hd trimmed = CHR ''~'' then map_sum id Rk_Tilde (operand (tl trimmed) raw)
      else if trimmed \<noteq> [] \<and> hd trimmed = CHR ''^'' then map_sum id Rk_Caret (operand (tl trimmed) raw)
      else if CHR ''*'' \<in> set trimmed \<or> list_ex (\<lambda>part. part \<in> {''x'', ''X''}) (split_on (\<lambda>c. c = CHR ''.'') trimmed)
      then parse_wildcard trimmed raw
      else map_sum id Rk_Caret (operand trimmed raw))"

definition req_parse :: "string \<Rightarrow> version_error + version_req" where
  "req_parse raw =
     (let trimmed = trim raw
      in if trimmed = [] then Inl (Empty raw)
         else if list_ex white_space raw then Inl (Whitespace raw)
         else map_sum id (\<lambda>kind. \<lparr>vq_raw = raw, vq_kind = kind\<rparr>) (req_kind_parse trimmed raw))"

end
