(* ===== verification/Version_Numeric.thy ===== *)
theory Version_Numeric
  imports Version_Order Version_Req
begin

text \<open>
  Versions that are only numbers: \<open>1.2.3\<close>. They parse to their components, compare as sequences of
  natural numbers padded with zeros, at any width, and on them the requirements are Cargo's.
\<close>

subsection \<open>Decimals\<close>

definition digits :: "string \<Rightarrow> bool" where
  "digits s \<longleftrightarrow> s \<noteq> [] \<and> list_all ascii_digit s"

definition digit_val :: "char \<Rightarrow> nat" where
  "digit_val c = of_char c - 48"

fun dec_val :: "string \<Rightarrow> nat" where
  "dec_val [] = 0"
| "dec_val (c # s) = digit_val c * 10 ^ length s + dec_val s"

lemma digit_val_less: "ascii_digit c \<Longrightarrow> digit_val c < 10"
  by (auto simp: ascii_digit_def digit_val_def)

lemma digit_of_char: "ascii_digit c \<Longrightarrow> (of_char c :: nat) = 48 + digit_val c"
  by (auto simp: ascii_digit_def digit_val_def)

lemma digit_val_zero: "ascii_digit c \<Longrightarrow> digit_val c = 0 \<longleftrightarrow> c = CHR ''0''"
  by (auto simp: ascii_digit_def digit_val_def)

lemma dec_val_less: "list_all ascii_digit s \<Longrightarrow> dec_val s < 10 ^ length s"
proof (induction s)
  case (Cons c s)
  then have "dec_val (c # s) < (digit_val c + 1) * 10 ^ length s" by simp
  also have "\<dots> \<le> 10 * 10 ^ length s" using Cons.prems digit_val_less [of c] by (intro mult_right_mono) auto
  finally show ?case by simp
qed simp

lemma dec_val_zeros: "dec_val (dropWhile (\<lambda>c. c = CHR ''0'') s) = dec_val s"
  by (induction s) (simp_all add: digit_val_def)

lemma digits_normalize: "digits s \<Longrightarrow> digits (normalize_number s)"
proof -
  assume "digits s"
  then have "list_all ascii_digit (dropWhile (\<lambda>c. c = CHR ''0'') s)"
    by (auto simp: digits_def list_all_iff dest: set_dropWhileD)
  moreover have "ascii_digit (CHR ''0'')" by (simp add: ascii_digit_def)
  ultimately show ?thesis by (simp add: digits_def normalize_number_def Let_def)
qed

lemma dec_val_normalize: "dec_val (normalize_number s) = dec_val s"
proof (cases "dropWhile (\<lambda>c. c = CHR ''0'') s = []")
  case True
  have "dec_val s = 0" using dec_val_zeros [of s] unfolding True by simp
  then show ?thesis unfolding normalize_number_def True by (simp add: digit_val_def)
next
  case False
  then show ?thesis using dec_val_zeros [of s] by (auto simp: normalize_number_def Let_def)
qed

text \<open>Without leading zeros, the longer decimal is the larger one.\<close>

definition canonical :: "string \<Rightarrow> bool" where
  "canonical s \<longleftrightarrow> digits s \<and> (hd s = CHR ''0'' \<longrightarrow> s = ''0'')"

lemma canonical_normalize: "digits s \<Longrightarrow> canonical (normalize_number s)"
  using digits_normalize [of s] hd_dropWhile [of "\<lambda>c. c = CHR ''0''" s]
  by (auto simp: canonical_def normalize_number_def Let_def)

lemma canonical_bound:
  assumes "canonical s" "s \<noteq> ''0''"
  shows "10 ^ (length s - 1) \<le> dec_val s"
proof -
  obtain c t where s: "s = c # t" using assms(1) by (cases s) (auto simp: canonical_def digits_def)
  then have "1 \<le> digit_val c"
    using assms digit_val_zero [of c] by (auto simp: canonical_def digits_def Suc_le_eq)
  then have "10 ^ length t \<le> digit_val c * 10 ^ length t" by simp
  then have "10 ^ length t \<le> digit_val c * 10 ^ length t + dec_val t" by (rule trans_le_add1)
  then show ?thesis by (simp add: s)
qed

lemma dec_val_lead:
  assumes "digit_val c < digit_val d" "length a = length b" "dec_val a < 10 ^ length b"
  shows "dec_val (c # a) < dec_val (d # b)"
proof -
  have "dec_val (c # a) < (digit_val c + 1) * 10 ^ length b" using assms(2,3) by simp
  also have "\<dots> \<le> digit_val d * 10 ^ length b" using assms(1) by (intro mult_right_mono) auto
  also have "\<dots> \<le> dec_val (d # b)" by simp
  finally show ?thesis .
qed

lemma str_cmp_dec_val:
  "length a = length b \<Longrightarrow> list_all ascii_digit a \<Longrightarrow> list_all ascii_digit b \<Longrightarrow>
     str_cmp a b = nat_cmp (dec_val a) (dec_val b)"
proof (induction a b rule: list_induct2)
  case (Cons c a d b)
  have "dec_val a < 10 ^ length b" "dec_val b < 10 ^ length a"
    using Cons dec_val_less [of a] dec_val_less [of b] by simp_all
  note lead = dec_val_lead [of c d a b, OF _ Cons.hyps this(1)] dec_val_lead [of d c b a, OF _ Cons.hyps [symmetric] this(2)]
  have "str_cmp a b = nat_cmp (dec_val a) (dec_val b)" using Cons by simp
  moreover have "str_cmp (c # a) (d # b) = ord_then (nat_cmp (digit_val c) (digit_val d)) (str_cmp a b)"
    using Cons.prems by (simp add: digit_of_char nat_cmp_def)
  ultimately show ?case
    using Cons.hyps lead
    by (cases "digit_val c" "digit_val d" rule: linorder_cases) (simp_all add: nat_cmp_def)
qed (simp add: nat_cmp_def)

lemma compare_numbers_dec_val:
  assumes "canonical a" "canonical b"
  shows "compare_numbers a b = nat_cmp (dec_val a) (dec_val b)"
proof -
  have *: "dec_val a < dec_val b" if "canonical a" "canonical b" "length a < length b" for a b
  proof -
    have "b \<noteq> ''0''" using that by (auto simp: canonical_def digits_def)
    have "dec_val a < 10 ^ length a" using that(1) by (intro dec_val_less) (simp add: canonical_def digits_def)
    also have "\<dots> \<le> 10 ^ (length b - 1)" using that(3) by (intro power_increasing) auto
    also have "\<dots> \<le> dec_val b" using that(2) \<open>b \<noteq> ''0''\<close> by (rule canonical_bound)
    finally show ?thesis .
  qed
  show ?thesis
  proof (cases "length a" "length b" rule: linorder_cases)
    case equal
    then show ?thesis
      using assms str_cmp_dec_val [of a b] by (simp add: compare_numbers_def canonical_def digits_def)
  qed (use assms * [of a b] * [of b a] in \<open>simp_all add: compare_numbers_def nat_cmp_def\<close>)
qed

subsection \<open>Bumping\<close>

lemma ascii_digit_iff: "ascii_digit c \<longleftrightarrow> (\<exists>d<10. c = char_of (48 + d :: nat))"
proof
  assume "ascii_digit c"
  then show "\<exists>d<10. c = char_of (48 + d :: nat)"
    using digit_val_less [of c] digit_of_char [of c] by (metis char_of_char)
next
  have all: "list_all (\<lambda>d. ascii_digit (char_of (48 + d :: nat))) [0, 1, 2, 3, 4, 5, 6, 7, 8, 9]"
    by code_simp
  assume "\<exists>d<10. c = char_of (48 + d :: nat)"
  then obtain d :: nat where "d < 10" "c = char_of (48 + d)" by blast
  moreover have "d \<in> set [0, 1, 2, 3, 4, 5, 6, 7, 8, 9]" using \<open>d < 10\<close> by auto
  ultimately show "ascii_digit c" using all unfolding list_all_iff by blast
qed

text \<open>The value of digits with the least significant one first.\<close>

fun low_val :: "nat list \<Rightarrow> nat" where
  "low_val [] = 0"
| "low_val (d # ds) = d + 10 * low_val ds"

lemma low_val_bump: "low_val (bump_digits ds) = low_val ds + 1"
  by (induction ds) simp_all

lemma bump_digits_less: "list_all (\<lambda>d. d < 10) ds \<Longrightarrow> list_all (\<lambda>d. d < 10) (bump_digits ds) \<and> bump_digits ds \<noteq> []"
  by (induction ds) auto

lemma low_val_append: "low_val (ds @ es) = low_val ds + 10 ^ length ds * low_val es"
  by (induction ds) (simp_all add: algebra_simps)

lemma dec_val_low: "dec_val s = low_val (rev (map digit_val s))"
  by (induction s) (simp_all add: low_val_append)

lemma bump_spec:
  assumes "digits s"
  shows "dec_val (bump s) = dec_val s + 1" "digits (bump s)"
proof -
  let ?ds = "rev (map (\<lambda>byte. of_char byte - 48) s) :: nat list"
  have ds: "?ds = rev (map digit_val s)" by (simp add: digit_val_def)
  have "list_all (\<lambda>d. d < 10) ?ds"
    using assms digit_val_less by (auto simp: ds digits_def list_all_iff)
  then have b: "list_all (\<lambda>d. d < 10) (bump_digits ?ds)" "bump_digits ?ds \<noteq> []"
    using bump_digits_less by blast+
  have "map digit_val (map (\<lambda>d. char_of (48 + d)) es) = es" if "list_all (\<lambda>d. d < 10) es" for es
    using that by (induction es) (simp_all add: digit_val_def)
  then have "dec_val (bump s) = low_val (bump_digits ?ds)"
    using b(1) by (simp add: dec_val_low bump_def rev_map [symmetric] list_all_rev del: map_map)
  then show "dec_val (bump s) = dec_val s + 1" by (simp add: low_val_bump ds dec_val_low)
  show "digits (bump s)"
    using b by (auto simp: digits_def bump_def list_all_iff ascii_digit_iff)
qed

subsection \<open>Parsing dotted numbers\<close>

fun dotted :: "string list \<Rightarrow> string" where
  "dotted [] = []"
| "dotted [c] = c"
| "dotted (c # cs) = c @ ''.'' @ dotted cs"

lemma slice_append: "slice (pre @ xs @ post) (length pre) (length pre + length xs) = xs"
  by (simp add: slice_def)

lemma scan_digits:
  "list_all ascii_digit ds \<Longrightarrow> sc_digit s \<or> i = sc_start s \<Longrightarrow> sc_start s \<le> i \<Longrightarrow>
     fold (scan_step chars) (List.enumerate i ds) s = (if ds = [] then s else s\<lparr>sc_digit := True\<rparr>)"
proof (induction ds arbitrary: i s)
  case (Cons d ds)
  have "d \<noteq> CHR ''.''" "d \<noteq> CHR ''-''" "ascii_digit d" using Cons.prems(1) by (auto simp: ascii_digit_def)
  then have "scan_step chars (i, d) s = s\<lparr>sc_digit := True\<rparr>"
    using Cons.prems(2,3) by (auto simp: scan_step_def Let_def)
  then show ?case using Cons by simp
qed simp

text \<open>The state behind some components and their dots, at the start of the next.\<close>

definition numbers_state :: "string list \<Rightarrow> nat \<Rightarrow> bool \<Rightarrow> scan_state" where
  "numbers_state cs i d =
     \<lparr>sc_arena = [map (\<lambda>c. Raw_Number (normalize_number c)) cs], sc_current = 0, sc_digit = d, sc_start = i\<rparr>"

lemma push_number:
  "push (Raw_Number (normalize_number c)) (numbers_state cs i d) = numbers_state (cs @ [c]) i d"
  by (simp add: push_def numbers_state_def)

lemma scan_component:
  assumes "chars = pre @ c @ post" "digits c"
  shows "fold (scan_step chars) (List.enumerate (length pre) c) (numbers_state cs (length pre) d) =
    numbers_state cs (length pre) True"
  using scan_digits [of c "numbers_state cs (length pre) d" "length pre" chars] assms(2)
  by (simp add: digits_def numbers_state_def)

lemma scan_dotted:
  "list_all digits ds \<Longrightarrow> ds \<noteq> [] \<Longrightarrow> chars = pre @ dotted ds \<Longrightarrow>
     scan_end chars (fold (scan_step chars) (List.enumerate (length pre) (dotted ds)) (numbers_state cs (length pre) d)) =
     numbers_state (cs @ ds) (length chars - length (last ds)) True"
proof (induction ds arbitrary: pre cs d rule: dotted.induct)
  case (2 c)
  have "scan_end chars (numbers_state cs (length pre) True) = push (Raw_Number (normalize_number c)) (numbers_state cs (length pre) True)"
    using 2 by (simp add: scan_end_def numbers_state_def make_raw_item_def digits_def)
  then show ?case
    using 2 scan_component [of chars pre c "[]" cs d] by (simp add: push_number)
next
  case (3 c c' cs')
  let ?post = "dotted (c' # cs')"
  have chars: "chars = pre @ c @ CHR ''.'' # ?post" using "3.prems" by simp
  have c: "digits c" using "3.prems" by simp
  have "slice chars (length pre) (length pre + length c) = c"
    unfolding chars by (simp add: slice_def)
  then have dot: "scan_step chars (length pre + length c, CHR ''.'') (numbers_state cs (length pre) True) =
      numbers_state (cs @ [c]) (length (pre @ c @ ''.'')) True"
    using c by (simp add: scan_step_def Let_def make_raw_item_def numbers_state_def push_def digits_def)
  have "fold (scan_step chars) (List.enumerate (length pre) (c @ CHR ''.'' # ?post)) (numbers_state cs (length pre) d) =
      fold (scan_step chars) (List.enumerate (length (pre @ c @ ''.'')) ?post) (numbers_state (cs @ [c]) (length (pre @ c @ ''.'')) True)"
    using scan_component [OF chars c, of cs d] dot by (simp add: enumerate_append_eq)
  moreover have "chars = (pre @ c @ ''.'') @ ?post" by (simp add: chars)
  ultimately show ?case
    using "3.IH" [of "pre @ c @ ''.''" "cs @ [c]" True] "3.prems"(1) by simp
qed simp

subsection \<open>Stripped zeros\<close>

lemma normalize_snoc:
  "\<not> is_list x \<Longrightarrow> normalize (xs @ [x]) = (if is_null x then normalize xs else xs @ [x])"
  by (simp add: normalize_def nth_append)

text \<open>The reference: sequences of numbers compared position by position, the shorter one padded.\<close>

fun pad_cmp :: "nat list \<Rightarrow> nat list \<Rightarrow> ordering" where
  "pad_cmp [] [] = Equal"
| "pad_cmp (a # as) (b # bs) = ord_then (nat_cmp a b) (pad_cmp as bs)"
| "pad_cmp (a # as) [] = ord_then (nat_cmp a 0) (pad_cmp as [])"
| "pad_cmp [] (b # bs) = ord_then (nat_cmp 0 b) (pad_cmp [] bs)"

lemma pad_cmp_flip: "ord_reverse (pad_cmp as bs) = pad_cmp bs as"
  by (induction as bs rule: pad_cmp.induct) (simp_all add: ord_then_reverse)

lemma pad_cmp_zero: "pad_cmp (as @ [0]) bs = pad_cmp as bs"
proof (induction as bs rule: pad_cmp.induct)
  case (4 b bs)
  then show ?case by simp
qed (simp_all add: nat_cmp_def)

definition numbers :: "string list \<Rightarrow> item list" where
  "numbers cs = normalize (map (\<lambda>c. V_Number (normalize_number c)) cs)"

lemma canonical_zero:
  assumes "canonical s"
  shows "dec_val s = 0 \<longleftrightarrow> s = ''0''"
proof (cases "s = ''0''")
  case False
  have "0 < (10 :: nat) ^ (length s - 1)" by simp
  also have "\<dots> \<le> dec_val s" by (rule canonical_bound [OF assms False])
  finally show ?thesis using False by simp
qed (simp add: digit_val_def)

lemma digit_val_0 [simp]: "digit_val (CHR ''0'') = 0"
  by (simp add: digit_val_def)

lemma compare_number_items:
  "list_all canonical cs \<Longrightarrow> list_all canonical ds \<Longrightarrow>
     compare_items (map V_Number cs) (map V_Number ds) = pad_cmp (map dec_val cs) (map dec_val ds)"
proof (induction cs arbitrary: ds)
  case Nil
  then show ?case by (induction ds) (auto simp: canonical_zero nat_cmp_def)
next
  case (Cons c cs)
  then show ?case
    using Cons.IH [of "[]"]
    by (cases ds) (auto simp: compare_numbers_dec_val canonical_zero nat_cmp_def)
qed

lemma normalize_numbers:
  obtains cs' where "normalize (map V_Number cs) = map V_Number cs'" "set cs' \<subseteq> set cs"
    "\<And>bs. pad_cmp (map dec_val cs') bs = pad_cmp (map dec_val cs) bs"
proof -
  have "\<exists>cs'. normalize (map V_Number cs) = map V_Number cs' \<and> set cs' \<subseteq> set cs \<and>
      (\<forall>bs. pad_cmp (map dec_val cs') bs = pad_cmp (map dec_val cs) bs)"
  proof (induction cs rule: rev_induct)
    case (snoc c cs)
    show ?case
    proof (cases "c = ''0''")
      case True
      then show ?thesis using snoc by (auto simp: normalize_snoc pad_cmp_zero digit_val_def)
    next
      case False
      then show ?thesis by (intro exI [of _ "cs @ [c]"]) (simp add: normalize_snoc)
    qed
  qed (auto simp: normalize_def)
  then show thesis using that by blast
qed

lemma numbers_map: "numbers cs = normalize (map V_Number (map normalize_number cs))"
  by (simp add: numbers_def comp_def)

lemma compare_numbers_items:
  assumes "list_all digits cs" "list_all digits ds"
  shows "compare_items (numbers cs) (numbers ds) = pad_cmp (map dec_val cs) (map dec_val ds)"
proof -
  let ?n = "map normalize_number"
  obtain cs' where cs': "numbers cs = map V_Number cs'" "set cs' \<subseteq> set (?n cs)"
    "\<And>bs. pad_cmp (map dec_val cs') bs = pad_cmp (map dec_val (?n cs)) bs"
    using normalize_numbers [of "?n cs"] unfolding numbers_map by metis
  obtain ds' where ds': "numbers ds = map V_Number ds'" "set ds' \<subseteq> set (?n ds)"
    "\<And>bs. pad_cmp (map dec_val ds') bs = pad_cmp (map dec_val (?n ds)) bs"
    using normalize_numbers [of "?n ds"] unfolding numbers_map by metis
  have val: "map dec_val (?n xs) = map dec_val xs" for xs by (simp add: dec_val_normalize)
  have "list_all canonical cs'" "list_all canonical ds'"
    using assms cs'(2) ds'(2) canonical_normalize by (auto simp: list_all_iff)
  then have "compare_items (numbers cs) (numbers ds) = pad_cmp (map dec_val cs') (map dec_val ds')"
    by (simp add: cs'(1) ds'(1) compare_number_items)
  also have "\<dots> = pad_cmp (map dec_val cs) (map dec_val ds')" by (rule cs'(3) [unfolded val])
  also have "\<dots> = ord_reverse (pad_cmp (map dec_val ds') (map dec_val cs))" by (simp add: pad_cmp_flip)
  also have "\<dots> = pad_cmp (map dec_val cs) (map dec_val ds)" by (simp only: ds'(3) [unfolded val] pad_cmp_flip)
  finally show ?thesis .
qed

subsection \<open>Dotted versions\<close>

lemma digit_char: "ascii_digit c \<Longrightarrow> to_lowercase c = c \<and> \<not> white_space c \<and> c \<notin> set ''.-_*xX~^=,[]()''"
  by (auto simp: ascii_digit_def to_lowercase_def white_space_def)

lemma dotted_chars: "list_all digits cs \<Longrightarrow> c \<in> set (dotted cs) \<Longrightarrow> ascii_digit c \<or> c = CHR ''.''"
  by (induction cs rule: dotted.induct) (auto simp: digits_def list_all_iff)

lemma dotted_lowercase: "list_all digits cs \<Longrightarrow> map to_lowercase (dotted cs) = dotted cs"
  using dotted_chars digit_char by (intro map_idI) (fastforce simp: to_lowercase_def)

lemma dotted_space: "list_all digits cs \<Longrightarrow> \<not> list_ex white_space (dotted cs)"
  using dotted_chars digit_char by (fastforce simp: list_ex_iff white_space_def)

lemma dropWhile_eq_self: "\<forall>c\<in>set s. \<not> P c \<Longrightarrow> dropWhile P s = s"
  by (cases s) simp_all

lemma trim_id: "\<not> list_ex white_space s \<Longrightarrow> trim s = s"
  by (simp add: trim_def list_ex_iff dropWhile_eq_self)

lemma dotted_not_Nil: "list_all digits cs \<Longrightarrow> cs \<noteq> [] \<Longrightarrow> dotted cs \<noteq> []"
  by (cases cs rule: dotted.cases) (auto simp: digits_def)

lemma parse_items_dotted:
  assumes "list_all digits cs" "cs \<noteq> []"
  shows "parse_items (dotted cs) = numbers cs"
proof -
  have "scan_chars (dotted cs) = numbers_state cs (length (dotted cs) - length (last cs)) True"
    using scan_dotted [OF assms, of "dotted cs" "[]" "[]" False]
    by (simp add: scan_chars_def numbers_state_def scan_new_def)
  then show ?thesis
    by (simp add: parse_items_def materialize_def numbers_state_def materialize_with_def numbers_def comp_def)
qed

lemma version_parse_dotted:
  "list_all digits cs \<Longrightarrow> cs \<noteq> [] \<Longrightarrow>
     version_parse (dotted cs) = Inr \<lparr>v_raw = dotted cs, v_items = numbers cs\<rparr>"
  by (simp add: version_parse_def dotted_space trim_id dotted_not_Nil dotted_lowercase parse_items_dotted)

definition dotted_version :: "string list \<Rightarrow> version" where
  "dotted_version cs = \<lparr>v_raw = dotted cs, v_items = numbers cs\<rparr>"

lemma dotted_version_cmp:
  "list_all digits cs \<Longrightarrow> list_all digits ds \<Longrightarrow>
     version_cmp (dotted_version cs) (dotted_version ds) = pad_cmp (map dec_val cs) (map dec_val ds)"
  by (simp add: version_cmp_def dotted_version_def compare_numbers_items)

lemma dotted_release: "\<not> is_prerelease (dotted_version cs)"
proof -
  obtain cs' where "numbers cs = map V_Number cs'"
    using normalize_numbers [of "map normalize_number cs"] unfolding numbers_map by metis
  moreover have "\<not> items_are_prerelease (map V_Number cs')" by (induction cs') simp_all
  ultimately show ?thesis by (simp add: is_prerelease_def dotted_version_def)
qed

lemma split_dotted:
  "cs \<noteq> [] \<Longrightarrow> sep (CHR ''.'') \<Longrightarrow> \<forall>s\<in>set cs. list_all (\<lambda>c. \<not> sep c) s \<Longrightarrow> split_on sep (dotted cs) = cs"
proof (induction cs rule: dotted.induct)
  case (2 c)
  have "split_on sep s = [s]" if "list_all (\<lambda>c. \<not> sep c) s" for s
    using that by (induction s) auto
  then show ?case using 2 by simp
next
  case (3 c c' cs)
  have "split_on sep (s @ CHR ''.'' # post) = s # split_on sep post" if "list_all (\<lambda>c. \<not> sep c) s" for s post
    using that "3.prems"(2) by (induction s) auto
  then show ?case using 3 by simp
qed simp

lemma digits_no_sep: "list_all digits cs \<Longrightarrow> (\<And>c. ascii_digit c \<Longrightarrow> \<not> sep c) \<Longrightarrow> \<forall>s\<in>set cs. list_all (\<lambda>c. \<not> sep c) s"
  by (auto simp: list_all_iff digits_def)

lemma numeric_components_dotted:
  "list_all digits cs \<Longrightarrow> cs \<noteq> [] \<Longrightarrow>
     numeric_components (dotted_version cs) = map normalize_number (take 3 cs)"
proof -
  assume cs: "list_all digits cs" "cs \<noteq> []"
  have "split_on (\<lambda>c. c \<in> set ''.-_'') (dotted cs) = cs"
    using digit_char by (intro split_dotted cs(2) digits_no_sep [OF cs(1)]) auto
  moreover have "takeWhile (\<lambda>part. part \<noteq> [] \<and> list_all ascii_digit part) cs = cs"
    using cs(1) by (auto simp: takeWhile_eq_all_conv list_all_iff digits_def)
  ultimately show ?thesis unfolding numeric_components_def dotted_version_def by (simp only: version.simps)
qed

lemma numeric_dotted:
  "digits a \<Longrightarrow> digits b \<Longrightarrow> digits c \<Longrightarrow> numeric a b c = dotted_version [a, b, c]"
  using version_parse_dotted [of "[a, b, c]"] by (simp add: numeric_def dotted_version_def)

lemma numeric_parses: "digits a \<Longrightarrow> digits b \<Longrightarrow> digits c \<Longrightarrow> isl (version_parse (a @ ''.'' @ b @ ''.'' @ c)) = False"
  using version_parse_dotted [of "[a, b, c]"] by simp

subsection \<open>Requirements on numbers\<close>

text \<open>The reference: Cargo's upper bounds of \<open>^\<close> and \<open>~\<close> on the numbers of the base.\<close>

fun caret_upper :: "nat list \<Rightarrow> nat list" where
  "caret_upper [] = []"
| "caret_upper [a] = [a + 1]"
| "caret_upper [a, b] = (if a \<noteq> 0 then [a + 1] else [0, b + 1])"
| "caret_upper (a # b # c # _) =
     (if a \<noteq> 0 then [a + 1] else if b \<noteq> 0 then [0, b + 1] else [0, 0, c + 1])"

fun tilde_upper :: "nat list \<Rightarrow> nat list" where
  "tilde_upper [] = []"
| "tilde_upper [a] = [a + 1]"
| "tilde_upper (a # b # _) = [a, b + 1]"

definition within :: "nat list \<Rightarrow> nat list \<Rightarrow> nat list \<Rightarrow> bool" where
  "within lo hi v \<longleftrightarrow> pad_cmp v lo \<noteq> Less \<and> pad_cmp v hi = Less"

lemma normalize_zero: "digits c \<Longrightarrow> normalize_number c = ''0'' \<longleftrightarrow> dec_val c = 0"
  using canonical_zero [OF canonical_normalize] by (simp add: dec_val_normalize)

lemma digits_0 [simp]: "digits ''0''" "digits ''1''"
  by (simp_all add: digits_def ascii_digit_def)

lemma version_lt_numeric:
  assumes "digits a" "digits b" "digits c" "list_all digits ds"
  shows "version_lt (dotted_version ds) (numeric a b c) \<longleftrightarrow>
    pad_cmp (map dec_val ds) [dec_val a, dec_val b, dec_val c] = Less"
    "version_ge (dotted_version ds) (numeric a b c) \<longleftrightarrow>
    pad_cmp (map dec_val ds) [dec_val a, dec_val b, dec_val c] \<noteq> Less"
  using assms by (simp_all add: version_lt_def version_ge_def numeric_dotted dotted_version_cmp)

lemma pad_cmp_zero_right: "pad_cmp as (bs @ [0]) = pad_cmp as bs"
  by (metis pad_cmp_flip pad_cmp_zero)

lemma pad_cmp_zeros [simp]:
  "pad_cmp as [a, 0] = pad_cmp as [a]" "pad_cmp as [a, b, 0] = pad_cmp as [a, b]"
  using pad_cmp_zero_right [of as "[a]"] pad_cmp_zero_right [of as "[a, b]"] by simp_all

lemma bumped:
  "digits c \<Longrightarrow> dec_val (bump (normalize_number c)) = dec_val c + 1"
  "digits c \<Longrightarrow> digits (bump (normalize_number c))"
  using bump_spec [of "normalize_number c"] digits_normalize [of c] by (simp_all add: dec_val_normalize)

lemma digit_val_1 [simp]: "digit_val (CHR ''1'') = 1"
  by (simp add: digit_val_def)

lemma next_compatible_dotted:
  assumes "list_all digits cs" "cs \<noteq> []" "list_all digits ds"
  shows "version_lt (dotted_version ds) (next_compatible (dotted_version cs)) \<longleftrightarrow>
    pad_cmp (map dec_val ds) (caret_upper (map dec_val cs)) = Less"
  using assms
  by (cases "map dec_val cs" rule: caret_upper.cases)
    (auto simp: next_compatible_def numeric_components_dotted component_or_zero_def Let_def
      normalize_zero version_lt_numeric bumped)

lemma next_tilde_dotted:
  assumes "list_all digits cs" "cs \<noteq> []"
  obtains upper where "next_tilde (dotted_version cs) = Some upper"
    "\<And>ds. list_all digits ds \<Longrightarrow> version_lt (dotted_version ds) upper \<longleftrightarrow>
       pad_cmp (map dec_val ds) (tilde_upper (map dec_val cs)) = Less"
proof (cases "map dec_val cs" rule: tilde_upper.cases)
  case (3 a b rest)
  then obtain x y zs where cs: "cs = x # y # zs" by auto
  show thesis
    by (rule that [of "numeric (normalize_number x) (bump (normalize_number y)) ''0''"])
      (use assms in \<open>auto simp: cs next_tilde_def numeric_components_dotted numeral_3_eq_3 version_lt_numeric
         bumped digits_normalize dec_val_normalize\<close>)
qed (use assms that in \<open>auto simp: next_tilde_def numeric_components_dotted version_lt_numeric bumped\<close>)

lemma dotted_hd:
  assumes "list_all digits cs" "cs \<noteq> []"
  obtains c rest where "dotted cs = c # rest" "ascii_digit c"
proof (cases cs rule: dotted.cases)
  case (2 c)
  then show thesis using that assms by (cases c) (auto simp: digits_def)
next
  case (3 c c' cs')
  then show thesis using that assms by (cases c) (auto simp: digits_def)
qed (use assms in simp)

lemma dotted_plain: "list_all digits cs \<Longrightarrow> c \<in> set '',[]()*xX~^='' \<Longrightarrow> c \<notin> set (dotted cs)"
  using dotted_chars [of cs c] by (auto simp: ascii_digit_def)

lemma req_parse_caret:
  assumes "list_all digits cs" "cs \<noteq> []"
  shows "req_parse (dotted cs) = Inr \<lparr>vq_raw = dotted cs, vq_kind = Rk_Caret (dotted_version cs)\<rparr>"
proof -
  obtain c rest where d: "dotted cs = c # rest" "ascii_digit c" using dotted_hd [OF assms] .
  have c: "c \<notin> set '',[]()*xX~^=.''" using digit_char [OF d(2)] by simp
  have "split_on (\<lambda>c. c = CHR ''.'') (dotted cs) = cs"
    using digit_char by (intro split_dotted assms(2) digits_no_sep [OF assms(1)]) auto
  moreover have "\<forall>part\<in>set cs. part \<notin> {''x'', ''X''}"
  proof
    fix part assume "part \<in> set cs"
    then have "digits part" using assms(1) by (simp add: list_all_iff)
    then show "part \<notin> {''x'', ''X''}" by (cases part) (auto simp: digits_def ascii_digit_def)
  qed
  ultimately have x: "\<not> list_ex (\<lambda>part. part \<in> {''x'', ''X''}) (split_on (\<lambda>c. c = CHR ''.'') (dotted cs))"
    by (simp add: list_ex_iff)
  have "req_kind_parse (dotted cs) raw = Inr (Rk_Caret (dotted_version cs))" for raw
    using c dotted_plain [OF assms(1)] x version_parse_dotted [OF assms]
    unfolding req_kind_parse_def d(1) by (simp add: operand_def dotted_version_def d(1))
  then show ?thesis
    using assms by (simp add: req_parse_def dotted_space trim_id dotted_not_Nil)
qed

lemma req_parse_operator:
  assumes "list_all digits cs" "cs \<noteq> []"
    and op: "(op, kind) \<in> {(CHR ''^'', Rk_Caret), (CHR ''~'', Rk_Tilde), (CHR ''='', Rk_Exact)}"
  shows "req_parse (op # dotted cs) = Inr \<lparr>vq_raw = op # dotted cs, vq_kind = kind (dotted_version cs)\<rparr>"
proof -
  have "\<not> list_ex white_space (op # dotted cs)"
    using op dotted_space [OF assms(1)] by (auto simp: white_space_def)
  moreover have "req_kind_parse (op # dotted cs) raw = Inr (kind (dotted_version cs))" for raw
    using op dotted_plain [OF assms(1)] version_parse_dotted [OF assms(1,2)]
    by (auto simp: req_kind_parse_def operand_def dotted_version_def)
  ultimately show ?thesis by (simp add: req_parse_def trim_id)
qed

lemma caret_matches:
  assumes "list_all digits cs" "cs \<noteq> []" "list_all digits ds"
  shows "req_matches \<lparr>vq_raw = raw, vq_kind = Rk_Caret (dotted_version cs)\<rparr> (dotted_version ds) \<longleftrightarrow>
    within (map dec_val cs) (caret_upper (map dec_val cs)) (map dec_val ds)"
  using assms by (simp add: req_matches_def admits_prerelease_def dotted_release version_ge_def
      dotted_version_cmp next_compatible_dotted within_def)

lemma tilde_matches:
  assumes "list_all digits cs" "cs \<noteq> []" "list_all digits ds"
  shows "req_matches \<lparr>vq_raw = raw, vq_kind = Rk_Tilde (dotted_version cs)\<rparr> (dotted_version ds) \<longleftrightarrow>
    within (map dec_val cs) (tilde_upper (map dec_val cs)) (map dec_val ds)"
proof -
  obtain upper where "next_tilde (dotted_version cs) = Some upper"
    "version_lt (dotted_version ds) upper \<longleftrightarrow> pad_cmp (map dec_val ds) (tilde_upper (map dec_val cs)) = Less"
    using next_tilde_dotted [OF assms(1,2)] assms(3) by metis
  then show ?thesis
    using assms by (simp add: req_matches_def admits_prerelease_def dotted_release version_ge_def
        dotted_version_cmp within_def)
qed

lemma wildcard_component_digits: "digits c \<Longrightarrow> wildcard_component c = Some (Some (normalize_number c))"
  by (auto simp: wildcard_component_def digits_def is_wildcard_def ascii_digit_def)

lemma wildcard_star: "wildcard_component ''*'' = Some None" "is_wildcard ''*''"
  by (simp_all add: wildcard_component_def is_wildcard_def)

lemma req_parse_wildcard:
  assumes "list_all digits cs" "cs \<noteq> []" "length cs \<le> 2"
  shows "req_parse (dotted (cs @ [''*''])) = Inr \<lparr>vq_raw = dotted (cs @ [''*'']),
    vq_kind = Rk_Wildcard (Some (normalize_number (cs ! 0)))
      (if length cs = 1 then None else Some (normalize_number (cs ! 1)))\<rparr>"
proof -
  let ?w = "dotted (cs @ [''*''])"
  have w: "?w = dotted cs @ ''.*''" using assms(2) by (induction cs rule: dotted.induct) simp_all
  have "split_on (\<lambda>c. c = CHR ''.'') ?w = cs @ [''*'']"
    using digits_no_sep [OF assms(1), of "\<lambda>c. c = CHR ''.''"] digit_char by (intro split_dotted) auto
  then have "parse_wildcard ?w raw = Inr (Rk_Wildcard (Some (normalize_number (cs ! 0)))
      (if length cs = 1 then None else Some (normalize_number (cs ! 1))))" for raw
    using assms by (cases cs rule: dotted.cases)
      (auto simp: parse_wildcard_def wildcard_component_digits wildcard_star nth_append Let_def)
  moreover have "req_kind_parse ?w raw = parse_wildcard ?w raw" for raw
  proof -
    obtain c rest where d: "dotted cs = c # rest" "ascii_digit c" using dotted_hd [OF assms(1,2)] .
    have "c \<notin> set '',[]()*xX~^=.''" using digit_char [OF d(2)] by simp
    then show ?thesis
      using dotted_plain [OF assms(1)] unfolding w req_kind_parse_def d(1) by simp
  qed
  moreover have "\<not> list_ex white_space ?w"
    using dotted_space [OF assms(1)] unfolding w by (auto simp: white_space_def)
  ultimately show ?thesis by (simp add: req_parse_def trim_id w)
qed

lemma wildcard_matches:
  assumes "list_all digits cs" "cs \<noteq> []" "length cs \<le> 2" "list_all digits ds"
  shows "req_matches \<lparr>vq_raw = raw, vq_kind = Rk_Wildcard (Some (normalize_number (cs ! 0)))
      (if length cs = 1 then None else Some (normalize_number (cs ! 1)))\<rparr> (dotted_version ds) \<longleftrightarrow>
    within (map dec_val cs) (tilde_upper (map dec_val cs)) (map dec_val ds)"
  using assms by (cases cs rule: dotted.cases)
    (auto simp: req_matches_def dotted_release within_def version_lt_numeric digits_normalize bumped dec_val_normalize)

subsection \<open>Exact requirements\<close>

text \<open>Every version in a parsed requirement was parsed itself.\<close>

definition bound_parsed :: "version_bound option \<Rightarrow> bool" where
  "bound_parsed b \<longleftrightarrow> (case b of None \<Rightarrow> True | Some bound \<Rightarrow> normal (v_items (vb_version bound)))"

definition range_parsed :: "version_range \<Rightarrow> bool" where
  "range_parsed rng \<longleftrightarrow> bound_parsed (vr_lower rng) \<and> bound_parsed (vr_upper rng)"

lemma parse_bound_parsed: "parse_bound s i raw = Inr b \<Longrightarrow> bound_parsed b"
  by (auto simp: parse_bound_def bound_parsed_def version_parse_normal split: if_splits sum.splits)

lemma parse_range_content_parsed: "parse_range_content s l u raw = Inr rng \<Longrightarrow> range_parsed rng"
  by (auto simp: parse_range_content_def range_parsed_def Let_def parse_bound_parsed
      split: if_splits sum.splits) (simp_all add: bound_parsed_def version_parse_normal)

lemma parse_range_list_parsed: "parse_range_list chars raw = Inr ranges \<Longrightarrow> list_all range_parsed ranges"
proof (induction chars raw arbitrary: ranges rule: parse_range_list.induct)
  case (1 chars raw)
  show ?case
  proof (cases "dropWhile (\<lambda>c. c = CHR '' '') chars = []")
    case True
    then show ?thesis using "1.prems" by (simp add: parse_range_list.simps [of chars] del: dropWhile_eq_Nil_conv)
  next
    case False
    then obtain bracket rest where d: "dropWhile (\<lambda>c. c = CHR '' '') chars = bracket # rest"
      unfolding neq_Nil_conv by blast
    let ?content = "takeWhile (\<lambda>c. c \<noteq> CHR '']'' \<and> c \<noteq> CHR '')'') rest"
    have ok: "\<not> (bracket \<noteq> CHR ''['' \<and> bracket \<noteq> CHR ''('')"
      using "1.prems" by (auto simp: parse_range_list.simps d split: if_splits)
    obtain closing behind where c: "dropWhile (\<lambda>c. c \<noteq> CHR '']'' \<and> c \<noteq> CHR '')'') rest = closing # behind"
      using "1.prems" ok by (auto simp: parse_range_list.simps d split: list.splits)
    obtain rng where r: "parse_range_content ?content (bracket = CHR ''['') (closing = CHR '']'') raw = Inr rng"
      and ok': "\<not> (behind \<noteq> [] \<and> hd behind \<noteq> CHR '','')"
      using "1.prems" ok by (simp add: parse_range_list.simps d c split: sum.splits if_splits)
    obtain rs where rs: "parse_range_list (tl behind) raw = Inr rs" "ranges = rng # rs"
      using "1.prems" ok ok' by (simp add: parse_range_list.simps [of chars] d c r split: sum.splits if_splits)
    show ?thesis
      using "1.IH" [OF d ok c r ok' rs(1)] parse_range_content_parsed [OF r] by (simp add: rs(2))
  qed
qed

lemma version_eq_subst:
  "normal (v_items a) \<Longrightarrow> normal (v_items b) \<Longrightarrow> version_eq a b \<Longrightarrow> version_cmp v b = version_cmp v a"
  by (simp add: version_eq_def version_cmp_def compare_normal_eq(2))

lemma exact_range:
  assumes "range_parsed \<lparr>vr_lower = Some l, vr_upper = Some u\<rparr>" "vb_inclusive l" "vb_inclusive u"
    "version_eq (vb_version l) (vb_version u)"
  shows "range_matches \<lparr>vr_lower = Some l, vr_upper = Some u\<rparr> v \<longleftrightarrow> version_eq v (vb_version l)"
  using assms version_eq_subst [of "vb_version l" "vb_version u" v]
  by (auto simp: range_parsed_def bound_parsed_def range_matches_def version_eq_def split: ordering.splits)

lemma req_ranges_parsed: "req_parse raw = Inr req \<Longrightarrow> vq_kind req = Rk_Ranges ranges \<Longrightarrow> list_all range_parsed ranges"
  by (auto simp: req_parse_def req_kind_parse_def parse_wildcard_def parse_ranges_def parse_range_list_parsed
      map_sum_def Let_def split: if_splits sum.splits option.splits)

subsection \<open>Properties\<close>

text \<open>C34: on versions that are only numbers the order is the order of the numbers. Dotted decimals
  parse, and two of them compare as the sequences of their values, position by position with the
  shorter one padded by zeros; there is no width at which a component wraps.\<close>

theorem version_numeric_order:
  assumes "list_all digits cs" "cs \<noteq> []" "list_all digits ds" "ds \<noteq> []"
  shows "\<exists>v w. version_parse (dotted cs) = Inr v \<and> version_parse (dotted ds) = Inr w \<and>
    version_cmp v w = pad_cmp (map dec_val cs) (map dec_val ds)"
  using dotted_version_cmp [OF assms(1,3)]
  by (simp add: version_parse_dotted assms dotted_version_def)

lemma version_numeric_order_witness:
  "\<exists>v w. version_parse ''1.10'' = Inr v \<and> version_parse ''01.9.0'' = Inr w \<and> version_cmp v w = Greater"
proof -
  have "list_all digits [''1'', ''10'']" "list_all digits [''01'', ''9'', ''0'']" by code_simp+
  from version_numeric_order [OF this(1) _ this(2)] show ?thesis
    by (simp add: digit_val_def nat_cmp_def)
qed

text \<open>C35: what the requirement forms admit. For a base of one to any number of decimal components,
  a plain or \<open>^\<close> requirement admits a release exactly from the base up to the next change of the
  leftmost nonzero component, \<open>~\<close> up to the next minor (or major, when only that is given), and \<open>a.*\<close>
  and \<open>a.b.*\<close> everything that keeps the given components: the intervals Cargo gives these forms. An
  \<open>=\<close> requirement admits only versions equal to the base (so \<open>=1.2\<close> does not admit \<open>1.2.1\<close>, which
  it does in Cargo). Neither \<open>^\<close> nor \<open>~\<close> of such a base ever admits a pre-release.\<close>

theorem cargo_requirements:
  assumes "list_all digits cs" "cs \<noteq> []" "list_all digits ds" "ds \<noteq> []"
  shows "\<exists>plain caret tilde exact v.
    req_parse (dotted cs) = Inr plain \<and> req_parse (CHR ''^'' # dotted cs) = Inr caret \<and>
    req_parse (CHR ''~'' # dotted cs) = Inr tilde \<and> req_parse (CHR ''='' # dotted cs) = Inr exact \<and>
    version_parse (dotted ds) = Inr v \<and>
    (req_matches plain v \<longleftrightarrow> within (map dec_val cs) (caret_upper (map dec_val cs)) (map dec_val ds)) \<and>
    (req_matches caret v \<longleftrightarrow> within (map dec_val cs) (caret_upper (map dec_val cs)) (map dec_val ds)) \<and>
    (req_matches tilde v \<longleftrightarrow> within (map dec_val cs) (tilde_upper (map dec_val cs)) (map dec_val ds)) \<and>
    (req_matches exact v \<longleftrightarrow> pad_cmp (map dec_val ds) (map dec_val cs) = Equal) \<and>
    (length cs \<le> 2 \<longrightarrow> (\<exists>wild. req_parse (dotted (cs @ [''*''])) = Inr wild \<and>
      (req_matches wild v \<longleftrightarrow> within (map dec_val cs) (tilde_upper (map dec_val cs)) (map dec_val ds)))) \<and>
    (\<forall>pre. is_prerelease pre \<longrightarrow> \<not> req_matches caret pre \<and> \<not> req_matches tilde pre)"
proof -
  have e: "req_matches \<lparr>vq_raw = raw, vq_kind = Rk_Exact (dotted_version cs)\<rparr> (dotted_version ds) \<longleftrightarrow>
      pad_cmp (map dec_val ds) (map dec_val cs) = Equal" for raw
    using assms by (simp add: req_matches_def version_eq_def dotted_version_cmp)
  have pre: "\<not> req_matches \<lparr>vq_raw = raw, vq_kind = kind (dotted_version cs)\<rparr> p"
    if "is_prerelease p" "kind \<in> {Rk_Caret, Rk_Tilde}" for raw kind p
    using that by (auto simp: req_matches_def admits_prerelease_def dotted_release)
  show ?thesis
    using caret_matches [OF assms(1-3)] tilde_matches [OF assms(1-3)] wildcard_matches [OF assms(1,2) _ assms(3)]
      req_parse_wildcard [OF assms(1,2)] e pre
    by (simp add: req_parse_caret req_parse_operator version_parse_dotted [folded dotted_version_def] assms)
qed

lemma cargo_requirements_witness:
  "\<exists>caret v. req_parse ''^0.2.3'' = Inr caret \<and> version_parse ''0.3'' = Inr v \<and> \<not> req_matches caret v"
proof -
  have "list_all digits [''0'', ''2'', ''3'']" "list_all digits [''0'', ''3'']" by code_simp+
  from cargo_requirements [OF this(1) _ this(2)]
  obtain caret v where "req_parse ''^0.2.3'' = Inr caret" "version_parse ''0.3'' = Inr v"
    "req_matches caret v \<longleftrightarrow> within [0, 2, 3] [0, 3] [0, 3]" by (auto simp: digit_val_def)
  then show ?thesis by (simp add: within_def nat_cmp_def)
qed

text \<open>\<open>bump\<close> adds one to a decimal of any length: it carries through trailing nines and grows the
  number by a digit when there is nothing but nines.\<close>

theorem bump_adds_one:
  assumes "digits s"
  shows "dec_val (bump s) = dec_val s + 1 \<and> digits (bump s) \<and> length (bump s) \<le> length s + 1"
proof -
  have "length (bump_digits ds) \<le> length ds + 1" for ds by (induction ds) simp_all
  from this [of "rev (map (\<lambda>byte. of_char byte - 48) s)"] have "length (bump s) \<le> length s + 1"
    by (simp add: bump_def)
  then show ?thesis using bump_spec [OF assms] by simp
qed

lemma bump_adds_one_witness: "dec_val (bump ''99999999999999999999'') = 10 ^ 20 \<and> bump ''199'' = ''200''"
proof -
  have "digits ''99999999999999999999''" by code_simp
  from bump_adds_one [OF this] have "dec_val (bump ''99999999999999999999'') = 10 ^ 20"
    by (simp add: digit_val_def)
  moreover have "bump ''199'' = ''200''" by code_simp
  ultimately show ?thesis by simp
qed

text \<open>a requirement with an exact base admits that version and no other. This covers \<open>=v\<close>, \<open>[v]\<close>
  and \<open>[v,w]\<close> with bounds that are equal as versions though spelled differently; it rests on equality
  of parsed versions being the identity of their items.\<close>

theorem exact_base_pins:
  assumes "req_parse raw = Inr req" "exact_base req = Some b"
  shows "req_matches req v \<longleftrightarrow> version_eq v b"
proof (cases "\<exists>rng. vq_kind req = Rk_Ranges [rng]")
  case True
  then obtain rng where k: "vq_kind req = Rk_Ranges [rng]" by blast
  then obtain l u where rng: "rng = \<lparr>vr_lower = Some l, vr_upper = Some u\<rparr>" "b = vb_version l"
    "vb_inclusive l" "vb_inclusive u" "version_eq (vb_version l) (vb_version u)"
    using assms(2) by (cases rng) (auto simp: exact_base_def split: option.splits if_splits)
  show ?thesis
    using req_ranges_parsed [OF assms(1) k] exact_range [of l u v] rng k by (simp add: req_matches_def)
next
  case False
  then show ?thesis
    using assms(2) by (auto simp: exact_base_def req_matches_def split: req_kind.splits list.splits)
qed

lemma exact_base_pins_witness:
  "\<exists>req b v. req_parse ''[1.0,1]'' = Inr req \<and> exact_base req = Some b \<and>
     version_parse ''1.0.0'' = Inr v \<and> req_matches req v"
proof -
  let ?r = "projr (req_parse ''[1.0,1]'')" and ?v = "projr (version_parse ''1.0.0'')"
  have p: "req_parse ''[1.0,1]'' = Inr ?r" "version_parse ''1.0.0'' = Inr ?v" by code_simp+
  have b: "exact_base ?r = Some (projr (version_parse ''1.0''))" by code_simp
  have "version_eq ?v (projr (version_parse ''1.0''))" by code_simp
  then have "req_matches ?r ?v" using exact_base_pins [OF p(1) b] by simp
  then show ?thesis using p b by blast
qed

end
