(* ===== verification/Package_Id.thy ===== *)
theory Package_Id
  imports Version_Order
begin

text \<open>
  Package and source identity: \<open>jals-resolve/src/id.rs\<close> and the source request of \<open>summary.rs\<close> it
  answers to. A package is a name, a version and a resolved source; sources and package edges have a
  text form that the lock stores.
\<close>

subsection \<open>Text\<close>

text \<open>The control characters of \<open>char::is_control\<close> among the code points up to \<open>U+00FF\<close>.\<close>

definition control :: "char \<Rightarrow> bool" where
  "control c \<longleftrightarrow> (let n = of_char c :: nat in n < 32 \<or> 127 \<le> n \<and> n < 160)"

fun strip_prefix :: "string \<Rightarrow> string \<Rightarrow> string option" where
  "strip_prefix [] s = Some s"
| "strip_prefix (c # p) (d # s) = (if c = d then strip_prefix p s else None)"
| "strip_prefix (c # p) [] = None"

text \<open>\<open>str::split_once\<close> at the first occurrence of a separator, \<open>rsplit_once\<close> at the last.\<close>

fun split_once :: "string \<Rightarrow> string \<Rightarrow> (string \<times> string) option" where
  "split_once sep [] = (if sep = [] then Some ([], []) else None)"
| "split_once sep (c # s) =
     (case strip_prefix sep (c # s) of
        Some rest \<Rightarrow> Some ([], rest)
      | None \<Rightarrow> map_option (\<lambda>(a, b). (c # a, b)) (split_once sep s))"

definition rsplit_once :: "string \<Rightarrow> string \<Rightarrow> (string \<times> string) option" where
  "rsplit_once sep s = map_option (\<lambda>(a, b). (rev b, rev a)) (split_once (rev sep) (rev s))"

definition strip_suffix :: "string \<Rightarrow> string \<Rightarrow> string option" where
  "strip_suffix p s = map_option rev (strip_prefix (rev p) (rev s))"

subsection \<open>Names\<close>

datatype name_error = Name_Empty | Name_Whitespace string | Name_Slash string | Name_Coordinate string

type_synonym package_name = string

definition package_name_new :: "string \<Rightarrow> name_error + package_name" where
  "package_name_new raw =
     (if raw = [] then Inl Name_Empty
      else if list_ex (\<lambda>ch. white_space ch \<or> control ch) raw then Inl (Name_Whitespace raw)
      else if CHR ''/'' \<in> set raw then Inl (Name_Slash raw)
      else case split_once '':'' raw of
        None \<Rightarrow> Inr raw
      | Some (grp, artifact) \<Rightarrow>
          if grp = [] \<or> artifact = [] then Inl (Name_Coordinate raw)
          else if CHR '':'' \<in> set artifact then Inl (Name_Coordinate raw)
          else Inr raw)"

definition maven_parts :: "package_name \<Rightarrow> (string \<times> string) option" where
  "maven_parts name = split_once '':'' name"

type_synonym registry_id = string

definition registry_id_new :: "string \<Rightarrow> name_error + registry_id" where
  "registry_id_new raw =
     (if raw = [] then Inl Name_Empty
      else if list_ex (\<lambda>ch. white_space ch \<or> control ch) raw then Inl (Name_Whitespace raw)
      else if CHR ''/'' \<in> set raw then Inl (Name_Slash raw)
      else if CHR '':'' \<in> set raw then Inl (Name_Coordinate raw)
      else Inr raw)"

definition maven_central :: registry_id where
  "maven_central = ''maven-central''"

subsection \<open>Checksums\<close>

datatype checksum_algorithm = Sha1 | Sha256 | Sha512

fun algorithm_str :: "checksum_algorithm \<Rightarrow> string" where
  "algorithm_str Sha1 = ''sha1''"
| "algorithm_str Sha256 = ''sha256''"
| "algorithm_str Sha512 = ''sha512''"

fun hex_len :: "checksum_algorithm \<Rightarrow> nat" where
  "hex_len Sha1 = 40"
| "hex_len Sha256 = 64"
| "hex_len Sha512 = 128"

record checksum =
  ck_algorithm :: checksum_algorithm
  ck_hex :: string

datatype checksum_error =
    Checksum_Format string
  | Checksum_Algorithm string
  | Checksum_Digest checksum_algorithm string

definition hex_digit :: "char \<Rightarrow> bool" where
  "hex_digit c \<longleftrightarrow> c \<in> set ''0123456789abcdefABCDEF''"

definition ascii_lowercase :: "char \<Rightarrow> char" where
  "ascii_lowercase c =
     (let n = of_char c :: nat in if 65 \<le> n \<and> n \<le> 90 then char_of (n + 32) else c)"

definition checksum_new :: "checksum_algorithm \<Rightarrow> string \<Rightarrow> checksum_error + checksum" where
  "checksum_new algorithm hex =
     (if utf8_length hex \<noteq> hex_len algorithm \<or> \<not> list_all hex_digit hex
      then Inl (Checksum_Digest algorithm hex)
      else Inr \<lparr>ck_algorithm = algorithm, ck_hex = map ascii_lowercase hex\<rparr>)"

definition checksum_parse :: "string \<Rightarrow> checksum_error + checksum" where
  "checksum_parse s =
     (case split_once '':'' s of
        None \<Rightarrow> Inl (Checksum_Format s)
      | Some (algorithm, hex) \<Rightarrow>
          if algorithm = ''sha1'' then checksum_new Sha1 hex
          else if algorithm = ''sha256'' then checksum_new Sha256 hex
          else if algorithm = ''sha512'' then checksum_new Sha512 hex
          else Inl (Checksum_Algorithm algorithm))"

definition checksum_render :: "checksum \<Rightarrow> string" where
  "checksum_render c = algorithm_str (ck_algorithm c) @ '':'' @ ck_hex c"

subsection \<open>Sources\<close>

datatype direct_kind = Jar | Wasm

fun direct_kind_str :: "direct_kind \<Rightarrow> string" where
  "direct_kind_str Jar = ''jar''"
| "direct_kind_str Wasm = ''wasm''"

definition direct_kind_parse :: "string \<Rightarrow> string + direct_kind" where
  "direct_kind_parse s =
     (if s = ''jar'' then Inr Jar else if s = ''wasm'' then Inr Wasm else Inl s)"

record git_source =
  gs_url :: string
  gs_commit :: string
  gs_dir :: "string option"

record direct_source =
  ds_kind :: direct_kind
  ds_locator :: string
  ds_digest :: "checksum option"

datatype source_id =
    Src_Registry registry_id
  | Src_Git git_source
  | Src_Path string
  | Src_Direct direct_source
  | Src_Workspace string

datatype git_reference = Ref_Default | Ref_Branch string | Ref_Tag string | Ref_Rev string

datatype source_request =
    Req_Registry registry_id
  | Req_Git string git_reference "string option"
  | Req_Path string "string option"
  | Req_Direct direct_kind string
  | Req_Workspace string

fun satisfies :: "source_id \<Rightarrow> source_request \<Rightarrow> bool" where
  "satisfies (Src_Registry resolved) (Req_Registry registry) \<longleftrightarrow> resolved = registry"
| "satisfies (Src_Git resolved) (Req_Git url _ _) \<longleftrightarrow> gs_url resolved = url"
| "satisfies (Src_Path resolved) (Req_Path location _) \<longleftrightarrow> resolved = location"
| "satisfies (Src_Direct resolved) (Req_Direct kind locator) \<longleftrightarrow>
     ds_kind resolved = kind \<and> ds_locator resolved = locator"
| "satisfies (Src_Workspace resolved) (Req_Workspace member) \<longleftrightarrow> resolved = member"
| "satisfies _ _ \<longleftrightarrow> False"

text \<open>Escaping of the separators inside a component.\<close>

definition encode_ch :: "char \<Rightarrow> string" where
  "encode_ch ch =
     (if ch = CHR ''%'' then ''%25'' else if ch = CHR ''#'' then ''%23''
      else if ch = CHR ''?'' then ''%3F'' else [ch])"

definition source_encode :: "string \<Rightarrow> string" where
  "source_encode s = concat (map encode_ch s)"

definition hex_value :: "char \<Rightarrow> nat option" where
  "hex_value c =
     (let n = of_char c :: nat
      in if 48 \<le> n \<and> n \<le> 57 then Some (n - 48)
         else if 65 \<le> n \<and> n \<le> 70 then Some (n - 55)
         else if 97 \<le> n \<and> n \<le> 102 then Some (n - 87) else None)"

text \<open>\<open>u8::from_str_radix(_, 16)\<close> on at most two characters; the standard library accepts a sign \<open>+\<close>
  before at least one digit.\<close>

definition from_hex :: "string \<Rightarrow> nat option" where
  "from_hex hex =
     (case hex of
        [a] \<Rightarrow> hex_value a
      | [a, b] \<Rightarrow>
          if a = CHR ''+'' then hex_value b
          else Option.bind (hex_value a) (\<lambda>x. map_option (\<lambda>y. 16 * x + y) (hex_value b))
      | _ \<Rightarrow> None)"

fun source_decode :: "string \<Rightarrow> string" where
  "source_decode [] = []"
| "source_decode (ch # chars) =
     (if ch \<noteq> CHR ''%'' then ch # source_decode chars
      else case from_hex (take 2 chars) of
        Some byte \<Rightarrow> char_of byte # source_decode (drop 2 chars)
      | None \<Rightarrow> CHR ''%'' # take 2 chars @ source_decode (drop 2 chars))"

fun source_render :: "source_id \<Rightarrow> string" where
  "source_render (Src_Registry registry) = ''registry+'' @ registry"
| "source_render (Src_Git git) =
     ''git+'' @ source_encode (gs_url git) @ ''#'' @ source_encode (gs_commit git) @
     (case gs_dir git of None \<Rightarrow> [] | Some dir \<Rightarrow> ''?dir='' @ source_encode dir)"
| "source_render (Src_Path path) = ''path+'' @ source_encode path"
| "source_render (Src_Direct direct) =
     direct_kind_str (ds_kind direct) @ ''+'' @ source_encode (ds_locator direct) @
     (case ds_digest direct of None \<Rightarrow> [] | Some digest \<Rightarrow> ''#'' @ checksum_render digest)"
| "source_render (Src_Workspace workspace) = ''workspace+'' @ source_encode workspace"

datatype source_error = Source_Scheme string | Source_Malformed string

definition git_parse :: "string \<Rightarrow> string \<Rightarrow> source_error + source_id" where
  "git_parse s rest =
     (case split_once ''#'' rest of
        None \<Rightarrow> Inl (Source_Malformed s)
      | Some (locator, rest) \<Rightarrow>
          let (commit, dir) =
            (case split_once ''?dir='' rest of
               Some (commit, dir) \<Rightarrow> (commit, Some (source_decode dir))
             | None \<Rightarrow> (rest, None))
          in Inr (Src_Git \<lparr>gs_url = source_decode locator, gs_commit = source_decode commit, gs_dir = dir\<rparr>))"

definition direct_parse :: "string \<Rightarrow> direct_kind \<Rightarrow> string \<Rightarrow> source_error + source_id" where
  "direct_parse s kind rest =
     (case split_once ''#'' rest of
        Some (locator, digest) \<Rightarrow>
          (case checksum_parse digest of
             Inl _ \<Rightarrow> Inl (Source_Malformed s)
           | Inr c \<Rightarrow> Inr (Src_Direct
               \<lparr>ds_kind = kind, ds_locator = source_decode locator, ds_digest = Some c\<rparr>))
      | None \<Rightarrow> Inr (Src_Direct \<lparr>ds_kind = kind, ds_locator = source_decode rest, ds_digest = None\<rparr>))"

definition source_parse :: "string \<Rightarrow> source_error + source_id" where
  "source_parse s =
     (case strip_prefix ''registry+'' s of
        Some rest \<Rightarrow>
          (case registry_id_new rest of Inl _ \<Rightarrow> Inl (Source_Malformed s) | Inr r \<Rightarrow> Inr (Src_Registry r))
      | None \<Rightarrow> case strip_prefix ''git+'' s of Some rest \<Rightarrow> git_parse s rest
      | None \<Rightarrow> case strip_prefix ''path+'' s of Some rest \<Rightarrow> Inr (Src_Path (source_decode rest))
      | None \<Rightarrow> case strip_prefix ''workspace+'' s of Some rest \<Rightarrow> Inr (Src_Workspace (source_decode rest))
      | None \<Rightarrow> case strip_prefix ''jar+'' s of Some rest \<Rightarrow> direct_parse s Jar rest
      | None \<Rightarrow> case strip_prefix ''wasm+'' s of Some rest \<Rightarrow> direct_parse s Wasm rest
      | None \<Rightarrow> Inl (Source_Scheme s))"

subsection \<open>Packages\<close>

record package_id =
  pi_name :: package_name
  pi_version :: version
  pi_source :: source_id

definition render_edge :: "package_id \<Rightarrow> string" where
  "render_edge p = pi_name p @ '' '' @ v_raw (pi_version p) @ '' ('' @ source_render (pi_source p) @ '')''"

definition parse_edge :: "string \<Rightarrow> string + package_id" where
  "parse_edge s =
     (case split_once '' '' s of None \<Rightarrow> Inl s | Some (name, rest) \<Rightarrow>
      case rsplit_once '' ('' (trim rest) of None \<Rightarrow> Inl s | Some (version, source) \<Rightarrow>
      case strip_suffix '')'' source of None \<Rightarrow> Inl s | Some source \<Rightarrow>
      case package_name_new name of Inl _ \<Rightarrow> Inl s | Inr n \<Rightarrow>
      case version_parse version of Inl _ \<Rightarrow> Inl s | Inr v \<Rightarrow>
      case source_parse source of Inl _ \<Rightarrow> Inl s | Inr src \<Rightarrow>
        Inr \<lparr>pi_name = n, pi_version = v, pi_source = src\<rparr>)"

end
