(* ===== verification/Package_Id_Round_Trip.thy ===== *)
theory Package_Id_Round_Trip
  imports Package_Id "HOL-Library.Sublist"
begin

text \<open>
  The text forms of \<open>id.rs\<close> read back: checksums and sources always, package edges exactly when the
  source does not hold the separator the edge is split at.
\<close>

subsection \<open>Splitting text\<close>

lemma strip_prefix_iff: "strip_prefix p s = Some r \<longleftrightarrow> s = p @ r"
  by (induction p s rule: strip_prefix.induct) auto

lemma strip_prefix_append [simp]: "strip_prefix p (p @ s) = Some s"
  by (simp add: strip_prefix_iff)

lemma strip_suffix_append [simp]: "strip_suffix p (s @ p) = Some s"
  by (simp add: strip_suffix_def)

lemma split_once_at:
  "c \<notin> set a \<Longrightarrow> split_once (c # p) (a @ c # p @ b) = Some (a, b)"
  by (induction a) auto

lemma split_once_none: "c \<notin> set a \<Longrightarrow> split_once (c # p) a = None"
  by (induction a) auto

lemma split_once_char: "c \<notin> set a \<Longrightarrow> split_once [c] (a @ c # b) = Some (a, b)"
  using split_once_at [of c a "[]" b] by simp

text \<open>At the first occurrence of \<open>c d\<close>, two different characters.\<close>

lemma strip_two: "strip_prefix [c, d] s = (case s of x # y # r \<Rightarrow> if x = c \<and> y = d then Some r else None | _ \<Rightarrow> None)"
  by (auto split: list.split)

lemma sublist_two: "sublist [c, d] (x # s) \<longleftrightarrow> (x = c \<and> (\<exists>r. s = d # r)) \<or> sublist [c, d] s"
  by (auto simp: sublist_Cons_right prefix_def)

lemma split_once_first:
  assumes "c \<noteq> d" "\<not> sublist [c, d] a"
  shows "split_once [c, d] (a @ [c, d] @ b) = Some (a, b)"
  using assms(2)
proof (induction a)
  case (Cons x a)
  then have "strip_prefix [c, d] (x # a @ [c, d] @ b) = None"
    using assms(1) by (cases a) (auto simp: strip_two sublist_two)
  then show ?case using Cons by (simp add: sublist_two del: strip_prefix.simps)
qed simp

lemma split_once_within:
  "c \<noteq> d \<Longrightarrow> sublist [c, d] x \<Longrightarrow> \<exists>a b. split_once [c, d] (x @ y) = Some (a, b @ y)"
proof (induction x)
  case (Cons e x)
  show ?case
  proof (cases "e = c \<and> (\<exists>r. x = d # r)")
    case False
    then have "sublist [c, d] x" using Cons.prems(2) sublist_two [of c d e x] by blast
    moreover from this False have "strip_prefix [c, d] (e # x @ y) = None"
      by (cases x) (auto simp: strip_two)
    ultimately show ?thesis using Cons by (auto simp del: strip_prefix.simps)
  qed auto
qed simp

subsection \<open>Checksums\<close>

definition wf_checksum :: "checksum \<Rightarrow> bool" where
  "wf_checksum c \<longleftrightarrow> length (ck_hex c) = hex_len (ck_algorithm c) \<and>
     list_all (\<lambda>h. h \<in> set ''0123456789abcdef'') (ck_hex c)"

lemma hex_utf8: "list_all hex_digit s \<Longrightarrow> utf8_length s = length s"
  by (induction s) (auto simp: utf8_length_def hex_digit_def)

lemma hex_lower: "list_all (\<lambda>h. h \<in> set ''0123456789abcdef'') s \<Longrightarrow> list_all hex_digit s \<and> map ascii_lowercase s = s"
  by (induction s) (auto simp: hex_digit_def ascii_lowercase_def)

lemma lower_hex: "hex_digit c \<Longrightarrow> ascii_lowercase c \<in> set ''0123456789abcdef''"
proof -
  have "list_all (\<lambda>c. ascii_lowercase c \<in> set ''0123456789abcdef'') ''0123456789abcdefABCDEF''" by code_simp
  then show "hex_digit c \<Longrightarrow> ascii_lowercase c \<in> set ''0123456789abcdef''"
    unfolding list_all_iff hex_digit_def by blast
qed

lemma checksum_new_wf: "checksum_new a s = Inr c \<Longrightarrow> wf_checksum c"
  using lower_hex by (auto simp: checksum_new_def wf_checksum_def hex_utf8 list_all_iff simp del: set_simps split: if_splits)

lemma checksum_new_same: "wf_checksum c \<Longrightarrow> checksum_new (ck_algorithm c) (ck_hex c) = Inr c"
  using hex_lower [of "ck_hex c"] by (simp add: checksum_new_def wf_checksum_def hex_utf8)

lemma algorithm_no_colon: "CHR '':'' \<notin> set (algorithm_str a)"
  by (cases a) simp_all

lemma checksum_round_trip: "wf_checksum c \<Longrightarrow> checksum_parse (checksum_render c) = Inr c"
  using checksum_new_same [of c]
  by (simp add: checksum_parse_def checksum_render_def split_once_char algorithm_no_colon)
    (cases "ck_algorithm c"; simp)

lemma checksum_parse_wf: "checksum_parse s = Inr c \<Longrightarrow> wf_checksum c"
  by (auto simp: checksum_parse_def checksum_new_wf split: option.splits if_splits)

subsection \<open>Sources\<close>

definition wf_source :: "source_id \<Rightarrow> bool" where
  "wf_source s \<longleftrightarrow>
     (case s of
        Src_Registry r \<Rightarrow> registry_id_new r = Inr r
      | Src_Direct d \<Rightarrow> (case ds_digest d of None \<Rightarrow> True | Some c \<Rightarrow> wf_checksum c)
      | _ \<Rightarrow> True)"

lemma encode_no_separator: "CHR ''#'' \<notin> set (source_encode s)" "CHR ''?'' \<notin> set (source_encode s)"
  by (auto simp: source_encode_def encode_ch_def split: if_splits)

lemma source_decode_encode [simp]: "source_decode (source_encode s) = s"
proof (induction s)
  case (Cons c s)
  have "hex_value (CHR ''2'') = Some 2" "hex_value (CHR ''5'') = Some 5" "hex_value (CHR ''3'') = Some 3"
    "hex_value (CHR ''F'') = Some 15" by (simp_all add: hex_value_def Let_def)
  moreover have "char_of (37 :: nat) = CHR ''%''" "char_of (35 :: nat) = CHR ''#''" "char_of (63 :: nat) = CHR ''?''"
    by code_simp+
  ultimately show ?case using Cons by (auto simp: source_encode_def encode_ch_def from_hex_def)
qed (simp add: source_encode_def)

lemma split_once_none_char: "c \<notin> set a \<Longrightarrow> split_once [c] a = None"
  using split_once_none [of c a "[]"] by simp

lemma git_round_trip: "git_parse s
   (source_encode (gs_url g) @ ''#'' @ source_encode (gs_commit g) @
     (case gs_dir g of None \<Rightarrow> [] | Some dir \<Rightarrow> ''?dir='' @ source_encode dir)) = Inr (Src_Git g)"
  using split_once_at [of "CHR ''?''" "source_encode (gs_commit g)" "''dir=''"]
    split_once_none [of "CHR ''?''" "source_encode (gs_commit g)" "''dir=''"]
  by (auto simp: git_parse_def split_once_char encode_no_separator split: option.split)

lemma direct_round_trip:
  assumes "wf_source (Src_Direct d)"
  shows "direct_parse s (ds_kind d)
   (source_encode (ds_locator d) @ (case ds_digest d of None \<Rightarrow> [] | Some c \<Rightarrow> ''#'' @ checksum_render c)) =
     Inr (Src_Direct d)"
  using assms by (auto simp: wf_source_def direct_parse_def split_once_char split_once_none_char
      encode_no_separator checksum_round_trip split: option.split)

lemma source_round_trip: "wf_source s \<Longrightarrow> source_parse (source_render s) = Inr s"
proof (cases s)
  case (Src_Registry r)
  assume "wf_source s"
  then show ?thesis by (simp add: Src_Registry wf_source_def source_parse_def)
next
  case (Src_Git g)
  then show ?thesis using git_round_trip [of _ g] by (simp add: source_parse_def)
next
  case (Src_Direct d)
  assume "wf_source s"
  then show ?thesis using direct_round_trip [of d]
    by (cases "ds_kind d") (simp_all add: Src_Direct source_parse_def)
qed (simp_all add: source_parse_def)

lemma source_parse_wf: "source_parse t = Inr s \<Longrightarrow> wf_source s"
proof -
  have "wf_source s" if "git_parse t r = Inr s" for r
    using that by (auto simp: git_parse_def wf_source_def Let_def split: option.splits prod.splits)
  moreover have "wf_source s" if "direct_parse t k r = Inr s" for k r
    using that by (auto simp: direct_parse_def wf_source_def checksum_parse_wf split: option.splits sum.splits)
  moreover have "wf_source (Src_Registry x)" if "registry_id_new r = Inr x" for r x
    using that by (auto simp: registry_id_new_def wf_source_def split: if_splits)
  ultimately show "source_parse t = Inr s \<Longrightarrow> wf_source s"
    by (auto simp: source_parse_def split: option.splits sum.splits) (auto simp: wf_source_def)
qed

subsection \<open>Package edges\<close>

text \<open>What the smart constructors guarantee of a package: its name and its version were validated.\<close>

definition wf_package :: "package_id \<Rightarrow> bool" where
  "wf_package p \<longleftrightarrow> package_name_new (pi_name p) = Inr (pi_name p) \<and>
     version_parse (v_raw (pi_version p)) = Inr (pi_version p) \<and> wf_source (pi_source p)"

lemma version_raw:
  "version_parse r = Inr v \<Longrightarrow> v_raw v = r \<and> r \<noteq> [] \<and> \<not> list_ex white_space r"
  by (auto simp: version_parse_def trim_def split: if_splits)

lemma name_no_space: "package_name_new n = Inr m \<Longrightarrow> CHR '' '' \<notin> set n"
proof
  have "white_space (CHR '' '')" by (simp add: white_space_def)
  then show "package_name_new n = Inr m \<Longrightarrow> CHR '' '' \<in> set n \<Longrightarrow> False"
    by (auto simp: package_name_new_def list_ex_iff split: if_splits)
qed

lemma trim_between: "\<not> white_space c \<Longrightarrow> \<not> white_space d \<Longrightarrow> trim (c # s @ [d]) = c # s @ [d]"
  by (simp add: trim_def)

lemma rsplit_edge:
  "\<not> sublist '' ('' src \<Longrightarrow> rsplit_once '' ('' (v @ '' ('' @ src @ '')'') = Some (v, src @ '')'')"
  "sublist '' ('' src \<Longrightarrow> \<exists>a b. rsplit_once '' ('' (v @ '' ('' @ src @ '')'') = Some (v @ '' ('' @ a, b)"
proof -
  have rev: "sublist ''( '' (rev src) \<longleftrightarrow> sublist '' ('' src"
    using sublist_rev_right [of "''( ''" src] by simp
  have s: "sublist ''( '' (CHR '')'' # rev src) \<longleftrightarrow> sublist '' ('' src"
    by (simp add: sublist_two rev)
  have r: "rsplit_once '' ('' (v @ '' ('' @ src @ '')'') =
      map_option (\<lambda>(a, b). (rev b, rev a)) (split_once ''( '' ((CHR '')'' # rev src) @ ''( '' @ rev v))"
    by (simp add: rsplit_once_def)
  show "rsplit_once '' ('' (v @ '' ('' @ src @ '')'') = Some (v, src @ '')'')" if "\<not> sublist '' ('' src"
    unfolding r using split_once_first [of "CHR ''(''" "CHR '' ''" "CHR '')'' # rev src" "rev v"] that s by simp
  assume "sublist '' ('' src"
  then obtain a b where ab: "split_once ''( '' ((CHR '')'' # rev src) @ (''( '' @ rev v)) = Some (a, b @ (''( '' @ rev v))"
    using split_once_within [of "CHR ''(''" "CHR '' ''" "CHR '')'' # rev src" "''( '' @ rev v"] s by auto
  have "rsplit_once '' ('' (v @ '' ('' @ src @ '')'') = Some (v @ '' ('' @ rev b, rev a)"
    by (simp only: r ab) simp
  then show "\<exists>a b. rsplit_once '' ('' (v @ '' ('' @ src @ '')'') = Some (v @ '' ('' @ a, b)" by blast
qed

lemma parse_edge_render:
  assumes "wf_package p"
  shows "parse_edge (render_edge p) =
    (if sublist '' ('' (source_render (pi_source p)) then Inl (render_edge p) else Inr p)"
proof -
  let ?v = "v_raw (pi_version p)" and ?src = "source_render (pi_source p)"
  have n: "package_name_new (pi_name p) = Inr (pi_name p)" "CHR '' '' \<notin> set (pi_name p)"
    and v: "version_parse ?v = Inr (pi_version p)" "?v \<noteq> []" "\<not> list_ex white_space ?v"
    and src: "source_parse ?src = Inr (pi_source p)"
    using assms name_no_space version_raw source_round_trip by (auto simp: wf_package_def)
  have "trim (?v @ '' ('' @ ?src @ '')'') = ?v @ '' ('' @ ?src @ '')''"
    using v(2,3) trim_between [of "hd ?v" "CHR '')''" "tl ?v @ '' ('' @ ?src"]
    by (cases ?v) (auto simp: white_space_def)
  moreover have "split_once '' '' (render_edge p) = Some (pi_name p, ?v @ '' ('' @ ?src @ '')'')"
    using n(2) by (simp add: render_edge_def split_once_char)
  ultimately have e: "parse_edge (render_edge p) =
     (case rsplit_once '' ('' (?v @ '' ('' @ ?src @ '')'') of None \<Rightarrow> Inl (render_edge p) | Some (version, source) \<Rightarrow>
      case strip_suffix '')'' source of None \<Rightarrow> Inl (render_edge p) | Some source \<Rightarrow>
      case package_name_new (pi_name p) of Inl _ \<Rightarrow> Inl (render_edge p) | Inr n \<Rightarrow>
      case version_parse version of Inl _ \<Rightarrow> Inl (render_edge p) | Inr v \<Rightarrow>
      case source_parse source of Inl _ \<Rightarrow> Inl (render_edge p) | Inr src \<Rightarrow>
        Inr \<lparr>pi_name = n, pi_version = v, pi_source = src\<rparr>)"
    by (simp add: parse_edge_def)
  show ?thesis
  proof (cases "sublist '' ('' ?src")
    case True
    then obtain a b where r: "rsplit_once '' ('' (?v @ '' ('' @ ?src @ '')'') = Some (?v @ '' ('' @ a, b)"
      using rsplit_edge(2) by blast
    have "white_space (CHR '' '')" by (simp add: white_space_def)
    then have "version_parse (?v @ '' ('' @ a) \<noteq> Inr w" for w
      using version_raw [of "?v @ '' ('' @ a" w] by auto
    then have "parse_edge (render_edge p) = Inl (render_edge p)"
      unfolding e r using n(1) by (cases "version_parse (?v @ '' ('' @ a)") (auto split: option.split)
    then show ?thesis using True by simp
  next
    case False
    then show ?thesis unfolding e rsplit_edge(1) [OF False] using n(1) v(1) src by simp
  qed
qed

subsection \<open>Properties\<close>

text \<open>C36: a source reads back from the string the lock stores. Every source with a valid registry name
  and checksum renders to a string that parses to it, with the separators inside its components
  escaped; and whatever parses is such a source, so rendering and parsing again changes nothing.\<close>

theorem source_parse_render:
  "(wf_source s \<longrightarrow> source_parse (source_render s) = Inr s) \<and>
   (source_parse t = Inr s \<longrightarrow> wf_source s \<and> source_parse (source_render s) = Inr s)"
  using source_round_trip source_parse_wf by blast

definition sample_git :: source_id where
  "sample_git = Src_Git \<lparr>gs_url = ''https://e.test/a#b?c%25'', gs_commit = ''abc'', gs_dir = Some ''x#y''\<rparr>"

lemma source_parse_render_witness:
  "source_parse ''git+https://e.test/a%23b%3Fc%2525#abc?dir=x%23y'' = Inr sample_git"
proof -
  have "source_render sample_git = ''git+https://e.test/a%23b%3Fc%2525#abc?dir=x%23y''" by code_simp
  then show ?thesis using source_parse_render [of sample_git] by (simp add: wf_source_def sample_git_def)
qed

text \<open>C37: a package edge of the lock reads back exactly when its source string does not contain the
  separator \<open> (\<close>. The edge is split at the last one, so a path such as \<open>/home/a (b)\<close> makes an edge that
  the crate writes and then refuses to read.\<close>

theorem edge_round_trip:
  "wf_package p \<Longrightarrow>
     (parse_edge (render_edge p) = Inr p \<longleftrightarrow> \<not> sublist '' ('' (source_render (pi_source p)))"
  by (simp add: parse_edge_render)

definition sample_package :: "source_id \<Rightarrow> package_id" where
  "sample_package src = \<lparr>pi_name = ''org:a'', pi_version = \<lparr>v_raw = ''2.0'', v_items = [V_Number ''2'']\<rparr>, pi_source = src\<rparr>"

lemma sample_package_wf: "wf_source src \<Longrightarrow> wf_package (sample_package src)"
proof -
  have "package_name_new ''org:a'' = Inr ''org:a''"
    "version_parse ''2.0'' = Inr \<lparr>v_raw = ''2.0'', v_items = [V_Number ''2'']\<rparr>" by code_simp+
  then show "wf_source src \<Longrightarrow> wf_package (sample_package src)" by (simp add: wf_package_def sample_package_def)
qed

lemma edge_round_trip_witness:
  "parse_edge ''org:a 2.0 (path+/home/b)'' = Inr (sample_package (Src_Path ''/home/b''))"
proof -
  have r: "source_render (Src_Path ''/home/b'') = ''path+/home/b''" by code_simp
  have "\<not> sublist '' ('' (source_render (Src_Path ''/home/b''))" unfolding r by (simp add: sublist_two)
  then have "parse_edge (render_edge (sample_package (Src_Path ''/home/b''))) = Inr (sample_package (Src_Path ''/home/b''))"
    using edge_round_trip [OF sample_package_wf] by (simp add: wf_source_def sample_package_def)
  then show ?thesis using r by (simp add: render_edge_def sample_package_def)
qed

lemma edge_with_parenthesis_lost:
  "parse_edge (render_edge (sample_package (Src_Path ''/home/a (b)''))) = Inl ''org:a 2.0 (path+/home/a (b))''"
  by code_simp

text \<open>A locked git source satisfies a request whatever branch, tag, commit or directory it names.\<close>

lemma satisfies_ignores_reference:
  "satisfies (Src_Git \<lparr>gs_url = url, gs_commit = ''aaaa'', gs_dir = None\<rparr>) (Req_Git url (Ref_Rev ''bbbb'') (Some dir))"
  by simp

end
