(* ===== verification/Ordered.thy ===== *)
theory Ordered
  imports Version_Order
begin

text \<open>
  The ordered containers of the standard library that \<open>jals-resolve\<close> keeps its state in: a
  \<open>BTreeMap\<close> keyed by strings is the list of its entries in key order, a \<open>BTreeSet\<close> the list of its
  elements; \<open>sort_by\<close> is stable. Iteration order, which decides what is reported first, is the order
  of the list.
\<close>

subsection \<open>Errors\<close>

definition res_bind :: "'e + 'a \<Rightarrow> ('a \<Rightarrow> 'e + 'b) \<Rightarrow> 'e + 'b" where
  "res_bind m f = (case m of Inl e \<Rightarrow> Inl e | Inr x \<Rightarrow> f x)"

lemma res_bind_simps [simp]: "res_bind (Inl e) f = Inl e" "res_bind (Inr x) f = f x"
  by (simp_all add: res_bind_def)

lemma res_bind_Inr: "res_bind m f = Inr y \<longleftrightarrow> (\<exists>x. m = Inr x \<and> f x = Inr y)"
  by (cases m) simp_all

text \<open>A \<open>for\<close> loop whose body may return an error.\<close>

fun try_fold :: "('a \<Rightarrow> 's \<Rightarrow> 'e + 's) \<Rightarrow> 'a list \<Rightarrow> 's \<Rightarrow> 'e + 's" where
  "try_fold f [] s = Inr s"
| "try_fold f (x # xs) s = res_bind (f x s) (try_fold f xs)"

lemma try_fold_invariant:
  "try_fold f xs s = Inr s' \<Longrightarrow> I s \<Longrightarrow>
     (\<And>x t t'. x \<in> set xs \<Longrightarrow> I t \<Longrightarrow> f x t = Inr t' \<Longrightarrow> I t') \<Longrightarrow> I s'"
  by (induction xs arbitrary: s) (auto simp: res_bind_Inr)

lemma try_fold_append: "try_fold f (xs @ ys) s = res_bind (try_fold f xs s) (try_fold f ys)"
  by (induction xs arbitrary: s) (auto simp: res_bind_def split: sum.split)

subsection \<open>Sets and maps\<close>

text \<open>Insertion keeps the element that is there already.\<close>

fun bs_insert :: "('a \<Rightarrow> 'a \<Rightarrow> ordering) \<Rightarrow> 'a \<Rightarrow> 'a list \<Rightarrow> 'a list" where
  "bs_insert cmp x [] = [x]"
| "bs_insert cmp x (y # ys) =
     (case cmp x y of Less \<Rightarrow> x # y # ys | Equal \<Rightarrow> y # ys | Greater \<Rightarrow> y # bs_insert cmp x ys)"

abbreviation os_insert :: "string \<Rightarrow> string list \<Rightarrow> string list" where
  "os_insert \<equiv> bs_insert str_cmp"

definition os_extend :: "string list \<Rightarrow> string list \<Rightarrow> string list" where
  "os_extend xs ys = fold os_insert ys xs"

definition os_remove :: "string \<Rightarrow> string list \<Rightarrow> string list" where
  "os_remove x xs = filter (\<lambda>y. y \<noteq> x) xs"

type_synonym 'v omap = "(string \<times> 'v) list"

fun om_insert :: "string \<Rightarrow> 'v \<Rightarrow> 'v omap \<Rightarrow> 'v omap" where
  "om_insert k v [] = [(k, v)]"
| "om_insert k v ((l, w) # m) =
     (case str_cmp k l of
        Less \<Rightarrow> (k, v) # (l, w) # m
      | Equal \<Rightarrow> (l, v) # m
      | Greater \<Rightarrow> (l, w) # om_insert k v m)"

text \<open>\<open>entry(k).or_default()\<close> and an update of what is there.\<close>

definition om_update :: "string \<Rightarrow> 'v \<Rightarrow> ('v \<Rightarrow> 'v) \<Rightarrow> 'v omap \<Rightarrow> 'v omap" where
  "om_update k new f m = om_insert k (f (case map_of m k of None \<Rightarrow> new | Some v \<Rightarrow> v)) m"

lemma map_of_om_insert [simp]: "map_of (om_insert k v m) = (map_of m)(k \<mapsto> v)"
proof (induction m)
  case (Cons p m)
  then show ?case
    using str_cmp.equal_iff [of k "fst p"]
    by (cases p; cases "str_cmp k (fst p)") (auto simp: fun_upd_def)
qed simp

lemma map_of_om_update [simp]:
  "map_of (om_update k new f m) = (map_of m)(k \<mapsto> f (case map_of m k of None \<Rightarrow> new | Some v \<Rightarrow> v))"
  by (simp add: om_update_def)

lemma set_os_insert [simp]: "set (os_insert x xs) = insert x (set xs)"
proof (induction xs)
  case (Cons y xs)
  then show ?case using str_cmp.equal_iff [of x y] by (cases "str_cmp x y") auto
qed simp

lemma set_os_extend [simp]: "set (os_extend xs ys) = set xs \<union> set ys"
proof -
  have "set (fold os_insert ys xs) = set xs \<union> set ys" by (induction ys arbitrary: xs) auto
  then show ?thesis by (simp add: os_extend_def)
qed

lemma set_os_remove [simp]: "set (os_remove x xs) = set xs - {x}"
  by (auto simp: os_remove_def)

subsection \<open>Order\<close>

lemma nat_cmp_trans: "nat_cmp a b = Less \<Longrightarrow> nat_cmp b c = Less \<Longrightarrow> nat_cmp a c = Less"
  by (auto simp: nat_cmp_def split: if_splits)

lemma ord_then_Less: "ord_then a b = Less \<longleftrightarrow> a = Less \<or> a = Equal \<and> b = Less"
  by (cases a) auto

lemma str_cmp_trans: "str_cmp a b = Less \<Longrightarrow> str_cmp b c = Less \<Longrightarrow> str_cmp a c = Less"
proof (induction a b arbitrary: c rule: str_cmp.induct)
  case (4 a as b bs)
  from "4.prems" obtain d ds where c: "c = d # ds" by (cases c) auto
  have "nat_cmp (of_char a) (of_char b) = Less \<or>
      (of_char a :: nat) = of_char b \<and> str_cmp as bs = Less"
    using "4.prems"(1) by (auto simp: ord_then_Less nat_cmp.equal_iff)
  moreover have "nat_cmp (of_char b) (of_char d) = Less \<or>
      (of_char b :: nat) = of_char d \<and> str_cmp bs ds = Less"
    using "4.prems"(2) by (auto simp: c ord_then_Less nat_cmp.equal_iff)
  ultimately show ?case
    using "4.IH" [of ds] nat_cmp_trans by (auto simp: c ord_then_Less nat_cmp.equal_iff)
next
  case (2 b bs)
  then show ?case by (cases c) auto
qed simp_all

definition in_order :: "string list \<Rightarrow> bool" where
  "in_order ks \<longleftrightarrow> sorted_wrt (\<lambda>a b. str_cmp a b = Less) ks"

lemma in_order_distinct: "in_order ks \<Longrightarrow> distinct ks"
  unfolding in_order_def by (induction ks) auto

lemma fst_om_insert: "set (map fst (om_insert k v m)) = insert k (set (map fst m))"
  by (metis dom_map_of_conv_image_fst dom_fun_upd option.distinct(1) map_of_om_insert list.set_map)

lemma in_order_om_insert: "in_order (map fst m) \<Longrightarrow> in_order (map fst (om_insert k v m))"
proof (induction m)
  case (Cons p m)
  obtain l w where p: "p = (l, w)" by (cases p)
  show ?case
  proof (cases "str_cmp k l")
    case Less
    then show ?thesis using Cons.prems str_cmp_trans [OF Less] by (auto simp: in_order_def p)
  next
    case Equal
    then show ?thesis using Cons.prems by (simp add: in_order_def p)
  next
    case Greater
    then have "str_cmp l k = Less" by (simp add: str_cmp.greater_iff)
    then show ?thesis
      using Cons fst_om_insert [of k v m] Greater by (auto simp: in_order_def p)
  qed
qed (simp add: in_order_def)

lemma in_order_os_insert: "in_order xs \<Longrightarrow> in_order (os_insert x xs)"
proof (induction xs)
  case (Cons y xs)
  show ?case
  proof (cases "str_cmp x y")
    case Less
    then show ?thesis using Cons.prems str_cmp_trans [OF Less] by (auto simp: in_order_def)
  next
    case Greater
    then have "str_cmp y x = Less" by (simp add: str_cmp.greater_iff)
    then show ?thesis using Cons Greater by (auto simp: in_order_def)
  qed (use Cons.prems in simp)
qed (simp add: in_order_def)

lemma in_order_unique: "in_order xs \<Longrightarrow> in_order ys \<Longrightarrow> set xs = set ys \<Longrightarrow> xs = ys"
proof (induction xs arbitrary: ys)
  case (Cons x xs)
  then obtain y ys' where ys: "ys = y # ys'" by (cases ys) auto
  have "x = y"
  proof (rule ccontr)
    assume "x \<noteq> y"
    then have "x \<in> set ys'" "y \<in> set xs" using Cons.prems(3) ys by auto
    then have "str_cmp y x = Less" "str_cmp x y = Less"
      using Cons.prems(1,2) by (auto simp: in_order_def ys)
    then show False using str_cmp.irreflexive by blast
  qed
  moreover have "x \<notin> set xs" "y \<notin> set ys'"
    using in_order_distinct [OF Cons.prems(1)] in_order_distinct [OF Cons.prems(2)] by (auto simp: ys)
  then have "set xs = set ys'" using Cons.prems(3) \<open>x = y\<close> by (auto simp: ys)
  then have "xs = ys'" using Cons.IH Cons.prems(1,2) by (simp add: in_order_def ys)
  ultimately show ?case by (simp add: ys)
qed simp

subsection \<open>Stable sorting\<close>

fun insert_by :: "('a \<Rightarrow> 'a \<Rightarrow> ordering) \<Rightarrow> 'a \<Rightarrow> 'a list \<Rightarrow> 'a list" where
  "insert_by cmp x [] = [x]"
| "insert_by cmp x (y # ys) = (if cmp x y = Greater then y # insert_by cmp x ys else x # y # ys)"

definition sort_by :: "('a \<Rightarrow> 'a \<Rightarrow> ordering) \<Rightarrow> 'a list \<Rightarrow> 'a list" where
  "sort_by cmp xs = foldr (insert_by cmp) xs []"

lemma set_insert_by: "set (insert_by cmp x xs) = insert x (set xs)"
  by (induction xs) auto

lemma set_sort_by [simp]: "set (sort_by cmp xs) = set xs"
  unfolding sort_by_def by (induction xs) (simp_all add: set_insert_by)

end
