(* ===== verification/Lock.thy ===== *)
theory Lock
  imports Package_Id_Round_Trip Ordered "HOL-Library.Word"
begin

text \<open>
  The lockfile (\<open>jals-resolve/src/lock.rs\<close>) and the derived order of package identities (\<open>id.rs\<close>).
  Parsing rests on the \<open>toml\<close> crate, which is a parameter of \<open>lock_parse\<close>; what is modelled is the
  validation of what it returns and the hand-written renderer.
\<close>

subsection \<open>The derived order\<close>

fun option_cmp :: "('a \<Rightarrow> 'a \<Rightarrow> ordering) \<Rightarrow> 'a option \<Rightarrow> 'a option \<Rightarrow> ordering" where
  "option_cmp cmp None None = Equal"
| "option_cmp cmp None (Some _) = Less"
| "option_cmp cmp (Some _) None = Greater"
| "option_cmp cmp (Some a) (Some b) = cmp a b"

fun algorithm_index :: "checksum_algorithm \<Rightarrow> nat" where
  "algorithm_index Sha1 = 0" | "algorithm_index Sha256 = 1" | "algorithm_index Sha512 = 2"

definition checksum_cmp :: "checksum \<Rightarrow> checksum \<Rightarrow> ordering" where
  "checksum_cmp a b = ord_then (nat_cmp (algorithm_index (ck_algorithm a)) (algorithm_index (ck_algorithm b)))
     (str_cmp (ck_hex a) (ck_hex b))"

fun kind_index :: "direct_kind \<Rightarrow> nat" where
  "kind_index Jar = 0" | "kind_index Wasm = 1"

definition git_cmp :: "git_source \<Rightarrow> git_source \<Rightarrow> ordering" where
  "git_cmp a b = ord_then (str_cmp (gs_url a) (gs_url b))
     (ord_then (str_cmp (gs_commit a) (gs_commit b)) (option_cmp str_cmp (gs_dir a) (gs_dir b)))"

definition direct_cmp :: "direct_source \<Rightarrow> direct_source \<Rightarrow> ordering" where
  "direct_cmp a b = ord_then (nat_cmp (kind_index (ds_kind a)) (kind_index (ds_kind b)))
     (ord_then (str_cmp (ds_locator a) (ds_locator b)) (option_cmp checksum_cmp (ds_digest a) (ds_digest b)))"

fun source_index :: "source_id \<Rightarrow> nat" where
  "source_index (Src_Registry _) = 0"
| "source_index (Src_Git _) = 1"
| "source_index (Src_Path _) = 2"
| "source_index (Src_Direct _) = 3"
| "source_index (Src_Workspace _) = 4"

fun source_cmp :: "source_id \<Rightarrow> source_id \<Rightarrow> ordering" where
  "source_cmp (Src_Registry a) (Src_Registry b) = str_cmp a b"
| "source_cmp (Src_Git a) (Src_Git b) = git_cmp a b"
| "source_cmp (Src_Path a) (Src_Path b) = str_cmp a b"
| "source_cmp (Src_Direct a) (Src_Direct b) = direct_cmp a b"
| "source_cmp (Src_Workspace a) (Src_Workspace b) = str_cmp a b"
| "source_cmp a b = nat_cmp (source_index a) (source_index b)"

definition package_cmp :: "package_id \<Rightarrow> package_id \<Rightarrow> ordering" where
  "package_cmp a b = ord_then (str_cmp (pi_name a) (pi_name b))
     (ord_then (version_cmp (pi_version a) (pi_version b)) (source_cmp (pi_source a) (pi_source b)))"

definition package_eq :: "package_id \<Rightarrow> package_id \<Rightarrow> bool" where
  "package_eq a b \<longleftrightarrow> pi_name a = pi_name b \<and> version_eq (pi_version a) (pi_version b) \<and> pi_source a = pi_source b"

subsection \<open>The lock\<close>

record locked_package =
  lp_id :: package_id
  lp_checksum :: "checksum option"
  lp_dependencies :: "package_id list"

record lockfile =
  lf_version :: "32 word"
  lf_packages :: "locked_package list"

definition lock_version :: "32 word" where
  "lock_version = 1"

definition lockfile_new :: lockfile where
  "lockfile_new = \<lparr>lf_version = lock_version, lf_packages = []\<rparr>"

definition locked_find :: "locked_package list \<Rightarrow> package_name \<Rightarrow> locked_package option" where
  "locked_find packages name = List.find (\<lambda>package. pi_name (lp_id package) = name) packages"

definition lock_find :: "lockfile \<Rightarrow> package_name \<Rightarrow> locked_package option" where
  "lock_find lock name = locked_find (lf_packages lock) name"

subsection \<open>Parsing\<close>

record raw_package =
  rp_name :: string
  rp_version :: string
  rp_source :: string
  rp_checksum :: "string option"
  rp_dependencies :: "string list"

record raw_lockfile =
  rl_version :: "32 word"
  rl_package :: "raw_package list"

datatype 't lock_error = Lock_Parse 't | Lock_Version "32 word" "32 word" | Lock_Malformed string

definition quoted_of :: "string \<Rightarrow> string \<Rightarrow> string \<Rightarrow> string" where
  "quoted_of what value name = what @ '' `'' @ value @ ''` of `'' @ name @ ''`''"

definition or_malformed :: "'e + 'a \<Rightarrow> string \<Rightarrow> 't lock_error + 'a" where
  "or_malformed r value = (case r of Inl _ \<Rightarrow> Inl (Lock_Malformed value) | Inr x \<Rightarrow> Inr x)"

fun parse_dependencies :: "string \<Rightarrow> string list \<Rightarrow> 't lock_error + package_id list" where
  "parse_dependencies name [] = Inr []"
| "parse_dependencies name (dependency # rest) =
     res_bind (or_malformed (parse_edge dependency) (quoted_of ''dependency'' dependency name)) (\<lambda>d.
     res_bind (parse_dependencies name rest) (\<lambda>ds. Inr (d # ds)))"

definition raw_package_convert :: "raw_package \<Rightarrow> 't lock_error + locked_package" where
  "raw_package_convert package =
     res_bind (or_malformed (package_name_new (rp_name package)) (''package name `'' @ rp_name package @ ''`'')) (\<lambda>name.
     res_bind (or_malformed (version_parse (rp_version package)) (quoted_of ''version'' (rp_version package) (rp_name package))) (\<lambda>version.
     res_bind (or_malformed (source_parse (rp_source package)) (quoted_of ''source'' (rp_source package) (rp_name package))) (\<lambda>source.
     res_bind (case rp_checksum package of
         None \<Rightarrow> Inr None
       | Some s \<Rightarrow> res_bind (or_malformed (checksum_parse s) (quoted_of ''checksum'' s (rp_name package))) (\<lambda>c. Inr (Some c))) (\<lambda>checksum.
     res_bind (parse_dependencies (rp_name package) (rp_dependencies package)) (\<lambda>dependencies.
       Inr \<lparr>lp_id = \<lparr>pi_name = name, pi_version = version, pi_source = source\<rparr>, lp_checksum = checksum,
            lp_dependencies = sort_by package_cmp dependencies\<rparr>)))))"

fun raw_packages_convert :: "raw_package list \<Rightarrow> 't lock_error + locked_package list" where
  "raw_packages_convert [] = Inr []"
| "raw_packages_convert (package # rest) =
     res_bind (raw_package_convert package) (\<lambda>p. res_bind (raw_packages_convert rest) (\<lambda>ps. Inr (p # ps)))"

definition locked_cmp :: "locked_package \<Rightarrow> locked_package \<Rightarrow> ordering" where
  "locked_cmp a b = package_cmp (lp_id a) (lp_id b)"

definition lock_parse :: "(string \<Rightarrow> 't + raw_lockfile) \<Rightarrow> string \<Rightarrow> 't lock_error + lockfile" where
  "lock_parse toml s =
     (case toml s of
        Inl e \<Rightarrow> Inl (Lock_Parse e)
      | Inr raw \<Rightarrow>
          if rl_version raw \<noteq> lock_version then Inl (Lock_Version (rl_version raw) lock_version)
          else res_bind (raw_packages_convert (rl_package raw)) (\<lambda>packages.
            Inr \<lparr>lf_version = rl_version raw, lf_packages = sort_by locked_cmp packages\<rparr>))"

subsection \<open>Rendering\<close>

definition hex_upper :: "nat \<Rightarrow> char" where
  "hex_upper d = (if d < 10 then char_of (48 + d) else char_of (55 + d))"

text \<open>A code point below \<open>U+0100\<close> is one UTF-16 unit, written with four digits.\<close>

definition quote_ch :: "char \<Rightarrow> string" where
  "quote_ch ch =
     (let n = of_char ch :: nat
      in if n = 34 then [char_of (92 :: nat), ch]
         else if n = 92 then [ch, ch]
         else if n = 10 then char_of (92 :: nat) # ''n''
         else if n = 13 then char_of (92 :: nat) # ''r''
         else if n = 9 then char_of (92 :: nat) # ''t''
         else if control ch then char_of (92 :: nat) # ''u00'' @ [hex_upper (n div 16), hex_upper (n mod 16)]
         else [ch])"

definition quote :: "string \<Rightarrow> string" where
  "quote s = char_of (34 :: nat) # concat (map quote_ch s) @ [char_of (34 :: nat)]"

abbreviation nl :: string where
  "nl \<equiv> [char_of (10 :: nat)]"

definition render_dependencies :: "package_id list \<Rightarrow> string" where
  "render_dependencies dependencies =
     (if dependencies = [] then ''dependencies = []'' @ nl
      else ''dependencies = ['' @ nl @
        concat (map (\<lambda>d. ''    '' @ quote (render_edge d) @ '','' @ nl) dependencies) @ '']'' @ nl)"

definition render_package :: "locked_package \<Rightarrow> string" where
  "render_package package =
     nl @ ''[[package]]'' @ nl @
     ''name = '' @ quote (pi_name (lp_id package)) @ nl @
     ''version = '' @ quote (v_raw (pi_version (lp_id package))) @ nl @
     ''source = '' @ quote (source_render (pi_source (lp_id package))) @ nl @
     (case lp_checksum package of None \<Rightarrow> [] | Some c \<Rightarrow> ''checksum = '' @ quote (checksum_render c) @ nl) @
     render_dependencies (fold (bs_insert package_cmp) (lp_dependencies package) [])"

definition lock_render :: "lockfile \<Rightarrow> string" where
  "lock_render lock =
     ''# This file is automatically generated by jals.'' @ nl @
     ''# It is not intended for manual editing.'' @ nl @
     ''version = '' @ decimal (unat (lf_version lock)) @ nl @
     concat (map render_package (sort_by locked_cmp (lf_packages lock)))"

end
