(* ===== verification/Lock_Text.thy ===== *)
theory Lock_Text
  imports Lock Version_Numeric
begin

text \<open>
  What the text of a lock says. The reference is a reader of the part of TOML that the specification
  of the language gives to comments, bare keys, basic strings, decimal integers, arrays of strings
  and arrays of tables, and of the fields serde expects; it refuses everything else. The rendered
  lock is a document of this part, and the fields it spells are those of the lock.
\<close>

subsection \<open>Quoting\<close>

text \<open>The reference: a basic string as the TOML specification reads it, behind its opening quote.\<close>

definition basic_escape :: "char \<Rightarrow> char option" where
  "basic_escape e =
     (if of_char e \<in> {34, 92 :: nat} then Some e
      else if e = CHR ''n'' then Some (char_of (10 :: nat))
      else if e = CHR ''r'' then Some (char_of (13 :: nat))
      else if e = CHR ''t'' then Some (char_of (9 :: nat))
      else None)"

definition basic_unicode :: "string \<Rightarrow> char option" where
  "basic_unicode ds =
     (case map hex_value ds of
        [Some 0, Some 0, Some a, Some b] \<Rightarrow> Some (char_of (16 * a + b))
      | _ \<Rightarrow> None)"

fun basic_string :: "string \<Rightarrow> (string \<times> string) option" where
  "basic_string [] = None"
| "basic_string (c # s) =
     (if of_char c = (34 :: nat) then Some ([], s)
      else if of_char c = (92 :: nat) then
        (case s of
           [] \<Rightarrow> None
         | e # s' \<Rightarrow>
             if e = CHR ''u'' then
               Option.bind (basic_unicode (take 4 s')) (\<lambda>ch.
                 map_option (\<lambda>(cs, rest). (ch # cs, rest)) (basic_string (drop 4 s')))
             else Option.bind (basic_escape e) (\<lambda>ch.
                 map_option (\<lambda>(cs, rest). (ch # cs, rest)) (basic_string s')))
      else if of_char c \<le> (8 :: nat) \<or> 10 \<le> (of_char c :: nat) \<and> of_char c \<le> (31 :: nat) \<or> of_char c = (127 :: nat)
      then None
      else map_option (\<lambda>(cs, rest). (c # cs, rest)) (basic_string s))"

lemma hex_upper: "d < 16 \<Longrightarrow> hex_value (hex_upper d) = Some d"
  by (auto simp: hex_value_def hex_upper_def Let_def)

lemma basic_string_quote_ch:
  "basic_string (quote_ch c @ rest) = map_option (\<lambda>(cs, r). (c # cs, r)) (basic_string rest)"
proof -
  let ?n = "of_char c :: nat"
  have n: "?n < 256" by simp
  have char: "?n = m \<Longrightarrow> char_of m = c" for m :: nat by auto
  have u: "basic_unicode [CHR ''0'', CHR ''0'', hex_upper (?n div 16), hex_upper (?n mod 16)] = Some c"
  proof -
    have "hex_value (CHR ''0'') = Some 0" by (simp add: hex_value_def)
    moreover have "16 * (?n div 16) + ?n mod 16 = ?n" by simp
    moreover have "?n div 16 < 16" using n by (intro less_mult_imp_div_less) linarith
    ultimately show ?thesis by (simp add: basic_unicode_def hex_upper)
  qed
  have e: "CHR ''u'' \<noteq> c" "basic_escape c = Some c" if "?n = 34 \<or> ?n = 92"
    using that by (auto simp: basic_escape_def)
  consider "?n = 34 \<or> ?n = 92" | "?n = 10" | "?n = 13" | "?n = 9"
    | "control c" "?n \<notin> {34, 92, 10, 13, 9}" | "\<not> control c" "?n \<notin> {34, 92, 10, 13, 9}" by blast
  then show ?thesis
  proof cases
    case 1
    then show ?thesis using e [OF 1] by (auto simp: quote_ch_def Let_def)
  next
    case 5
    then show ?thesis using u by (simp add: quote_ch_def Let_def)
  next
    case 6
    then show ?thesis by (auto simp: quote_ch_def Let_def control_def)
  qed (use char in \<open>simp_all add: quote_ch_def basic_escape_def\<close>)
qed

lemma basic_string_quote: "basic_string (tl (quote s) @ rest) = Some (s, rest)"
proof -
  have "basic_string (concat (map quote_ch s) @ [char_of (34 :: nat)] @ rest) = Some (s, rest)"
    by (induction s) (simp_all add: basic_string_quote_ch)
  then show ?thesis by (simp add: quote_def)
qed

subsection \<open>The reference reader\<close>

datatype toml_value = Toml_Integer nat | Toml_String string | Toml_Array "string list"

datatype toml_line = Header string | Key_Value string toml_value

definition toml_blank :: "char \<Rightarrow> bool" where
  "toml_blank c \<longleftrightarrow> of_char c \<in> {9, 32 :: nat}"

definition is_nl :: "char \<Rightarrow> bool" where
  "is_nl c \<longleftrightarrow> of_char c = (10 :: nat)"

definition is_ch :: "nat \<Rightarrow> string \<Rightarrow> bool" where
  "is_ch n s \<longleftrightarrow> s \<noteq> [] \<and> of_char (hd s) = n"

definition bare :: "char \<Rightarrow> bool" where
  "bare c \<longleftrightarrow> (let n = of_char c :: nat in
     48 \<le> n \<and> n \<le> 57 \<or> 65 \<le> n \<and> n \<le> 90 \<or> 97 \<le> n \<and> n \<le> 122 \<or> n = 45 \<or> n = 95)"

definition skip_blanks :: "string \<Rightarrow> string" where
  "skip_blanks s = dropWhile toml_blank s"

text \<open>A comment runs to the end of its line and holds no control character but the tab.\<close>

definition skip_comment :: "string \<Rightarrow> string" where
  "skip_comment s =
     (if is_ch 35 s \<and> list_all (\<lambda>c. of_char c = (9 :: nat) \<or> 32 \<le> (of_char c :: nat) \<and> of_char c \<noteq> (127 :: nat))
        (takeWhile (\<lambda>c. \<not> is_nl c) s)
      then dropWhile (\<lambda>c. \<not> is_nl c) s else s)"

text \<open>Blanks, line ends and comments between lines and between the items of an array.\<close>

function skip_gap :: "string \<Rightarrow> string" where
  "skip_gap s =
     (let t = skip_comment (skip_blanks s)
      in if is_ch 10 t then skip_gap (tl t) else t)"
  by pat_completeness auto
termination
proof (relation "measure length", goal_cases)
  case (2 s t)
  have "length (skip_comment u) \<le> length u" for u by (simp add: skip_comment_def length_dropWhile_le)
  moreover have "length (skip_blanks s) \<le> length s" by (simp add: skip_blanks_def length_dropWhile_le)
  ultimately have "length t \<le> length s" unfolding 2(1) by (rule le_trans)
  then show ?case using 2(2) by (cases t) (auto simp: is_ch_def)
qed simp

declare skip_gap.simps [simp del]

definition end_line :: "string \<Rightarrow> string option" where
  "end_line s =
     (let t = skip_comment (skip_blanks s) in if t = [] then Some [] else if is_ch 10 t then Some (tl t) else None)"

function read_items :: "string \<Rightarrow> (string list \<times> string) option" where
  "read_items s =
     (let t = skip_gap s
      in if is_ch 93 t then Some ([], tl t)
         else if is_ch 34 t then
           (case basic_string (tl t) of
              None \<Rightarrow> None
            | Some (item, rest) \<Rightarrow>
                (let u = skip_gap rest
                 in if is_ch 93 u then Some ([item], tl u)
                    else if is_ch 44 u \<and> length u < length s then
                      map_option (\<lambda>(items, more). (item # items, more)) (read_items (tl u))
                    else None))
         else None)"
  by pat_completeness auto
termination
  by (relation "measure length") (auto simp: is_ch_def)

declare read_items.simps [simp del]

definition read_value :: "string \<Rightarrow> (toml_value \<times> string) option" where
  "read_value s =
     (if is_ch 34 s then map_option (\<lambda>(cs, rest). (Toml_String cs, rest)) (basic_string (tl s))
      else if is_ch 91 s then map_option (\<lambda>(items, rest). (Toml_Array items, rest)) (read_items (tl s))
      else
        (let ds = takeWhile ascii_digit s
         in if digits ds \<and> (is_ch 48 ds \<longrightarrow> length ds = 1)
            then Some (Toml_Integer (dec_val ds), dropWhile ascii_digit s) else None))"

definition read_line :: "string \<Rightarrow> (toml_line \<times> string) option" where
  "read_line s =
     (if is_ch 91 s \<and> is_ch 91 (tl s) then
        (let k = takeWhile bare (drop 2 s); t = dropWhile bare (drop 2 s)
         in if k \<noteq> [] \<and> is_ch 93 t \<and> is_ch 93 (tl t)
            then map_option (Pair (Header k)) (end_line (drop 2 t)) else None)
      else
        (let k = takeWhile bare s; t = skip_blanks (dropWhile bare s)
         in if k \<noteq> [] \<and> is_ch 61 t then
              Option.bind (read_value (skip_blanks (tl t))) (\<lambda>(v, rest).
                map_option (Pair (Key_Value k v)) (end_line rest))
            else None))"

function read_document :: "string \<Rightarrow> toml_line list option" where
  "read_document s =
     (let t = skip_gap s
      in if t = [] then Some []
         else (case read_line t of
             None \<Rightarrow> None
           | Some (line, rest) \<Rightarrow>
               if length rest < length s then map_option (Cons line) (read_document rest) else None))"
  by pat_completeness auto
termination
  by (relation "measure length") auto

declare read_document.simps [simp del]

text \<open>The lines behind each header, and those in front of the first one.\<close>

type_synonym table = "(string \<times> toml_value) list"

fun sections :: "toml_line list \<Rightarrow> table \<times> (string \<times> table) list" where
  "sections [] = ([], [])"
| "sections (Key_Value k v # ls) = (case sections ls of (pairs, tables) \<Rightarrow> ((k, v) # pairs, tables))"
| "sections (Header h # ls) = (case sections ls of (pairs, tables) \<Rightarrow> ([], (h, pairs) # tables))"

text \<open>The fields of the two serde structs: no key twice, and none that is unknown.\<close>

definition known_fields :: "string list \<Rightarrow> table \<Rightarrow> bool" where
  "known_fields known t \<longleftrightarrow> distinct (map fst t) \<and> set (map fst t) \<subseteq> set known"

definition string_field :: "string \<Rightarrow> table \<Rightarrow> string option" where
  "string_field k t = (case map_of t k of Some (Toml_String s) \<Rightarrow> Some s | _ \<Rightarrow> None)"

definition package_of :: "table \<Rightarrow> raw_package option" where
  "package_of t =
     (if known_fields [''name'', ''version'', ''source'', ''checksum'', ''dependencies''] t then
        Option.bind (string_field ''name'' t) (\<lambda>name.
        Option.bind (string_field ''version'' t) (\<lambda>version.
        Option.bind (string_field ''source'' t) (\<lambda>source.
        Option.bind (case map_of t ''checksum'' of None \<Rightarrow> Some None | Some (Toml_String c) \<Rightarrow> Some (Some c) | _ \<Rightarrow> None) (\<lambda>checksum.
        Option.bind (case map_of t ''dependencies'' of None \<Rightarrow> Some [] | Some (Toml_Array ds) \<Rightarrow> Some ds | _ \<Rightarrow> None) (\<lambda>dependencies.
          Some \<lparr>rp_name = name, rp_version = version, rp_source = source, rp_checksum = checksum,
            rp_dependencies = dependencies\<rparr>)))))
      else None)"

definition lock_document :: "string \<Rightarrow> raw_lockfile option" where
  "lock_document s =
     Option.bind (read_document s) (\<lambda>ls. case sections ls of (pairs, tables) \<Rightarrow>
       if known_fields [''version''] pairs \<and> list_all (\<lambda>t. fst t = ''package'') tables then
         (case map_of pairs ''version'' of
            Some (Toml_Integer n) \<Rightarrow>
              (if n < 2 ^ 32 then
                 map_option (\<lambda>packages. \<lparr>rl_version = of_nat n, rl_package = packages\<rparr>)
                   (those (map (\<lambda>t. package_of (snd t)) tables))
               else None)
          | _ \<Rightarrow> None)
       else None)"

subsection \<open>Reading what is rendered\<close>

lemma end_line_nl [simp]: "end_line (char_of (10 :: nat) # s) = Some s"
  by (simp add: end_line_def skip_blanks_def skip_comment_def is_ch_def toml_blank_def)

lemma skip_gap_Nil [simp]: "skip_gap [] = []"
  by (simp add: skip_gap.simps skip_blanks_def skip_comment_def is_ch_def)

lemma skip_gap_nl [simp]: "skip_gap (char_of (10 :: nat) # s) = skip_gap s"
  by (subst skip_gap.simps) (simp add: skip_blanks_def skip_comment_def is_ch_def toml_blank_def)

lemma skip_gap_blank [simp]: "skip_gap (CHR '' '' # s) = skip_gap s"
  by (subst (1 2) skip_gap.simps) (simp add: skip_blanks_def toml_blank_def)

lemma skip_gap_comment:
  assumes "list_all (\<lambda>c. 32 \<le> (of_char c :: nat) \<and> of_char c \<noteq> (127 :: nat)) cs"
  shows "skip_gap (CHR ''#'' # cs @ char_of (10 :: nat) # s) = skip_gap s"
proof -
  have "\<not> is_nl c" if "c \<in> set cs" for c using assms that by (auto simp: list_all_iff is_nl_def)
  then have "takeWhile (\<lambda>c. \<not> is_nl c) (CHR ''#'' # cs @ char_of (10 :: nat) # s) = CHR ''#'' # cs"
    "dropWhile (\<lambda>c. \<not> is_nl c) (CHR ''#'' # cs @ char_of (10 :: nat) # s) = char_of (10 :: nat) # s"
    by (auto simp: takeWhile_append dropWhile_append is_nl_def)
  then have "skip_comment (CHR ''#'' # cs @ char_of (10 :: nat) # s) = char_of (10 :: nat) # s"
    using assms by (auto simp: skip_comment_def is_ch_def list_all_iff)
  then show ?thesis
    by (subst skip_gap.simps) (simp add: skip_blanks_def toml_blank_def is_ch_def)
qed

definition starts_item :: "string \<Rightarrow> bool" where
  "starts_item s \<longleftrightarrow> s \<noteq> [] \<and> of_char (hd s) \<notin> {9, 10, 32, 35 :: nat}"

lemma skip_gap_item: "starts_item s \<Longrightarrow> skip_gap s = s"
  by (subst skip_gap.simps, cases s)
    (auto simp: starts_item_def skip_blanks_def toml_blank_def skip_comment_def is_ch_def)

lemma skip_blanks_item: "starts_item s \<Longrightarrow> skip_blanks s = s"
  by (cases s) (auto simp: starts_item_def skip_blanks_def toml_blank_def)

definition bare_key :: "string \<Rightarrow> bool" where
  "bare_key k \<longleftrightarrow> k \<noteq> [] \<and> list_all bare k"

lemma bare_key_split:
  assumes "bare_key k" "\<not> bare c"
  shows "takeWhile bare (k @ c # s) = k" "dropWhile bare (k @ c # s) = c # s"
  using assms by (auto simp: bare_key_def list_all_iff takeWhile_append dropWhile_append)

lemma bare_key_starts: "bare_key k \<Longrightarrow> starts_item (k @ s) \<and> \<not> is_ch 91 (k @ s)"
  by (cases k) (auto simp: bare_key_def starts_item_def is_ch_def bare_def Let_def)

text \<open>A line that spells a field, given how its value reads.\<close>

lemma read_field:
  assumes "bare_key k" "starts_item v" "read_value (v @ char_of (10 :: nat) # s) = Some (x, char_of (10 :: nat) # s)"
  shows "read_document (k @ '' = '' @ v @ char_of (10 :: nat) # s) = map_option (Cons (Key_Value k x)) (read_document s)"
proof -
  let ?v = "v @ char_of (10 :: nat) # s"
  have "starts_item ?v" using assms(2) by (auto simp: starts_item_def)
  moreover have "skip_blanks (CHR '' '' # s) = skip_blanks s" for s by (simp add: skip_blanks_def toml_blank_def)
  moreover have "skip_blanks (CHR ''='' # s) = CHR ''='' # s" for s by (simp add: skip_blanks_def toml_blank_def)
  moreover have "\<not> bare (CHR '' '')" by (simp add: bare_def)
  ultimately have "read_line (k @ '' = '' @ ?v) = Some (Key_Value k x, s)"
    using assms(3) bare_key_split [OF assms(1), of "CHR '' ''"] bare_key_starts [OF assms(1)] assms(1)
    by (simp add: read_line_def skip_blanks_item is_ch_def bare_key_def)
  then show ?thesis
    using bare_key_starts [OF assms(1)] assms(1)
    by (subst read_document.simps) (simp add: skip_gap_item bare_key_def)
qed

lemma quote_Cons: "quote t = char_of (34 :: nat) # tl (quote t)"
  by (simp add: quote_def)

lemma read_string: "read_value (quote t @ s) = Some (Toml_String t, s)"
  using basic_string_quote [of t s] by (subst quote_Cons) (simp add: read_value_def is_ch_def)

lemma quote_first: "is_ch n (quote t @ s) \<longleftrightarrow> n = 34" "tl (quote t @ s) = tl (quote t) @ s"
  by (auto simp: is_ch_def quote_def)

lemma starts_quote: "starts_item (quote t @ s)"
  by (simp add: starts_item_def quote_def)

lemma read_items_rendered:
  "read_items (char_of (10 :: nat) # concat (map (\<lambda>d. ''    '' @ quote d @ '','' @ nl) ds) @ CHR '']'' # s) = Some (ds, s)"
proof (induction ds)
  case Nil
  have "skip_gap (CHR '']'' # s) = CHR '']'' # s" by (rule skip_gap_item) (simp add: starts_item_def)
  then show ?case by (subst read_items.simps) (simp add: is_ch_def)
next
  case (Cons d ds)
  let ?more = "char_of (10 :: nat) # concat (map (\<lambda>d. ''    '' @ quote d @ '','' @ nl) ds) @ CHR '']'' # s"
  have comma: "skip_gap (CHR '','' # ?more) = CHR '','' # ?more" by (rule skip_gap_item) (simp add: starts_item_def)
  have quoted: "skip_gap (quote d @ CHR '','' # ?more) = quote d @ CHR '','' # ?more" by (rule skip_gap_item [OF starts_quote])
  have "basic_string (tl (quote d) @ CHR '','' # ?more) = Some (d, CHR '','' # ?more)" by (rule basic_string_quote)
  then show ?case
    using Cons comma quoted by (subst read_items.simps) (simp add: quote_first, simp add: is_ch_def)
qed

lemma bare_keys:
  "bare_key ''name''" "bare_key ''version''" "bare_key ''source''" "bare_key ''checksum''" "bare_key ''dependencies''"
  by code_simp+

lemma read_string_field:
  "bare_key k \<Longrightarrow> read_document (k @ '' = '' @ quote t @ char_of (10 :: nat) # s) =
     map_option (Cons (Key_Value k (Toml_String t))) (read_document s)"
  using starts_quote [of t "[]"] by (intro read_field) (simp_all add: read_string)

lemma read_dependencies:
  "read_document (render_dependencies ds @ s) =
     map_option (Cons (Key_Value ''dependencies'' (Toml_Array (map render_edge ds)))) (read_document s)"
proof (cases ds)
  case Nil
  have "read_items (CHR '']'' # s) = Some ([], s)" for s
    using skip_gap_item [of "CHR '']'' # s"] by (subst read_items.simps) (simp add: starts_item_def is_ch_def)
  then have "read_value (''[]'' @ char_of (10 :: nat) # s) = Some (Toml_Array [], char_of (10 :: nat) # s)"
    by (simp add: read_value_def is_ch_def)
  then show ?thesis
    using read_field [OF bare_keys(5), of "''[]''"] Nil by (simp add: render_dependencies_def starts_item_def)
next
  case (Cons d ds')
  let ?items = "char_of (10 :: nat) # concat (map (\<lambda>d. ''    '' @ quote d @ '','' @ nl) (map render_edge ds)) @ '']''"
  have "read_value ((CHR ''['' # ?items) @ char_of (10 :: nat) # s) =
      Some (Toml_Array (map render_edge ds), char_of (10 :: nat) # s)"
    using read_items_rendered [of "map render_edge ds" "char_of (10 :: nat) # s"]
    by (simp add: read_value_def is_ch_def)
  moreover have "render_dependencies ds @ s = ''dependencies'' @ '' = '' @ (CHR ''['' # ?items) @ char_of (10 :: nat) # s"
    using Cons by (simp add: render_dependencies_def comp_def)
  ultimately show ?thesis
    using read_field [OF bare_keys(5), of "CHR ''['' # ?items"] by (simp only:) (simp add: starts_item_def)
qed

lemma read_header:
  "read_document (nl @ ''[[package]]'' @ nl @ s) = map_option (Cons (Header ''package'')) (read_document s)"
proof -
  have "skip_gap (nl @ ''[[package]]'' @ nl @ s) = ''[[package]]'' @ nl @ s"
    using skip_gap_item [of "''[[package]]'' @ nl @ s"] by (simp add: starts_item_def)
  moreover have "read_line (''[[package]]'' @ nl @ s) = Some (Header ''package'', s)"
    by (simp add: read_line_def is_ch_def bare_def Let_def)
  ultimately show ?thesis by (subst read_document.simps) simp
qed

definition package_lines :: "locked_package \<Rightarrow> toml_line list" where
  "package_lines p =
     [Header ''package'', Key_Value ''name'' (Toml_String (pi_name (lp_id p))),
      Key_Value ''version'' (Toml_String (v_raw (pi_version (lp_id p)))),
      Key_Value ''source'' (Toml_String (source_render (pi_source (lp_id p))))] @
     (case lp_checksum p of None \<Rightarrow> [] | Some c \<Rightarrow> [Key_Value ''checksum'' (Toml_String (checksum_render c))]) @
     [Key_Value ''dependencies'' (Toml_Array (map render_edge (fold (bs_insert package_cmp) (lp_dependencies p) [])))]"

lemma read_package_end:
  "read_document ((case checksum of None \<Rightarrow> [] | Some c \<Rightarrow> ''checksum'' @ '' = '' @ quote (checksum_render c) @ [char_of (10 :: nat)]) @
      render_dependencies ds @ s) =
     map_option (\<lambda>ls. (case checksum of None \<Rightarrow> [] | Some c \<Rightarrow> [Key_Value ''checksum'' (Toml_String (checksum_render c))]) @
       Key_Value ''dependencies'' (Toml_Array (map render_edge ds)) # ls) (read_document s)"
proof (cases checksum)
  case (Some c)
  then show ?thesis
    using read_string_field [OF bare_keys(4), of "checksum_render c" "render_dependencies ds @ s"]
    by (simp add: read_dependencies option.map_comp comp_def)
qed (simp add: read_dependencies)

lemma read_package:
  "read_document (render_package p @ s) = map_option (\<lambda>ls. package_lines p @ ls) (read_document s)"
proof -
  have "render_package p @ s = nl @ ''[[package]]'' @ nl @
      ''name'' @ '' = '' @ quote (pi_name (lp_id p)) @ char_of (10 :: nat) #
      ''version'' @ '' = '' @ quote (v_raw (pi_version (lp_id p))) @ char_of (10 :: nat) #
      ''source'' @ '' = '' @ quote (source_render (pi_source (lp_id p))) @ char_of (10 :: nat) #
      (case lp_checksum p of None \<Rightarrow> [] | Some c \<Rightarrow> ''checksum'' @ '' = '' @ quote (checksum_render c) @ [char_of (10 :: nat)]) @
      render_dependencies (fold (bs_insert package_cmp) (lp_dependencies p) []) @ s"
    by (simp add: render_package_def split: option.split)
  then show ?thesis
    by (simp only: read_header read_string_field [OF bare_keys(1)] read_string_field [OF bare_keys(2)]
      read_string_field [OF bare_keys(3)] read_package_end) (simp add: option.map_comp comp_def package_lines_def)
qed

lemma read_packages:
  "read_document (concat (map render_package ps)) = Some (concat (map package_lines ps))"
proof (induction ps)
  case Nil
  show ?case by (subst read_document.simps) simp
next
  case (Cons p ps)
  then show ?case by (simp add: read_package)
qed

lemma ascii_digit_range: "ascii_digit c \<longleftrightarrow> 48 \<le> (of_char c :: nat) \<and> of_char c \<le> (57 :: nat)"
proof
  assume "48 \<le> (of_char c :: nat) \<and> of_char c \<le> (57 :: nat)"
  moreover from this have "char_of (48 + (of_char c - 48 :: nat)) = c" by simp
  ultimately show "ascii_digit c" unfolding ascii_digit_iff by (intro exI [of _ "of_char c - 48"]) auto
qed (auto simp: ascii_digit_iff)

lemma decimal_value: "digits (decimal n) \<and> dec_val (decimal n) = n \<and> (is_ch 48 (decimal n) \<longrightarrow> length (decimal n) = 1)"
proof (induction n rule: decimal.induct)
  case (1 n)
  have digit: "ascii_digit (char_of (48 + m))" "digit_val (char_of (48 + m)) = m" if "m < 10" for m :: nat
    using that by (simp_all add: ascii_digit_range digit_val_def)
  have snoc: "dec_val (s @ [c]) = 10 * dec_val s + digit_val c" for s c by (induction s) simp_all
  show ?case
  proof (cases "n < 10")
    case True
    then show ?thesis using digit [of n] by (simp add: decimal.simps [of n] digits_def)
  next
    case False
    then have ih: "digits (decimal (n div 10))" "dec_val (decimal (n div 10)) = n div 10"
      "is_ch 48 (decimal (n div 10)) \<longrightarrow> length (decimal (n div 10)) = 1"
      using 1 by simp_all
    have "\<not> is_ch 48 (decimal (n div 10))"
    proof
      assume zero: "is_ch 48 (decimal (n div 10))"
      then have "\<exists>c. decimal (n div 10) = [c] \<and> of_char c = (48 :: nat)"
        using ih(3) by (cases "decimal (n div 10)") (auto simp: is_ch_def)
      then have "dec_val (decimal (n div 10)) = 0" by (auto simp: digit_val_def)
      then show False using ih(2) False by simp
    qed
    then show ?thesis
      using ih False digit [of "n mod 10"]
      by (simp add: decimal.simps [of n] digits_def snoc is_ch_def hd_append)
  qed
qed

lemma read_document_gap: "skip_gap s = skip_gap t \<Longrightarrow> length t \<le> length s \<Longrightarrow> read_document t = Some ls \<Longrightarrow> read_document s = Some ls"
  by (subst read_document.simps, subst (asm) read_document.simps)
    (auto simp: Let_def split: if_splits option.splits)

lemma read_version:
  "read_document (''version = '' @ decimal n @ char_of (10 :: nat) # s) =
     map_option (Cons (Key_Value ''version'' (Toml_Integer n))) (read_document s)"
proof -
  have d: "digits (decimal n)" by (simp add: decimal_value)
  have nl: "\<not> ascii_digit (char_of (10 :: nat))" by (simp add: ascii_digit_range)
  have split: "takeWhile ascii_digit (decimal n @ char_of (10 :: nat) # s) = decimal n"
    "dropWhile ascii_digit (decimal n @ char_of (10 :: nat) # s) = char_of (10 :: nat) # s"
    using d nl by (auto simp: digits_def list_all_iff takeWhile_append dropWhile_append)
  obtain c cs where c: "decimal n = c # cs" "ascii_digit c" using d by (cases "decimal n") (auto simp: digits_def)
  have first: "\<not> is_ch 34 (decimal n @ t)" "\<not> is_ch 91 (decimal n @ t)" "starts_item (decimal n)" for t
    using c by (auto simp: is_ch_def ascii_digit_range starts_item_def)
  have "read_value (decimal n @ char_of (10 :: nat) # s) = Some (Toml_Integer n, char_of (10 :: nat) # s)"
    using decimal_value [of n] by (simp add: read_value_def first split)
  from read_field [OF bare_keys(2) first(3) this] show ?thesis by simp
qed

text \<open>The fields a rendered lock spells, in its order.\<close>

definition package_fields :: "locked_package \<Rightarrow> raw_package" where
  "package_fields p = \<lparr>rp_name = pi_name (lp_id p), rp_version = v_raw (pi_version (lp_id p)),
     rp_source = source_render (pi_source (lp_id p)), rp_checksum = map_option checksum_render (lp_checksum p),
     rp_dependencies = map render_edge (fold (bs_insert package_cmp) (lp_dependencies p) [])\<rparr>"

definition lock_fields :: "lockfile \<Rightarrow> raw_lockfile" where
  "lock_fields lock = \<lparr>rl_version = lf_version lock,
     rl_package = map package_fields (sort_by locked_cmp (lf_packages lock))\<rparr>"

definition package_table :: "locked_package \<Rightarrow> table" where
  "package_table p =
     [(''name'', Toml_String (pi_name (lp_id p))), (''version'', Toml_String (v_raw (pi_version (lp_id p)))),
      (''source'', Toml_String (source_render (pi_source (lp_id p))))] @
     (case lp_checksum p of None \<Rightarrow> [] | Some c \<Rightarrow> [(''checksum'', Toml_String (checksum_render c))]) @
     [(''dependencies'', Toml_Array (map render_edge (fold (bs_insert package_cmp) (lp_dependencies p) [])))]"

lemma sections_packages:
  "sections (concat (map package_lines ps)) = ([], map (\<lambda>p. (''package'', package_table p)) ps)"
proof (induction ps)
  case (Cons p ps)
  then show ?case by (cases "lp_checksum p") (simp_all add: package_lines_def package_table_def)
qed simp

lemma package_of_table: "package_of (package_table p) = Some (package_fields p)"
  by (cases "lp_checksum p")
    (simp_all add: package_of_def package_table_def package_fields_def known_fields_def string_field_def)

lemma those_Some: "those (map (\<lambda>x. Some (f x)) xs) = Some (map f xs)"
  by (induction xs) simp_all

text \<open>A rendered lock is a document, and it spells the fields of the lock.\<close>

lemma lock_document_render: "lock_document (lock_render lock) = Some (lock_fields lock)"
proof -
  let ?ps = "sort_by locked_cmp (lf_packages lock)" and ?n = "unat (lf_version lock)"
  have c: "skip_gap (CHR ''#'' # cs @ char_of (10 :: nat) # s) = skip_gap s"
    if "cs = '' This file is automatically generated by jals.'' \<or> cs = '' It is not intended for manual editing.''" for cs s
    using that by (intro skip_gap_comment) auto
  have "skip_gap (lock_render lock) = skip_gap (''version = '' @ decimal ?n @ char_of (10 :: nat) # concat (map render_package ?ps))"
    using c [of "'' This file is automatically generated by jals.''"] c [of "'' It is not intended for manual editing.''"]
    by (simp add: lock_render_def)
  then have "read_document (lock_render lock) =
      Some (Key_Value ''version'' (Toml_Integer ?n) # concat (map package_lines ?ps))"
  proof (rule read_document_gap)
    show "read_document (''version = '' @ decimal ?n @ char_of (10 :: nat) # concat (map render_package ?ps)) =
        Some (Key_Value ''version'' (Toml_Integer ?n) # concat (map package_lines ?ps))"
      by (simp only: read_version read_packages) simp
  qed (simp add: lock_render_def)
  moreover have "?n < 2 ^ 32" using unsigned_less [of "lf_version lock", where 'a = nat] by simp
  ultimately show ?thesis
    by (simp add: lock_document_def sections_packages known_fields_def list_all_iff comp_def package_of_table
        those_Some lock_fields_def)
qed

end
