(* ===== verification/Lock_Round_Trip.thy ===== *)
theory Lock_Round_Trip
  imports Lock_Text "HOL-Library.Multiset"
begin

text \<open>
  The lock renders one way and reads back: strings are TOML basic strings, the order packages were
  collected in does not reach the text, and what the crate writes it reads as the same lock.
\<close>

subsection \<open>Sorting\<close>

fun ascending :: "('a \<Rightarrow> 'a \<Rightarrow> ordering) \<Rightarrow> 'a list \<Rightarrow> bool" where
  "ascending cmp (x # y # ys) \<longleftrightarrow> cmp x y \<noteq> Greater \<and> ascending cmp (y # ys)"
| "ascending cmp _ \<longleftrightarrow> True"

lemma sort_by_ascending: "ascending cmp xs \<Longrightarrow> sort_by cmp xs = xs"
  unfolding sort_by_def by (induction cmp xs rule: ascending.induct) simp_all

text \<open>Where names differ the order of packages is the order of their names.\<close>

definition by_name :: "locked_package \<Rightarrow> string" where
  "by_name p = pi_name (lp_id p)"

lemma locked_cmp_names: "by_name a \<noteq> by_name b \<Longrightarrow> locked_cmp a b = str_cmp (by_name a) (by_name b)"
  using str_cmp.equal_iff [of "by_name a" "by_name b"]
  by (cases "str_cmp (by_name a) (by_name b)") (auto simp: locked_cmp_def package_cmp_def by_name_def)

lemma insert_by_names:
  "by_name p \<notin> by_name ` set ps \<Longrightarrow> in_order (map by_name ps) \<Longrightarrow> in_order (map by_name (insert_by locked_cmp p ps))"
proof (induction ps)
  case (Cons q ps)
  have ne: "by_name p \<noteq> by_name q" using Cons.prems(1) by auto
  show ?case
  proof (cases "str_cmp (by_name p) (by_name q)")
    case Greater
    then have "str_cmp (by_name q) (by_name p) = Less" by (simp add: str_cmp.greater_iff)
    then show ?thesis
      using Cons Greater by (auto simp: locked_cmp_names [OF ne] in_order_def set_insert_by)
  next
    case Less
    then show ?thesis
      using Cons.prems(2) str_cmp_trans [OF Less] by (auto simp: locked_cmp_names [OF ne] in_order_def)
  qed (use ne in \<open>simp add: str_cmp.equal_iff\<close>)
qed (simp add: in_order_def)

lemma sort_by_names: "distinct (map by_name ps) \<Longrightarrow> in_order (map by_name (sort_by locked_cmp ps))"
proof (induction ps)
  case (Cons p ps)
  then have "in_order (map by_name (sort_by locked_cmp ps))" "by_name p \<notin> by_name ` set (sort_by locked_cmp ps)"
    by simp_all
  then show ?case using insert_by_names by (simp add: sort_by_def)
qed (simp add: sort_by_def in_order_def)

lemma sorted_names_unique:
  assumes "in_order (map by_name ps)" "in_order (map by_name qs)" "set ps = set qs"
  shows "ps = qs"
proof -
  have names: "map by_name ps = map by_name qs" using assms by (intro in_order_unique) auto
  then have len: "length ps = length qs" by (rule map_eq_imp_length_eq)
  have inj: "inj_on by_name (set ps)" using in_order_distinct [OF assms(1)] by (simp add: distinct_map)
  show ?thesis
  proof (rule nth_equalityI [OF len])
    fix i assume i: "i < length ps"
    then have "by_name (ps ! i) = by_name (qs ! i)" using names len by (metis nth_map)
    moreover have "ps ! i \<in> set ps" using i by (rule nth_mem)
    moreover have "qs ! i \<in> set ps" unfolding assms(3) using i len by simp
    ultimately show "ps ! i = qs ! i" using inj_onD [OF inj] by blast
  qed
qed

lemma sort_by_permuted:
  assumes "distinct (map by_name ps)" "mset ps = mset qs"
  shows "sort_by locked_cmp ps = sort_by locked_cmp qs"
proof (rule sorted_names_unique)
  have "distinct (map by_name qs)"
    using assms by (metis mset_eq_imp_distinct_iff mset_map)
  then show "in_order (map by_name (sort_by locked_cmp qs))" by (rule sort_by_names)
  show "in_order (map by_name (sort_by locked_cmp ps))" using assms(1) by (rule sort_by_names)
  show "set (sort_by locked_cmp ps) = set (sort_by locked_cmp qs)"
    using mset_eq_setD [OF assms(2)] by simp
qed

subsection \<open>The derived comparisons\<close>

text \<open>Comparing by two components, by an option, by an enum's index.\<close>

lemma comparison_option: "comparison cmp \<Longrightarrow> comparison (option_cmp cmp)"
proof (unfold_locales, goal_cases)
  case (1 x y)
  then show ?case by (cases x; cases y) (simp_all add: comparison.flip)
next
  case (2 x y)
  then show ?case by (cases x; cases y) (simp_all add: comparison.equal_iff)
qed

interpretation checksum_cmp: comparison checksum_cmp
proof
  fix x y
  show "ord_reverse (checksum_cmp x y) = checksum_cmp y x"
    by (simp add: checksum_cmp_def ord_then_reverse)
  have "algorithm_index a = algorithm_index b \<longleftrightarrow> a = b" for a b by (cases a; cases b) simp_all
  then show "checksum_cmp x y = Equal \<longleftrightarrow> x = y"
    by (cases x; cases y) (simp add: checksum_cmp_def ord_then_eq nat_cmp.equal_iff str_cmp.equal_iff)
qed

interpretation dir_cmp: comparison "option_cmp str_cmp"
  by (rule comparison_option) unfold_locales

interpretation digest_cmp: comparison "option_cmp checksum_cmp"
  by (rule comparison_option) unfold_locales

interpretation git_cmp: comparison git_cmp
proof
  fix x y
  show "ord_reverse (git_cmp x y) = git_cmp y x" by (simp add: git_cmp_def ord_then_reverse)
  show "git_cmp x y = Equal \<longleftrightarrow> x = y"
    by (cases x; cases y) (simp add: git_cmp_def ord_then_eq dir_cmp.equal_iff str_cmp.equal_iff)
qed

interpretation direct_cmp: comparison direct_cmp
proof
  fix x y
  show "ord_reverse (direct_cmp x y) = direct_cmp y x" by (simp add: direct_cmp_def ord_then_reverse)
  have "kind_index a = kind_index b \<longleftrightarrow> a = b" for a b by (cases a; cases b) simp_all
  then show "direct_cmp x y = Equal \<longleftrightarrow> x = y"
    by (cases x; cases y) (simp add: direct_cmp_def ord_then_eq digest_cmp.equal_iff str_cmp.equal_iff nat_cmp.equal_iff)
qed

interpretation source_cmp: comparison source_cmp
proof
  fix x y
  show "ord_reverse (source_cmp x y) = source_cmp y x" by (cases x; cases y) simp_all
  show "source_cmp x y = Equal \<longleftrightarrow> x = y"
    by (cases x; cases y) (simp_all add: str_cmp.equal_iff git_cmp.equal_iff direct_cmp.equal_iff nat_cmp.equal_iff)
qed

lemma package_cmp_flip: "ord_reverse (package_cmp a b) = package_cmp b a"
  by (simp add: package_cmp_def ord_then_reverse version_cmp_def compare_flip)

lemma package_cmp_Equal: "package_cmp a b = Equal \<longleftrightarrow> package_eq a b"
  by (auto simp: package_cmp_def package_eq_def ord_then_eq str_cmp.equal_iff source_cmp.equal_iff version_eq_def)

lemma package_cmp_Greater: "package_cmp a b = Less \<Longrightarrow> package_cmp b a = Greater"
  using package_cmp_flip [of a b] by simp

subsection \<open>Reading a rendered lock\<close>

definition sorted_edges :: "package_id list \<Rightarrow> bool" where
  "sorted_edges ds \<longleftrightarrow> sorted_wrt (\<lambda>a b. package_cmp a b = Less) ds"

lemma bs_insert_last: "(\<forall>y\<in>set ys. package_cmp y x = Less) \<Longrightarrow> bs_insert package_cmp x ys = ys @ [x]"
  by (induction ys) (auto simp: package_cmp_Greater)

lemma collect_sorted_edges: "sorted_edges ds \<Longrightarrow> fold (bs_insert package_cmp) ds [] = ds"
proof -
  have "sorted_edges (es @ ds) \<Longrightarrow> fold (bs_insert package_cmp) ds es = es @ ds" for es
    by (induction ds arbitrary: es) (auto simp: bs_insert_last sorted_edges_def sorted_wrt_append)
  from this [of "[]"] show "sorted_edges ds \<Longrightarrow> fold (bs_insert package_cmp) ds [] = ds" by simp
qed

lemma sorted_edges_ascending: "sorted_edges ds \<Longrightarrow> ascending package_cmp ds"
proof -
  have "sorted_wrt (\<lambda>a b. package_cmp a b = Less) ds \<Longrightarrow> ascending package_cmp ds"
    by (induction "package_cmp" ds rule: ascending.induct) simp_all
  then show "sorted_edges ds \<Longrightarrow> ascending package_cmp ds" by (simp add: sorted_edges_def)
qed

definition wf_locked :: "locked_package \<Rightarrow> bool" where
  "wf_locked p \<longleftrightarrow> wf_package (lp_id p) \<and>
     (case lp_checksum p of None \<Rightarrow> True | Some c \<Rightarrow> wf_checksum c) \<and>
     list_all wf_package (lp_dependencies p) \<and> sorted_edges (lp_dependencies p)"

definition wf_lock :: "lockfile \<Rightarrow> bool" where
  "wf_lock lock \<longleftrightarrow> lf_version lock = lock_version \<and> list_all wf_locked (lf_packages lock) \<and>
     ascending locked_cmp (lf_packages lock)"

definition splits_early :: "package_id \<Rightarrow> bool" where
  "splits_early d \<longleftrightarrow> sublist '' ('' (source_render (pi_source d))"

lemma parse_dependencies_render:
  "list_all wf_package ds \<Longrightarrow>
     (case parse_dependencies name (map render_edge ds) of
        Inl _ \<Rightarrow> list_ex splits_early ds
      | Inr es \<Rightarrow> es = ds \<and> \<not> list_ex splits_early ds)"
  by (induction ds) (auto simp: parse_edge_render splits_early_def or_malformed_def res_bind_def split: sum.splits)

lemma package_convert_fields:
  assumes "wf_locked p"
  shows "(case (raw_package_convert (package_fields p) :: 't lock_error + locked_package) of
      Inl _ \<Rightarrow> list_ex splits_early (lp_dependencies p)
    | Inr q \<Rightarrow> q = p \<and> \<not> list_ex splits_early (lp_dependencies p))"
proof -
  have w: "package_name_new (pi_name (lp_id p)) = Inr (pi_name (lp_id p))"
    "version_parse (v_raw (pi_version (lp_id p))) = Inr (pi_version (lp_id p))"
    "source_parse (source_render (pi_source (lp_id p))) = Inr (pi_source (lp_id p))"
    and c: "(case lp_checksum p of None \<Rightarrow> True | Some c \<Rightarrow> checksum_parse (checksum_render c) = Inr c)"
    and d: "list_all wf_package (lp_dependencies p)" "sorted_edges (lp_dependencies p)"
    using assms by (auto simp: wf_locked_def wf_package_def source_round_trip checksum_round_trip split: option.splits)
  have s: "sort_by package_cmp (lp_dependencies p) = lp_dependencies p"
    by (rule sort_by_ascending [OF sorted_edges_ascending [OF d(2)]])
  let ?ds = "parse_dependencies (pi_name (lp_id p)) (map render_edge (lp_dependencies p)) :: 't lock_error + package_id list"
  have "raw_package_convert (package_fields p) = res_bind ?ds (\<lambda>ds.
      Inr (p\<lparr>lp_dependencies := sort_by package_cmp ds\<rparr>))"
    using w c collect_sorted_edges [OF d(2)] by (cases p; cases "lp_id p")
      (auto simp: raw_package_convert_def package_fields_def or_malformed_def split: option.splits)
  then show ?thesis
    using parse_dependencies_render [OF d(1), of "pi_name (lp_id p)", where 'a = 't] s
    by (cases ?ds) simp_all
qed

lemma packages_convert_fields:
  "list_all wf_locked ps \<Longrightarrow>
     (case (raw_packages_convert (map package_fields ps) :: 't lock_error + locked_package list) of
        Inl _ \<Rightarrow> list_ex (\<lambda>p. list_ex splits_early (lp_dependencies p)) ps
      | Inr qs \<Rightarrow> qs = ps \<and> \<not> list_ex (\<lambda>p. list_ex splits_early (lp_dependencies p)) ps)"
proof (induction ps)
  case (Cons p ps)
  then show ?case
    using package_convert_fields [of p, where 't = 't]
    by (cases "raw_package_convert (package_fields p) :: 't lock_error + locked_package";
        cases "raw_packages_convert (map package_fields ps) :: 't lock_error + locked_package list") auto
qed simp

subsection \<open>Properties\<close>

text \<open>C38: the rendering of a lock does not depend on the order its packages were collected in, as long
  as no two have the same name, so the resolver's fingerprint, a hash of it, does not either. And it is
  TOML that says what the lock holds: read by the rules of TOML (\<open>lock_document\<close>), the text of any lock
  gives its version and, package by package in the order of the lock's comparison, the name, the version
  as written, the source, the checksum if there is one, and the edges.\<close>

theorem lock_render_canonical:
  "(distinct (map by_name ps) \<longrightarrow> mset ps = mset qs \<longrightarrow>
      lock_render \<lparr>lf_version = n, lf_packages = ps\<rparr> = lock_render \<lparr>lf_version = n, lf_packages = qs\<rparr>) \<and>
   lock_document (lock_render l) = Some (lock_fields l)"
  using sort_by_permuted lock_document_render by (auto simp: lock_render_def)

definition sample_locked :: "string \<Rightarrow> locked_package" where
  "sample_locked n = \<lparr>lp_id = \<lparr>pi_name = n, pi_version = \<lparr>v_raw = ''1'', v_items = [V_Number ''1'']\<rparr>,
     pi_source = Src_Registry ''central''\<rparr>, lp_checksum = None, lp_dependencies = []\<rparr>"

lemma lock_render_canonical_witness:
  "lock_render \<lparr>lf_version = 1, lf_packages = [sample_locked ''b'', sample_locked ''a'']\<rparr> =
   lock_render \<lparr>lf_version = 1, lf_packages = [sample_locked ''a'', sample_locked ''b'']\<rparr>"
  using lock_render_canonical [of "[sample_locked ''b'', sample_locked ''a'']" "[sample_locked ''a'', sample_locked ''b'']" 1]
  by (simp add: by_name_def sample_locked_def add_mset_commute)

text \<open>C39: a lock the crate writes it reads back as the same lock, exactly when no dependency edge has
  a source with \<open> (\<close> in it. The lock is one the crate builds: of the current version, its names,
  versions, sources and checksums valid, packages and edges in order (\<open>wf_lock\<close>). The \<open>toml\<close> crate is
  a parameter; what is assumed of it is that it returns the fields of every text the rules of TOML
  (\<open>lock_document\<close>, on any input) give fields for.\<close>

theorem lock_round_trip:
  fixes toml :: "string \<Rightarrow> 't + raw_lockfile"
  assumes "wf_lock l" "\<And>s raw. lock_document s = Some raw \<Longrightarrow> toml s = Inr raw"
  shows "lock_parse toml (lock_render l) = Inr l \<longleftrightarrow>
    \<not> list_ex (\<lambda>p. list_ex splits_early (lp_dependencies p)) (lf_packages l)"
proof -
  have toml: "toml (lock_render l) = Inr (lock_fields l)" by (rule assms(2) [OF lock_document_render])
  have s: "sort_by locked_cmp (lf_packages l) = lf_packages l"
    using assms(1) by (intro sort_by_ascending) (simp add: wf_lock_def)
  have "list_all wf_locked (lf_packages l)" "lf_version l = lock_version"
    using assms(1) by (simp_all add: wf_lock_def)
  then show ?thesis
    using packages_convert_fields [of "lf_packages l", where 't = 't] toml
    by (cases "raw_packages_convert (map package_fields (lf_packages l)) :: 't lock_error + locked_package list")
      (auto simp: lock_parse_def lock_fields_def s)
qed

definition sample_lock :: "source_id \<Rightarrow> lockfile" where
  "sample_lock src = \<lparr>lf_version = 1, lf_packages =
     [\<lparr>lp_id = sample_package (Src_Registry ''central''), lp_checksum = None, lp_dependencies = [sample_package src]\<rparr>]\<rparr>"

lemma sample_lock_wf: "wf_source src \<Longrightarrow> wf_lock (sample_lock src)"
proof -
  have "registry_id_new ''central'' = Inr ''central''" by code_simp
  then have "wf_package (sample_package (Src_Registry ''central''))"
    by (intro sample_package_wf) (simp add: wf_source_def)
  then show "wf_source src \<Longrightarrow> wf_lock (sample_lock src)"
    using sample_package_wf by (simp add: wf_lock_def sample_lock_def lock_version_def wf_locked_def sorted_edges_def)
qed

text \<open>The reference reader itself is a \<open>toml\<close> of the kind assumed.\<close>

definition reference_toml :: "string \<Rightarrow> unit + raw_lockfile" where
  "reference_toml s = (case lock_document s of Some raw \<Rightarrow> Inr raw | None \<Rightarrow> Inl ())"

lemma lock_round_trip_witness:
  "lock_parse reference_toml (lock_render (sample_lock (Src_Path ''/b''))) = Inr (sample_lock (Src_Path ''/b'')) \<and>
   lock_parse reference_toml (lock_render (sample_lock (Src_Path ''/b (c)''))) \<noteq> Inr (sample_lock (Src_Path ''/b (c)''))"
proof -
  have toml: "reference_toml s = Inr raw" if "lock_document s = Some raw" for s raw
    using that by (simp add: reference_toml_def)
  have w: "wf_lock (sample_lock (Src_Path ''/b''))" "wf_lock (sample_lock (Src_Path ''/b (c)''))"
    by (simp_all add: sample_lock_wf wf_source_def)
  have "\<not> splits_early (sample_package (Src_Path ''/b''))" "splits_early (sample_package (Src_Path ''/b (c)''))"
    by (simp_all add: splits_early_def sample_package_def source_encode_def encode_ch_def sublist_two)
  then show ?thesis
    using lock_round_trip [OF w(1) toml] lock_round_trip [OF w(2) toml] by (simp add: sample_lock_def)
qed

end
