(* ===== verification/Summary.thy ===== *)
theory Summary
  imports Package_Id Version_Req Ordered
begin

text \<open>
  What a manifest contributes to resolution (\<open>jals-resolve/src/summary.rs\<close>), and the closure of a
  package's feature graph (\<open>Pass::expand\<close> of \<open>resolve.rs\<close>).
\<close>

subsection \<open>Requests and summaries\<close>

datatype feature_value =
    Local_Feature string
  | Dependency package_name
  | Dependency_Feature package_name string

fun feature_value_dependency :: "feature_value \<Rightarrow> package_name option" where
  "feature_value_dependency (Local_Feature _) = None"
| "feature_value_dependency (Dependency dependency) = Some dependency"
| "feature_value_dependency (Dependency_Feature dependency _) = Some dependency"

datatype dependency_kind = Normal | Development

fun checkout_arg :: "git_reference \<Rightarrow> string option" where
  "checkout_arg Ref_Default = None"
| "checkout_arg (Ref_Branch s) = Some s"
| "checkout_arg (Ref_Tag s) = Some s"
| "checkout_arg (Ref_Rev s) = Some s"

fun reference_label :: "git_reference \<Rightarrow> string" where
  "reference_label Ref_Default = ''default''"
| "reference_label (Ref_Branch _) = ''branch''"
| "reference_label (Ref_Tag _) = ''tag''"
| "reference_label (Ref_Rev _) = ''rev''"

definition dir_suffix :: "string option \<Rightarrow> string" where
  "dir_suffix dir = (case dir of None \<Rightarrow> [] | Some d \<Rightarrow> ''?dir='' @ d)"

fun source_request_render :: "source_request \<Rightarrow> string" where
  "source_request_render (Req_Registry registry) = ''registry+'' @ registry"
| "source_request_render (Req_Git url reference dir) =
     ''git+'' @ url @
     (case checkout_arg reference of None \<Rightarrow> [] | Some arg \<Rightarrow> ''#'' @ reference_label reference @ ''='' @ arg) @
     dir_suffix dir"
| "source_request_render (Req_Path location dir) = ''path+'' @ location @ dir_suffix dir"
| "source_request_render (Req_Direct kind locator) = direct_kind_str kind @ ''+'' @ locator"
| "source_request_render (Req_Workspace member) = ''workspace+'' @ member"

record dependency_request =
  dr_name :: package_name
  dr_package :: package_name
  dr_source :: source_request
  dr_version :: version_req
  dr_features :: "string list"
  dr_default_features :: bool
  dr_optional :: bool
  dr_kind :: dependency_kind

definition admits :: "dependency_request \<Rightarrow> version \<Rightarrow> bool" where
  "admits request v = req_matches (dr_version request) v"

record summary =
  su_id :: package_id
  su_dependencies :: "dependency_request list"
  su_features :: "feature_value list omap"

definition feature_values :: "summary \<Rightarrow> string \<Rightarrow> feature_value list" where
  "feature_values s feature = (case map_of (su_features s) feature of None \<Rightarrow> [] | Some vs \<Rightarrow> vs)"

definition summary_dependency :: "summary \<Rightarrow> string \<Rightarrow> dependency_request option" where
  "summary_dependency s name = List.find (\<lambda>dependency. dr_name dependency = name) (su_dependencies s)"

definition declares_feature :: "summary \<Rightarrow> string \<Rightarrow> bool" where
  "declares_feature s name \<longleftrightarrow> map_of (su_features s) name \<noteq> None"

definition summary_label :: "summary \<Rightarrow> string" where
  "summary_label s = pi_name (su_id s) @ '' '' @ v_raw (pi_version (su_id s))"

record candidate =
  ca_id :: package_id
  ca_checksum :: "checksum option"

record root_request =
  rr_summary :: summary
  rr_features :: "string list"
  rr_default_features :: bool
  rr_include_dev :: bool

definition root_request_new :: "summary \<Rightarrow> root_request" where
  "root_request_new s =
     \<lparr>rr_summary = s, rr_features = [], rr_default_features = True, rr_include_dev = False\<rparr>"

subsection \<open>The feature graph\<close>

record expansion =
  ex_enabled :: "string list"
  ex_activated :: "string list"
  ex_routes :: "string list omap"

text \<open>One value of an enabled feature; the head of \<open>pending\<close> is the top of the stack.\<close>

fun expand_value :: "feature_value \<Rightarrow> string list \<times> expansion \<Rightarrow> string list \<times> expansion" where
  "expand_value (Local_Feature inner) (pending, ex) = (inner # pending, ex)"
| "expand_value (Dependency dependency) (pending, ex) =
     (pending, ex\<lparr>ex_activated := os_insert dependency (ex_activated ex)\<rparr>)"
| "expand_value (Dependency_Feature dependency feature) (pending, ex) =
     (pending, ex\<lparr>ex_routes := om_update dependency [] (os_insert feature) (ex_routes ex)\<rparr>)"

lemma expand_values_enabled: "ex_enabled (snd (fold expand_value vs (pending, ex))) = ex_enabled ex"
proof (induction vs arbitrary: pending ex)
  case (Cons v vs)
  then show ?case by (cases v) simp_all
qed simp

definition unvisited :: "summary \<Rightarrow> expansion \<Rightarrow> nat" where
  "unvisited s ex = card {f \<in> fst ` set (su_features s). f \<notin> set (ex_enabled ex)}"

lemma unvisited_less:
  assumes "f \<notin> set (ex_enabled ex)" "feature_values s f \<noteq> []" "set (ex_enabled ex') = insert f (set (ex_enabled ex))"
  shows "unvisited s ex' < unvisited s ex"
  unfolding unvisited_def
proof (rule psubset_card_mono)
  have "map_of (su_features s) f \<noteq> None" using assms(2) by (auto simp: feature_values_def split: option.splits)
  then have "f \<in> fst ` set (su_features s)" by (simp add: map_of_eq_None_iff)
  then show "{f \<in> fst ` set (su_features s). f \<notin> set (ex_enabled ex')} \<subset> {f \<in> fst ` set (su_features s). f \<notin> set (ex_enabled ex)}"
    using assms(1,3) by auto
qed simp

lemma unvisited_le:
  "set (ex_enabled ex') = insert f (set (ex_enabled ex)) \<Longrightarrow> unvisited s ex' \<le> unvisited s ex"
  unfolding unvisited_def by (rule card_mono) auto

function expand_loop :: "summary \<Rightarrow> string list \<Rightarrow> expansion \<Rightarrow> expansion" where
  "expand_loop s [] ex = ex"
| "expand_loop s (feature # pending) ex =
     (if feature \<in> set (ex_enabled ex) then expand_loop s pending ex
      else let stepped = fold expand_value (feature_values s feature)
                 (pending, ex\<lparr>ex_enabled := os_insert feature (ex_enabled ex)\<rparr>)
           in expand_loop s (fst stepped) (snd stepped))"
  by pat_completeness auto
termination
proof (relation "measures [\<lambda>(s, pending, ex). unvisited s ex, \<lambda>(s, pending, ex). length pending]", goal_cases)
  case (3 s feature pending ex stepped)
  let ?ex = "ex\<lparr>ex_enabled := os_insert feature (ex_enabled ex)\<rparr>"
  have e: "set (ex_enabled (snd stepped)) = insert feature (set (ex_enabled ex))"
    by (simp add: 3(2) expand_values_enabled)
  show ?case
  proof (cases "feature_values s feature = []")
    case True
    then show ?thesis using unvisited_le [OF e, of s] 3(2) by auto
  next
    case False
    then show ?thesis using unvisited_less [OF 3(1) _ e] by (simp add: split_beta)
  qed
qed auto

declare expand_loop.simps [simp del]

definition explicitly_named :: "summary \<Rightarrow> string \<Rightarrow> bool" where
  "explicitly_named s label = list_ex (\<lambda>(_, vs). list_ex (\<lambda>v. v = Dependency label) vs) (su_features s)"

definition activate_implicit :: "summary \<Rightarrow> expansion \<Rightarrow> expansion" where
  "activate_implicit s ex =
     fold (\<lambda>dependency ex.
       if dr_optional dependency \<and> \<not> explicitly_named s (dr_name dependency) \<and>
          dr_name dependency \<in> set (ex_enabled ex)
       then ex\<lparr>ex_activated := os_insert (dr_name dependency) (ex_activated ex)\<rparr> else ex)
     (su_dependencies s) ex"

definition expand :: "summary \<Rightarrow> string list \<Rightarrow> bool \<Rightarrow> expansion" where
  "expand s seed defaults =
     (let pending = rev (seed @ (if defaults then [''default''] else []));
          ex = expand_loop s pending \<lparr>ex_enabled = [], ex_activated = [], ex_routes = []\<rparr>
      in activate_implicit s (ex\<lparr>ex_enabled := os_remove ''default'' (ex_enabled ex)\<rparr>))"

end
