(* ===== verification/Resolve.thy ===== *)
theory Resolve
  imports Lock Summary
begin

text \<open>
  The resolver (\<open>jals-resolve/src/resolve.rs\<close>, \<open>error.rs\<close>): passes over the roots that collect
  requirements, choose one version per name and expand features, repeated until the choices are
  stable. The provider is a parameter with a state of its own; its two batch operations may answer
  anything. A map is a partial function where the code only looks it up and an ordered list where
  it iterates; a map keyed by packages is keyed by what equality of packages compares.
\<close>

subsection \<open>Errors and the provider\<close>

record requirement_origin =
  ro_requirement :: version_req
  ro_requester :: string

text \<open>In the last variant the error of the TOML reader is its message.\<close>

datatype 'e resolve_error =
    Provider_Error string 'e
  | No_Matching_Version package_name "requirement_origin list"
  | Conflicting_Sources package_name source_request source_request
  | Summary_Mismatch package_id package_id
  | Not_Converged nat
  | Resolve_Lock "string lock_error"

datatype resolve_warning = Unused_Lock_Entry string

record candidate_request =
  cr_request :: dependency_request
  cr_locked :: "locked_package option"

record ('p, 'e) provider =
  candidates_batch :: "'p \<Rightarrow> candidate_request list \<Rightarrow> 'p \<times> ('e + candidate list) list"
  summaries_batch :: "'p \<Rightarrow> package_id list \<Rightarrow> 'p \<times> ('e + summary) list"

text \<open>The default bodies of the batch operations call the single ones in order.\<close>

fun in_sequence :: "('p \<Rightarrow> 'a \<Rightarrow> 'p \<times> 'b) \<Rightarrow> 'p \<Rightarrow> 'a list \<Rightarrow> 'p \<times> 'b list" where
  "in_sequence f p [] = (p, [])"
| "in_sequence f p (x # xs) =
     (case f p x of (p1, y) \<Rightarrow> case in_sequence f p1 xs of (p2, ys) \<Rightarrow> (p2, y # ys))"

subsection \<open>The state of a pass\<close>

record requested =
  rq_selected :: "string list"
  rq_forwarded :: "string list"
  rq_defaults :: bool

definition requested_default :: requested where
  "requested_default = \<lparr>rq_selected = [], rq_forwarded = [], rq_defaults = False\<rparr>"

type_synonym package_key = "package_name \<times> item list \<times> source_id"

definition package_key :: "package_id \<Rightarrow> package_key" where
  "package_key pid = (pi_name pid, v_items (pi_version pid), pi_source pid)"

type_synonym candidate_memo = "source_request \<times> package_name \<Rightarrow> candidate list option"
type_synonym summary_memo = "package_key \<Rightarrow> summary option"

record setting =
  in_roots :: "root_request list"
  in_locked :: "locked_package omap"
  in_pins :: "package_id omap"

record 'p pass =
  ps_provider :: 'p
  ps_candidates :: candidate_memo
  ps_summaries :: summary_memo
  ps_root_ids :: "package_name \<Rightarrow> package_id option"
  ps_representatives :: "package_name \<Rightarrow> dependency_request option"
  ps_sources :: "package_name \<Rightarrow> source_request option"
  ps_requirements :: "package_name \<Rightarrow> requirement_origin list option"
  ps_requested :: "requested omap"
  ps_chosen :: "package_id omap"
  ps_checksums :: "package_name \<Rightarrow> checksum option option"
  ps_expanded :: "package_name \<Rightarrow> expansion option"
  ps_edges :: "package_name \<Rightarrow> dependency_request list option"
  ps_package_queue :: "package_name list"
  ps_feature_queue :: "package_name list"

definition pass_new :: "'p \<Rightarrow> candidate_memo \<Rightarrow> summary_memo \<Rightarrow> 'p pass" where
  "pass_new p candidates summaries =
     \<lparr>ps_provider = p, ps_candidates = candidates, ps_summaries = summaries, ps_root_ids = (\<lambda>_. None),
      ps_representatives = (\<lambda>_. None), ps_sources = (\<lambda>_. None), ps_requirements = (\<lambda>_. None),
      ps_requested = [], ps_chosen = [], ps_checksums = (\<lambda>_. None), ps_expanded = (\<lambda>_. None),
      ps_edges = (\<lambda>_. None), ps_package_queue = [], ps_feature_queue = []\<rparr>"

definition or_empty :: "'a list option \<Rightarrow> 'a list" where
  "or_empty xs = (case xs of None \<Rightarrow> [] | Some ys \<Rightarrow> ys)"

definition requirements_of :: "'p pass \<Rightarrow> package_name \<Rightarrow> requirement_origin list" where
  "requirements_of s name = or_empty (ps_requirements s name)"

definition all_match :: "requirement_origin list \<Rightarrow> version \<Rightarrow> bool" where
  "all_match requirements v \<longleftrightarrow> list_all (\<lambda>origin. req_matches (ro_requirement origin) v) requirements"

definition chosen_summary :: "'p pass \<Rightarrow> package_name \<Rightarrow> summary option" where
  "chosen_summary s name =
     (case map_of (ps_chosen s) name of None \<Rightarrow> None | Some pid \<Rightarrow> ps_summaries s (package_key pid))"

subsection \<open>Edges\<close>

definition forward :: "summary \<Rightarrow> string \<Rightarrow> string \<Rightarrow> 'p pass \<Rightarrow> 'p pass" where
  "forward sm label feature s =
     (case summary_dependency sm label of
        None \<Rightarrow> s
      | Some dependency \<Rightarrow> s\<lparr>ps_requested := om_update (dr_package dependency) requested_default
          (\<lambda>r. r\<lparr>rq_forwarded := os_insert feature (rq_forwarded r)\<rparr>) (ps_requested s)\<rparr>)"

definition record_source :: "dependency_request \<Rightarrow> 'p pass \<Rightarrow> 'e resolve_error + 'p pass" where
  "record_source request s =
     (case ps_sources s (dr_package request) of
        Some existing \<Rightarrow>
          if existing \<noteq> dr_source request
          then Inl (Conflicting_Sources (dr_package request) existing (dr_source request))
          else Inr s
      | None \<Rightarrow> Inr (s\<lparr>ps_sources := (ps_sources s)(dr_package request \<mapsto> dr_source request),
                     ps_representatives := (ps_representatives s)(dr_package request \<mapsto> request)\<rparr>))"

definition record_edge :: "package_name \<Rightarrow> dependency_request \<Rightarrow> 'p pass \<Rightarrow> 'p pass" where
  "record_edge origin request s =
     (let target = dr_package request
      in s\<lparr>ps_requirements := (ps_requirements s)(target \<mapsto> requirements_of s target @
             [\<lparr>ro_requirement = dr_version request, ro_requester = origin\<rparr>]),
           ps_requested := om_update target requested_default
             (\<lambda>r. r\<lparr>rq_selected := os_extend (rq_selected r) (dr_features request),
                   rq_defaults := rq_defaults r \<or> dr_default_features request\<rparr>) (ps_requested s),
           ps_edges := (ps_edges s)(origin \<mapsto> or_empty (ps_edges s origin) @ [request]),
           ps_feature_queue := ps_feature_queue s @ [target],
           ps_package_queue := ps_package_queue s @ [target]\<rparr>)"

definition enqueue_dependency :: "package_name \<Rightarrow> dependency_request \<Rightarrow> 'p pass \<Rightarrow> 'e resolve_error + 'p pass" where
  "enqueue_dependency origin request s =
     res_bind (record_source request s) (\<lambda>s1. Inr (record_edge origin request s1))"

subsection \<open>Roots\<close>

definition seed_feature :: "summary \<Rightarrow> string \<Rightarrow> requested \<times> 'p pass \<Rightarrow> requested \<times> 'p pass" where
  "seed_feature sm entry rs =
     (case rs of (requested, s) \<Rightarrow>
        case split_once ''/'' entry of
          Some (label, feature) \<Rightarrow> (requested, forward sm label feature s)
        | None \<Rightarrow> (requested\<lparr>rq_selected := os_insert entry (rq_selected requested)\<rparr>, s))"

definition seed_dependencies :: "root_request \<Rightarrow> dependency_request list" where
  "seed_dependencies root =
     filter (\<lambda>d. (dr_kind d = Normal \<or> rr_include_dev root) \<and> \<not> dr_optional d)
       (su_dependencies (rr_summary root))"

definition root_name :: "root_request \<Rightarrow> package_name" where
  "root_name root = pi_name (su_id (rr_summary root))"

definition place_root :: "root_request \<Rightarrow> 'p pass \<Rightarrow> 'p pass" where
  "place_root root s =
     (let pid = su_id (rr_summary root)
      in s\<lparr>ps_root_ids := (ps_root_ids s)(root_name root \<mapsto> pid),
           ps_summaries := (ps_summaries s)(package_key pid \<mapsto> rr_summary root),
           ps_chosen := om_insert (root_name root) pid (ps_chosen s),
           ps_checksums := (ps_checksums s)(root_name root \<mapsto> None)\<rparr>)"

definition seed_features :: "root_request \<Rightarrow> 'p pass \<Rightarrow> 'p pass" where
  "seed_features root s =
     (case fold (seed_feature (rr_summary root)) (rr_features root)
        (requested_default\<lparr>rq_defaults := rr_default_features root\<rparr>, s) of
        (requested, s1) \<Rightarrow> s1\<lparr>ps_requested := om_insert (root_name root) requested (ps_requested s1),
                              ps_feature_queue := ps_feature_queue s1 @ [root_name root]\<rparr>)"

definition seed_root :: "root_request \<Rightarrow> 'p pass \<Rightarrow> 'e resolve_error + 'p pass" where
  "seed_root root s =
     try_fold (enqueue_dependency (root_name root)) (seed_dependencies root)
       (seed_features root (place_root root s))"

definition seed_pending :: "'p pass \<Rightarrow> 'p pass" where
  "seed_pending s =
     s\<lparr>ps_feature_queue := ps_feature_queue s @
       filter (\<lambda>name. map_of (ps_chosen s) name \<noteq> None) (map fst (ps_requested s))\<rparr>"

definition seed_roots :: "root_request list \<Rightarrow> 'p pass \<Rightarrow> 'e resolve_error + 'p pass" where
  "seed_roots roots s = res_bind (try_fold seed_root roots s) (\<lambda>s1. Inr (seed_pending s1))"

subsection \<open>Choosing versions\<close>

definition max_by :: "('a \<Rightarrow> 'a \<Rightarrow> ordering) \<Rightarrow> 'a list \<Rightarrow> 'a option" where
  "max_by cmp xs =
     (case xs of [] \<Rightarrow> None | x # ys \<Rightarrow> Some (fold (\<lambda>y best. if cmp best y = Greater then best else y) ys x))"

definition candidate_cmp :: "candidate \<Rightarrow> candidate \<Rightarrow> ordering" where
  "candidate_cmp l r = ord_then (version_cmp (pi_version (ca_id l)) (pi_version (ca_id r)))
     (str_cmp (source_render (pi_source (ca_id l))) (source_render (pi_source (ca_id r))))"

definition greatest :: "candidate list \<Rightarrow> requirement_origin list \<Rightarrow> (package_id \<times> checksum option) option" where
  "greatest candidates requirements =
     map_option (\<lambda>c. (ca_id c, ca_checksum c))
       (max_by candidate_cmp (filter (\<lambda>c. all_match requirements (pi_version (ca_id c))) candidates))"

definition select :: "candidate list \<Rightarrow> requirement_origin list \<Rightarrow> package_id option \<Rightarrow> checksum option \<Rightarrow>
    source_request \<Rightarrow> (package_id \<times> checksum option) option" where
  "select candidates requirements pin pin_checksum source =
     (case pin of
        Some pin \<Rightarrow>
          if satisfies (pi_source pin) source \<and> all_match requirements (pi_version pin) then
            (case List.find (\<lambda>c. package_eq (ca_id c) pin) candidates of
               Some c \<Rightarrow> Some (pin, ca_checksum c)
             | None \<Rightarrow> Some (pin, pin_checksum))
          else greatest candidates requirements
      | None \<Rightarrow> greatest candidates requirements)"

text \<open>Step 1: the queue is classified; lists grow at their ends.\<close>

fun classify :: "'p pass \<Rightarrow> package_name list \<Rightarrow> package_name list \<Rightarrow> package_name list \<Rightarrow>
    'e resolve_error + package_name list \<times> package_name list" where
  "classify s [] to_choose misses = Inr (to_choose, misses)"
| "classify s (name # queue) to_choose misses =
     (case ps_root_ids s name of
        Some root_id \<Rightarrow>
          if all_match (requirements_of s name) (pi_version root_id) then classify s queue to_choose misses
          else Inl (No_Matching_Version name (requirements_of s name))
      | None \<Rightarrow>
          if map_of (ps_chosen s) name \<noteq> None then classify s queue to_choose misses
          else case ps_representatives s name of
            None \<Rightarrow> classify s queue to_choose misses
          | Some request \<Rightarrow> classify s queue
              (if name \<in> set to_choose then to_choose else to_choose @ [name])
              (if ps_candidates s (dr_source request, name) = None \<and> name \<notin> set misses
               then misses @ [name] else misses))"

text \<open>Step 2: one call for the missing candidate lists.\<close>

definition store_candidates :: "package_name \<times> ('e + candidate list) \<Rightarrow> 'p pass \<Rightarrow> 'e resolve_error + 'p pass" where
  "store_candidates nr s =
     (case nr of (name, result) \<Rightarrow>
        let request = the (ps_representatives s name)
        in case result of
             Inl e \<Rightarrow> Inl (Provider_Error (''listing candidates for `'' @ dr_package request @ ''`'') e)
           | Inr fetched \<Rightarrow> Inr (s\<lparr>ps_candidates := (ps_candidates s)((dr_source request, name) \<mapsto> fetched)\<rparr>))"

definition fetch_candidates :: "('p, 'e) provider \<Rightarrow> setting \<Rightarrow> package_name list \<Rightarrow> 'p pass \<Rightarrow> 'e resolve_error + 'p pass" where
  "fetch_candidates P inp misses s =
     (if misses = [] then Inr s
      else case candidates_batch P (ps_provider s)
          (map (\<lambda>name. \<lparr>cr_request = the (ps_representatives s name), cr_locked = map_of (in_locked inp) name\<rparr>) misses) of
        (p, results) \<Rightarrow> try_fold store_candidates (zip misses results) (s\<lparr>ps_provider := p\<rparr>))"

text \<open>Step 3: choices are made one after the other.\<close>

definition choose_one :: "setting \<Rightarrow> package_name \<Rightarrow> package_id list \<times> 'p pass \<Rightarrow>
    'e resolve_error + package_id list \<times> 'p pass" where
  "choose_one inp name cs =
     (case cs of (chosen_ids, s) \<Rightarrow>
        if map_of (ps_chosen s) name \<noteq> None then Inr (chosen_ids, s)
        else
          let request = the (ps_representatives s name);
              requirements = requirements_of s name
          in case select (or_empty (ps_candidates s (dr_source request, name))) requirements
                 (map_of (in_pins inp) name)
                 (case map_of (in_locked inp) name of None \<Rightarrow> None | Some package \<Rightarrow> lp_checksum package)
                 (dr_source request) of
               None \<Rightarrow> Inl (No_Matching_Version name requirements)
             | Some (pid, checksum) \<Rightarrow> Inr (chosen_ids @ [pid],
                 s\<lparr>ps_chosen := om_insert name pid (ps_chosen s),
                   ps_checksums := (ps_checksums s)(name \<mapsto> checksum)\<rparr>))"

text \<open>Step 4: one call for the missing summaries.\<close>

definition store_summary :: "package_id \<times> ('e + summary) \<Rightarrow> 'p pass \<Rightarrow> 'e resolve_error + 'p pass" where
  "store_summary ir s =
     (case ir of (pid, result) \<Rightarrow>
        case result of
          Inl e \<Rightarrow> Inl (Provider_Error (''reading the summary of `'' @ render_edge pid @ ''`'') e)
        | Inr sm \<Rightarrow>
            if \<not> package_eq (su_id sm) pid then Inl (Summary_Mismatch pid (su_id sm))
            else Inr (s\<lparr>ps_summaries := (ps_summaries s)(package_key pid \<mapsto> sm)\<rparr>))"

definition fetch_summaries :: "('p, 'e) provider \<Rightarrow> package_id list \<Rightarrow> 'p pass \<Rightarrow> 'e resolve_error + 'p pass" where
  "fetch_summaries P chosen_ids s =
     (let missing = filter (\<lambda>pid. ps_summaries s (package_key pid) = None) chosen_ids
      in if missing = [] then Inr s
         else case summaries_batch P (ps_provider s) missing of
           (p, results) \<Rightarrow> try_fold store_summary (zip missing results) (s\<lparr>ps_provider := p\<rparr>))"

text \<open>Step 5: the edges of what was chosen.\<close>

definition transitive_dependencies :: "summary \<Rightarrow> dependency_request list" where
  "transitive_dependencies sm = filter (\<lambda>d. dr_kind d = Normal \<and> \<not> dr_optional d) (su_dependencies sm)"

definition discover :: "package_name \<Rightarrow> 'p pass \<Rightarrow> 'e resolve_error + 'p pass" where
  "discover name s =
     (if map_of (ps_chosen s) name = None then Inr s
      else try_fold (enqueue_dependency name)
        (case chosen_summary s name of None \<Rightarrow> [] | Some sm \<Rightarrow> transitive_dependencies sm)
        (s\<lparr>ps_feature_queue := ps_feature_queue s @ [name]\<rparr>))"

definition process_packages :: "('p, 'e) provider \<Rightarrow> setting \<Rightarrow> 'p pass \<Rightarrow> 'e resolve_error + 'p pass" where
  "process_packages P inp s =
     res_bind (classify s (ps_package_queue s) [] []) (\<lambda>(to_choose, misses).
     res_bind (fetch_candidates P inp misses (s\<lparr>ps_package_queue := []\<rparr>)) (\<lambda>s1.
     res_bind (try_fold (choose_one inp) to_choose ([], s1)) (\<lambda>(chosen_ids, s2).
     res_bind (fetch_summaries P chosen_ids s2) (\<lambda>s3.
       try_fold discover to_choose s3))))"

subsection \<open>Features\<close>

definition route :: "summary \<Rightarrow> package_name \<times> string list \<Rightarrow> 'p pass \<Rightarrow> 'p pass" where
  "route sm lf s =
     (case lf of (label, features) \<Rightarrow>
        case summary_dependency sm label of
          None \<Rightarrow> s
        | Some target \<Rightarrow>
            let before = (case map_of (ps_requested s) (dr_package target) of None \<Rightarrow> requested_default | Some r \<Rightarrow> r);
                after = before\<lparr>rq_forwarded := os_extend (rq_forwarded before) features\<rparr>
            in s\<lparr>ps_requested := om_insert (dr_package target) after (ps_requested s),
                 ps_feature_queue := ps_feature_queue s @
                   (if length (rq_forwarded after) > length (rq_forwarded before) then [dr_package target] else [])\<rparr>)"

definition activate :: "package_name \<Rightarrow> summary \<Rightarrow> string \<Rightarrow> 'p pass \<Rightarrow> 'e resolve_error + 'p pass" where
  "activate name sm label s =
     (case summary_dependency sm label of
        None \<Rightarrow> Inr s
      | Some dependency \<Rightarrow> enqueue_dependency name dependency s)"

definition newly_activated :: "expansion option \<Rightarrow> expansion \<Rightarrow> string list" where
  "newly_activated previous ex =
     filter (\<lambda>label. case previous of None \<Rightarrow> True | Some p \<Rightarrow> label \<notin> set (ex_activated p)) (ex_activated ex)"

definition expand_features :: "package_name \<Rightarrow> 'p pass \<Rightarrow> 'e resolve_error + 'p pass" where
  "expand_features name s =
     (case chosen_summary s name of None \<Rightarrow> Inr s | Some sm \<Rightarrow>
      case map_of (ps_requested s) name of None \<Rightarrow> Inr s | Some requested \<Rightarrow>
        let seed = os_extend (rq_selected requested) (rq_forwarded requested);
            ex = expand sm seed (rq_defaults requested);
            previous = ps_expanded s name
        in if previous = Some ex then Inr s
           else try_fold (activate name sm) (newly_activated previous ex)
             (fold (route sm) (ex_routes ex) (s\<lparr>ps_expanded := (ps_expanded s)(name \<mapsto> ex)\<rparr>)))"

subsection \<open>A pass\<close>

definition pass_step :: "('p, 'e) provider \<Rightarrow> setting \<Rightarrow> 'p pass \<Rightarrow> 'e resolve_error + 'p pass" where
  "pass_step P inp s =
     (if ps_package_queue s \<noteq> [] then process_packages P inp s
      else case ps_feature_queue s of
        [] \<Rightarrow> Inr s
      | name # rest \<Rightarrow> expand_features name (s\<lparr>ps_feature_queue := rest\<rparr>))"

definition pass_done :: "'p pass \<Rightarrow> bool" where
  "pass_done s \<longleftrightarrow> ps_package_queue s = [] \<and> ps_feature_queue s = []"

partial_function (option) pass_loop ::
    "('p, 'e) provider \<Rightarrow> setting \<Rightarrow> 'p pass \<Rightarrow> ('e resolve_error + 'p pass) option" where
  "pass_loop P inp s =
     (if pass_done s then Some (Inr s)
      else case pass_step P inp s of
        Inl e \<Rightarrow> Some (Inl e)
      | Inr s' \<Rightarrow> pass_loop P inp s')"

declare pass_loop.simps [code]

text \<open>The pin of one chosen package, from all the requirements the pass collected.\<close>

definition validate_one :: "'p pass \<Rightarrow> package_name \<times> package_id \<Rightarrow> package_id omap \<Rightarrow> 'e resolve_error + package_id omap" where
  "validate_one s ni pins =
     (case ni of (name, pid) \<Rightarrow>
        let requirements = requirements_of s name
        in if all_match requirements (pi_version pid) then Inr (om_insert name pid pins)
           else case ps_representatives s name of
             None \<Rightarrow> Inr (om_insert name pid pins)
           | Some request \<Rightarrow>
               (case ps_candidates s (dr_source request, name) of
                  None \<Rightarrow> Inl (No_Matching_Version name requirements)
                | Some candidates \<Rightarrow>
                    (case select candidates requirements None None (dr_source request) of
                       None \<Rightarrow> Inl (No_Matching_Version name requirements)
                     | Some (selected, _) \<Rightarrow> Inr (om_insert name selected pins))))"

definition validate :: "'p pass \<Rightarrow> 'e resolve_error + package_id omap" where
  "validate s = try_fold (validate_one s) (ps_chosen s) []"

record pass_outcome =
  oc_chosen :: "package_id omap"
  oc_checksums :: "package_name \<Rightarrow> checksum option option"
  oc_enabled :: "package_name \<Rightarrow> string list option"
  oc_activated :: "package_name \<Rightarrow> string list option"
  oc_edges :: "package_name \<Rightarrow> dependency_request list option"
  oc_pins :: "package_id omap"

definition outcome_of :: "'p pass \<Rightarrow> package_id omap \<Rightarrow> pass_outcome" where
  "outcome_of s pins =
     \<lparr>oc_chosen = ps_chosen s, oc_checksums = ps_checksums s,
      oc_enabled = (\<lambda>name. map_option ex_enabled (ps_expanded s name)),
      oc_activated = (\<lambda>name. map_option ex_activated (ps_expanded s name)),
      oc_edges = ps_edges s, oc_pins = pins\<rparr>"

definition pass_run :: "('p, 'e) provider \<Rightarrow> setting \<Rightarrow> 'p pass \<Rightarrow> ('e resolve_error + 'p pass \<times> pass_outcome) option" where
  "pass_run P inp s =
     (case seed_roots (in_roots inp) s of
        Inl e \<Rightarrow> Some (Inl e)
      | Inr s1 \<Rightarrow>
          map_option (\<lambda>r. res_bind r (\<lambda>s2. res_bind (validate s2) (\<lambda>pins. Inr (s2, outcome_of s2 pins))))
            (pass_loop P inp s1))"

subsection \<open>Rounds\<close>

record resolved_dependency =
  rd_name :: package_name
  rd_target :: package_id
  rd_kind :: dependency_kind

record resolved_package =
  rp_id :: package_id
  rp_package_checksum :: "checksum option"
  rp_features :: "string list"
  rp_activated :: "string list"
  rp_edges :: "resolved_dependency list"

record resolved_root =
  rt_id :: package_id
  rt_features :: "string list"
  rt_edges :: "resolved_dependency list"

record resolve_graph =
  rg_roots :: "resolved_root list"
  rg_packages :: "resolved_package list"
  rg_warnings :: "resolve_warning list"
  rg_fingerprint :: string

record 'p resolver =
  rs_provider :: 'p
  rs_max_rounds :: nat
  rs_candidates :: candidate_memo
  rs_summaries :: summary_memo

definition default_max_rounds :: nat where
  "default_max_rounds = 32"

definition resolver_new :: "'p \<Rightarrow> 'p resolver" where
  "resolver_new p = \<lparr>rs_provider = p, rs_max_rounds = default_max_rounds,
     rs_candidates = (\<lambda>_. None), rs_summaries = (\<lambda>_. None)\<rparr>"

definition with_max_rounds :: "nat \<Rightarrow> 'p resolver \<Rightarrow> 'p resolver" where
  "with_max_rounds rounds r = r\<lparr>rs_max_rounds := rounds\<rparr>"

definition edges_for :: "pass_outcome \<Rightarrow> package_name \<Rightarrow> resolved_dependency list" where
  "edges_for out name =
     sort_by (\<lambda>l r. str_cmp (rd_name l) (rd_name r))
       (List.map_filter (\<lambda>request.
          map_option (\<lambda>target. \<lparr>rd_name = dr_name request, rd_target = target, rd_kind = dr_kind request\<rparr>)
            (map_of (oc_chosen out) (dr_package request)))
        (or_empty (oc_edges out name)))"

definition graph_package :: "resolve_graph \<Rightarrow> package_name \<Rightarrow> resolved_package option" where
  "graph_package graph name = List.find (\<lambda>package. pi_name (rp_id package) = name) (rg_packages graph)"

definition graph_lockfile :: "resolved_package list \<Rightarrow> lockfile" where
  "graph_lockfile packages =
     \<lparr>lf_version = lock_version,
      lf_packages = map (\<lambda>package. \<lparr>lp_id = rp_id package, lp_checksum = rp_package_checksum package,
        lp_dependencies = fold (bs_insert package_cmp) (map rd_target (rp_edges package)) []\<rparr>) packages\<rparr>"

definition hex_lower_byte :: "8 word \<Rightarrow> string" where
  "hex_lower_byte b = map (\<lambda>d. if d < 10 then char_of (48 + d) else char_of (87 + d)) [unat b div 16, unat b mod 16]"

text \<open>The SHA-256 of the text is a parameter.\<close>

definition fingerprint_of :: "(string \<Rightarrow> 8 word list) \<Rightarrow> string \<Rightarrow> string" where
  "fingerprint_of sha256 s = concat (map hex_lower_byte (sha256 s))"

definition unused_warnings :: "resolved_package list \<Rightarrow> lockfile option \<Rightarrow> resolve_warning list" where
  "unused_warnings packages lock =
     (case lock of None \<Rightarrow> []
      | Some l \<Rightarrow> map (\<lambda>package. Unused_Lock_Entry (render_edge (lp_id package)))
          (filter (\<lambda>package. \<not> list_ex (\<lambda>p. package_eq (rp_id p) (lp_id package)) packages) (lf_packages l)))"

definition assemble_packages :: "root_request list \<Rightarrow> pass_outcome \<Rightarrow> resolved_package list" where
  "assemble_packages roots out =
     sort_by (\<lambda>l r. package_cmp (rp_id l) (rp_id r))
       (map (\<lambda>(name, pid). \<lparr>rp_id = pid,
            rp_package_checksum = (case oc_checksums out name of Some c \<Rightarrow> c | None \<Rightarrow> None),
            rp_features = or_empty (oc_enabled out name),
            rp_activated = or_empty (oc_activated out name),
            rp_edges = edges_for out name\<rparr>)
          (filter (\<lambda>(name, _). name \<notin> root_name ` set roots) (oc_chosen out)))"

definition assemble :: "(string \<Rightarrow> 8 word list) \<Rightarrow> root_request list \<Rightarrow> pass_outcome \<Rightarrow> lockfile option \<Rightarrow> resolve_graph" where
  "assemble sha256 roots out lock =
     (let packages = assemble_packages roots out
      in \<lparr>rg_roots = map (\<lambda>root. \<lparr>rt_id = su_id (rr_summary root),
             rt_features = or_empty (oc_enabled out (root_name root)),
             rt_edges = edges_for out (root_name root)\<rparr>) roots,
          rg_packages = packages,
          rg_warnings = unused_warnings packages lock,
          rg_fingerprint = fingerprint_of sha256 (lock_render (graph_lockfile packages))\<rparr>)"

text \<open>Equality of ordered maps of packages: entry by entry.\<close>

definition pins_eq :: "package_id omap \<Rightarrow> package_id omap \<Rightarrow> bool" where
  "pins_eq a b = list_all2 (\<lambda>(k, p) (l, q). k = l \<and> package_eq p q) a b"

text \<open>The loop over the rounds: it counts down from the budget.\<close>

fun resolve_rounds :: "nat \<Rightarrow> ('p, 'e) provider \<Rightarrow> root_request list \<Rightarrow> locked_package omap \<Rightarrow>
    'p resolver \<Rightarrow> package_id omap \<Rightarrow> ('e resolve_error + 'p resolver \<times> pass_outcome) option" where
  "resolve_rounds 0 P roots locked r pins = Some (Inl (Not_Converged (rs_max_rounds r)))"
| "resolve_rounds (Suc n) P roots locked r pins =
     (case pass_run P \<lparr>in_roots = roots, in_locked = locked, in_pins = pins\<rparr>
         (pass_new (rs_provider r) (rs_candidates r) (rs_summaries r)) of
        None \<Rightarrow> None
      | Some (Inl e) \<Rightarrow> Some (Inl e)
      | Some (Inr (s, out)) \<Rightarrow>
          let r' = r\<lparr>rs_provider := ps_provider s, rs_candidates := ps_candidates s, rs_summaries := ps_summaries s\<rparr>
          in if pins_eq (oc_pins out) pins then Some (Inr (r', out))
             else resolve_rounds n P roots locked r' (oc_pins out))"

definition locked_map :: "lockfile option \<Rightarrow> locked_package omap" where
  "locked_map lock =
     (case lock of None \<Rightarrow> []
      | Some l \<Rightarrow> fold (\<lambda>package. om_insert (pi_name (lp_id package)) package) (lf_packages l) [])"

definition initial_pins :: "locked_package omap \<Rightarrow> package_id omap" where
  "initial_pins locked = map (\<lambda>(name, package). (name, lp_id package)) locked"

definition resolve :: "(string \<Rightarrow> 8 word list) \<Rightarrow> ('p, 'e) provider \<Rightarrow> root_request list \<Rightarrow> lockfile option \<Rightarrow>
    'p resolver \<Rightarrow> ('e resolve_error + 'p resolver \<times> resolve_graph) option" where
  "resolve sha256 P roots lock r =
     (let locked = locked_map lock
      in map_option (\<lambda>res. res_bind res (\<lambda>(r', out). Inr (r', assemble sha256 roots out lock)))
           (resolve_rounds (rs_max_rounds r) P roots locked r (initial_pins locked)))"

end
