(* ===== verification/Resolve_Wiring.thy ===== *)
theory Resolve_Wiring
  imports Resolve
begin

text \<open>
  What every pass keeps: each recorded edge has its target chosen or queued, its requirement
  recorded, and its source agreed with every other edge to the same name.
\<close>

subsection \<open>What an edge changes\<close>

definition edges_of :: "'p pass \<Rightarrow> package_name \<Rightarrow> dependency_request list" where
  "edges_of s name = or_empty (ps_edges s name)"

definition chosen_names :: "'p pass \<Rightarrow> package_name set" where
  "chosen_names s = dom (map_of (ps_chosen s))"

lemma or_empty_simps [simp]: "or_empty None = []" "or_empty (Some xs) = xs"
  by (simp_all add: or_empty_def)

lemma record_edge_fields [simp]:
  "ps_provider (record_edge o1 d s) = ps_provider s"
  "ps_candidates (record_edge o1 d s) = ps_candidates s"
  "ps_summaries (record_edge o1 d s) = ps_summaries s"
  "ps_root_ids (record_edge o1 d s) = ps_root_ids s"
  "ps_representatives (record_edge o1 d s) = ps_representatives s"
  "ps_sources (record_edge o1 d s) = ps_sources s"
  "ps_chosen (record_edge o1 d s) = ps_chosen s"
  "ps_expanded (record_edge o1 d s) = ps_expanded s"
  "ps_package_queue (record_edge o1 d s) = ps_package_queue s @ [dr_package d]"
  "ps_feature_queue (record_edge o1 d s) = ps_feature_queue s @ [dr_package d]"
  "requirements_of (record_edge o1 d s) n = requirements_of s n @
     (if n = dr_package d then [\<lparr>ro_requirement = dr_version d, ro_requester = o1\<rparr>] else [])"
  "edges_of (record_edge o1 d s) n = edges_of s n @ (if n = o1 then [d] else [])"
  "chosen_summary (record_edge o1 d s) n = chosen_summary s n"
  "chosen_names (record_edge o1 d s) = chosen_names s"
  by (simp_all add: record_edge_def requirements_of_def edges_of_def chosen_summary_def chosen_names_def Let_def
      split: option.split)

lemma new_source_fields [simp]:
  "requirements_of (s\<lparr>ps_sources := a, ps_representatives := b\<rparr>) n = requirements_of s n"
  "edges_of (s\<lparr>ps_sources := a, ps_representatives := b\<rparr>) n = edges_of s n"
  "chosen_summary (s\<lparr>ps_sources := a, ps_representatives := b\<rparr>) n = chosen_summary s n"
  "chosen_names (s\<lparr>ps_sources := a, ps_representatives := b\<rparr>) = chosen_names s"
  by (simp_all add: requirements_of_def edges_of_def chosen_summary_def chosen_names_def split: option.split)

lemma enqueueE:
  assumes "enqueue_dependency o1 d s = Inr s'"
  obtains (known) "ps_sources s (dr_package d) = Some (dr_source d)" "s' = record_edge o1 d s"
  | (new) "ps_sources s (dr_package d) = None"
      "s' = record_edge o1 d (s\<lparr>ps_sources := (ps_sources s)(dr_package d \<mapsto> dr_source d),
         ps_representatives := (ps_representatives s)(dr_package d \<mapsto> d)\<rparr>)"
  using assms by (auto simp: enqueue_dependency_def record_source_def split: option.splits if_splits)

lemma enqueue_fields:
  assumes "enqueue_dependency o1 d s = Inr s'"
  shows "ps_candidates s' = ps_candidates s" "ps_summaries s' = ps_summaries s"
    "ps_root_ids s' = ps_root_ids s" "ps_chosen s' = ps_chosen s" "ps_expanded s' = ps_expanded s"
    "ps_package_queue s' = ps_package_queue s @ [dr_package d]"
    "ps_feature_queue s' = ps_feature_queue s @ [dr_package d]"
    "requirements_of s' n = requirements_of s n @
       (if n = dr_package d then [\<lparr>ro_requirement = dr_version d, ro_requester = o1\<rparr>] else [])"
    "edges_of s' n = edges_of s n @ (if n = o1 then [d] else [])"
    "chosen_summary s' n = chosen_summary s n" "chosen_names s' = chosen_names s"
  using assms by (cases rule: enqueueE; simp)+

text \<open>Operations that leave the wiring of the graph as it is.\<close>

definition same_wiring :: "'p pass \<Rightarrow> 'p pass \<Rightarrow> bool" where
  "same_wiring s s' \<longleftrightarrow>
     ps_root_ids s' = ps_root_ids s \<and> ps_representatives s' = ps_representatives s \<and>
     ps_sources s' = ps_sources s \<and> ps_requirements s' = ps_requirements s \<and> ps_edges s' = ps_edges s \<and>
     ps_chosen s' = ps_chosen s \<and> ps_package_queue s' = ps_package_queue s"

lemma same_wiring_refl: "same_wiring s s"
  by (simp add: same_wiring_def)

lemma same_wiring_trans: "same_wiring s t \<Longrightarrow> same_wiring t u \<Longrightarrow> same_wiring s u"
  by (simp add: same_wiring_def)

lemma store_candidates_wiring: "store_candidates nr s = Inr s' \<Longrightarrow> same_wiring s s'"
  by (auto simp: store_candidates_def same_wiring_def Let_def split: prod.splits sum.splits)

lemma store_summary_wiring: "store_summary ir s = Inr s' \<Longrightarrow> same_wiring s s'"
  by (auto simp: store_summary_def same_wiring_def split: prod.splits sum.splits if_splits)

lemma try_fold_wiring:
  assumes "\<And>x t t'. f x t = Inr t' \<Longrightarrow> same_wiring t t'" "try_fold f xs s = Inr s'"
  shows "same_wiring s s'"
  using assms(2) by (rule try_fold_invariant) (auto intro: same_wiring_refl same_wiring_trans assms(1))

lemma stores_wiring:
  "try_fold store_candidates crs s = Inr s' \<Longrightarrow> same_wiring s s'"
  "try_fold store_summary srs s = Inr s' \<Longrightarrow> same_wiring s s'"
  by (rule try_fold_wiring, erule store_candidates_wiring, assumption)
    (rule try_fold_wiring, erule store_summary_wiring, assumption)

lemma provider_wiring: "same_wiring s (s\<lparr>ps_provider := p\<rparr>)"
  by (simp add: same_wiring_def)

lemma fetch_candidates_wiring: "fetch_candidates P inp ms s = Inr s' \<Longrightarrow> same_wiring s s'"
  by (auto intro: stores_wiring(1) same_wiring_trans [OF provider_wiring] simp: fetch_candidates_def same_wiring_refl split: if_splits prod.splits)

lemma fetch_summaries_wiring: "fetch_summaries P ids s = Inr s' \<Longrightarrow> same_wiring s s'"
  by (auto intro: stores_wiring(2) same_wiring_trans [OF provider_wiring] simp: fetch_summaries_def Let_def same_wiring_refl split: if_splits prod.splits)

lemma forward_wiring: "same_wiring s (forward sm label feature s)"
  by (simp add: forward_def same_wiring_def split: option.split)

lemma seed_feature_wiring: "same_wiring s (snd (fold (seed_feature sm) es (r, s)))"
proof (induction es arbitrary: r s)
  case (Cons e es)
  obtain r' s1 where step: "seed_feature sm e (r, s) = (r', s1)" by (rule prod.exhaust)
  then have "same_wiring s s1"
    using forward_wiring by (auto simp: seed_feature_def same_wiring_refl split: option.splits prod.splits)
  then show ?case using Cons.IH [of s1 r'] same_wiring_trans by (auto simp: step)
qed (simp add: same_wiring_refl)

lemma seed_features_wiring: "same_wiring s (seed_features root s)"
  using seed_feature_wiring [of s "rr_summary root" "rr_features root" "requested_default\<lparr>rq_defaults := rr_default_features root\<rparr>"]
  by (auto simp: seed_features_def same_wiring_def split: prod.splits)

lemma route_wiring: "same_wiring s (route sm lf s)"
  by (simp add: route_def same_wiring_def Let_def split: prod.split option.split)

lemma routes_wiring: "same_wiring s (fold (route sm) lfs s)"
  by (induction lfs arbitrary: s) (auto intro: same_wiring_refl same_wiring_trans route_wiring)

subsection \<open>Wired states\<close>

text \<open>\<open>Q\<close> are names taken off the queue that are still to be chosen.\<close>

definition edge_wired :: "package_name set \<Rightarrow> 'p pass \<Rightarrow> package_name \<Rightarrow> dependency_request \<Rightarrow> bool" where
  "edge_wired Q s o1 d \<longleftrightarrow>
     o1 \<in> chosen_names s \<and> dr_package d \<in> chosen_names s \<union> set (ps_package_queue s) \<union> Q \<and>
     ps_sources s (dr_package d) = Some (dr_source d) \<and>
     \<lparr>ro_requirement = dr_version d, ro_requester = o1\<rparr> \<in> set (requirements_of s (dr_package d))"

definition wired :: "package_name set \<Rightarrow> 'p pass \<Rightarrow> bool" where
  "wired Q s \<longleftrightarrow>
     (\<forall>o1. \<forall>d\<in>set (edges_of s o1). edge_wired Q s o1 d) \<and>
     (\<forall>n. ps_sources s n = map_option dr_source (ps_representatives s n)) \<and>
     (\<forall>n\<in>set (ps_package_queue s) \<union> Q. ps_representatives s n \<noteq> None)"

lemma same_wiring_views:
  assumes "same_wiring s s'"
  shows "edges_of s' = edges_of s" "requirements_of s' = requirements_of s" "chosen_names s' = chosen_names s"
  using assms by (auto simp: same_wiring_def edges_of_def requirements_of_def chosen_names_def)

lemma wired_mono:
  assumes "wired Q s" "\<And>n. n \<in> set (ps_package_queue s) \<union> Q \<Longrightarrow> n \<in> set (ps_package_queue s') \<union> Q' \<or> n \<in> chosen_names s'"
    "chosen_names s \<subseteq> chosen_names s'" "\<And>n. edges_of s' n = edges_of s n"
    "\<And>n. requirements_of s' n = requirements_of s n"
    "ps_sources s' = ps_sources s" "ps_representatives s' = ps_representatives s"
    "set (ps_package_queue s') \<union> Q' \<subseteq> set (ps_package_queue s) \<union> Q"
  shows "wired Q' s'"
  unfolding wired_def
proof (intro conjI allI ballI)
  fix o1 d assume "d \<in> set (edges_of s' o1)"
  then have "edge_wired Q s o1 d" using assms(1,4) by (simp add: wired_def)
  then show "edge_wired Q' s' o1 d"
    using assms(2) [of "dr_package d"] assms(3,5,6) by (auto simp: edge_wired_def)
qed (use assms in \<open>auto simp: wired_def\<close>)

lemma wired_same:
  assumes "wired Q s" "same_wiring s s'"
  shows "wired Q s'"
proof -
  have f: "ps_representatives s' = ps_representatives s" "ps_sources s' = ps_sources s"
    "ps_package_queue s' = ps_package_queue s" using assms(2) by (simp_all add: same_wiring_def)
  show ?thesis
    by (rule wired_mono [OF assms(1)]) (simp_all add: same_wiring_views [OF assms(2)] f)
qed

lemma wired_enqueue:
  assumes w: "wired Q s" and o1: "o1 \<in> chosen_names s" and e: "enqueue_dependency o1 d s = Inr s'"
  shows "wired Q s'"
  using e
proof (cases rule: enqueueE)
  case known
  then have "ps_representatives s (dr_package d) \<noteq> None"
    using w by (auto simp: wired_def)
  then show ?thesis
    using w o1 known(1) unfolding known(2) by (auto simp: wired_def edge_wired_def)
next
  case new
  have none: "ps_representatives s (dr_package d) = None" using w new(1) by (simp add: wired_def)
  have "edge_wired Q s' o2 c" if "c \<in> set (edges_of s o2)" for o2 c
  proof -
    have "edge_wired Q s o2 c" using w that by (simp add: wired_def)
    then show ?thesis using new(1) unfolding new(2) by (auto simp: edge_wired_def)
  qed
  moreover have "edge_wired Q s' o1 d" using o1 unfolding new(2) by (simp add: edge_wired_def)
  ultimately show ?thesis using w none unfolding wired_def by (auto simp: new(2))
qed

lemma enqueues_chosen: "try_fold (enqueue_dependency o1) ds s = Inr s' \<Longrightarrow> chosen_names s' = chosen_names s"
  by (erule try_fold_invariant [where I = "\<lambda>t. chosen_names t = chosen_names s"]) (auto dest: enqueue_fields)

lemma wired_enqueues:
  assumes "wired Q s" "o1 \<in> chosen_names s" "try_fold (enqueue_dependency o1) ds s = Inr s'"
  shows "wired Q s'"
proof -
  have "wired Q s' \<and> o1 \<in> chosen_names s'"
    using assms(3) by (rule try_fold_invariant) (use assms(1,2) wired_enqueue enqueue_fields(11) in \<open>blast+\<close>)
  then show ?thesis by simp
qed

text \<open>Choosing adds names and changes nothing else of the wiring.\<close>

lemma choose_oneE:
  assumes "choose_one inp name (ids, s) = Inr (ids', s')"
  obtains (known) "name \<in> chosen_names s" "ids' = ids" "s' = s"
  | (chosen) pid checksum where "name \<notin> chosen_names s" "ids' = ids @ [pid]"
      "select (or_empty (ps_candidates s (dr_source (the (ps_representatives s name)), name)))
         (requirements_of s name) (map_of (in_pins inp) name)
         (case map_of (in_locked inp) name of None \<Rightarrow> None | Some package \<Rightarrow> lp_checksum package)
         (dr_source (the (ps_representatives s name))) = Some (pid, checksum)"
      "s' = s\<lparr>ps_chosen := om_insert name pid (ps_chosen s), ps_checksums := (ps_checksums s)(name \<mapsto> checksum)\<rparr>"
proof (cases "name \<in> chosen_names s")
  case True
  then show thesis using assms by (intro known) (auto simp: choose_one_def chosen_names_def)
next
  case False
  then have none: "map_of (ps_chosen s) name = None" by (auto simp: chosen_names_def)
  let ?r = "the (ps_representatives s name)"
  show thesis
  proof (cases "select (or_empty (ps_candidates s (dr_source ?r, name)))
      (requirements_of s name) (map_of (in_pins inp) name)
      (case map_of (in_locked inp) name of None \<Rightarrow> None | Some package \<Rightarrow> lp_checksum package) (dr_source ?r)")
    case None
    then show thesis using assms none by (simp add: choose_one_def Let_def)
  next
    case (Some pc)
    then show thesis
      using assms none False by (cases pc) (intro chosen, auto simp: choose_one_def Let_def)
  qed
qed

lemma choice_fields [simp]:
  "edges_of (s\<lparr>ps_chosen := a, ps_checksums := b\<rparr>) n = edges_of s n"
  "requirements_of (s\<lparr>ps_chosen := a, ps_checksums := b\<rparr>) n = requirements_of s n"
  by (simp_all add: edges_of_def requirements_of_def)

lemma choose_fields:
  assumes "choose_one inp name (ids, s) = Inr (ids', s')"
  shows "edges_of s' n = edges_of s n \<and> requirements_of s' n = requirements_of s n \<and>
    ps_sources s' = ps_sources s \<and> ps_representatives s' = ps_representatives s \<and>
    ps_package_queue s' = ps_package_queue s \<and> ps_root_ids s' = ps_root_ids s \<and>
    ps_candidates s' = ps_candidates s \<and> ps_summaries s' = ps_summaries s \<and>
    ps_requested s' = ps_requested s \<and> ps_expanded s' = ps_expanded s \<and>
    ps_feature_queue s' = ps_feature_queue s"
  using assms
proof (cases rule: choose_oneE)
  case known
  then show ?thesis by simp
next
  case chosen
  show ?thesis unfolding chosen(4) by simp
qed

lemma choose_names:
  assumes "choose_one inp name (ids, s) = Inr (ids', s')"
  shows "chosen_names s' = insert name (chosen_names s)"
  using assms
proof (cases rule: choose_oneE)
  case known
  then show ?thesis by (simp add: insert_absorb)
next
  case chosen
  show ?thesis unfolding chosen(4) by (simp add: chosen_names_def)
qed

lemma choose_wired:
  assumes "try_fold (choose_one inp) names (ids, s) = (Inr (ids', s') :: 'e resolve_error + _)" "wired Q s"
  shows "wired Q s' \<and> chosen_names s' = chosen_names s \<union> set names \<and> ps_package_queue s' = ps_package_queue s"
  using assms
proof (induction names arbitrary: ids s)
  case (Cons name names)
  obtain ids1 s1 where c: "choose_one inp name (ids, s) = (Inr (ids1, s1) :: 'e resolve_error + _)"
    "try_fold (choose_one inp) names (ids1, s1) = (Inr (ids', s') :: 'e resolve_error + _)"
    using Cons.prems(1) by (auto simp: res_bind_Inr)
  have "wired Q s1"
    by (rule wired_mono [OF Cons.prems(2)]) (auto simp: choose_fields [OF c(1)] choose_names [OF c(1)])
  then show ?case using Cons.IH [OF c(2)] by (auto simp: choose_fields [OF c(1)] choose_names [OF c(1)])
qed simp

lemma classify_step:
  assumes "classify s (n # queue) cs ms = (Inr r :: 'e resolve_error + _)"
  obtains cs1 ms1 where "classify s queue cs1 ms1 = (Inr r :: 'e resolve_error + _)"
    "cs1 = cs \<and> (n \<in> chosen_names s \<or> ps_root_ids s n \<noteq> None \<or> ps_representatives s n = None) \<or>
     set cs1 = insert n (set cs) \<and> n \<notin> chosen_names s \<and> ps_root_ids s n = None"
    "\<forall>pid. ps_root_ids s n = Some pid \<longrightarrow> all_match (requirements_of s n) (pi_version pid)"
proof (cases "ps_root_ids s n")
  case (Some pid)
  then show thesis using assms that by (simp split: if_splits)
next
  case None
  show thesis
  proof (cases "n \<in> chosen_names s \<or> ps_representatives s n = None")
    case True
    then have "classify s queue cs ms = (Inr r :: 'e resolve_error + _)"
      using assms None by (auto simp: chosen_names_def split: if_splits option.splits)
    then show thesis by (rule that) (use True None in auto)
  next
    case False
    then obtain request where "ps_representatives s n = Some request" by auto
    then have "classify s queue (if n \<in> set cs then cs else cs @ [n])
        (if ps_candidates s (dr_source request, n) = None \<and> n \<notin> set ms then ms @ [n] else ms) = (Inr r :: 'e resolve_error + _)"
      using assms None False by (auto simp: chosen_names_def split: if_splits)
    then show thesis by (rule that) (use False None in auto)
  qed
qed

lemma classify_spec:
  "classify s queue cs ms = (Inr (cs', ms') :: 'e resolve_error + _) \<Longrightarrow>
     set cs \<subseteq> set cs' \<and> set cs' \<subseteq> set cs \<union> set queue \<and>
     (\<forall>n\<in>set queue. n \<in> chosen_names s \<or> ps_root_ids s n \<noteq> None \<or> ps_representatives s n = None \<or> n \<in> set cs') \<and>
     (\<forall>n\<in>set cs'. n \<in> set cs \<or> n \<notin> chosen_names s \<and> ps_root_ids s n = None) \<and>
     (\<forall>n\<in>set queue. \<forall>pid. ps_root_ids s n = Some pid \<longrightarrow> all_match (requirements_of s n) (pi_version pid))"
proof (induction queue arbitrary: cs ms)
  case (Cons n queue)
  from Cons.prems show ?case
  proof (rule classify_step)
    fix cs1 ms1 assume "classify s queue cs1 ms1 = (Inr (cs', ms') :: 'e resolve_error + _)"
    note Cons.IH [OF this]
    moreover assume "cs1 = cs \<and> (n \<in> chosen_names s \<or> ps_root_ids s n \<noteq> None \<or> ps_representatives s n = None) \<or>
       set cs1 = insert n (set cs) \<and> n \<notin> chosen_names s \<and> ps_root_ids s n = None"
      "\<forall>pid. ps_root_ids s n = Some pid \<longrightarrow> all_match (requirements_of s n) (pi_version pid)"
    ultimately show ?thesis by auto
  qed
qed simp

subsection \<open>Roots\<close>

text \<open>A root is its own choice, and its version is checked against the requirements on it.\<close>

definition rooted :: "'p pass \<Rightarrow> bool" where
  "rooted s \<longleftrightarrow> (\<forall>n pid. ps_root_ids s n = Some pid \<longrightarrow>
     map_of (ps_chosen s) n = Some pid \<and>
     (n \<in> set (ps_package_queue s) \<or> all_match (requirements_of s n) (pi_version pid)))"

definition wiring :: "'p pass \<Rightarrow> bool" where
  "wiring s \<longleftrightarrow> wired {} s \<and> rooted s"

lemma rooted_same: "rooted s \<Longrightarrow> same_wiring s s' \<Longrightarrow> rooted s'"
  by (simp add: rooted_def same_wiring_def requirements_of_def)

lemma rooted_enqueue:
  assumes "rooted s" "enqueue_dependency o1 d s = Inr s'"
  shows "rooted s'"
  unfolding rooted_def
proof (intro allI impI)
  fix n pid assume "ps_root_ids s' n = Some pid"
  then show "map_of (ps_chosen s') n = Some pid \<and>
      (n \<in> set (ps_package_queue s') \<or> all_match (requirements_of s' n) (pi_version pid))"
    using assms(1) by (auto simp: rooted_def enqueue_fields [OF assms(2)])
qed

lemma wiring_enqueues:
  assumes "wiring s" "o1 \<in> chosen_names s" "try_fold (enqueue_dependency o1) ds s = Inr s'"
  shows "wiring s'"
proof -
  have "rooted s'"
    using assms(3) by (rule try_fold_invariant) (use assms(1) rooted_enqueue in \<open>auto simp: wiring_def\<close>)
  then show ?thesis using wired_enqueues [OF _ assms(2,3)] assms(1) by (simp add: wiring_def)
qed

lemma wiring_same: "wiring s \<Longrightarrow> same_wiring s s' \<Longrightarrow> wiring s'"
  by (auto simp: wiring_def intro: wired_same rooted_same)

lemma rooted_choose:
  assumes "rooted s" "choose_one inp name (ids, s) = Inr (ids', s')"
  shows "rooted s'"
  using assms(2)
proof (cases rule: choose_oneE)
  case known
  then show ?thesis using assms(1) by simp
next
  case chosen
  have "ps_root_ids s name = None" using assms(1) chosen(1) by (auto simp: rooted_def chosen_names_def)
  then show ?thesis using assms(1) unfolding chosen(4) by (auto simp: rooted_def)
qed

lemma rooted_chooses: "try_fold (choose_one inp) names (ids, s) = Inr (ids', s') \<Longrightarrow> rooted s \<Longrightarrow> rooted s'"
  by (drule try_fold_invariant [where I = "\<lambda>(_, t). rooted t"]) (auto intro: rooted_choose)

subsection \<open>A pass keeps its wiring\<close>

lemma process_packagesE:
  assumes "process_packages P inp s = (Inr s' :: 'e resolve_error + _)"
  obtains cs ms s1 ids s2 s3 where
    "classify s (ps_package_queue s) [] [] = (Inr (cs, ms) :: 'e resolve_error + _)"
    "fetch_candidates P inp ms (s\<lparr>ps_package_queue := []\<rparr>) = Inr s1"
    "try_fold (choose_one inp) cs ([], s1) = (Inr (ids, s2) :: 'e resolve_error + _)"
    "fetch_summaries P ids s2 = Inr s3"
    "try_fold discover cs s3 = (Inr s' :: 'e resolve_error + _)"
  using assms by (auto simp: process_packages_def res_bind_Inr)

lemma discover_wiring:
  assumes "discover name s = Inr s'" "wiring s"
  shows "wiring s'"
proof (cases "map_of (ps_chosen s) name")
  case None
  then show ?thesis using assms by (simp add: discover_def)
next
  case (Some pid)
  let ?t = "s\<lparr>ps_feature_queue := ps_feature_queue s @ [name]\<rparr>"
  have "same_wiring s ?t" by (simp add: same_wiring_def)
  then have "wiring ?t" using assms(2) by (rule wiring_same [rotated])
  moreover have "name \<in> chosen_names ?t" using Some by (auto simp: chosen_names_def)
  ultimately show ?thesis
    using assms(1) Some wiring_enqueues by (fastforce simp: discover_def)
qed

lemma discovers_wiring: "try_fold discover names s = Inr s' \<Longrightarrow> wiring s \<Longrightarrow> wiring s'"
  by (erule try_fold_invariant) (auto intro: discover_wiring)

lemma classified_wired:
  assumes w: "wiring s" and c: "classify s (ps_package_queue s) [] [] = (Inr (cs, ms) :: 'e resolve_error + _)"
  shows "wired (set cs) (s\<lparr>ps_package_queue := []\<rparr>)" "rooted (s\<lparr>ps_package_queue := []\<rparr>)"
proof -
  let ?t = "s\<lparr>ps_package_queue := []\<rparr>"
  have same: "edges_of ?t n = edges_of s n" "requirements_of ?t n = requirements_of s n" "chosen_names ?t = chosen_names s" for n
    by (simp_all add: edges_of_def requirements_of_def chosen_names_def)
  note spec = classify_spec [OF c]
  have chosen: "n \<in> chosen_names s" if "ps_root_ids s n \<noteq> None" for n
    using w that by (auto simp: wiring_def rooted_def chosen_names_def)
  have left: "n \<in> set cs \<or> n \<in> chosen_names s" if "n \<in> set (ps_package_queue s)" for n
  proof -
    have "ps_representatives s n \<noteq> None" using w that unfolding wiring_def wired_def by blast
    moreover have "n \<in> chosen_names s \<or> ps_root_ids s n \<noteq> None \<or> ps_representatives s n = None \<or> n \<in> set cs"
      using spec that by simp
    ultimately show ?thesis using chosen [of n] by argo
  qed
  have sub: "set cs \<subseteq> set (ps_package_queue s)" using spec by simp
  have "wired {} s" using w by (simp add: wiring_def)
  then show "wired (set cs) ?t"
    by (rule wired_mono) (use left sub in \<open>simp_all add: same\<close>)
  show "rooted ?t"
    unfolding rooted_def
  proof (intro allI impI)
    fix n pid assume "ps_root_ids ?t n = Some pid"
    then have r: "ps_root_ids s n = Some pid" by simp
    then have "map_of (ps_chosen s) n = Some pid"
      "n \<in> set (ps_package_queue s) \<or> all_match (requirements_of s n) (pi_version pid)"
      using w by (simp_all add: wiring_def rooted_def)
    then show "map_of (ps_chosen ?t) n = Some pid \<and>
        (n \<in> set (ps_package_queue ?t) \<or> all_match (requirements_of ?t n) (pi_version pid))"
      using spec r by (auto simp: same)
  qed
qed

lemma process_packages_wiring:
  assumes "wiring s" "process_packages P inp s = (Inr s' :: 'e resolve_error + _)"
  shows "wiring s'"
  using assms(2)
proof (cases rule: process_packagesE)
  case (1 cs ms s1 ids s2 s3)
  note classified = classified_wired [OF assms(1) 1(1)]
  have w1: "wired (set cs) s1" "rooted s1"
    using fetch_candidates_wiring [OF 1(2)] wired_same [OF classified(1)] rooted_same [OF classified(2)] by blast+
  have w2: "wired (set cs) s2 \<and> chosen_names s2 = chosen_names s1 \<union> set cs \<and> ps_package_queue s2 = ps_package_queue s1"
    using choose_wired [OF 1(3) w1(1)] by simp
  then have "wired {} s2" by (rule_tac wired_mono [of "set cs" s2]) auto
  moreover have "rooted s2" using rooted_chooses [OF 1(3)] w1(2) by simp
  ultimately have "wiring s3" using wiring_same fetch_summaries_wiring [OF 1(4)] by (auto simp: wiring_def)
  then show ?thesis by (rule discovers_wiring [OF 1(5)])
qed

lemma expand_featuresE:
  assumes "expand_features name s = (Inr s' :: 'e resolve_error + _)"
  obtains (same) "s' = s"
    "\<And>sm r. chosen_summary s name = Some sm \<Longrightarrow> map_of (ps_requested s) name = Some r \<Longrightarrow>
       ps_expanded s name = Some (expand sm (os_extend (rq_selected r) (rq_forwarded r)) (rq_defaults r))"
  | (grown) sm r ex where "chosen_summary s name = Some sm" "map_of (ps_requested s) name = Some r"
      "ex = expand sm (os_extend (rq_selected r) (rq_forwarded r)) (rq_defaults r)" "ps_expanded s name \<noteq> Some ex"
      "try_fold (activate name sm) (newly_activated (ps_expanded s name) ex)
         (fold (route sm) (ex_routes ex) (s\<lparr>ps_expanded := (ps_expanded s)(name \<mapsto> ex)\<rparr>)) = (Inr s' :: 'e resolve_error + _)"
proof (cases "chosen_summary s name")
  case None
  then show thesis using assms by (intro same) (simp_all add: expand_features_def)
next
  case sm: (Some sm)
  show thesis
  proof (cases "map_of (ps_requested s) name")
    case None
    then show thesis using assms sm by (intro same) (simp_all add: expand_features_def)
  next
    case (Some r)
    let ?ex = "expand sm (os_extend (rq_selected r) (rq_forwarded r)) (rq_defaults r)"
    show thesis
    proof (cases "ps_expanded s name = Some ?ex")
      case True
      then show thesis using assms sm Some by (intro same) (simp_all add: expand_features_def)
    next
      case False
      then show thesis
        using assms sm Some by (intro grown [OF sm Some refl]) (simp_all add: expand_features_def Let_def)
    qed
  qed
qed

text \<open>The edges of activated dependencies, whatever the invariant.\<close>

lemma activates_invariant:
  assumes "try_fold (activate name sm) ls s = (Inr s' :: 'e resolve_error + _)" "I s"
    and step: "\<And>t t' l d. I t \<Longrightarrow> l \<in> set ls \<Longrightarrow> summary_dependency sm l = Some d \<Longrightarrow>
      enqueue_dependency name d t = (Inr t' :: 'e resolve_error + _) \<Longrightarrow> I t'"
  shows "I s'"
  using assms(1,2)
proof (rule try_fold_invariant)
  fix l t t' assume "l \<in> set ls" "I t" "activate name sm l t = (Inr t' :: 'e resolve_error + _)"
  then show "I t'" using step by (cases "summary_dependency sm l") (auto simp: activate_def)
qed

lemma chosen_summary_chosen: "chosen_summary s name = Some sm \<Longrightarrow> name \<in> chosen_names s"
  by (auto simp: chosen_summary_def chosen_names_def split: option.splits)

lemma wiring_enqueue:
  "wiring s \<Longrightarrow> o1 \<in> chosen_names s \<Longrightarrow> enqueue_dependency o1 d s = (Inr s' :: 'e resolve_error + _) \<Longrightarrow>
     wiring s' \<and> o1 \<in> chosen_names s'"
  using wired_enqueue rooted_enqueue enqueue_fields(11) unfolding wiring_def by metis

lemma expand_features_wiring:
  assumes "expand_features name s = (Inr s' :: 'e resolve_error + _)" "wiring s"
  shows "wiring s'"
  using assms(1)
proof (cases rule: expand_featuresE)
  case same
  then show ?thesis using assms by simp
next
  case (grown sm r ex)
  let ?t = "fold (route sm) (ex_routes ex) (s\<lparr>ps_expanded := (ps_expanded s)(name \<mapsto> ex)\<rparr>)"
  have t: "same_wiring s ?t" by (rule same_wiring_trans [OF _ routes_wiring]) (simp add: same_wiring_def)
  have "wiring ?t \<and> name \<in> chosen_names ?t"
    using wiring_same [OF assms(2) t] chosen_summary_chosen [OF grown(1)] same_wiring_views(3) [OF t] by simp
  then have "wiring s' \<and> name \<in> chosen_names s'"
    by (rule activates_invariant [OF grown(5)]) (use wiring_enqueue in blast)
  then show ?thesis by simp
qed

lemma pass_step_wiring: "pass_step P inp s = Inr s' \<Longrightarrow> wiring s \<Longrightarrow> wiring s'"
proof -
  assume s: "pass_step P inp s = Inr s'" "wiring s"
  show ?thesis
  proof (cases "ps_package_queue s = []")
    case False
    then show ?thesis using s process_packages_wiring by (simp add: pass_step_def)
  next
    case True
    show ?thesis
    proof (cases "ps_feature_queue s")
      case Nil
      then show ?thesis using s True by (simp add: pass_step_def)
    next
      case (Cons n rest)
      have "same_wiring s (s\<lparr>ps_feature_queue := rest\<rparr>)" by (simp add: same_wiring_def)
      then have "wiring (s\<lparr>ps_feature_queue := rest\<rparr>)" using s(2) by (rule wiring_same [rotated])
      then show ?thesis using s(1) True Cons expand_features_wiring by (simp add: pass_step_def)
    qed
  qed
qed

lemma pass_loop_invariant:
  fixes P :: "('p, 'e) provider"
  assumes "pass_loop P inp s = Some (Inr s')" "I s"
    and step: "\<And>t t'. I t \<Longrightarrow> \<not> pass_done t \<Longrightarrow> pass_step P inp t = Inr t' \<Longrightarrow> I t'"
  shows "I s' \<and> pass_done s'"
proof -
  define G where "G = (\<lambda>((P', inp'), t) r. P' = P \<longrightarrow> inp' = inp \<longrightarrow>
     (\<forall>u. r = (Inr u :: 'e resolve_error + 'p pass) \<longrightarrow> I t \<longrightarrow> I u \<and> pass_done u))"
  have "G ((P, inp), s) (Inr s')"
  proof (rule pass_loop.raw_induct [OF _ assms(1)])
    fix loop :: "('p, 'e) provider \<Rightarrow> setting \<Rightarrow> 'p pass \<Rightarrow> ('e resolve_error + 'p pass) option" and P' :: "('p, 'e) provider" and inp' t r
    assume IH: "\<And>P'' inp'' t' r'. loop P'' inp'' t' = Some r' \<Longrightarrow> G ((P'', inp''), t') r'"
      and eq: "(if pass_done t then Some (Inr t)
        else case pass_step P' inp' t of Inl e \<Rightarrow> Some (Inl e) | Inr x \<Rightarrow> loop P' inp' x) = Some r"
    show "G ((P', inp'), t) r"
    proof (cases "pass_done t")
      case True
      then show ?thesis using eq by (auto simp: G_def)
    next
      case False
      show ?thesis
      proof (cases "pass_step P' inp' t")
        case (Inl e)
        then show ?thesis using eq False by (auto simp: G_def)
      next
        case (Inr x)
        then have "G ((P', inp'), x) r" using IH eq False by simp
        then show ?thesis using step [OF _ False, of x] Inr by (auto simp: G_def)
      qed
    qed
  qed
  then show ?thesis using assms(2) by (simp add: G_def)
qed

subsection \<open>Seeding\<close>

definition seeding :: "'p pass \<Rightarrow> bool" where
  "seeding s \<longleftrightarrow> wiring s \<and> (\<forall>n. requirements_of s n \<noteq> [] \<longrightarrow> n \<in> set (ps_package_queue s))"

lemma seeding_place_root:
  assumes "seeding s"
  shows "seeding (place_root root s)"
proof -
  let ?t = "place_root root s"
  have f: "edges_of ?t n = edges_of s n" "requirements_of ?t n = requirements_of s n" "ps_sources ?t = ps_sources s"
    "ps_representatives ?t = ps_representatives s" "ps_package_queue ?t = ps_package_queue s"
    "chosen_names ?t = insert (root_name root) (chosen_names s)"
    "ps_root_ids ?t = (ps_root_ids s)(root_name root \<mapsto> su_id (rr_summary root))"
    "map_of (ps_chosen ?t) = (map_of (ps_chosen s))(root_name root \<mapsto> su_id (rr_summary root))" for n
    by (simp_all add: place_root_def Let_def edges_of_def requirements_of_def chosen_names_def)
  have "wired {} s" "rooted s" using assms by (simp_all add: seeding_def wiring_def)
  then have "wired {} ?t" by (rule_tac wired_mono) (auto simp: f)
  moreover have "root_name root \<in> set (ps_package_queue s) \<or> requirements_of s (root_name root) = []"
    using assms by (auto simp: seeding_def)
  then have "rooted ?t"
    using \<open>rooted s\<close> by (auto simp: rooted_def f all_match_def)
  ultimately show ?thesis using assms by (simp add: seeding_def wiring_def f)
qed

lemma seeding_enqueues:
  assumes "seeding s" "o1 \<in> chosen_names s" "try_fold (enqueue_dependency o1) ds s = Inr s'"
  shows "seeding s'"
proof -
  have "\<forall>n. requirements_of s' n \<noteq> [] \<longrightarrow> n \<in> set (ps_package_queue s')"
    using assms(3) by (rule try_fold_invariant) (use assms(1) in \<open>auto simp: seeding_def enqueue_fields split: if_splits\<close>)
  then show ?thesis using wiring_enqueues [OF _ assms(2,3)] assms(1) by (simp add: seeding_def)
qed

lemma seeding_same: "seeding s \<Longrightarrow> same_wiring s s' \<Longrightarrow> seeding s'"
  using wiring_same same_wiring_views(2) by (fastforce simp: seeding_def same_wiring_def)

lemma seeding_seed_root:
  assumes "seeding s" "seed_root root s = Inr s'"
  shows "seeding s'"
proof -
  let ?t = "seed_features root (place_root root s)"
  have "seeding ?t" by (rule seeding_same [OF seeding_place_root [OF assms(1)] seed_features_wiring])
  moreover have "root_name root \<in> chosen_names ?t"
    using same_wiring_views(3) [OF seed_features_wiring [of "place_root root s" root]]
    by (simp add: place_root_def Let_def chosen_names_def)
  ultimately show ?thesis using assms(2) seeding_enqueues unfolding seed_root_def by blast
qed

lemma seed_roots_wiring:
  assumes "seed_roots roots s = (Inr s' :: 'e resolve_error + _)" "seeding s"
  shows "wiring s'"
proof -
  obtain t where t: "try_fold seed_root roots s = (Inr t :: 'e resolve_error + _)" "s' = seed_pending t"
    using assms(1) by (auto simp: seed_roots_def res_bind_Inr)
  have "seeding t" using t(1) by (rule try_fold_invariant) (use assms(2) seeding_seed_root in auto)
  moreover have "same_wiring t s'" by (simp add: t(2) same_wiring_def seed_pending_def)
  ultimately show ?thesis using wiring_same by (auto simp: seeding_def)
qed

lemma pass_new_seeding: "seeding (pass_new p c m)"
  by (simp add: seeding_def wiring_def wired_def rooted_def pass_new_def edges_of_def requirements_of_def chosen_names_def)

text \<open>An invariant of the steps, on top of the wiring, holds at the end of a run.\<close>

lemma pass_runE:
  assumes "pass_run P inp s0 = Some (Inr (s, out))"
  obtains s1 where "seed_roots (in_roots inp) s0 = (Inr s1 :: 'e resolve_error + _)"
    "pass_loop P inp s1 = Some (Inr s :: 'e resolve_error + _)" "validate s = (Inr (oc_pins out) :: 'e resolve_error + _)"
    "out = outcome_of s (oc_pins out)"
proof (cases "seed_roots (in_roots inp) s0 :: 'e resolve_error + _")
  case (Inl e)
  then show thesis using assms by (simp add: pass_run_def)
next
  case (Inr s1)
  then obtain r where r: "pass_loop P inp s1 = Some r"
    "res_bind r (\<lambda>s2. res_bind (validate s2) (\<lambda>pins. Inr (s2, outcome_of s2 pins))) = (Inr (s, out) :: 'e resolve_error + _)"
    using assms by (auto simp: pass_run_def)
  then obtain pins where "r = Inr s" "validate s = (Inr pins :: 'e resolve_error + _)" "out = outcome_of s pins"
    by (auto simp: res_bind_Inr)
  then show thesis using that [OF Inr] r(1) by (simp add: outcome_of_def)
qed

lemma pass_run_wiring:
  assumes "pass_run P inp (pass_new p c m) = Some (Inr (s, out))"
  shows "wiring s \<and> pass_done s"
  using assms
proof (cases rule: pass_runE)
  case (1 s1)
  have "wiring s1" using seed_roots_wiring [OF 1(1) pass_new_seeding] by simp
  then show ?thesis using pass_loop_invariant [OF 1(2), of wiring] pass_step_wiring by blast
qed

end
