(* ===== verification/Resolve_Sample.thy ===== *)
theory Resolve_Sample
  imports Resolve
begin

text \<open>
  A small registry and a workspace to run the resolver on: the root \<open>r\<close> needs exactly version 1 of
  \<open>a\<close> with the feature \<open>x\<close>, which activates the optional dependency \<open>b\<close>. Every package has the
  versions 1 and 2.
\<close>

definition sample_version :: "string \<Rightarrow> version" where
  "sample_version v = \<lparr>v_raw = v, v_items = [V_Number v]\<rparr>"

definition sample_id :: "string \<Rightarrow> string \<Rightarrow> package_id" where
  "sample_id n v = \<lparr>pi_name = n, pi_version = sample_version v, pi_source = Src_Registry ''central''\<rparr>"

definition sample_request :: "string \<Rightarrow> req_kind \<Rightarrow> string list \<Rightarrow> bool \<Rightarrow> dependency_request" where
  "sample_request n req features optional =
     \<lparr>dr_name = n, dr_package = n, dr_source = Req_Registry ''central'',
      dr_version = \<lparr>vq_raw = ''*'', vq_kind = req\<rparr>, dr_features = features, dr_default_features = False,
      dr_optional = optional, dr_kind = Normal\<rparr>"

definition sample_summary :: "package_id \<Rightarrow> summary" where
  "sample_summary pid = \<lparr>su_id = pid,
     su_dependencies =
       (if pi_name pid = ''r'' then [sample_request ''a'' (Rk_Exact (sample_version ''1'')) [''x''] False]
        else if pi_name pid = ''a'' then [sample_request ''b'' Rk_Any [] True] else []),
     su_features = (if pi_name pid = ''a'' then [(''x'', [Dependency ''b''])] else [])\<rparr>"

definition sample_provider :: "(unit, unit) provider" where
  "sample_provider = \<lparr>candidates_batch = (\<lambda>_ requests. ((), map (\<lambda>r.
       Inr (if dr_source (cr_request r) = Req_Registry ''central''
          then map (\<lambda>v. \<lparr>ca_id = sample_id (dr_package (cr_request r)) v, ca_checksum = None\<rparr>) [''1'', ''2'']
          else [])) requests)),
     summaries_batch = (\<lambda>_ ids. ((), map (\<lambda>pid. Inr (sample_summary pid)) ids))\<rparr>"

definition sample_root :: root_request where
  "sample_root = root_request_new (sample_summary (sample_id ''r'' ''1''))"

definition sample_setting :: "setting" where
  "sample_setting = \<lparr>in_roots = [sample_root], in_locked = [], in_pins = []\<rparr>"

definition sample_pass :: "unit pass" where
  "sample_pass = pass_new () (\<lambda>_. None) (\<lambda>_. None)"

definition chosen_versions :: "pass_outcome \<Rightarrow> (string \<times> string) list" where
  "chosen_versions out = map (\<lambda>(n, pid). (n, v_raw (pi_version pid))) (oc_chosen out)"

lemma chosen_version:
  assumes "chosen_versions out = vs" "map_of vs n = Some v"
  obtains pid where "map_of (oc_chosen out) n = Some pid" "v_raw (pi_version pid) = v"
proof -
  have "map_of vs n = map_option (\<lambda>pid. v_raw (pi_version pid)) (map_of (oc_chosen out) n)"
    unfolding assms(1) [symmetric] chosen_versions_def by (simp add: map_of_map)
  then show thesis using that assms(2) by (cases "map_of (oc_chosen out) n") auto
qed

lemma sample_run:
  obtains s out where "pass_run sample_provider sample_setting sample_pass = Some (Inr (s, out))"
    "chosen_versions out = [(''a'', ''1''), (''b'', ''2''), (''r'', ''1'')]"
proof -
  have "case pass_run sample_provider sample_setting sample_pass of
      Some (Inr (s, out)) \<Rightarrow> chosen_versions out = [(''a'', ''1''), (''b'', ''2''), (''r'', ''1'')] | _ \<Rightarrow> False"
    by code_simp
  then show thesis using that by (auto split: option.splits sum.splits)
qed

lemma sample_resolution:
  obtains r out where "resolve_rounds 2 sample_provider [sample_root] [] (resolver_new ()) [] = Some (Inr (r, out))"
    "chosen_versions out = [(''a'', ''1''), (''b'', ''2''), (''r'', ''1'')]"
proof -
  have "case resolve_rounds 2 sample_provider [sample_root] [] (resolver_new ()) [] of
      Some (Inr (r, out)) \<Rightarrow> chosen_versions out = [(''a'', ''1''), (''b'', ''2''), (''r'', ''1'')] | _ \<Rightarrow> False"
    by code_simp
  then show thesis using that by (auto split: option.splits sum.splits)
qed

text \<open>Seeding a root replaces what earlier roots requested of it: the features of a member depend on
  the order of the roots.\<close>

definition member_summary :: "string \<Rightarrow> summary" where
  "member_summary n = \<lparr>su_id = \<lparr>pi_name = n, pi_version = sample_version ''1'', pi_source = Src_Workspace n\<rparr>,
     su_dependencies = (if n = ''a'' then [(sample_request ''b'' Rk_Any [''x''] False)\<lparr>dr_source := Req_Workspace ''b''\<rparr>] else []),
     su_features = (if n = ''b'' then [(''x'', [])] else [])\<rparr>"

definition members_run :: "string list \<Rightarrow> (unit resolve_error + unit pass \<times> pass_outcome) option" where
  "members_run names = pass_run sample_provider
     \<lparr>in_roots = map (\<lambda>n. root_request_new (member_summary n)) names, in_locked = [], in_pins = []\<rparr> sample_pass"

lemma root_order_loses_features:
  "map_option (map_sum (\<lambda>_. ()) (\<lambda>(_, out). oc_enabled out ''b'')) (members_run [''b'', ''a'']) = Some (Inr (Some [''x'']))"
  "map_option (map_sum (\<lambda>_. ()) (\<lambda>(_, out). oc_enabled out ''b'')) (members_run [''a'', ''b'']) = Some (Inr (Some []))"
  by code_simp+
end
