(* ===== verification/Resolve_Choice.thy ===== *)
theory Resolve_Choice
  imports Resolve_Wiring Resolve_Sample
begin

text \<open>
  Which version a pass chooses, and why a resolution that has converged satisfies every requirement:
  a pin is kept as long as it satisfies what is known of its package, so a choice that later
  requirements contradict is replaced by another pin, and the next round differs.
\<close>

subsection \<open>What is assumed of the provider\<close>

text \<open>Every version of the program comes from \<open>Version::parse\<close>, which normalizes its items.\<close>

definition normal_id :: "package_id \<Rightarrow> bool" where
  "normal_id pid \<longleftrightarrow> normal (v_items (pi_version pid))"

definition candidate_ok :: "source_request \<Rightarrow> candidate \<Rightarrow> bool" where
  "candidate_ok source c \<longleftrightarrow> satisfies (pi_source (ca_id c)) source \<and> normal_id (ca_id c)"

text \<open>A provider lists candidates of the source it was asked for.\<close>

definition provider_ok :: "('p, 'e) provider \<Rightarrow> bool" where
  "provider_ok P \<longleftrightarrow> (\<forall>p requests. \<forall>(request, result) \<in> set (zip requests (snd (candidates_batch P p requests))).
     \<forall>candidates. result = Inr candidates \<longrightarrow> list_all (candidate_ok (dr_source (cr_request request))) candidates)"

definition memo_ok :: "candidate_memo \<Rightarrow> bool" where
  "memo_ok memo \<longleftrightarrow> (\<forall>source name candidates. memo (source, name) = Some candidates \<longrightarrow>
     list_all (candidate_ok source) candidates)"

subsection \<open>The choice of one package\<close>

lemma max_by_in: "max_by cmp xs = Some x \<Longrightarrow> x \<in> set xs"
proof -
  have "fold (\<lambda>y best. if cmp best y = Greater then best else y) ys x \<in> insert x (set ys)" for x ys
    by (induction ys arbitrary: x) (simp, fastforce)
  then show "max_by cmp xs = Some x \<Longrightarrow> x \<in> set xs" by (cases xs) (fastforce simp: max_by_def)+
qed

lemma greatest_in:
  assumes "greatest candidates requirements = Some (pid, checksum)"
  obtains c where "c \<in> set candidates" "ca_id c = pid" "all_match requirements (pi_version pid)"
  using assms max_by_in [of candidate_cmp] by (fastforce simp: greatest_def)

lemma select_cases:
  assumes "select candidates requirements pin pin_checksum source = Some (pid, checksum)"
  obtains (pinned) "pin = Some pid" "satisfies (pi_source pid) source" "all_match requirements (pi_version pid)"
  | (listed) c where "c \<in> set candidates" "ca_id c = pid" "all_match requirements (pi_version pid)"
      "\<And>q. pin = Some q \<Longrightarrow> \<not> (satisfies (pi_source q) source \<and> all_match requirements (pi_version q))"
proof (cases "\<exists>q. pin = Some q \<and> satisfies (pi_source q) source \<and> all_match requirements (pi_version q)")
  case True
  then show thesis using assms by (auto simp: select_def intro!: pinned split: option.splits)
next
  case False
  then have "greatest candidates requirements = Some (pid, checksum)"
    using assms by (auto simp: select_def split: option.splits if_splits)
  then show thesis using False by (elim greatest_in) (rule listed, auto)
qed

text \<open>The rule a choice obeys for as long as requirements are added.\<close>

definition well_chosen :: "setting \<Rightarrow> 'p pass \<Rightarrow> package_name \<Rightarrow> package_id \<Rightarrow> bool" where
  "well_chosen inp s n pid \<longleftrightarrow> (\<exists>request. ps_representatives s n = Some request \<and>
     satisfies (pi_source pid) (dr_source request) \<and>
     (\<forall>pin. map_of (in_pins inp) n = Some pin \<longrightarrow> satisfies (pi_source pin) (dr_source request) \<longrightarrow>
        all_match (requirements_of s n) (pi_version pin) \<longrightarrow> pid = pin))"

definition is_root :: "root_request \<Rightarrow> package_name \<Rightarrow> package_id \<Rightarrow> bool" where
  "is_root root n pid \<longleftrightarrow> root_name root = n \<and> su_id (rr_summary root) = pid"

definition choices :: "setting \<Rightarrow> 'p pass \<Rightarrow> bool" where
  "choices inp s \<longleftrightarrow> memo_ok (ps_candidates s) \<and> in_order (map fst (ps_chosen s)) \<and>
     (\<forall>n pid. ps_root_ids s n = Some pid \<longrightarrow> (\<exists>root\<in>set (in_roots inp). is_root root n pid)) \<and>
     (\<forall>n pid. map_of (ps_chosen s) n = Some pid \<longrightarrow>
        normal_id pid \<and> (ps_root_ids s n = None \<longrightarrow> well_chosen inp s n pid))"

definition pins_normal :: "package_id omap \<Rightarrow> bool" where
  "pins_normal pins \<longleftrightarrow> (\<forall>n pin. map_of pins n = Some pin \<longrightarrow> normal_id pin)"

subsection \<open>A pass keeps its choices\<close>

lemma all_match_subset: "set rs \<subseteq> set rs' \<Longrightarrow> all_match rs' v \<Longrightarrow> all_match rs v"
  by (auto simp: all_match_def list_all_iff)

lemma choices_mono:
  assumes c: "choices inp s" and same: "ps_chosen s' = ps_chosen s" "ps_root_ids s' = ps_root_ids s"
    and memo: "memo_ok (ps_candidates s')"
    and rep: "\<And>n request. ps_representatives s n = Some request \<Longrightarrow> ps_representatives s' n = Some request"
    and reqs: "\<And>n. set (requirements_of s n) \<subseteq> set (requirements_of s' n)"
  shows "choices inp s'"
proof -
  have "well_chosen inp s' n pid" if "well_chosen inp s n pid" for n pid
    using that rep all_match_subset [OF reqs] unfolding well_chosen_def by blast
  then show ?thesis using c memo by (simp add: choices_def same)
qed

lemma choices_same: "choices inp s \<Longrightarrow> same_wiring s s' \<Longrightarrow> memo_ok (ps_candidates s') \<Longrightarrow> choices inp s'"
  by (erule choices_mono) (auto simp: same_wiring_def requirements_of_def)

lemma choices_enqueue:
  assumes "choices inp s" "wired Q s" "enqueue_dependency o1 d s = Inr s'"
  shows "choices inp s'"
proof -
  have "ps_representatives s' n = Some request" if "ps_representatives s n = Some request" for n request
    using assms(3)
  proof (cases rule: enqueueE)
    case known
    then show ?thesis using that by simp
  next
    case new
    have "ps_sources s n = Some (dr_source request)"
      using assms(2) that unfolding wired_def by simp
    then show ?thesis using that new(1) unfolding new(2) by auto
  qed
  moreover have "memo_ok (ps_candidates s')"
    using assms(1) by (simp add: enqueue_fields [OF assms(3)] choices_def)
  ultimately show ?thesis
    using assms(1) by (elim choices_mono) (auto simp: enqueue_fields [OF assms(3)])
qed

lemma choices_enqueues:
  assumes "choices inp s" "wiring s" "o1 \<in> chosen_names s" "try_fold (enqueue_dependency o1) ds s = (Inr s' :: 'e resolve_error + _)"
  shows "choices inp s'"
proof -
  have "choices inp s' \<and> wired {} s' \<and> o1 \<in> chosen_names s'"
  proof (rule try_fold_invariant [OF assms(4), of "\<lambda>t. choices inp t \<and> wired {} t \<and> o1 \<in> chosen_names t"])
    fix d and t t' :: "'a pass"
    assume "choices inp t \<and> wired {} t \<and> o1 \<in> chosen_names t"
      and e: "enqueue_dependency o1 d t = (Inr t' :: 'e resolve_error + _)"
    then show "choices inp t' \<and> wired {} t' \<and> o1 \<in> chosen_names t'"
      using choices_enqueue [OF _ _ e] wired_enqueue [OF _ _ e] enqueue_fields(11) [OF e] by auto
  qed (use assms in \<open>simp add: wiring_def\<close>)
  then show ?thesis by simp
qed

lemma choices_choose:
  assumes c: "choices inp s" and w: "wired Q s" "name \<in> Q" and p: "pins_normal (in_pins inp)"
    and e: "choose_one inp name (ids, s) = Inr (ids', s')"
  shows "choices inp s'"
  using e
proof (cases rule: choose_oneE)
  case known
  then show ?thesis using c by simp
next
  case (chosen pid checksum)
  obtain request where r: "ps_representatives s name = Some request"
    using w unfolding wired_def by blast
  have memo: "\<forall>x\<in>set (or_empty (ps_candidates s (dr_source request, name))). candidate_ok (dr_source request) x"
    using c by (cases "ps_candidates s (dr_source request, name)") (auto simp: choices_def memo_ok_def list_all_iff)
  have sel: "select (or_empty (ps_candidates s (dr_source request, name))) (requirements_of s name)
      (map_of (in_pins inp) name)
      (case map_of (in_locked inp) name of None \<Rightarrow> None | Some package \<Rightarrow> lp_checksum package)
      (dr_source request) = Some (pid, checksum)"
    using chosen(3) by (simp add: r)
  have "satisfies (pi_source pid) (dr_source request) \<and> normal_id pid \<and>
      (\<forall>pin. map_of (in_pins inp) name = Some pin \<longrightarrow> satisfies (pi_source pin) (dr_source request) \<longrightarrow>
         all_match (requirements_of s name) (pi_version pin) \<longrightarrow> pid = pin)"
    using sel
  proof (cases rule: select_cases)
    case pinned
    then show ?thesis using p by (simp add: pins_normal_def)
  next
    case (listed x)
    then show ?thesis using memo by (auto simp: candidate_ok_def)
  qed
  then show ?thesis
    using c r unfolding chosen(4) by (simp add: choices_def well_chosen_def in_order_om_insert)
qed

lemma choices_chooses:
  assumes "try_fold (choose_one inp) names (ids, s) = (Inr (ids', s') :: 'e resolve_error + _)"
    "choices inp s" "wired Q s" "set names \<subseteq> Q" "pins_normal (in_pins inp)"
  shows "choices inp s'"
  using assms(1-4)
proof (induction names arbitrary: ids s)
  case (Cons name names)
  obtain ids1 s1 where c: "choose_one inp name (ids, s) = (Inr (ids1, s1) :: 'e resolve_error + _)"
    "try_fold (choose_one inp) names (ids1, s1) = (Inr (ids', s') :: 'e resolve_error + _)"
    using Cons.prems(1) by (auto simp: res_bind_Inr)
  have "wired Q s1"
    by (rule wired_mono [OF Cons.prems(3)]) (auto simp: choose_fields [OF c(1)] choose_names [OF c(1)])
  moreover have "choices inp s1"
    using choices_choose [OF Cons.prems(2,3) _ assms(5) c(1)] Cons.prems(4) by simp
  ultimately show ?case using Cons.IH [OF c(2)] Cons.prems(4) by simp
qed simp

lemma fetch_candidates_memo:
  assumes "provider_ok P" "memo_ok (ps_candidates s)" "fetch_candidates P inp ms s = (Inr s' :: 'e resolve_error + _)"
  shows "memo_ok (ps_candidates s')"
proof (cases "ms = []")
  case True
  then show ?thesis using assms by (simp add: fetch_candidates_def)
next
  case False
  let ?req = "\<lambda>name. \<lparr>cr_request = the (ps_representatives s name), cr_locked = map_of (in_locked inp) name\<rparr>"
  obtain p results where b: "candidates_batch P (ps_provider s) (map ?req ms) = (p, results)" by (rule prod.exhaust)
  have "try_fold store_candidates (zip ms results) (s\<lparr>ps_provider := p\<rparr>) = (Inr s' :: 'e resolve_error + _)"
    using assms(3) False b by (simp add: fetch_candidates_def)
  then have "memo_ok (ps_candidates s') \<and> ps_representatives s' = ps_representatives s"
  proof (rule try_fold_invariant)
    fix nr and t t' :: "'a pass"
    assume nr: "nr \<in> set (zip ms results)" and t: "memo_ok (ps_candidates t) \<and> ps_representatives t = ps_representatives s"
      and e: "store_candidates nr t = (Inr t' :: 'e resolve_error + _)"
    obtain name fetched where f: "nr = (name, Inr fetched)"
      "t' = t\<lparr>ps_candidates := (ps_candidates t)((dr_source (the (ps_representatives t name)), name) \<mapsto> fetched)\<rparr>"
      using e by (auto simp: store_candidates_def Let_def split: prod.splits sum.splits)
    have "(?req name, Inr fetched) \<in> (\<lambda>(x, y). (?req x, y)) ` set (zip ms results)"
      using nr f(1) by (auto intro: rev_image_eqI)
    then have "(?req name, Inr fetched) \<in> set (zip (map ?req ms) (snd (candidates_batch P (ps_provider s) (map ?req ms))))"
      by (simp add: b zip_map1)
    then have "list_all (candidate_ok (dr_source (cr_request (?req name)))) fetched"
      using assms(1) unfolding provider_ok_def by fastforce
    then show "memo_ok (ps_candidates t') \<and> ps_representatives t' = ps_representatives s"
      using t unfolding f(2) by (simp add: memo_ok_def)
  qed (use assms(2) in simp)
  then show ?thesis by simp
qed

lemma fetch_summaries_memo: "fetch_summaries P ids s = (Inr s' :: 'e resolve_error + _) \<Longrightarrow> ps_candidates s' = ps_candidates s"
proof -
  have store: "ps_candidates t = ps_candidates u" if "try_fold store_summary irs u = (Inr t :: 'e resolve_error + _)" for irs and t u :: "'p pass"
    using that by (rule try_fold_invariant) (auto simp: store_summary_def split: prod.splits sum.splits if_splits)
  show "fetch_summaries P ids s = (Inr s' :: 'e resolve_error + _) \<Longrightarrow> ps_candidates s' = ps_candidates s"
    by (auto simp: fetch_summaries_def Let_def dest: store split: if_splits prod.splits)
qed

lemma choices_discovers:
  assumes "try_fold discover names s = (Inr s' :: 'e resolve_error + _)" "wiring s" "choices inp s"
  shows "choices inp s'"
proof -
  have "wiring s' \<and> choices inp s'"
  proof (rule try_fold_invariant [OF assms(1), of "\<lambda>t. wiring t \<and> choices inp t"])
    fix name and t t' :: "'a pass"
    assume t: "wiring t \<and> choices inp t" and e: "discover name t = (Inr t' :: 'e resolve_error + _)"
    have "choices inp t'"
    proof (cases "map_of (ps_chosen t) name")
      case None
      then show ?thesis using t e by (simp add: discover_def)
    next
      case (Some pid)
      let ?u = "t\<lparr>ps_feature_queue := ps_feature_queue t @ [name]\<rparr>"
      have same: "same_wiring t ?u" by (simp add: same_wiring_def)
      have "choices inp ?u" "wiring ?u"
        using t choices_same [OF _ same] wiring_same [OF _ same] by (simp_all add: choices_def)
      moreover have "name \<in> chosen_names ?u" using Some by (auto simp: chosen_names_def)
      ultimately show ?thesis using e Some choices_enqueues by (fastforce simp: discover_def)
    qed
    then show "wiring t' \<and> choices inp t'" using t discover_wiring [OF e] by simp
  qed (use assms in simp)
  then show ?thesis by simp
qed

lemma process_packages_choices:
  assumes "wiring s" "choices inp s" "provider_ok P" "pins_normal (in_pins inp)"
    "process_packages P inp s = (Inr s' :: 'e resolve_error + _)"
  shows "choices inp s'"
  using assms(5)
proof (cases rule: process_packagesE)
  case (1 cs ms s1 ids s2 s3)
  let ?t = "s\<lparr>ps_package_queue := []\<rparr>"
  note classified = classified_wired [OF assms(1) 1(1)]
  have c0: "choices inp ?t"
    using assms(2) choices_mono [OF assms(2), of ?t] by (simp add: choices_def requirements_of_def)
  have "memo_ok (ps_candidates s1)"
    using fetch_candidates_memo [OF assms(3) _ 1(2)] assms(2) by (simp add: choices_def)
  then have c1: "choices inp s1" by (rule choices_same [OF c0 fetch_candidates_wiring [OF 1(2)]])
  have w1: "wired (set cs) s1" "rooted s1"
    using fetch_candidates_wiring [OF 1(2)] wired_same [OF classified(1)] rooted_same [OF classified(2)] by blast+
  have c2: "choices inp s2" using choices_chooses [OF 1(3) c1 w1(1) _ assms(4)] by simp
  have "wired (set cs) s2 \<and> chosen_names s2 = chosen_names s1 \<union> set cs"
    using choose_wired [OF 1(3) w1(1)] by simp
  then have "wired {} s2" by (rule_tac wired_mono [of "set cs" s2]) auto
  moreover have "rooted s2" using rooted_chooses [OF 1(3)] w1(2) by simp
  ultimately have "wiring s3" using wiring_same fetch_summaries_wiring [OF 1(4)] by (auto simp: wiring_def)
  moreover have "choices inp s3"
    using choices_same [OF c2 fetch_summaries_wiring [OF 1(4)]] c2 fetch_summaries_memo [OF 1(4)] by (simp add: choices_def)
  ultimately show ?thesis by (rule choices_discovers [OF 1(5)])
qed

text \<open>Expanding features records edges of a chosen package and touches no choice.\<close>

lemma route_candidates: "ps_candidates (fold (route sm) lfs s) = ps_candidates s"
proof (induction lfs arbitrary: s)
  case (Cons lf lfs)
  have "ps_candidates (route sm lf s) = ps_candidates s"
    by (simp add: route_def Let_def split: prod.split option.split)
  then show ?case using Cons.IH by simp
qed simp

lemma expand_features_choices:
  assumes "expand_features name s = (Inr s' :: 'e resolve_error + _)" "wiring s" "choices inp s"
  shows "choices inp s'"
  using assms(1)
proof (cases rule: expand_featuresE)
  case same
  then show ?thesis using assms by simp
next
  case (grown sm r ex)
  let ?u = "s\<lparr>ps_expanded := (ps_expanded s)(name \<mapsto> ex)\<rparr>"
  let ?t = "fold (route sm) (ex_routes ex) ?u"
  have t: "same_wiring s ?t" by (rule same_wiring_trans [OF _ routes_wiring]) (simp add: same_wiring_def)
  have "wiring ?t \<and> name \<in> chosen_names ?t \<and> choices inp ?t"
    using wiring_same [OF assms(2) t] choices_same [OF assms(3) t] assms(3) chosen_summary_chosen [OF grown(1)]
      same_wiring_views(3) [OF t] by (simp add: route_candidates choices_def)
  then have "wiring s' \<and> name \<in> chosen_names s' \<and> choices inp s'"
  proof (rule activates_invariant [OF grown(5)])
    fix t t' l d
    assume "wiring t \<and> name \<in> chosen_names t \<and> choices inp t"
      and e: "enqueue_dependency name d t = (Inr t' :: 'e resolve_error + _)"
    moreover have "try_fold (enqueue_dependency name) [d] t = (Inr t' :: 'e resolve_error + _)"
      using e by (simp add: res_bind_def)
    ultimately show "wiring t' \<and> name \<in> chosen_names t' \<and> choices inp t'"
      using wiring_enqueues choices_enqueues enqueues_chosen by metis
  qed
  then show ?thesis by simp
qed

lemma pass_step_choices:
  assumes "pass_step P inp s = Inr s'" "wiring s" "choices inp s" "provider_ok P" "pins_normal (in_pins inp)"
  shows "choices inp s'"
proof (cases "ps_package_queue s = []")
  case False
  then show ?thesis using assms process_packages_choices by (simp add: pass_step_def)
next
  case True
  show ?thesis
  proof (cases "ps_feature_queue s")
    case Nil
    then show ?thesis using assms True by (simp add: pass_step_def)
  next
    case (Cons n rest)
    let ?t = "s\<lparr>ps_feature_queue := rest\<rparr>"
    have same: "same_wiring s ?t" by (simp add: same_wiring_def)
    have "wiring ?t" "choices inp ?t"
      using assms(2,3) wiring_same [OF _ same] choices_same [OF _ same] by (simp_all add: choices_def)
    then show ?thesis using assms(1) True Cons expand_features_choices by (simp add: pass_step_def)
  qed
qed

subsection \<open>The start and the end of a pass\<close>

definition roots_normal :: "root_request list \<Rightarrow> bool" where
  "roots_normal roots \<longleftrightarrow> list_all (\<lambda>root. normal_id (su_id (rr_summary root))) roots"

lemma seed_features_candidates: "ps_candidates (seed_features root s) = ps_candidates s"
proof -
  have "ps_candidates (snd (fold (seed_feature sm) es (r, s))) = ps_candidates s" for sm es r and s :: "'p pass"
  proof (induction es arbitrary: r s)
    case (Cons e es)
    obtain r' s1 where step: "seed_feature sm e (r, s) = (r', s1)" by (rule prod.exhaust)
    then have "ps_candidates s1 = ps_candidates s"
      by (auto simp: seed_feature_def forward_def split: option.splits prod.splits)
    then show ?case using Cons.IH [of r' s1] by (simp add: step)
  qed simp
  from this [of "rr_summary root" "rr_features root" "requested_default\<lparr>rq_defaults := rr_default_features root\<rparr>" s]
  show ?thesis by (auto simp: seed_features_def split: prod.split)
qed

lemma seed_root_choices:
  assumes "seed_root root s = (Inr s' :: 'e resolve_error + _)" "seeding s" "choices inp s"
    "normal_id (su_id (rr_summary root))" "root \<in> set (in_roots inp)"
  shows "choices inp s'"
proof -
  let ?p = "place_root root s" and ?t = "seed_features root (place_root root s)"
  have "choices inp ?p"
    using assms(3-5) unfolding choices_def
    by (auto simp: place_root_def Let_def in_order_om_insert well_chosen_def requirements_of_def is_root_def split: if_splits)
  then have "choices inp ?t"
    by (rule choices_same [OF _ seed_features_wiring]) (use assms(3) in \<open>simp add: seed_features_candidates place_root_def Let_def choices_def\<close>)
  moreover have "wiring ?t"
    using seeding_same [OF seeding_place_root [OF assms(2)] seed_features_wiring] by (simp add: seeding_def)
  moreover have "root_name root \<in> chosen_names ?t"
    using same_wiring_views(3) [OF seed_features_wiring [of ?p root]]
    by (simp add: place_root_def Let_def chosen_names_def)
  ultimately show ?thesis using assms(1) choices_enqueues unfolding seed_root_def by blast
qed

lemma seed_roots_choices:
  assumes "seed_roots roots s = (Inr s' :: 'e resolve_error + _)" "seeding s" "choices inp s" "roots_normal roots"
    "roots = in_roots inp"
  shows "choices inp s'"
proof -
  obtain t where t: "try_fold seed_root roots s = (Inr t :: 'e resolve_error + _)" "s' = seed_pending t"
    using assms(1) by (auto simp: seed_roots_def res_bind_Inr)
  have "seeding t \<and> choices inp t"
  proof (rule try_fold_invariant [OF t(1), of "\<lambda>t. seeding t \<and> choices inp t"])
    fix root and u u' :: "'a pass"
    assume "root \<in> set roots" "seeding u \<and> choices inp u" and r: "seed_root root u = (Inr u' :: 'e resolve_error + _)"
    then show "seeding u' \<and> choices inp u'"
      using seeding_seed_root [OF _ r] seed_root_choices [OF r] assms(4,5) by (simp add: roots_normal_def list_all_iff)
  qed (use assms(2,3) in simp)
  moreover have "same_wiring t s'" by (simp add: t(2) same_wiring_def seed_pending_def)
  ultimately show ?thesis
    using choices_same [of inp t s'] by (simp add: choices_def t(2) seed_pending_def)
qed

lemma pass_run_choices:
  assumes "pass_run P inp (pass_new p c m) = Some (Inr (s, out))"
    "provider_ok P" "memo_ok c" "pins_normal (in_pins inp)" "roots_normal (in_roots inp)"
  shows "choices inp s"
  using assms(1)
proof (cases rule: pass_runE)
  case (1 s1)
  have "choices inp (pass_new p c m)" using assms(3) by (simp add: choices_def pass_new_def in_order_def)
  then have "wiring s1 \<and> choices inp s1"
    using seed_roots_wiring [OF 1(1) pass_new_seeding] seed_roots_choices [OF 1(1) pass_new_seeding _ assms(5) refl] by simp
  then have "(wiring s \<and> choices inp s) \<and> pass_done s"
    by (rule pass_loop_invariant [OF 1(2)]) (use pass_step_wiring pass_step_choices assms(2,4) in blast)
  then show ?thesis by simp
qed

text \<open>The pins a pass leaves for the next one.\<close>

definition next_pin :: "'p pass \<Rightarrow> package_name \<Rightarrow> package_id \<Rightarrow> package_id \<Rightarrow> bool" where
  "next_pin s n pid pin \<longleftrightarrow>
     (if all_match (requirements_of s n) (pi_version pid) \<or> ps_representatives s n = None then pin = pid
      else \<exists>request candidates c. ps_representatives s n = Some request \<and>
        ps_candidates s (dr_source request, n) = Some candidates \<and> c \<in> set candidates \<and> ca_id c = pin \<and>
        all_match (requirements_of s n) (pi_version pin))"

lemma validate_oneE:
  assumes "validate_one s (n, pid) pins = Inr pins'"
  obtains pin where "next_pin s n pid pin" "pins' = om_insert n pin pins"
proof (cases "all_match (requirements_of s n) (pi_version pid) \<or> ps_representatives s n = None")
  case True
  then show thesis using assms by (intro that [of pid]) (auto simp: validate_one_def next_pin_def Let_def split: if_splits)
next
  case False
  then obtain request candidates pin checksum where r: "ps_representatives s n = Some request"
    "ps_candidates s (dr_source request, n) = Some candidates"
    "select candidates (requirements_of s n) None None (dr_source request) = Some (pin, checksum)"
    "pins' = om_insert n pin pins"
    using assms by (auto simp: validate_one_def Let_def split: option.splits)
  from r(3) show thesis
    by (cases rule: select_cases) (use that r False in \<open>auto simp: next_pin_def\<close>)
qed

lemma validates_spec:
  "try_fold (validate_one s) xs pins = (Inr pins' :: 'e resolve_error + _) \<Longrightarrow> distinct (map fst xs) \<Longrightarrow>
     (\<forall>(n, pid)\<in>set xs. \<exists>pin. map_of pins' n = Some pin \<and> next_pin s n pid pin) \<and>
     (\<forall>n. n \<notin> fst ` set xs \<longrightarrow> map_of pins' n = map_of pins n)"
proof (induction xs arbitrary: pins)
  case (Cons x xs)
  obtain n pid where x: "x = (n, pid)" by (cases x)
  obtain pins1 where p: "validate_one s (n, pid) pins = (Inr pins1 :: 'e resolve_error + _)"
    "try_fold (validate_one s) xs pins1 = (Inr pins' :: 'e resolve_error + _)"
    using Cons.prems(1) by (auto simp: x res_bind_Inr)
  note rest = Cons.IH [OF p(2)]
  from p(1) show ?case
    by (rule validate_oneE) (use rest Cons.prems(2) in \<open>auto simp: x\<close>)
qed simp

lemma validate_spec:
  assumes "validate s = (Inr pins :: 'e resolve_error + _)" "in_order (map fst (ps_chosen s))"
    "map_of (ps_chosen s) n = Some pid"
  obtains pin where "map_of pins n = Some pin" "next_pin s n pid pin"
  using validates_spec [of s "ps_chosen s" "[]" pins] assms in_order_distinct map_of_SomeD [OF assms(3)]
  by (fastforce simp: validate_def)

subsection \<open>Convergence\<close>

lemma same_items:
  assumes "normal_id p" "normal_id q" "version_eq (pi_version p) (pi_version q)"
  shows "v_items (pi_version p) = v_items (pi_version q)"
  using assms by (simp add: normal_id_def version_eq_def version_cmp_def compare_normal_eq(2))

lemma req_matches_items:
  assumes "v_items v = v_items w"
  shows "req_matches req v \<longleftrightarrow> req_matches req w"
proof -
  have cmp: "version_cmp v = version_cmp w" using assms by (simp add: version_cmp_def [abs_def])
  have eqs: "version_eq v = version_eq w" "version_ge v = version_ge w" "version_lt v = version_lt w"
    "is_prerelease v = is_prerelease w" "\<And>base. admits_prerelease base v = admits_prerelease base w"
    using assms cmp by (simp_all add: version_eq_def [abs_def] version_ge_def [abs_def] version_lt_def [abs_def]
      is_prerelease_def admits_prerelease_def)
  have ranges: "\<And>rng. range_matches rng v = range_matches rng w" unfolding range_matches_def cmp ..
  show ?thesis unfolding req_matches_def eqs ranges ..
qed

lemma all_match_items: "v_items v = v_items w \<Longrightarrow> all_match rs v \<longleftrightarrow> all_match rs w"
  unfolding all_match_def using req_matches_items [of v w] by (simp only:)

lemma pins_eq_lookup:
  assumes "pins_eq a b" "map_of a n = Some p"
  obtains q where "map_of b n = Some q" "package_eq p q"
proof -
  have "\<exists>q. map_of b n = Some q \<and> package_eq p q"
    using assms(1) [unfolded pins_eq_def] assms(2)
    by (induction rule: list_all2_induct) (auto split: prod.splits if_splits)
  then show thesis using that by blast
qed

text \<open>The key step: a pass that leaves the pins it was given satisfied every requirement.\<close>

lemma stable_pass_satisfies:
  assumes w: "wiring s" "ps_package_queue s = []" and c: "choices inp s" and pn: "pins_normal (in_pins inp)"
    and v: "validate s = (Inr pins :: 'e resolve_error + _)" and stable: "pins_eq pins (in_pins inp)"
    and n: "map_of (ps_chosen s) n = Some pid"
  shows "all_match (requirements_of s n) (pi_version pid)"
proof (cases "ps_root_ids s n")
  case (Some root)
  then show ?thesis using w n by (auto simp: wiring_def rooted_def)
next
  case None
  then have wc: "well_chosen inp s n pid" using c n by (auto simp: choices_def)
  obtain pin where pin: "map_of pins n = Some pin" "next_pin s n pid pin"
    using validate_spec [OF v _ n] c by (auto simp: choices_def)
  obtain old where old: "map_of (in_pins inp) n = Some old" "package_eq pin old"
    using pins_eq_lookup [OF stable pin(1)] .
  show ?thesis
  proof (rule ccontr)
    assume no: "\<not> ?thesis"
    obtain request where r: "ps_representatives s n = Some request" using wc by (auto simp: well_chosen_def)
    then obtain candidates cand where cand: "ps_candidates s (dr_source request, n) = Some candidates"
      "cand \<in> set candidates" "ca_id cand = pin" "all_match (requirements_of s n) (pi_version pin)"
      using pin(2) no by (auto simp: next_pin_def)
    then have ok: "candidate_ok (dr_source request) cand" using c by (auto simp: choices_def memo_ok_def list_all_iff)
    have "normal_id old" using pn old(1) by (auto simp: pins_normal_def)
    then have "v_items (pi_version old) = v_items (pi_version pin)"
      using ok cand(3) old(2) by (intro same_items [symmetric]) (auto simp: candidate_ok_def package_eq_def)
    then have "all_match (requirements_of s n) (pi_version old)" using cand(4) all_match_items by blast
    moreover have "satisfies (pi_source old) (dr_source request)"
      using ok cand(3) old(2) by (simp add: candidate_ok_def package_eq_def)
    ultimately have "pid = old" using wc r old(1) by (auto simp: well_chosen_def)
    then show False using no \<open>all_match (requirements_of s n) (pi_version old)\<close> by simp
  qed
qed

text \<open>
  An outcome all of whose edges are satisfied by what was chosen. An edge that names a root is met
  by that root itself, whatever source the edge asks for.
\<close>

definition edge_satisfied :: "root_request list \<Rightarrow> pass_outcome \<Rightarrow> package_name \<Rightarrow> dependency_request \<Rightarrow> bool" where
  "edge_satisfied roots out n d \<longleftrightarrow> map_of (oc_chosen out) n \<noteq> None \<and>
     (\<exists>pid. map_of (oc_chosen out) (dr_package d) = Some pid \<and> admits d (pi_version pid) \<and>
        ((\<exists>root\<in>set roots. is_root root (dr_package d) pid) \<or> satisfies (pi_source pid) (dr_source d)))"

lemma next_pins_normal:
  assumes "choices inp s" "validate s = (Inr pins :: 'e resolve_error + _)" "map_of pins n = Some pin"
  shows "normal_id pin"
proof -
  have "distinct (map fst (ps_chosen s))" using assms(1) by (simp add: choices_def in_order_distinct)
  note spec = validates_spec [OF assms(2) [unfolded validate_def] this]
  have "n \<in> fst ` set (ps_chosen s)"
  proof (rule ccontr)
    assume "n \<notin> fst ` set (ps_chosen s)"
    then have "map_of pins n = map_of [] n" using spec by blast
    then show False using assms(3) by simp
  qed
  then obtain pid where pid: "map_of (ps_chosen s) n = Some pid"
    by (metis map_of_eq_None_iff option.exhaust)
  obtain pin' where "map_of pins n = Some pin'" "next_pin s n pid pin'"
    using validate_spec [OF assms(2) _ pid] assms(1) by (auto simp: choices_def)
  then have step: "next_pin s n pid pin" using assms(3) by simp
  have "normal_id pid" using assms(1) pid by (simp add: choices_def)
  moreover have "normal_id (ca_id c)" if "ps_candidates s (source, n) = Some candidates" "c \<in> set candidates" for source candidates c
    using assms(1) that by (auto simp: choices_def memo_ok_def candidate_ok_def list_all_iff)
  ultimately show ?thesis using step by (auto simp: next_pin_def split: if_splits)
qed

lemma resolve_rounds_last:
  fixes P :: "('p, 'e) provider"
  assumes "resolve_rounds k P roots locked r pins = Some (Inr (r', out))" "provider_ok P"
    "memo_ok (rs_candidates r)" "roots_normal roots" "pins_normal pins"
  shows "\<exists>pins s p c m. pass_run P \<lparr>in_roots = roots, in_locked = locked, in_pins = pins\<rparr> (pass_new p c m) =
      Some (Inr (s, out)) \<and> memo_ok c \<and> pins_normal pins \<and>
      pins_eq (oc_pins out) pins"
  using assms(1,3,5)
proof (induction k arbitrary: r pins)
  case (Suc k)
  let ?inp = "\<lparr>in_roots = roots, in_locked = locked, in_pins = pins\<rparr>"
  let ?s0 = "pass_new (rs_provider r) (rs_candidates r) (rs_summaries r)"
  obtain s out1 where run: "pass_run P ?inp ?s0 = Some (Inr (s, out1))"
    using Suc.prems(1) by (auto split: option.splits sum.splits)
  show ?case
  proof (cases "pins_eq (oc_pins out1) pins")
    case True
    then have "out = out1" using Suc.prems(1) run by simp
    then show ?thesis using run True Suc.prems(2,3) by blast
  next
    case False
    have c: "choices ?inp s" using pass_run_choices [OF run assms(2) Suc.prems(2)] Suc.prems(3) assms(4) by simp
    have v: "validate s = (Inr (oc_pins out1) :: 'e resolve_error + _)" using run by (rule pass_runE)
    let ?r = "r\<lparr>rs_provider := ps_provider s, rs_candidates := ps_candidates s, rs_summaries := ps_summaries s\<rparr>"
    have "resolve_rounds k P roots locked ?r (oc_pins out1) = Some (Inr (r', out))"
      using Suc.prems(1) run False by (simp add: Let_def)
    then show ?thesis
      by (rule Suc.IH) (use c next_pins_normal [OF c v] in \<open>simp_all add: choices_def pins_normal_def\<close>)
  qed
qed simp

subsection \<open>Property\<close>

text \<open>C6: when resolution converges, every edge of every chosen package is satisfied: its target is
  chosen, the chosen version admits the requirement of the edge, and the chosen identity is either a
  root of that name, which stands in whatever source the edge asks for, or its source satisfies the
  edge's request. It rests on the last round having reproduced its own pins. The provider is assumed
  to list candidates of the source it is asked for, and versions to be normalized.\<close>

theorem resolution_sound:
  fixes P :: "('p, 'e) provider"
  assumes "resolve_rounds k P roots locked r pins = Some (Inr (r', out))" "provider_ok P"
    "memo_ok (rs_candidates r)" "roots_normal roots" "pins_normal pins"
  shows "\<forall>n. list_all (edge_satisfied roots out n) (or_empty (oc_edges out n))"
proof -
  obtain pins' s p c m where run: "pass_run P \<lparr>in_roots = roots, in_locked = locked, in_pins = pins'\<rparr> (pass_new p c m) = Some (Inr (s, out))"
    and ok: "memo_ok c" "pins_normal pins'" "pins_eq (oc_pins out) pins'"
    using resolve_rounds_last [OF assms] by blast
  have w: "wiring s" "pass_done s" using pass_run_wiring [OF run] by simp_all
  have ch: "choices \<lparr>in_roots = roots, in_locked = locked, in_pins = pins'\<rparr> s"
    using pass_run_choices [OF run assms(2) ok(1)] ok(2) assms(4) by simp
  have v: "validate s = (Inr (oc_pins out) :: 'e resolve_error + _)" and out: "out = outcome_of s (oc_pins out)"
    using run by (auto elim: pass_runE)
  show ?thesis
  proof (intro allI)
    fix n
    show "list_all (edge_satisfied roots out n) (or_empty (oc_edges out n))"
      unfolding list_all_iff
    proof
      fix d assume "d \<in> set (or_empty (oc_edges out n))"
      then have "d \<in> set (edges_of s n)" using out by (metis edges_of_def outcome_of_def pass_outcome.select_convs(5))
      then have e: "edge_wired {} s n d" using w(1) by (simp add: wiring_def wired_def)
      then obtain pid where pid: "map_of (ps_chosen s) (dr_package d) = Some pid"
        using w(2) by (auto simp: edge_wired_def chosen_names_def pass_done_def)
      have "all_match (requirements_of s (dr_package d)) (pi_version pid)"
        using stable_pass_satisfies [OF w(1) _ ch _ v _ pid] w(2) ok(2,3) by (simp add: pass_done_def)
      then have "admits d (pi_version pid)"
        using e by (force simp: edge_wired_def all_match_def list_all_iff admits_def)
      moreover have "(\<exists>root\<in>set roots. is_root root (dr_package d) pid) \<or> satisfies (pi_source pid) (dr_source d)"
      proof (cases "ps_root_ids s (dr_package d)")
        case None
        then have "well_chosen \<lparr>in_roots = roots, in_locked = locked, in_pins = pins'\<rparr> s (dr_package d) pid"
          using ch pid by (simp add: choices_def)
        then obtain request where "ps_representatives s (dr_package d) = Some request" "satisfies (pi_source pid) (dr_source request)"
          unfolding well_chosen_def by blast
        then show ?thesis using e w(1) by (auto simp: edge_wired_def wiring_def wired_def)
      next
        case (Some root)
        then have "root = pid" using w(1) pid by (auto simp: wiring_def rooted_def)
        then show ?thesis using ch Some by (auto simp: choices_def)
      qed
      moreover have "map_of (ps_chosen s) n \<noteq> None" using e by (auto simp: edge_wired_def chosen_names_def)
      ultimately show "edge_satisfied roots out n d"
        using pid out by (metis edge_satisfied_def outcome_of_def pass_outcome.select_convs(1))
    qed
  qed
qed

lemma resolution_sound_witness:
  "\<exists>r out. resolve_rounds 2 sample_provider [sample_root] [] (resolver_new ()) [] = Some (Inr (r, out)) \<and>
     chosen_versions out = [(''a'', ''1''), (''b'', ''2''), (''r'', ''1'')] \<and>
     list_all (edge_satisfied [sample_root] out ''r'') (or_empty (oc_edges out ''r''))"
proof -
  obtain r out where run: "resolve_rounds 2 sample_provider [sample_root] [] (resolver_new ()) [] = Some (Inr (r, out))"
    "chosen_versions out = [(''a'', ''1''), (''b'', ''2''), (''r'', ''1'')]"
    by (rule sample_resolution)
  have normal: "normal_id (sample_id n v)" if "v = ''1'' \<or> v = ''2''" for n v
    using that by (auto simp: normal_id_def sample_id_def sample_version_def)
  have "provider_ok sample_provider"
    by (auto simp: provider_ok_def sample_provider_def candidate_ok_def normal in_set_zip split: if_splits)
      (simp_all add: sample_id_def)
  moreover have "memo_ok (rs_candidates (resolver_new ()))" by (simp add: memo_ok_def resolver_new_def)
  moreover have "roots_normal [sample_root]"
    by (simp add: roots_normal_def sample_root_def root_request_new_def sample_summary_def normal)
  ultimately show ?thesis
    using resolution_sound [OF run(1)] run by (simp add: pins_normal_def)
qed

end
