(* ===== verification/Resolve_Edges.thy ===== *)
theory Resolve_Edges
  imports Resolve_Wiring
begin

text \<open>
  A pass only adds edges: whatever a root or a package asked for is still an edge when it ends.
\<close>

subsection \<open>Edges are never dropped\<close>

definition keeps_edges :: "'p pass \<Rightarrow> 'p pass \<Rightarrow> bool" where
  "keeps_edges s s' \<longleftrightarrow> (\<forall>n. set (edges_of s n) \<subseteq> set (edges_of s' n))"

lemma keeps_edges_trans: "keeps_edges s t \<Longrightarrow> keeps_edges t u \<Longrightarrow> keeps_edges s u"
  unfolding keeps_edges_def by (meson subset_trans)

lemma keeps_edges_same: "edges_of s' = edges_of s \<Longrightarrow> keeps_edges s s'"
  by (simp add: keeps_edges_def)

lemma enqueues_keep: "try_fold (enqueue_dependency o1) ds s = (Inr s' :: 'e resolve_error + _) \<Longrightarrow>
    keeps_edges s s' \<and> set ds \<subseteq> set (edges_of s' o1)"
proof (induction ds arbitrary: s)
  case (Cons d ds)
  obtain t where t: "enqueue_dependency o1 d s = (Inr t :: 'e resolve_error + _)"
    "try_fold (enqueue_dependency o1) ds t = (Inr s' :: 'e resolve_error + _)"
    using Cons.prems by (auto simp: res_bind_Inr)
  have "keeps_edges s t" "d \<in> set (edges_of t o1)" by (auto simp: keeps_edges_def enqueue_fields [OF t(1)])
  moreover have "d \<in> set (edges_of s' o1)"
    using Cons.IH [OF t(2)] \<open>d \<in> set (edges_of t o1)\<close> by (auto simp: keeps_edges_def)
  ultimately show ?case using Cons.IH [OF t(2)] keeps_edges_trans [of s t s'] by simp
qed (simp add: keeps_edges_def)

lemma discovers_keep:
  assumes "try_fold discover names s = (Inr s' :: 'e resolve_error + _)"
  shows "keeps_edges s s'"
  using assms
proof (rule try_fold_invariant)
  fix name and t t' :: "'a pass" assume k: "keeps_edges s t" and d: "discover name t = (Inr t' :: 'e resolve_error + _)"
  have "keeps_edges t t'"
  proof (cases "map_of (ps_chosen t) name")
    case None
    then show ?thesis using d by (simp add: discover_def keeps_edges_same)
  next
    case (Some pid)
    have "keeps_edges t (t\<lparr>ps_feature_queue := ps_feature_queue t @ [name]\<rparr>)" by (simp add: keeps_edges_def edges_of_def)
    then show ?thesis using d Some enqueues_keep keeps_edges_trans by (fastforce simp: discover_def)
  qed
  then show "keeps_edges s t'" using k keeps_edges_trans by blast
qed (simp_all add: keeps_edges_same)

lemma chooses_keep:
  "try_fold (choose_one inp) names (ids, s) = (Inr (ids', s') :: 'e resolve_error + _) \<Longrightarrow> edges_of s' = edges_of s"
proof (induction names arbitrary: ids s)
  case (Cons name names)
  obtain ids1 s1 where c: "choose_one inp name (ids, s) = (Inr (ids1, s1) :: 'e resolve_error + _)"
    "try_fold (choose_one inp) names (ids1, s1) = (Inr (ids', s') :: 'e resolve_error + _)"
    using Cons.prems by (auto simp: res_bind_Inr)
  show ?case using Cons.IH [OF c(2)] choose_fields [OF c(1)] by auto
qed simp

lemma pass_step_keeps:
  fixes P :: "('p, 'e) provider"
  assumes "pass_step P inp s = Inr s'"
  shows "keeps_edges s s'"
proof (cases "ps_package_queue s = []")
  case False
  then have "process_packages P inp s = (Inr s' :: 'e resolve_error + _)" using assms by (simp add: pass_step_def)
  then show ?thesis
  proof (cases rule: process_packagesE)
    case (1 cs ms s1 ids s2 s3)
    have "edges_of s1 = edges_of s"
      using same_wiring_views(1) [OF fetch_candidates_wiring [OF 1(2)]] by (simp add: edges_of_def [abs_def])
    moreover have "edges_of s3 = edges_of s2" using same_wiring_views(1) [OF fetch_summaries_wiring [OF 1(4)]] .
    ultimately have "edges_of s3 = edges_of s" using chooses_keep [OF 1(3)] by simp
    then show ?thesis using discovers_keep [OF 1(5)] by (simp add: keeps_edges_def)
  qed
next
  case True
  show ?thesis
  proof (cases "ps_feature_queue s")
    case Nil
    then show ?thesis using assms True by (simp add: pass_step_def keeps_edges_same)
  next
    case (Cons name rest)
    let ?t = "s\<lparr>ps_feature_queue := rest\<rparr>"
    have t: "edges_of ?t = edges_of s" by (simp add: edges_of_def [abs_def])
    have "expand_features name ?t = (Inr s' :: 'e resolve_error + _)" using assms True Cons by (simp add: pass_step_def)
    then have "keeps_edges ?t s'"
    proof (cases rule: expand_featuresE)
      case same
      then show ?thesis by (simp add: keeps_edges_same)
    next
      case (grown sm r ex)
      let ?u = "?t\<lparr>ps_expanded := (ps_expanded ?t)(name \<mapsto> ex)\<rparr>"
      have "edges_of (fold (route sm) (ex_routes ex) ?u) = edges_of ?t"
        using same_wiring_views(1) [OF routes_wiring [of ?u sm "ex_routes ex"]] by (simp add: edges_of_def [abs_def])
      then have "keeps_edges ?t (fold (route sm) (ex_routes ex) ?u)" by (rule keeps_edges_same)
      then show ?thesis
        by (rule activates_invariant [OF grown(5)]) (auto simp: keeps_edges_def enqueue_fields)
    qed
    then show ?thesis by (simp add: keeps_edges_def t)
  qed
qed

lemma seed_root_keeps:
  assumes "seed_root root s = (Inr s' :: 'e resolve_error + _)"
  shows "keeps_edges s s' \<and> set (seed_dependencies root) \<subseteq> set (edges_of s' (root_name root))"
proof -
  let ?t = "seed_features root (place_root root s)"
  have "edges_of ?t = edges_of s"
    using same_wiring_views(1) [OF seed_features_wiring [of "place_root root s" root]]
    by (simp add: place_root_def Let_def edges_of_def [abs_def])
  then show ?thesis using enqueues_keep assms unfolding seed_root_def by (metis keeps_edges_def)
qed

lemma seed_roots_keep:
  "try_fold seed_root roots s = (Inr s' :: 'e resolve_error + _) \<Longrightarrow>
     keeps_edges s s' \<and> (\<forall>root\<in>set roots. set (seed_dependencies root) \<subseteq> set (edges_of s' (root_name root)))"
proof (induction roots arbitrary: s)
  case (Cons root roots)
  obtain t where t: "seed_root root s = (Inr t :: 'e resolve_error + _)" "try_fold seed_root roots t = (Inr s' :: 'e resolve_error + _)"
    using Cons.prems by (auto simp: res_bind_Inr)
  have "set (edges_of t (root_name root)) \<subseteq> set (edges_of s' (root_name root))"
    using Cons.IH [OF t(2)] by (simp add: keeps_edges_def)
  then show ?case
    using Cons.IH [OF t(2)] seed_root_keeps [OF t(1)] keeps_edges_trans by (auto dest: subset_trans)
qed (simp add: keeps_edges_same)

lemma pass_run_keeps:
  assumes "pass_run P inp (pass_new p c m) = Some (Inr (s, out))" "root \<in> set (in_roots inp)"
  shows "set (seed_dependencies root) \<subseteq> set (edges_of s (root_name root))"
  using assms(1)
proof (cases rule: pass_runE)
  case (1 s1)
  have "set (seed_dependencies root) \<subseteq> set (edges_of s1 (root_name root))"
    using 1(1) seed_roots_keep assms(2) by (fastforce simp: seed_roots_def res_bind_Inr seed_pending_def edges_of_def)
  then have "set (seed_dependencies root) \<subseteq> set (edges_of s (root_name root)) \<and> pass_done s"
    by (rule pass_loop_invariant [OF 1(2)]) (use pass_step_keeps keeps_edges_def subset_trans in metis)
  then show ?thesis by simp
qed

end
