(* ===== verification/Resolve_Features.thy ===== *)
theory Resolve_Features
  imports Resolve_Edges Resolve_Sample
begin

text \<open>
  What a finished pass has followed: the features of every chosen package are expanded from all that
  was requested of it, whatever order the requests came in, and every dependency that is mandatory
  or activated by a feature is an edge.
\<close>

subsection \<open>Requests\<close>

definition asks :: "requested \<Rightarrow> requested \<Rightarrow> bool" where
  "asks r r' \<longleftrightarrow> set (rq_selected r) \<subseteq> set (rq_selected r') \<and> set (rq_forwarded r) \<subseteq> set (rq_forwarded r') \<and>
     (rq_defaults r \<longrightarrow> rq_defaults r')"

definition expansion_for :: "summary \<Rightarrow> requested \<Rightarrow> expansion" where
  "expansion_for sm r = expand sm (os_extend (rq_selected r) (rq_forwarded r)) (rq_defaults r)"

definition uptodate :: "'p pass \<Rightarrow> package_name \<Rightarrow> bool" where
  "uptodate s n \<longleftrightarrow> (\<forall>sm r. chosen_summary s n = Some sm \<longrightarrow> map_of (ps_requested s) n = Some r \<longrightarrow>
     ps_expanded s n = Some (expansion_for sm r))"

text \<open>The dependencies an expansion activates are edges, and what it forwards is requested.\<close>

definition followed :: "'p pass \<Rightarrow> package_name \<Rightarrow> summary \<Rightarrow> expansion \<Rightarrow> bool" where
  "followed s n sm ex \<longleftrightarrow>
     (\<forall>l\<in>set (ex_activated ex). \<forall>d. summary_dependency sm l = Some d \<longrightarrow> d \<in> set (edges_of s n)) \<and>
     (\<forall>(l, fs)\<in>set (ex_routes ex). \<forall>d. summary_dependency sm l = Some d \<longrightarrow>
        (\<exists>r. map_of (ps_requested s) (dr_package d) = Some r \<and> set fs \<subseteq> set (rq_forwarded r)))"

definition covered :: "'p pass \<Rightarrow> package_name \<Rightarrow> bool" where
  "covered s n \<longleftrightarrow> (\<exists>sm. chosen_summary s n = Some sm \<and>
     (ps_root_ids s n = None \<longrightarrow> set (transitive_dependencies sm) \<subseteq> set (edges_of s n)))"

text \<open>What an edge asks of its target.\<close>

definition asked :: "'p pass \<Rightarrow> dependency_request \<Rightarrow> bool" where
  "asked s d \<longleftrightarrow>
     (\<exists>r. map_of (ps_requested s) (dr_package d) = Some r \<and> set (dr_features d) \<subseteq> set (rq_selected r) \<and>
        (dr_default_features d \<longrightarrow> rq_defaults r))"

text \<open>
  Seeding a root replaces what was requested of it so far, so the edges to it of the roots listed
  before it are exempt: \<open>m\<close> is listed before another root of the name \<open>n\<close>.
\<close>

fun listed_before :: "root_request list \<Rightarrow> package_name \<Rightarrow> package_name \<Rightarrow> bool" where
  "listed_before [] m n \<longleftrightarrow> False"
| "listed_before (root # roots) m n \<longleftrightarrow>
     root_name root = m \<and> n \<in> root_name ` set roots \<or> listed_before roots m n"

lemma listed_before_split:
  "m \<in> root_name ` set xs \<Longrightarrow> listed_before (xs @ root # ys) m (root_name root)"
  by (induction xs) auto

text \<open>\<open>E\<close> are names taken off the feature queue, \<open>F\<close> names whose new expansion is being followed,
  \<open>D\<close> names being chosen; \<open>X\<close> holds of the exempt edges.\<close>

definition featured :: "(package_name \<Rightarrow> package_name \<Rightarrow> bool) \<Rightarrow> package_name set \<Rightarrow> package_name set \<Rightarrow> package_name set \<Rightarrow> 'p pass \<Rightarrow> bool" where
  "featured X E F D s \<longleftrightarrow>
     (\<forall>n. n \<in> set (ps_feature_queue s) \<or> n \<in> E \<or> uptodate s n) \<and>
     (\<forall>n ex. ps_expanded s n = Some ex \<longrightarrow> n \<in> F \<or> (\<exists>sm. chosen_summary s n = Some sm \<and> followed s n sm ex)) \<and>
     (\<forall>n\<in>chosen_names s. n \<in> D \<or> covered s n) \<and>
     (\<forall>o1. \<forall>d\<in>set (edges_of s o1). X o1 (dr_package d) \<or> asked s d) \<and>
     (\<forall>n\<in>chosen_names s \<union> set (ps_package_queue s) \<union> D. map_of (ps_requested s) n \<noteq> None)"

lemma featuredI:
  assumes "\<And>n. n \<in> set (ps_feature_queue s) \<or> n \<in> E \<or> uptodate s n"
    "\<And>n ex. ps_expanded s n = Some ex \<Longrightarrow> n \<notin> F \<Longrightarrow> \<exists>sm. chosen_summary s n = Some sm \<and> followed s n sm ex"
    "\<And>n. n \<in> chosen_names s \<Longrightarrow> n \<notin> D \<Longrightarrow> covered s n"
    "\<And>o1 d. d \<in> set (edges_of s o1) \<Longrightarrow> X o1 (dr_package d) \<or> asked s d"
    "\<And>n. n \<in> chosen_names s \<union> set (ps_package_queue s) \<union> D \<Longrightarrow> map_of (ps_requested s) n \<noteq> None"
  shows "featured X E F D s"
  using assms unfolding featured_def by blast

lemma featuredD:
  assumes "featured X E F D s"
  shows "n \<in> set (ps_feature_queue s) \<or> n \<in> E \<or> uptodate s n"
    "n \<in> chosen_names s \<Longrightarrow> n \<notin> D \<Longrightarrow> covered s n"
    "d \<in> set (edges_of s o1) \<Longrightarrow> X o1 (dr_package d) \<or> asked s d"
    "n \<in> chosen_names s \<union> set (ps_package_queue s) \<union> D \<Longrightarrow> map_of (ps_requested s) n \<noteq> None"
  using assms unfolding featured_def by blast+

lemma featured_followed:
  assumes "featured X E F D s" "ps_expanded s n = Some ex" "n \<notin> F"
  obtains sm where "chosen_summary s n = Some sm" "followed s n sm ex"
  using assms unfolding featured_def by blast

subsection \<open>Growing\<close>

definition grows :: "'p pass \<Rightarrow> 'p pass \<Rightarrow> bool" where
  "grows s s' \<longleftrightarrow> (\<forall>n. set (edges_of s n) \<subseteq> set (edges_of s' n)) \<and>
     (\<forall>n r. map_of (ps_requested s) n = Some r \<longrightarrow> (\<exists>r'. map_of (ps_requested s') n = Some r' \<and> asks r r')) \<and>
     ps_root_ids s' = ps_root_ids s"

lemma growsD:
  assumes "grows s s'"
  shows "set (edges_of s n) \<subseteq> set (edges_of s' n)" "ps_root_ids s' = ps_root_ids s"
    "map_of (ps_requested s) n = Some r \<Longrightarrow> \<exists>r'. map_of (ps_requested s') n = Some r' \<and> asks r r'"
    "map_of (ps_requested s) n \<noteq> None \<Longrightarrow> map_of (ps_requested s') n \<noteq> None"
proof -
  show "set (edges_of s n) \<subseteq> set (edges_of s' n)" "ps_root_ids s' = ps_root_ids s"
    using assms unfolding grows_def by blast+
  have *: "\<And>r. map_of (ps_requested s) n = Some r \<Longrightarrow> \<exists>r'. map_of (ps_requested s') n = Some r' \<and> asks r r'"
    using assms unfolding grows_def by blast
  show "map_of (ps_requested s) n = Some r \<Longrightarrow> \<exists>r'. map_of (ps_requested s') n = Some r' \<and> asks r r'"
    by (rule *)
  show "map_of (ps_requested s) n \<noteq> None \<Longrightarrow> map_of (ps_requested s') n \<noteq> None"
    using * by (metis option.exhaust option.distinct(1))
qed

lemma asks_trans: "asks a b \<Longrightarrow> asks b c \<Longrightarrow> asks a c"
  unfolding asks_def by (meson subset_trans)

lemma grows_refl: "grows s s"
  unfolding grows_def asks_def by blast

lemma grows_trans:
  assumes "grows s t" "grows t u"
  shows "grows s u"
  unfolding grows_def
proof (intro conjI allI impI)
  show "set (edges_of s n) \<subseteq> set (edges_of u n)" for n
    using growsD(1) [OF assms(1)] growsD(1) [OF assms(2)] by (rule subset_trans)
  show "\<exists>r'. map_of (ps_requested u) n = Some r' \<and> asks r r'" if "map_of (ps_requested s) n = Some r" for n r
    using growsD(3) [OF assms(1) that] growsD(3) [OF assms(2)] asks_trans by blast
  show "ps_root_ids u = ps_root_ids s" by (simp add: growsD(2) [OF assms(1)] growsD(2) [OF assms(2)])
qed

lemma followed_grows:
  assumes "grows s s'" "followed s n sm ex"
  shows "followed s' n sm ex"
  unfolding followed_def
proof (intro conjI ballI allI impI, goal_cases)
  case (1 l d)
  then show ?case using assms(2) growsD(1) [OF assms(1)] unfolding followed_def by blast
next
  case (2 lf)
  show ?case
  proof (clarify)
    fix l fs d assume "lf = (l, fs)" "summary_dependency sm l = Some d"
    then obtain r where r: "map_of (ps_requested s) (dr_package d) = Some r" "set fs \<subseteq> set (rq_forwarded r)"
      using assms(2) 2 unfolding followed_def by fastforce
    then show "\<exists>r. map_of (ps_requested s') (dr_package d) = Some r \<and> set fs \<subseteq> set (rq_forwarded r)"
      using growsD(3) [OF assms(1) r(1)] unfolding asks_def by blast
  qed
qed

lemma covered_grows:
  assumes "grows s s'" "chosen_summary s' n = chosen_summary s n" "covered s n"
  shows "covered s' n"
proof -
  obtain sm where "chosen_summary s n = Some sm"
    "ps_root_ids s n = None \<longrightarrow> set (transitive_dependencies sm) \<subseteq> set (edges_of s n)"
    using assms(3) unfolding covered_def by (elim exE conjE)
  moreover have "set (edges_of s n) \<subseteq> set (edges_of s' n)" "ps_root_ids s' n = ps_root_ids s n"
    using growsD(1,2) [OF assms(1)] by simp_all
  ultimately show ?thesis
    unfolding covered_def assms(2) by (intro exI [of _ sm]) (simp, meson subset_trans)
qed

lemma asked_grows:
  assumes "grows s s'" "asked s d"
  shows "asked s' d"
  using assms(2) growsD(3) [OF assms(1)] unfolding asked_def asks_def by (meson subset_trans)

lemma enqueue_grows:
  assumes "enqueue_dependency o1 d s = Inr s'"
  shows "grows s s'" "asked s' d"
    "map_of (ps_requested s') n = (if n = dr_package d then
       Some (let r = (case map_of (ps_requested s) n of None \<Rightarrow> requested_default | Some r \<Rightarrow> r)
         in r\<lparr>rq_selected := os_extend (rq_selected r) (dr_features d), rq_defaults := rq_defaults r \<or> dr_default_features d\<rparr>)
       else map_of (ps_requested s) n)"
proof -
  show req: "map_of (ps_requested s') n = (if n = dr_package d then
       Some (let r = (case map_of (ps_requested s) n of None \<Rightarrow> requested_default | Some r \<Rightarrow> r)
         in r\<lparr>rq_selected := os_extend (rq_selected r) (dr_features d), rq_defaults := rq_defaults r \<or> dr_default_features d\<rparr>)
       else map_of (ps_requested s) n)" for n
    using assms by (cases rule: enqueueE) (simp_all add: record_edge_def Let_def)
  show "grows s s'"
    unfolding grows_def by (auto simp: req enqueue_fields [OF assms] asks_def Let_def)
  show "asked s' d" by (simp add: asked_def req Let_def)
qed

lemma featured_enqueue:
  assumes f: "featured X E F D s" and e: "enqueue_dependency o1 d s = Inr s'"
  shows "featured X E F D s'"
proof -
  note g = enqueue_grows(1) [OF e] and fields = enqueue_fields [OF e]
  have "uptodate s' n" if "uptodate s n" "n \<noteq> dr_package d" for n
    using that by (simp add: uptodate_def fields enqueue_grows(3) [OF e])
  moreover have "map_of (ps_requested s') (dr_package d) \<noteq> None" by (simp add: enqueue_grows(3) [OF e])
  ultimately show ?thesis
    using f followed_grows [OF g] covered_grows [OF g] asked_grows [OF g] enqueue_grows(2) [OF e] growsD(4) [OF g]
    unfolding featured_def fields by (simp add: fields) blast
qed

text \<open>Only the queues change.\<close>

lemma featured_queues:
  fixes s t :: "'p pass"
  assumes f: "featured X E F D s"
    and same: "ps_chosen t = ps_chosen s" "ps_summaries t = ps_summaries s" "ps_edges t = ps_edges s"
      "ps_root_ids t = ps_root_ids s" "ps_requested t = ps_requested s" "ps_expanded t = ps_expanded s"
    and queues: "set (ps_feature_queue s) \<union> E \<subseteq> set (ps_feature_queue t) \<union> E'" "D \<subseteq> D'"
      "set (ps_package_queue t) \<union> D' \<subseteq> chosen_names s \<union> set (ps_package_queue s) \<union> D"
  shows "featured X E' F D' t"
proof -
  have fields: "chosen_summary t n = chosen_summary s n" "edges_of t n = edges_of s n" "chosen_names t = chosen_names s" for n
    by (simp_all add: chosen_summary_def edges_of_def chosen_names_def same split: option.split)
  have g: "grows s t" by (simp add: grows_def fields asks_def same)
  show ?thesis
  proof (rule featuredI)
    fix n show "n \<in> set (ps_feature_queue t) \<or> n \<in> E' \<or> uptodate t n"
    proof (cases "uptodate s n")
      case True
      then show ?thesis by (simp add: uptodate_def fields same)
    next
      case False
      then show ?thesis using featuredD(1) [OF f, of n] queues(1) by blast
    qed
  next
    fix n ex assume "ps_expanded t n = Some ex" "n \<notin> F"
    then show "\<exists>sm. chosen_summary t n = Some sm \<and> followed t n sm ex"
      using featured_followed [OF f] followed_grows [OF g] fields(1) same(6) by metis
  next
    fix n assume "n \<in> chosen_names t" "n \<notin> D'"
    then show "covered t n" using featuredD(2) [OF f, of n] covered_grows [OF g fields(1)] queues(2) by (auto simp: fields)
  next
    fix o1 d assume "d \<in> set (edges_of t o1)"
    then show "X o1 (dr_package d) \<or> asked t d" using featuredD(3) [OF f] asked_grows [OF g] unfolding fields by blast
  next
    fix n assume "n \<in> chosen_names t \<union> set (ps_package_queue t) \<union> D'"
    then have "n \<in> chosen_names s \<union> set (ps_package_queue s) \<union> D" using queues(3) fields(3) by blast
    then show "map_of (ps_requested t) n \<noteq> None" using featuredD(4) [OF f] same(5) by metis
  qed
qed

subsection \<open>Routing features\<close>

lemma length_os_insert: "os_insert x xs = xs \<or> length (os_insert x xs) = Suc (length xs)"
  by (induction xs) (auto split: ordering.split)

lemma length_os_extend: "os_extend xs ys = xs \<or> length xs < length (os_extend xs ys)"
proof (induction ys arbitrary: xs)
  case (Cons y ys)
  have "os_extend xs (y # ys) = os_extend (os_insert y xs) ys" by (simp add: os_extend_def)
  then show ?case using Cons [of "os_insert y xs"] length_os_insert [of y xs] by auto
qed (simp add: os_extend_def)

lemma route_fields:
  "ps_expanded (route sm lf s) = ps_expanded s" "chosen_summary (route sm lf s) n = chosen_summary s n"
  "edges_of (route sm lf s) n = edges_of s n" "chosen_names (route sm lf s) = chosen_names s"
  "ps_package_queue (route sm lf s) = ps_package_queue s" "ps_root_ids (route sm lf s) = ps_root_ids s"
  by (simp_all add: route_def chosen_summary_def edges_of_def chosen_names_def Let_def split: prod.split option.split)

lemma routeE:
  obtains (skip) "summary_dependency sm (fst lf) = None" "route sm lf s = s"
  | (target) d r where "summary_dependency sm (fst lf) = Some d"
      "r = (case map_of (ps_requested s) (dr_package d) of None \<Rightarrow> requested_default | Some r \<Rightarrow> r)"
      "map_of (ps_requested (route sm lf s)) = (map_of (ps_requested s))(dr_package d \<mapsto>
         r\<lparr>rq_forwarded := os_extend (rq_forwarded r) (snd lf)\<rparr>)"
      "set (ps_feature_queue s) \<subseteq> set (ps_feature_queue (route sm lf s))"
      "dr_package d \<in> set (ps_feature_queue (route sm lf s)) \<or> os_extend (rq_forwarded r) (snd lf) = rq_forwarded r"
proof (cases "summary_dependency sm (fst lf)")
  case None
  then show thesis by (intro skip) (auto simp: route_def split: prod.split)
next
  case (Some d)
  let ?r = "case map_of (ps_requested s) (dr_package d) of None \<Rightarrow> requested_default | Some r \<Rightarrow> r"
  show thesis
    by (rule target [OF Some refl])
      (use Some length_os_extend [of "rq_forwarded ?r" "snd lf"] in \<open>auto simp: route_def Let_def split: prod.split\<close>)
qed

lemma route_grows: "grows s (route sm lf s)"
proof (cases rule: routeE [of sm lf s])
  case skip
  then show ?thesis by (simp add: grows_refl)
next
  case (target d r)
  then show ?thesis by (auto simp: grows_def asks_def route_fields)
qed

lemma route_requests:
  "summary_dependency sm l = Some d \<Longrightarrow>
     \<exists>r. map_of (ps_requested (route sm (l, fs) s)) (dr_package d) = Some r \<and> set fs \<subseteq> set (rq_forwarded r)"
  by (cases rule: routeE [of sm "(l, fs)" s]) auto

lemma featured_route:
  assumes f: "featured X E F D s"
  shows "featured X E F D (route sm lf s)"
proof (cases rule: routeE [of sm lf s])
  case skip
  then show ?thesis using f by simp
next
  case (target d r)
  note g = route_grows [of s sm lf]
  let ?s = "route sm lf s"
  have "n \<in> set (ps_feature_queue ?s) \<or> n \<in> E \<or> uptodate ?s n" for n
  proof (cases "uptodate s n \<and> n \<notin> set (ps_feature_queue ?s)")
    case True
    have "map_of (ps_requested ?s) n = map_of (ps_requested s) n" if "chosen_summary s n \<noteq> None"
    proof (cases "n = dr_package d")
      case n: True
      have "map_of (ps_requested s) n \<noteq> None"
        using f that chosen_summary_chosen [of s n] unfolding featured_def by blast
      then show ?thesis using target(2,3,5) True n by auto
    qed (simp add: target(3))
    then show ?thesis using True by (auto simp: uptodate_def route_fields)
  qed (use f target(4) in \<open>auto simp: featured_def\<close>)
  moreover have "map_of (ps_requested ?s) n \<noteq> None" if "map_of (ps_requested s) n \<noteq> None" for n
    using growsD(4) [OF g that] .
  ultimately show ?thesis
    using f followed_grows [OF g] covered_grows [OF g] asked_grows [OF g]
    unfolding featured_def by (simp add: route_fields) blast
qed

lemma routes_facts:
  assumes "featured X E F D s"
  shows "featured X E F D (fold (route sm) lfs s) \<and> grows s (fold (route sm) lfs s) \<and>
    (\<forall>(l, fs)\<in>set lfs. \<forall>d. summary_dependency sm l = Some d \<longrightarrow>
       (\<exists>r. map_of (ps_requested (fold (route sm) lfs s)) (dr_package d) = Some r \<and> set fs \<subseteq> set (rq_forwarded r)))"
  using assms
proof (induction lfs arbitrary: s)
  case (Cons lf lfs)
  let ?t = "route sm lf s"
  note IH = Cons.IH [OF featured_route [OF Cons.prems, of sm lf]]
  have "\<exists>r. map_of (ps_requested (fold (route sm) lfs ?t)) (dr_package d) = Some r \<and> set (snd lf) \<subseteq> set (rq_forwarded r)"
    if d: "summary_dependency sm (fst lf) = Some d" for d
  proof -
    obtain r where r: "map_of (ps_requested ?t) (dr_package d) = Some r" "set (snd lf) \<subseteq> set (rq_forwarded r)"
      using route_requests [OF d, of "snd lf" s] by auto
    then show ?thesis using growsD(3) [of ?t "fold (route sm) lfs ?t", OF _ r(1)] IH unfolding asks_def by blast
  qed
  then show ?case using IH grows_trans [OF route_grows [of s sm lf]] by (auto split: prod.split)
qed (simp add: grows_refl)

subsection \<open>Expanding one package\<close>

lemma activates_facts:
  assumes "try_fold (activate name sm) ls s = (Inr s' :: 'e resolve_error + _)" "featured X E F D s"
  shows "featured X E F D s' \<and> grows s s' \<and> ps_expanded s' = ps_expanded s \<and> chosen_summary s' name = chosen_summary s name \<and>
    (\<forall>l\<in>set ls. \<forall>d. summary_dependency sm l = Some d \<longrightarrow> d \<in> set (edges_of s' name))"
  using assms
proof (induction ls arbitrary: s)
  case (Cons l ls)
  obtain t where t: "activate name sm l s = (Inr t :: 'e resolve_error + _)"
    "try_fold (activate name sm) ls t = (Inr s' :: 'e resolve_error + _)"
    using Cons.prems(1) by (auto simp: res_bind_Inr)
  show ?case
  proof (cases "summary_dependency sm l")
    case None
    then have "t = s" using t(1) by (simp add: activate_def)
    then show ?thesis using Cons.IH [OF _ Cons.prems(2)] t(2) None by simp
  next
    case (Some d)
    then have e: "enqueue_dependency name d s = (Inr t :: 'e resolve_error + _)" using t(1) by (simp add: activate_def)
    note IH = Cons.IH [OF t(2) featured_enqueue [OF Cons.prems(2) e]]
    have "d \<in> set (edges_of t name)" by (simp add: enqueue_fields [OF e])
    then have "d \<in> set (edges_of s' name)" using growsD(1) [of t s' name] IH by blast
    then show ?thesis
      using IH Some grows_trans [OF enqueue_grows(1) [OF e]] by (simp add: enqueue_fields [OF e])
  qed
qed (simp add: grows_refl)

lemma featured_finish:
  assumes "featured X E {name} D s" "\<And>ex. ps_expanded s name = Some ex \<Longrightarrow> \<exists>sm. chosen_summary s name = Some sm \<and> followed s name sm ex"
  shows "featured X E {} D s"
  using assms unfolding featured_def by blast

lemma expanded_fields:
  "chosen_summary (s\<lparr>ps_expanded := e\<rparr>) n = chosen_summary s n" "edges_of (s\<lparr>ps_expanded := e\<rparr>) n = edges_of s n"
  "chosen_names (s\<lparr>ps_expanded := e\<rparr>) = chosen_names s"
  by (simp_all add: chosen_summary_def edges_of_def chosen_names_def split: option.split)

lemma featured_expanded:
  assumes f: "featured X {name} {} D s" and sm: "chosen_summary s name = Some sm" "map_of (ps_requested s) name = Some r"
  shows "featured X {} {name} D (s\<lparr>ps_expanded := (ps_expanded s)(name \<mapsto> expansion_for sm r)\<rparr>)"
proof -
  let ?u = "s\<lparr>ps_expanded := (ps_expanded s)(name \<mapsto> expansion_for sm r)\<rparr>"
  have g: "grows s ?u" by (simp add: grows_def asks_def edges_of_def)
  note fields = expanded_fields [of "(ps_expanded s)(name \<mapsto> expansion_for sm r)" s]
  have "n \<in> set (ps_feature_queue ?u) \<or> uptodate ?u n" for n
    using f sm by (cases "n = name") (auto simp: featured_def uptodate_def fields)
  moreover have "\<exists>sm. chosen_summary ?u n = Some sm \<and> followed ?u n sm ex" if "ps_expanded ?u n = Some ex" "n \<noteq> name" for n ex
  proof -
    have "ps_expanded s n = Some ex" using that by simp
    then obtain sm1 where "chosen_summary s n = Some sm1" "followed s n sm1 ex" by (rule featured_followed [OF f]) simp
    then show ?thesis using followed_grows [OF g] by (auto simp: fields)
  qed
  ultimately show ?thesis
    using f covered_grows [OF g fields(1)] asked_grows [OF g]
    unfolding featured_def fields by (simp, blast)
qed

lemma expand_features_featured:
  assumes "expand_features name s = (Inr s' :: 'e resolve_error + _)" "featured X {name} {} D s"
  shows "featured X {} {} D s'"
  using assms(1)
proof (cases rule: expand_featuresE)
  case same
  then have "uptodate s name" by (simp add: uptodate_def expansion_for_def)
  then show ?thesis using assms(2) same(1) unfolding featured_def by auto
next
  case (grown sm r ex)
  let ?u = "s\<lparr>ps_expanded := (ps_expanded s)(name \<mapsto> ex)\<rparr>"
  let ?t = "fold (route sm) (ex_routes ex) ?u"
  have "featured X {} {name} D ?u"
    using featured_expanded [OF assms(2) grown(1,2)] grown(3) by (simp add: expansion_for_def)
  note routes = routes_facts [OF this, of sm "ex_routes ex"]
  note acts = activates_facts [OF grown(5) conjunct1 [OF routes]]
  have kept: "ps_expanded ?t = ps_expanded ?u \<and> chosen_summary ?t name = chosen_summary s name \<and> edges_of ?t name = edges_of s name"
  proof -
    have "ps_expanded (fold (route sm) lfs v) = ps_expanded v \<and> chosen_summary (fold (route sm) lfs v) name = chosen_summary v name \<and>
        edges_of (fold (route sm) lfs v) name = edges_of v name" for lfs and v :: "'a pass"
      by (induction lfs arbitrary: v) (simp_all add: route_fields)
    then show ?thesis by (simp add: expanded_fields)
  qed
  have ex: "ps_expanded s' name = Some ex" "chosen_summary s' name = Some sm" using acts kept grown(1) by simp_all
  have "d \<in> set (edges_of s' name)" if l: "l \<in> set (ex_activated ex)" "summary_dependency sm l = Some d" for l d
  proof (cases "l \<in> set (newly_activated (ps_expanded s name) ex)")
    case True
    then show ?thesis using acts l(2) by blast
  next
    case False
    then obtain prev where p: "ps_expanded s name = Some prev" "l \<in> set (ex_activated prev)"
      using l(1) by (auto simp: newly_activated_def split: option.splits)
    have "followed s name sm prev" by (rule featured_followed [OF assms(2) p(1)]) (use grown(1) in simp_all)
    then have "d \<in> set (edges_of s name)" using p(2) l(2) unfolding followed_def by blast
    then show ?thesis using growsD(1) [of ?t s' name] acts kept by auto
  qed
  moreover have "\<exists>r. map_of (ps_requested s') (dr_package d) = Some r \<and> set fs \<subseteq> set (rq_forwarded r)"
    if l: "(l, fs) \<in> set (ex_routes ex)" "summary_dependency sm l = Some d" for l fs d
  proof -
    obtain r where r: "map_of (ps_requested ?t) (dr_package d) = Some r" "set fs \<subseteq> set (rq_forwarded r)"
      using routes l by blast
    then show ?thesis using growsD(3) [of ?t s', OF _ r(1)] acts unfolding asks_def by blast
  qed
  ultimately have "followed s' name sm ex" unfolding followed_def by blast
  moreover have "featured X {} {name} D s'" using acts by blast
  ultimately show ?thesis using featured_finish ex by (metis option.inject)
qed

subsection \<open>Choosing and fetching\<close>

text \<open>A provider answers each request of a batch, index for index.\<close>

definition provider_aligned :: "('p, 'e) provider \<Rightarrow> bool" where
  "provider_aligned P \<longleftrightarrow> (\<forall>p ids. length (snd (summaries_batch P p ids)) = length ids)"

definition fetched :: "'p pass \<Rightarrow> 'p pass \<Rightarrow> bool" where
  "fetched s s' \<longleftrightarrow> same_wiring s s' \<and> ps_requested s' = ps_requested s \<and> ps_expanded s' = ps_expanded s \<and>
     ps_feature_queue s' = ps_feature_queue s \<and>
     (\<forall>pid sm. ps_summaries s (package_key pid) = Some sm \<longrightarrow> ps_summaries s' (package_key pid) = Some sm)"

lemma fetched_refl: "fetched s s"
  by (simp add: fetched_def same_wiring_refl)

lemma fetched_trans: "fetched s t \<Longrightarrow> fetched t u \<Longrightarrow> fetched s u"
  unfolding fetched_def by (auto intro: same_wiring_trans)

lemma fetched_summary: "fetched s s' \<Longrightarrow> chosen_summary s n = Some sm \<Longrightarrow> chosen_summary s' n = Some sm"
  by (auto simp: fetched_def same_wiring_def chosen_summary_def split: option.splits)

lemma fetched_views:
  assumes "fetched s s'"
  shows "edges_of s' = edges_of s" "chosen_names s' = chosen_names s" "ps_requested s' = ps_requested s"
    "ps_expanded s' = ps_expanded s" "ps_feature_queue s' = ps_feature_queue s"
    "ps_package_queue s' = ps_package_queue s" "ps_root_ids s' = ps_root_ids s" "ps_chosen s' = ps_chosen s"
  using assms same_wiring_views [of s s'] by (simp_all add: fetched_def same_wiring_def)

lemma fetched_grows: "fetched s s' \<Longrightarrow> grows s s'"
  by (simp add: grows_def fetched_views asks_def)

lemma featured_fetched:
  assumes f: "featured X E F D s" and D: "D \<subseteq> E" and ft: "fetched s s'"
  shows "featured X E F D s'"
proof -
  have same: "chosen_summary s' n = chosen_summary s n" if "n \<notin> D" for n
  proof (cases "n \<in> chosen_names s")
    case True
    then have "covered s n" using f that unfolding featured_def by blast
    then obtain sm where "chosen_summary s n = Some sm" unfolding covered_def by (elim exE conjE)
    then show ?thesis using fetched_summary [OF ft] by simp
  next
    case False
    then show ?thesis using chosen_summary_chosen fetched_views(2) [OF ft] by (metis option.exhaust)
  qed
  have up: "uptodate s' n" if "uptodate s n" "n \<notin> E" for n
  proof -
    have "chosen_summary s' n = chosen_summary s n" using that(2) D by (intro same) blast
    then show ?thesis using that(1) by (simp add: uptodate_def fetched_views [OF ft])
  qed
  have fol: "\<exists>sm. chosen_summary s' n = Some sm \<and> followed s' n sm ex"
    if "ps_expanded s n = Some ex" "n \<notin> F" for n ex
    using featured_followed [OF f that] fetched_summary [OF ft] followed_grows [OF fetched_grows [OF ft]] by metis
  show ?thesis
    using f up fol covered_grows [OF fetched_grows [OF ft] same] asked_grows [OF fetched_grows [OF ft]]
    unfolding featured_def fetched_views [OF ft] by blast
qed

lemma store_candidates_fetched: "store_candidates nr s = Inr s' \<Longrightarrow> fetched s s'"
  by (auto simp: store_candidates_def fetched_def same_wiring_def Let_def split: prod.splits sum.splits)

lemma fetch_candidates_fetched:
  assumes "fetch_candidates P inp ms s = (Inr s' :: 'e resolve_error + _)"
  shows "fetched s s'"
proof (cases "ms = []")
  case True
  then show ?thesis using assms by (simp add: fetch_candidates_def fetched_refl)
next
  case False
  let ?reqs = "map (\<lambda>name. \<lparr>cr_request = the (ps_representatives s name), cr_locked = map_of (in_locked inp) name\<rparr>) ms"
  obtain p results where b: "candidates_batch P (ps_provider s) ?reqs = (p, results)" by (rule prod.exhaust)
  then have "try_fold store_candidates (zip ms results) (s\<lparr>ps_provider := p\<rparr>) = (Inr s' :: 'e resolve_error + _)"
    using assms False by (simp add: fetch_candidates_def)
  then have "fetched (s\<lparr>ps_provider := p\<rparr>) s'"
    by (rule try_fold_invariant [where I = "fetched (s\<lparr>ps_provider := p\<rparr>)"])
      (auto intro: fetched_refl fetched_trans store_candidates_fetched)
  moreover have "fetched s (s\<lparr>ps_provider := p\<rparr>)" by (simp add: fetched_def same_wiring_def)
  ultimately show ?thesis by (rule fetched_trans [rotated])
qed

text \<open>Summaries are only asked for where none is known, so none is replaced.\<close>

lemma store_summary_new:
  assumes "store_summary (pid, r) s = Inr s'"
  obtains sm where "s' = s\<lparr>ps_summaries := (ps_summaries s)(package_key pid \<mapsto> sm)\<rparr>"
  using assms by (auto simp: store_summary_def split: sum.splits if_splits)

lemma store_summaries_facts:
  "try_fold store_summary xs u = (Inr u' :: 'e resolve_error + _) \<Longrightarrow>
     same_wiring u u' \<and> ps_requested u' = ps_requested u \<and> ps_expanded u' = ps_expanded u \<and>
     ps_feature_queue u' = ps_feature_queue u \<and>
     (\<forall>pid. package_key pid \<notin> package_key ` fst ` set xs \<longrightarrow>
        ps_summaries u' (package_key pid) = ps_summaries u (package_key pid)) \<and>
     (\<forall>pid. package_key pid \<in> package_key ` fst ` set xs \<longrightarrow> ps_summaries u' (package_key pid) \<noteq> None)"
proof (induction xs arbitrary: u)
  case (Cons x xs)
  obtain v where v: "store_summary x u = (Inr v :: 'e resolve_error + _)" "try_fold store_summary xs v = (Inr u' :: 'e resolve_error + _)"
    using Cons.prems by (auto simp: res_bind_Inr)
  obtain sm where vs: "v = u\<lparr>ps_summaries := (ps_summaries u)(package_key (fst x) \<mapsto> sm)\<rparr>"
    using store_summary_new v(1) by (metis prod.collapse)
  note IH = Cons.IH [OF v(2)]
  have "ps_summaries u' (package_key pid) \<noteq> None" if "package_key pid = package_key (fst x)" for pid
    using IH that by (cases "package_key pid \<in> package_key ` fst ` set xs") (simp_all add: vs)
  moreover have "same_wiring u v" by (simp add: vs same_wiring_def)
  ultimately show ?case
    using IH same_wiring_trans [of u v u'] by (simp add: vs)
qed (simp add: same_wiring_refl)

lemma fetch_summaries_fetched:
  assumes "fetch_summaries P ids s = (Inr s' :: 'e resolve_error + _)" "provider_aligned P"
  shows "fetched s s'" "\<forall>pid\<in>set ids. ps_summaries s' (package_key pid) \<noteq> None"
proof -
  define missing where "missing = filter (\<lambda>pid. ps_summaries s (package_key pid) = None) ids"
  have "fetched s s' \<and> (\<forall>pid\<in>set ids. ps_summaries s' (package_key pid) \<noteq> None)"
  proof (cases "missing = []")
    case True
    then show ?thesis
      using assms(1) by (auto simp: fetch_summaries_def fetched_refl missing_def filter_empty_conv)
  next
    case False
    obtain p results where b: "summaries_batch P (ps_provider s) missing = (p, results)" by (rule prod.exhaust)
    have run: "try_fold store_summary (zip missing results) (s\<lparr>ps_provider := p\<rparr>) = (Inr s' :: 'e resolve_error + _)"
      using assms(1) False b by (simp add: fetch_summaries_def Let_def missing_def)
    have "length results = length missing" using assms(2) b unfolding provider_aligned_def by (metis snd_conv)
    then have keys: "fst ` set (zip missing results) = set missing" by (metis list.set_map map_fst_zip)
    have none: "ps_summaries s k = None" if "k \<in> package_key ` set missing" for k
      using that by (auto simp: missing_def)
    note facts = store_summaries_facts [OF run, unfolded keys]
    have old: "ps_summaries s' (package_key pid) = Some sm" if "ps_summaries s (package_key pid) = Some sm" for pid sm
    proof -
      have "package_key pid \<notin> package_key ` set missing" using none that by fastforce
      then show ?thesis using facts that by simp
    qed
    have "ps_summaries s' (package_key pid) \<noteq> None" if "pid \<in> set ids" for pid
    proof (cases "pid \<in> set missing")
      case True
      then show ?thesis using facts by blast
    next
      case False
      then show ?thesis using that old by (auto simp: missing_def)
    qed
    then show ?thesis using facts old by (simp add: fetched_def same_wiring_def)
  qed
  then show "fetched s s'" "\<forall>pid\<in>set ids. ps_summaries s' (package_key pid) \<noteq> None" by simp_all
qed

lemma chosen_summary_choice:
  "chosen_summary (s\<lparr>ps_chosen := om_insert name pid (ps_chosen s), ps_checksums := c\<rparr>) n =
     (if n = name then ps_summaries s (package_key pid) else chosen_summary s n)"
  by (simp add: chosen_summary_def split: option.split)

lemma featured_choose:
  assumes f: "featured X E {} D s" and n: "name \<in> D" "D \<subseteq> E" and c: "choose_one inp name (ids, s) = Inr (ids', s')"
  shows "featured X E {} D s'"
  using c
proof (cases rule: choose_oneE)
  case known
  then show ?thesis using f by simp
next
  case (chosen pid checksum)
  have cs: "chosen_summary s' m = chosen_summary s m" if "m \<noteq> name" for m
    using that unfolding chosen(4) by (simp add: chosen_summary_choice)
  have fields: "edges_of s' m = edges_of s m" "ps_requested s' = ps_requested s" "ps_root_ids s' = ps_root_ids s"
    "ps_expanded s' = ps_expanded s" "ps_feature_queue s' = ps_feature_queue s" "ps_package_queue s' = ps_package_queue s" for m
    using choose_fields [OF c, of m] by simp_all
  have g: "grows s s'" by (simp add: grows_def fields asks_def)
  show ?thesis
  proof (rule featuredI)
    fix m show "m \<in> set (ps_feature_queue s') \<or> m \<in> E \<or> uptodate s' m"
    proof (cases "m = name")
      case False
      then have "uptodate s m \<Longrightarrow> uptodate s' m" using cs by (simp add: uptodate_def fields)
      then show ?thesis using featuredD(1) [OF f, of m] by (auto simp: fields)
    qed (use n in blast)
  next
    fix m ex assume "ps_expanded s' m = Some ex"
    then have "ps_expanded s m = Some ex" by (simp add: fields)
    then obtain sm where sm: "chosen_summary s m = Some sm" "followed s m sm ex"
      using featured_followed [OF f] by blast
    have "m \<noteq> name" using chosen_summary_chosen [OF sm(1)] chosen(1) by blast
    then show "\<exists>sm. chosen_summary s' m = Some sm \<and> followed s' m sm ex"
      using cs sm followed_grows [OF g] by auto
  next
    fix m assume "m \<in> chosen_names s'" "m \<notin> D"
    then have "m \<noteq> name" "covered s m"
      using featuredD(2) [OF f, of m] n(1) by (auto simp: choose_names [OF c])
    then show "covered s' m" using covered_grows [OF g cs] by blast
  next
    fix o1 d assume "d \<in> set (edges_of s' o1)"
    then show "X o1 (dr_package d) \<or> asked s' d" using featuredD(3) [OF f] asked_grows [OF g] unfolding fields by blast
  next
    fix m assume "m \<in> chosen_names s' \<union> set (ps_package_queue s') \<union> D"
    then show "map_of (ps_requested s') m \<noteq> None"
      using featuredD(4) [OF f, of m] n(1) by (auto simp: fields choose_names [OF c])
  qed
qed

lemma chosen_kept:
  assumes "choose_one inp name (ids, s) = Inr (ids', s')"
  shows "set ids \<subseteq> set ids'" "n \<in> chosen_names s \<Longrightarrow> map_of (ps_chosen s') n = map_of (ps_chosen s) n"
    "name \<notin> chosen_names s \<Longrightarrow> \<exists>pid\<in>set ids'. map_of (ps_chosen s') name = Some pid"
proof -
  from assms have "set ids \<subseteq> set ids' \<and> (n \<in> chosen_names s \<longrightarrow> map_of (ps_chosen s') n = map_of (ps_chosen s) n) \<and>
      (name \<notin> chosen_names s \<longrightarrow> (\<exists>pid\<in>set ids'. map_of (ps_chosen s') name = Some pid))"
  proof (cases rule: choose_oneE)
    case (chosen pid checksum)
    then show ?thesis unfolding chosen(2,4) by auto
  qed simp
  then show "set ids \<subseteq> set ids'" "n \<in> chosen_names s \<Longrightarrow> map_of (ps_chosen s') n = map_of (ps_chosen s) n"
    "name \<notin> chosen_names s \<Longrightarrow> \<exists>pid\<in>set ids'. map_of (ps_chosen s') name = Some pid" by blast+
qed

lemma featured_chooses:
  "try_fold (choose_one inp) names (ids, s) = (Inr (ids', s') :: 'e resolve_error + _) \<Longrightarrow>
     featured X E {} D s \<Longrightarrow> set names \<subseteq> D \<Longrightarrow> D \<subseteq> E \<Longrightarrow>
     featured X E {} D s' \<and> set ids \<subseteq> set ids' \<and>
     (\<forall>n\<in>chosen_names s. map_of (ps_chosen s') n = map_of (ps_chosen s) n) \<and>
     (\<forall>n\<in>set names. n \<notin> chosen_names s \<longrightarrow> (\<exists>pid\<in>set ids'. map_of (ps_chosen s') n = Some pid))"
proof (induction names arbitrary: ids s)
  case (Cons name names)
  obtain ids1 s1 where c: "choose_one inp name (ids, s) = (Inr (ids1, s1) :: 'e resolve_error + _)"
    "try_fold (choose_one inp) names (ids1, s1) = (Inr (ids', s') :: 'e resolve_error + _)"
    using Cons.prems(1) by (auto simp: res_bind_Inr)
  note IH = Cons.IH [OF c(2) featured_choose [OF Cons.prems(2) _ Cons.prems(4) c(1)]]
  note kept = chosen_kept [OF c(1)]
  have rest: "featured X E {} D s' \<and> set ids1 \<subseteq> set ids' \<and>
     (\<forall>n\<in>chosen_names s1. map_of (ps_chosen s') n = map_of (ps_chosen s1) n) \<and>
     (\<forall>n\<in>set names. n \<notin> chosen_names s1 \<longrightarrow> (\<exists>pid\<in>set ids'. map_of (ps_chosen s') n = Some pid))"
    using IH Cons.prems(3,4) by simp
  have "\<exists>pid\<in>set ids'. map_of (ps_chosen s') name = Some pid" if new: "name \<notin> chosen_names s"
  proof -
    obtain pid where "pid \<in> set ids1" "map_of (ps_chosen s1) name = Some pid" using kept(3) [OF new] by blast
    then show ?thesis using rest choose_names [OF c(1)] by auto
  qed
  moreover have "map_of (ps_chosen s') n = map_of (ps_chosen s) n" if "n \<in> chosen_names s" for n
    using rest kept(2) [OF that] that choose_names [OF c(1)] by simp
  ultimately show ?case using rest kept(1) choose_names [OF c(1)] by auto
qed simp

lemma featured_discover:
  assumes "discover name s = (Inr s' :: 'e resolve_error + _)" "featured X (insert name E) {} (insert name D) s"
    "name \<in> chosen_names s" "chosen_summary s name \<noteq> None"
  shows "featured X E {} D s' \<and> chosen_names s' = chosen_names s \<and> (\<forall>n. chosen_summary s' n = chosen_summary s n)"
proof -
  obtain sm where sm: "chosen_summary s name = Some sm" using assms(4) by blast
  let ?t = "s\<lparr>ps_feature_queue := ps_feature_queue s @ [name]\<rparr>"
  have run: "try_fold (enqueue_dependency name) (transitive_dependencies sm) ?t = (Inr s' :: 'e resolve_error + _)"
    using assms(1,3) sm by (auto simp: discover_def chosen_names_def)
  have fields: "chosen_summary ?t n = chosen_summary s n" "edges_of ?t n = edges_of s n" "chosen_names ?t = chosen_names s" for n
    by (simp_all add: chosen_summary_def edges_of_def chosen_names_def split: option.split)
  have "featured X E {} (insert name D) ?t" by (rule featured_queues [OF assms(2)]) auto
  moreover have "featured X E {} (insert name D) u' \<and> chosen_names u' = chosen_names u \<and>
      (\<forall>n. chosen_summary u' n = chosen_summary u n) \<and> ps_root_ids u' = ps_root_ids u \<and>
      set (edges_of u' name) = set (edges_of u name) \<union> set ds"
    if "try_fold (enqueue_dependency name) ds u = (Inr u' :: 'e resolve_error + _)" "featured X E {} (insert name D) u"
    for ds and u u' :: "'a pass"
    using that
  proof (induction ds arbitrary: u)
    case (Cons d ds)
    obtain v where v: "enqueue_dependency name d u = (Inr v :: 'e resolve_error + _)"
      "try_fold (enqueue_dependency name) ds v = (Inr u' :: 'e resolve_error + _)"
      using Cons.prems(1) by (auto simp: res_bind_Inr)
    show ?case
      using Cons.IH [OF v(2) featured_enqueue [OF Cons.prems(2) v(1)]] by (simp add: enqueue_fields [OF v(1)])
  qed simp
  ultimately have *: "featured X E {} (insert name D) s'" "chosen_names s' = chosen_names s"
    "\<forall>n. chosen_summary s' n = chosen_summary s n" "set (transitive_dependencies sm) \<subseteq> set (edges_of s' name)"
    using run by (auto simp: fields)
  have "covered s' name" using * sm by (simp add: covered_def)
  then show ?thesis using * unfolding featured_def by auto
qed

lemma featured_discovers:
  "try_fold discover names s = (Inr s' :: 'e resolve_error + _) \<Longrightarrow> featured X (set names) {} (set names) s \<Longrightarrow>
     \<forall>n\<in>set names. n \<in> chosen_names s \<and> chosen_summary s n \<noteq> None \<Longrightarrow> featured X {} {} {} s'"
proof (induction names arbitrary: s)
  case (Cons name names)
  obtain t where t: "discover name s = (Inr t :: 'e resolve_error + _)" "try_fold discover names t = (Inr s' :: 'e resolve_error + _)"
    using Cons.prems(1) by (auto simp: res_bind_Inr)
  have "featured X (set names) {} (set names) t \<and> chosen_names t = chosen_names s \<and> (\<forall>n. chosen_summary t n = chosen_summary s n)"
    using featured_discover [OF t(1)] Cons.prems(2,3) by simp
  then show ?case using Cons.IH [OF t(2)] Cons.prems(3) by simp
qed simp

lemma process_packages_featured:
  assumes "featured X {} {} {} s" "wiring s" "provider_aligned P"
    "process_packages P inp s = (Inr s' :: 'e resolve_error + _)"
  shows "featured X {} {} {} s'"
  using assms(4)
proof (cases rule: process_packagesE)
  case (1 cs ms s1 ids s2 s3)
  let ?t = "s\<lparr>ps_package_queue := []\<rparr>"
  note spec = classify_spec [OF 1(1)]
  have names0: "chosen_names ?t = chosen_names s" by (simp add: chosen_names_def)
  have "set cs \<subseteq> set (ps_package_queue s)" using spec by simp
  then have f0: "featured X (set cs) {} (set cs) ?t" by (intro featured_queues [OF assms(1)]) auto
  have f1: "featured X (set cs) {} (set cs) s1"
    by (rule featured_fetched [OF f0 order_refl fetch_candidates_fetched [OF 1(2)]])
  have names: "chosen_names s1 = chosen_names s" using fetched_views(2) [OF fetch_candidates_fetched [OF 1(2)]] names0 by simp
  have f2: "featured X (set cs) {} (set cs) s2 \<and> (\<forall>n\<in>set cs. \<exists>pid\<in>set ids. map_of (ps_chosen s2) n = Some pid)"
  proof -
    have "n \<notin> chosen_names s1" if "n \<in> set cs" for n using spec names that by auto
    then show ?thesis using featured_chooses [OF 1(3) f1 order_refl order_refl] by blast
  qed
  note ft = fetch_summaries_fetched [OF 1(4) assms(3)]
  have "n \<in> chosen_names s3 \<and> chosen_summary s3 n \<noteq> None" if n: "n \<in> set cs" for n
  proof -
    obtain pid where pid: "pid \<in> set ids" "map_of (ps_chosen s2) n = Some pid"
      using f2 n by blast
    then have "map_of (ps_chosen s3) n = Some pid" using fetched_views(8) [OF ft(1)] by simp
    moreover have "ps_summaries s3 (package_key pid) \<noteq> None" using ft(2) pid(1) by blast
    ultimately show ?thesis by (simp add: chosen_names_def chosen_summary_def dom_def)
  qed
  moreover have "featured X (set cs) {} (set cs) s3" by (rule featured_fetched [OF _ order_refl ft(1)]) (use f2 in blast)
  ultimately show ?thesis using featured_discovers [OF 1(5)] by blast
qed

lemma pass_step_featured:
  fixes P :: "('p, 'e) provider"
  assumes "pass_step P inp s = Inr s'" "featured X {} {} {} s" "wiring s" "provider_aligned P"
  shows "featured X {} {} {} s'"
proof (cases "ps_package_queue s = []")
  case False
  then show ?thesis using assms process_packages_featured by (simp add: pass_step_def)
next
  case True
  show ?thesis
  proof (cases "ps_feature_queue s")
    case Nil
    then show ?thesis using assms True by (simp add: pass_step_def)
  next
    case (Cons name rest)
    let ?t = "s\<lparr>ps_feature_queue := rest\<rparr>"
    have "featured X {name} {} {} ?t" by (rule featured_queues [OF assms(2)]) (auto simp: Cons)
    moreover have "expand_features name ?t = (Inr s' :: 'e resolve_error + _)" using assms(1) True Cons by (simp add: pass_step_def)
    ultimately show ?thesis using expand_features_featured by blast
  qed
qed

subsection \<open>Seeding\<close>

definition seeded_pass :: "(package_name \<Rightarrow> package_name \<Rightarrow> bool) \<Rightarrow> root_request list \<Rightarrow> 'p pass \<Rightarrow> bool" where
  "seeded_pass X roots s \<longleftrightarrow> featured X UNIV {} {} s \<and> (\<forall>n. ps_expanded s n = None) \<and>
     (\<forall>n\<in>chosen_names s. ps_root_ids s n \<noteq> None) \<and>
     (\<forall>o1. edges_of s o1 \<noteq> [] \<longrightarrow> o1 \<in> root_name ` set roots)"

lemma forward_fields:
  "ps_summaries (forward sm label feature s) = ps_summaries s" "ps_expanded (forward sm label feature s) = ps_expanded s"
  by (simp_all add: forward_def split: option.split)

lemma forward_grows: "grows s (forward sm label feature s)"
proof (cases "summary_dependency sm label")
  case None
  then show ?thesis by (simp add: forward_def grows_refl)
next
  case (Some d)
  then show ?thesis by (auto simp: forward_def grows_def asks_def edges_of_def)
qed

lemma seed_feature_facts:
  "grows s (snd (fold (seed_feature sm) es (r, s))) \<and>
   ps_summaries (snd (fold (seed_feature sm) es (r, s))) = ps_summaries s \<and>
   ps_expanded (snd (fold (seed_feature sm) es (r, s))) = ps_expanded s"
proof (induction es arbitrary: r s)
  case (Cons e es)
  obtain r' s1 where step: "seed_feature sm e (r, s) = (r', s1)" by (rule prod.exhaust)
  then have "grows s s1 \<and> ps_summaries s1 = ps_summaries s \<and> ps_expanded s1 = ps_expanded s"
    by (auto simp: seed_feature_def forward_fields forward_grows grows_refl split: option.splits prod.splits)
  then show ?case using Cons.IH [of s1 r'] grows_trans by (auto simp: step)
qed (simp add: grows_refl)

text \<open>The state behind a root whose features are recorded.\<close>

lemma seed_featuresE:
  obtains u r where "grows (place_root root s) u" "same_wiring (place_root root s) u"
    "ps_summaries u = ps_summaries (place_root root s)" "ps_expanded u = ps_expanded s"
    "seed_features root (place_root root s) =
       u\<lparr>ps_requested := om_insert (root_name root) r (ps_requested u),
         ps_feature_queue := ps_feature_queue u @ [root_name root]\<rparr>"
proof -
  let ?p = "place_root root s" and ?r0 = "requested_default\<lparr>rq_defaults := rr_default_features root\<rparr>"
  obtain r u where ru: "fold (seed_feature (rr_summary root)) (rr_features root) (?r0, ?p) = (r, u)" by (rule prod.exhaust)
  show thesis
  proof (rule that [of u r])
    have "ps_expanded ?p = ps_expanded s" by (simp add: place_root_def Let_def)
    then show "grows ?p u" "ps_summaries u = ps_summaries ?p" "ps_expanded u = ps_expanded s"
      using seed_feature_facts [of ?p "rr_summary root" "rr_features root" ?r0] by (simp_all add: ru)
    show "same_wiring ?p u" using seed_feature_wiring [of ?p "rr_summary root" "rr_features root" ?r0] by (simp add: ru)
    show "seed_features root ?p = u\<lparr>ps_requested := om_insert (root_name root) r (ps_requested u),
        ps_feature_queue := ps_feature_queue u @ [root_name root]\<rparr>"
      by (simp add: seed_features_def ru)
  qed
qed

lemma seeded_pass_root:
  assumes "seeded_pass X roots s" "\<And>m. m \<in> root_name ` set roots \<Longrightarrow> X m (root_name root)"
  shows "seeded_pass X (roots @ [root]) (seed_features root (place_root root s))"
proof (rule seed_featuresE [of root s])
  fix u :: "'a pass" and r
  let ?p = "place_root root s" and ?t = "u\<lparr>ps_requested := om_insert (root_name root) r (ps_requested u),
    ps_feature_queue := ps_feature_queue u @ [root_name root]\<rparr>"
  assume u: "grows ?p u" "same_wiring ?p u" "ps_summaries u = ps_summaries ?p" "ps_expanded u = ps_expanded s"
    and t: "seed_features root ?p = ?t"
  have f: "featured X UNIV {} {} s" and ex: "\<And>n. ps_expanded s n = None"
    and roots: "\<And>n. n \<in> chosen_names s \<Longrightarrow> ps_root_ids s n \<noteq> None"
    and owners: "\<And>o1. edges_of s o1 \<noteq> [] \<Longrightarrow> o1 \<in> root_name ` set roots"
    using assms(1) by (simp_all add: seeded_pass_def)
  let ?pid = "su_id (rr_summary root)"
  have chosen: "map_of (ps_chosen ?t) = (map_of (ps_chosen s))(root_name root \<mapsto> ?pid)"
    and summ: "ps_summaries ?t = (ps_summaries s)(package_key ?pid \<mapsto> rr_summary root)"
    and ids: "ps_root_ids ?t = (ps_root_ids s)(root_name root \<mapsto> ?pid)"
    and pq: "ps_package_queue ?t = ps_package_queue s"
    using u(2,3) by (simp_all add: same_wiring_def place_root_def Let_def)
  have edges: "edges_of ?t n = edges_of s n" for n
    using u(2) by (simp add: same_wiring_def place_root_def Let_def edges_of_def)
  have req: "\<exists>r'. map_of (ps_requested ?t) n = Some r' \<and> asks r0 r'"
    if "map_of (ps_requested s) n = Some r0" "n \<noteq> root_name root" for n r0
  proof -
    have "map_of (ps_requested ?p) n = Some r0" using that(1) by (simp add: place_root_def Let_def)
    then show ?thesis using growsD(3) [OF u(1)] that(2) by simp
  qed
  have names: "chosen_names ?t = insert (root_name root) (chosen_names s)"
    unfolding chosen_names_def chosen by simp
  have covered: "covered ?t n" if n: "n \<in> chosen_names ?t" for n
  proof -
    have "chosen_summary ?t n \<noteq> None"
    proof (cases "n = root_name root")
      case True
      then show ?thesis using chosen summ by (simp add: chosen_summary_def)
    next
      case False
      then have "covered s n" using featuredD(2) [OF f, of n] n names by simp
      then show ?thesis using chosen summ False by (auto simp: covered_def chosen_summary_def split: option.splits)
    qed
    moreover have "ps_root_ids ?t n \<noteq> None" using roots [of n] n names unfolding ids by auto
    ultimately show ?thesis by (auto simp: covered_def)
  qed
  have asked: "X o1 (dr_package d) \<or> asked ?t d" if d: "d \<in> set (edges_of ?t o1)" for o1 d
  proof (cases "dr_package d = root_name root")
    case True
    have "edges_of s o1 \<noteq> []" using d edges by auto
    then show ?thesis using assms(2) [OF owners] True by simp
  next
    case False
    have "X o1 (dr_package d) \<or> asked s d" using featuredD(3) [OF f] d edges by simp
    then show ?thesis using req [OF _ False] unfolding asked_def asks_def by (metis subset_trans)
  qed
  have "map_of (ps_requested ?t) n \<noteq> None" if n: "n \<in> chosen_names ?t \<union> set (ps_package_queue ?t)" for n
  proof (cases "n = root_name root")
    case False
    then have "map_of (ps_requested s) n \<noteq> None" using featuredD(4) [OF f, of n] n names pq by simp
    then show ?thesis using req [OF _ False] by auto
  qed simp
  then have "featured X UNIV {} {} ?t" using covered asked ex u(4) by (intro featuredI) simp_all
  then show ?thesis using ex u(4) roots owners names ids edges unfolding t seeded_pass_def by simp
qed

lemma seeded_enqueues:
  assumes "try_fold (enqueue_dependency o1) ds s = (Inr s' :: 'e resolve_error + _)" "seeded_pass X roots s"
    "o1 \<in> root_name ` set roots"
  shows "seeded_pass X roots s'"
  using assms(1)
proof (rule try_fold_invariant)
  fix d and t t' :: "'a pass" assume t: "seeded_pass X roots t" and e: "enqueue_dependency o1 d t = (Inr t' :: 'e resolve_error + _)"
  have "featured X UNIV {} {} t'" using t featured_enqueue [OF _ e] by (simp add: seeded_pass_def)
  then show "seeded_pass X roots t'" using t assms(3) by (simp add: seeded_pass_def enqueue_fields [OF e])
qed (use assms(2) in simp)

lemma seed_root_seeded:
  assumes "seed_root root s = (Inr s' :: 'e resolve_error + _)" "seeded_pass X roots s"
    "\<And>m. m \<in> root_name ` set roots \<Longrightarrow> X m (root_name root)"
  shows "seeded_pass X (roots @ [root]) s'"
  using assms(1) seeded_pass_root [OF assms(2,3)] unfolding seed_root_def by (rule seeded_enqueues) auto

text \<open>Every root is seeded behind those listed before it.\<close>

lemma seed_root_all:
  "try_fold seed_root roots s = (Inr s' :: 'e resolve_error + _) \<Longrightarrow>
     seeded_pass (listed_before (seeds @ roots)) seeds s \<Longrightarrow>
     seeded_pass (listed_before (seeds @ roots)) (seeds @ roots) s'"
proof (induction roots arbitrary: seeds s)
  case (Cons root roots)
  obtain t where t: "seed_root root s = (Inr t :: 'e resolve_error + _)" "try_fold seed_root roots t = (Inr s' :: 'e resolve_error + _)"
    using Cons.prems(1) by (auto simp: res_bind_Inr)
  have "seeded_pass (listed_before (seeds @ root # roots)) (seeds @ [root]) t"
    by (rule seed_root_seeded [OF t(1) Cons.prems(2)]) (rule listed_before_split)
  then show ?case using Cons.IH [OF t(2), of "seeds @ [root]"] by simp
qed simp

lemma seed_roots_featured:
  assumes "seed_roots roots s = (Inr s' :: 'e resolve_error + _)" "seeded_pass (listed_before roots) [] s"
  shows "featured (listed_before roots) {} {} {} s'"
proof -
  obtain t where t: "try_fold seed_root roots s = (Inr t :: 'e resolve_error + _)" "s' = seed_pending t"
    using assms(1) by (auto simp: seed_roots_def res_bind_Inr)
  have "seeded_pass (listed_before roots) roots t" using seed_root_all [OF t(1), of "[]"] assms(2) by simp
  then have f: "featured (listed_before roots) UNIV {} {} t" and ex: "\<And>n. ps_expanded t n = None" by (simp_all add: seeded_pass_def)
  have fields: "chosen_summary s' n = chosen_summary t n" "edges_of s' n = edges_of t n" "chosen_names s' = chosen_names t" for n
    by (simp_all add: t(2) seed_pending_def chosen_summary_def edges_of_def chosen_names_def split: option.split)
  have f': "featured (listed_before roots) UNIV {} {} s'" by (rule featured_queues [OF f]) (auto simp: t(2) seed_pending_def)
  show ?thesis
  proof (rule featuredI)
    fix n
    have "uptodate s' n" if "n \<notin> set (ps_feature_queue s')"
    proof (rule ccontr)
      assume "\<not> uptodate s' n"
      then obtain sm r where "chosen_summary s' n = Some sm" "map_of (ps_requested s') n = Some r"
        unfolding uptodate_def by blast
      then have "map_of (ps_chosen t) n \<noteq> None" "n \<in> fst ` set (ps_requested t)"
        using chosen_summary_chosen [of s' n sm] fields(3) by (auto simp: chosen_names_def t(2) seed_pending_def dest: map_of_SomeD intro: rev_image_eqI)
      then show False using that by (auto simp: t(2) seed_pending_def)
    qed
    then show "n \<in> set (ps_feature_queue s') \<or> n \<in> {} \<or> uptodate s' n" by blast
  next
    fix n ex' assume "ps_expanded s' n = Some ex'"
    then show "\<exists>sm. chosen_summary s' n = Some sm \<and> followed s' n sm ex'" using ex by (simp add: t(2) seed_pending_def)
  qed (use featuredD(2-4) [OF f'] in blast)+
qed

lemma pass_new_seeded: "seeded_pass X [] (pass_new p c m)"
  by (auto intro!: featuredI simp: seeded_pass_def pass_new_def edges_of_def chosen_names_def)

lemma pass_run_featured:
  assumes "pass_run P inp (pass_new p c m) = Some (Inr (s, out))" "provider_aligned P"
  shows "featured (listed_before (in_roots inp)) {} {} {} s"
  using assms(1)
proof (cases rule: pass_runE)
  case (1 s1)
  have "wiring s1 \<and> featured (listed_before (in_roots inp)) {} {} {} s1"
    using seed_roots_wiring [OF 1(1) pass_new_seeding] seed_roots_featured [OF 1(1) pass_new_seeded] by simp
  then have "(wiring s \<and> featured (listed_before (in_roots inp)) {} {} {} s) \<and> pass_done s"
    by (rule pass_loop_invariant [OF 1(2)]) (use pass_step_wiring pass_step_featured assms(2) in blast)
  then show ?thesis by simp
qed

subsection \<open>Property\<close>

text \<open>What a finished pass has done for one chosen package.\<close>

definition complete_package :: "'p pass \<Rightarrow> package_name \<Rightarrow> package_id \<Rightarrow> bool" where
  "complete_package s n pid \<longleftrightarrow> (\<exists>sm r. ps_summaries s (package_key pid) = Some sm \<and>
     map_of (ps_requested s) n = Some r \<and> ps_expanded s n = Some (expansion_for sm r) \<and>
     followed s n sm (expansion_for sm r) \<and>
     (ps_root_ids s n = None \<longrightarrow> set (transitive_dependencies sm) \<subseteq> set (edges_of s n)))"

text \<open>C7: when a pass ends, every chosen package has a summary; its features are the expansion of
  everything requested of it in the end, and not of what was known when it was first expanded; every
  mandatory dependency of its summary, for a root every development one it includes too, and every
  optional one its features activate is an edge; what its features forward is requested of the
  target; and every edge had its features requested of its target, except an edge from a root to a
  root listed behind it, whose seeding drops what was requested of it before
  (\<open>root_order_loses_features\<close>). The provider is assumed to answer a batch index for index.\<close>

theorem pass_complete:
  assumes "pass_run P inp (pass_new p c m) = Some (Inr (s, out))" "provider_aligned P"
  shows "(\<forall>n pid. map_of (oc_chosen out) n = Some pid \<longrightarrow> complete_package s n pid) \<and>
    (\<forall>n. list_all (\<lambda>d. listed_before (in_roots inp) n (dr_package d) \<or> asked s d) (or_empty (oc_edges out n))) \<and>
    list_all (\<lambda>root. set (seed_dependencies root) \<subseteq> set (or_empty (oc_edges out (root_name root)))) (in_roots inp)"
proof -
  have f: "featured (listed_before (in_roots inp)) {} {} {} s" and no: "ps_feature_queue s = []"
    using pass_run_featured [OF assms] pass_run_wiring [OF assms(1)] by (simp_all add: pass_done_def)
  have out: "oc_chosen out = ps_chosen s" "oc_edges out = ps_edges s"
    using assms(1) by (rule pass_runE, metis outcome_of_def pass_outcome.select_convs(1,5))+
  have "complete_package s n pid" if "map_of (ps_chosen s) n = Some pid" for n pid
  proof -
    have n: "n \<in> chosen_names s" using that by (auto simp: chosen_names_def)
    obtain sm where sm: "chosen_summary s n = Some sm"
      "ps_root_ids s n = None \<longrightarrow> set (transitive_dependencies sm) \<subseteq> set (edges_of s n)"
      using featuredD(2) [OF f n] unfolding covered_def by auto
    obtain r where r: "map_of (ps_requested s) n = Some r" using featuredD(4) [OF f, of n] n by blast
    have ex: "ps_expanded s n = Some (expansion_for sm r)"
      using featuredD(1) [OF f, of n] no sm(1) r by (simp add: uptodate_def)
    have "followed s n sm (expansion_for sm r)" by (rule featured_followed [OF f ex]) (use sm(1) in simp_all)
    moreover have "ps_summaries s (package_key pid) = Some sm" using sm(1) that by (simp add: chosen_summary_def)
    ultimately show ?thesis
      using sm(2) r ex unfolding complete_package_def by (intro exI [of _ sm] exI [of _ r] conjI)
  qed
  then show ?thesis using featuredD(3) [OF f] pass_run_keeps [OF assms(1)] by (simp add: out list_all_iff flip: edges_of_def)
qed

lemma pass_complete_witness:
  "\<exists>s out pid. pass_run sample_provider sample_setting sample_pass = Some (Inr (s, out)) \<and>
     map_of (oc_chosen out) ''a'' = Some pid \<and> v_raw (pi_version pid) = ''1'' \<and> complete_package s ''a'' pid"
proof -
  obtain s out where run: "pass_run sample_provider sample_setting sample_pass = Some (Inr (s, out))"
    "chosen_versions out = [(''a'', ''1''), (''b'', ''2''), (''r'', ''1'')]"
    by (rule sample_run)
  obtain pid where pid: "map_of (oc_chosen out) ''a'' = Some pid" "v_raw (pi_version pid) = ''1''"
    by (rule chosen_version [OF run(2), of "''a''" "''1''"]) auto
  have "provider_aligned sample_provider" by (simp add: provider_aligned_def sample_provider_def)
  then have "complete_package s ''a'' pid"
    using pass_complete [OF run(1) [unfolded sample_pass_def]] pid(1) by blast
  then show ?thesis using run(1) pid by blast
qed

end
