(* ===== verification/Feature_Closure.thy ===== *)
theory Feature_Closure
  imports Summary
begin

text \<open>
  What \<open>expand\<close> computes: the features reachable from the requested ones, whatever the order the
  stack visits them in.
\<close>

subsection \<open>Reachable features\<close>

inductive reaches :: "summary \<Rightarrow> string set \<Rightarrow> string \<Rightarrow> bool" for s S where
  requested: "f \<in> S \<Longrightarrow> reaches s S f"
| enabled: "reaches s S f \<Longrightarrow> Local_Feature g \<in> set (feature_values s f) \<Longrightarrow> reaches s S g"

definition activates :: "summary \<Rightarrow> string set \<Rightarrow> string \<Rightarrow> bool" where
  "activates s F label \<longleftrightarrow> (\<exists>f\<in>F. Dependency label \<in> set (feature_values s f))"

definition forwards :: "summary \<Rightarrow> string set \<Rightarrow> package_name \<Rightarrow> string \<Rightarrow> bool" where
  "forwards s F label feature \<longleftrightarrow> (\<exists>f\<in>F. Dependency_Feature label feature \<in> set (feature_values s f))"

definition routed :: "expansion \<Rightarrow> package_name \<Rightarrow> string set" where
  "routed ex label = (case map_of (ex_routes ex) label of None \<Rightarrow> {} | Some fs \<Rightarrow> set fs)"

lemma reaches_mono: "reaches s S f \<Longrightarrow> S \<subseteq> T \<Longrightarrow> reaches s T f"
  by (induction rule: reaches.induct) (auto intro: reaches.intros)

lemma expand_values:
  "fold expand_value vs (pending, ex) = (pending', ex') \<Longrightarrow>
     set pending' = set pending \<union> {g. Local_Feature g \<in> set vs} \<and>
     ex_enabled ex' = ex_enabled ex \<and>
     set (ex_activated ex') = set (ex_activated ex) \<union> {l. Dependency l \<in> set vs} \<and>
     routed ex' label = routed ex label \<union> {x. Dependency_Feature label x \<in> set vs}"
proof (induction vs arbitrary: pending ex)
  case (Cons v vs)
  show ?case
  proof (cases v)
    case (Dependency_Feature l x)
    have "routed (ex\<lparr>ex_routes := om_update l [] (os_insert x) (ex_routes ex)\<rparr>) label =
        routed ex label \<union> (if l = label then {x} else {})"
      by (auto simp: routed_def split: option.split)
    then show ?thesis
      using Cons.IH [of pending "ex\<lparr>ex_routes := om_update l [] (os_insert x) (ex_routes ex)\<rparr>"] Cons.prems
        Dependency_Feature by auto
  next
    case (Local_Feature inner)
    then show ?thesis using Cons.IH [of "inner # pending" ex] Cons.prems by auto
  next
    case (Dependency d)
    then show ?thesis
      using Cons.IH [of pending "ex\<lparr>ex_activated := os_insert d (ex_activated ex)\<rparr>"] Cons.prems
      by (auto simp: routed_def)
  qed
qed simp

text \<open>The loop invariant: the visited features are closed up to the stack.\<close>

definition closing :: "summary \<Rightarrow> string set \<Rightarrow> string list \<Rightarrow> expansion \<Rightarrow> bool" where
  "closing s S pending ex \<longleftrightarrow>
     S \<subseteq> set (ex_enabled ex) \<union> set pending \<and>
     (\<forall>f\<in>set (ex_enabled ex) \<union> set pending. reaches s S f) \<and>
     (\<forall>f\<in>set (ex_enabled ex). \<forall>g. Local_Feature g \<in> set (feature_values s f) \<longrightarrow>
        g \<in> set (ex_enabled ex) \<union> set pending) \<and>
     (\<forall>l. l \<in> set (ex_activated ex) \<longleftrightarrow> activates s (set (ex_enabled ex)) l) \<and>
     (\<forall>l x. x \<in> routed ex l \<longleftrightarrow> forwards s (set (ex_enabled ex)) l x)"

lemma closing_step:
  assumes c: "closing s S (f # pending) ex" and new: "f \<notin> set (ex_enabled ex)"
    and step: "fold expand_value (feature_values s f) (pending, ex\<lparr>ex_enabled := os_insert f (ex_enabled ex)\<rparr>) = (pending', ex')"
  shows "closing s S pending' ex'"
proof -
  note e = expand_values [OF step, of undefined]
  have r: "reaches s S f" using c by (simp add: closing_def)
  have routed: "routed (ex\<lparr>ex_enabled := es\<rparr>) = routed ex" for es by (rule ext) (simp add: routed_def)
  have en: "set (ex_enabled ex') = insert f (set (ex_enabled ex))" using e by simp
  show ?thesis
    unfolding closing_def en
  proof (intro conjI)
    show "S \<subseteq> insert f (set (ex_enabled ex)) \<union> set pending'" using c e by (auto simp: closing_def)
    show "\<forall>h\<in>insert f (set (ex_enabled ex)) \<union> set pending'. reaches s S h"
      using c e r reaches.enabled [OF r] by (auto simp: closing_def)
    show "\<forall>h\<in>insert f (set (ex_enabled ex)). \<forall>g. Local_Feature g \<in> set (feature_values s h) \<longrightarrow>
        g \<in> insert f (set (ex_enabled ex)) \<union> set pending'"
      using c e by (auto simp: closing_def)
    show "\<forall>l. l \<in> set (ex_activated ex') \<longleftrightarrow> activates s (insert f (set (ex_enabled ex))) l"
      using c e by (auto simp: closing_def activates_def)
    show "\<forall>l x. x \<in> routed ex' l \<longleftrightarrow> forwards s (insert f (set (ex_enabled ex))) l x"
      using c expand_values [OF step] by (auto simp: closing_def forwards_def routed)
  qed
qed

lemma closing_visited: "closing s S (f # pending) ex \<Longrightarrow> f \<in> set (ex_enabled ex) \<Longrightarrow> closing s S pending ex"
  by (auto simp: closing_def)

lemma closing_loop: "closing s S pending ex \<Longrightarrow> closing s S [] (expand_loop s pending ex)"
proof (induction s pending ex rule: expand_loop.induct)
  case (2 s feature pending ex)
  show ?case
  proof (cases "feature \<in> set (ex_enabled ex)")
    case True
    then show ?thesis using 2 closing_visited by (simp add: expand_loop.simps(2))
  next
    case False
    obtain pending' ex' where step: "fold expand_value (feature_values s feature)
        (pending, ex\<lparr>ex_enabled := os_insert feature (ex_enabled ex)\<rparr>) = (pending', ex')" by (rule prod.exhaust)
    have "closing s S [] (expand_loop s pending' ex')"
      using "2.IH"(2) [OF False refl] closing_step [OF "2.prems" False step] by (simp add: step)
    then show ?thesis using False by (simp add: expand_loop.simps(2) step)
  qed
qed (simp add: expand_loop.simps)

lemma closing_enabled: "closing s S [] ex \<Longrightarrow> set (ex_enabled ex) = {f. reaches s S f}"
proof (rule set_eqI)
  fix f assume c: "closing s S [] ex"
  have "f \<in> set (ex_enabled ex)" if "reaches s S f"
    using that by induction (use c in \<open>auto simp: closing_def\<close>)
  then show "f \<in> set (ex_enabled ex) \<longleftrightarrow> f \<in> {f. reaches s S f}" using c by (auto simp: closing_def)
qed

subsection \<open>Implicit features\<close>

lemma activate_implicit_spec:
  "ex_enabled (activate_implicit s ex) = ex_enabled ex \<and> ex_routes (activate_implicit s ex) = ex_routes ex \<and>
   set (ex_activated (activate_implicit s ex)) = set (ex_activated ex) \<union>
     {dr_name d | d. d \<in> set (su_dependencies s) \<and> dr_optional d \<and> \<not> explicitly_named s (dr_name d) \<and>
        dr_name d \<in> set (ex_enabled ex)}"
proof -
  let ?f = "\<lambda>d (ex :: expansion). if dr_optional d \<and> \<not> explicitly_named s (dr_name d) \<and> dr_name d \<in> set (ex_enabled ex)
       then ex\<lparr>ex_activated := os_insert (dr_name d) (ex_activated ex)\<rparr> else ex"
  have "ex_enabled (fold ?f ds ex) = ex_enabled ex \<and> ex_routes (fold ?f ds ex) = ex_routes ex \<and>
      set (ex_activated (fold ?f ds ex)) = set (ex_activated ex) \<union>
        {dr_name d | d. d \<in> set ds \<and> dr_optional d \<and> \<not> explicitly_named s (dr_name d) \<and>
           dr_name d \<in> set (ex_enabled ex)}" for ds
    by (induction ds arbitrary: ex) auto
  then show ?thesis by (simp add: activate_implicit_def)
qed

lemma expand_spec:
  fixes s seed defaults
  defines "S \<equiv> set seed \<union> (if defaults then {''default''} else {})"
  defines "F \<equiv> {f. reaches s S f}"
  shows "set (ex_enabled (expand s seed defaults)) = F - {''default''}"
    "set (ex_activated (expand s seed defaults)) = {l. activates s F l} \<union>
       {dr_name d | d. d \<in> set (su_dependencies s) \<and> dr_optional d \<and> \<not> explicitly_named s (dr_name d) \<and>
          dr_name d \<in> F - {''default''}}"
    "routed (expand s seed defaults) label = {x. forwards s F label x}"
proof -
  let ?pending = "rev (seed @ (if defaults then [''default''] else []))"
  let ?ex = "\<lparr>ex_enabled = [], ex_activated = [], ex_routes = []\<rparr>"
  define r where "r = expand_loop s ?pending ?ex"
  have "closing s S ?pending ?ex"
    by (auto simp: closing_def S_def activates_def forwards_def routed_def intro: reaches.requested)
  then have c: "closing s S [] r" unfolding r_def by (rule closing_loop)
  have e: "set (ex_enabled r) = F" using closing_enabled [OF c] by (simp add: F_def)
  have *: "expand s seed defaults = activate_implicit s (r\<lparr>ex_enabled := os_remove ''default'' (ex_enabled r)\<rparr>)"
    by (simp add: expand_def Let_def r_def)
  show "set (ex_enabled (expand s seed defaults)) = F - {''default''}"
    unfolding * by (simp add: activate_implicit_spec e)
  show "set (ex_activated (expand s seed defaults)) = {l. activates s F l} \<union>
       {dr_name d | d. d \<in> set (su_dependencies s) \<and> dr_optional d \<and> \<not> explicitly_named s (dr_name d) \<and>
          dr_name d \<in> F - {''default''}}"
    unfolding * using c by (simp add: activate_implicit_spec e closing_def set_eq_iff)
  show "routed (expand s seed defaults) label = {x. forwards s F label x}"
    unfolding * using c by (auto simp: activate_implicit_spec routed_def closing_def e [symmetric])
qed

subsection \<open>Property\<close>

text \<open>C40: expanding features ends with exactly the features reachable from the requested ones without
  the name \<open>default\<close>, the optional dependencies these name with \<open>dep:\<close> or as an implicit feature, and
  the features they forward to each dependency; the order of the stack does not show.\<close>

theorem expand_closure:
  "set (ex_enabled (expand s seed defaults)) =
     {f. reaches s (set seed \<union> (if defaults then {''default''} else {})) f} - {''default''} \<and>
   set (ex_activated (expand s seed defaults)) =
     {l. activates s {f. reaches s (set seed \<union> (if defaults then {''default''} else {})) f} l} \<union>
     {dr_name d | d. d \<in> set (su_dependencies s) \<and> dr_optional d \<and> \<not> explicitly_named s (dr_name d) \<and>
        dr_name d \<in> set (ex_enabled (expand s seed defaults))} \<and>
   routed (expand s seed defaults) label =
     {x. forwards s {f. reaches s (set seed \<union> (if defaults then {''default''} else {})) f} label x}"
  by (intro conjI) (simp_all only: expand_spec)

end
