(* ===== verification/Resolve_Termination.thy ===== *)
theory Resolve_Termination
  imports Resolve_Features Feature_Closure
begin

text \<open>
  Resolution ends when the summaries the provider can return name finitely many packages and
  features: a step of a pass chooses a new package, brings the expansion of a package up to date, or
  shortens a queue, and requests only grow.
\<close>

subsection \<open>A loop that goes down ends\<close>

lemma pass_loop_ends:
  fixes P :: "('p, 'e) provider"
  assumes "wf R" "I s"
    and step: "\<And>t t'. I t \<Longrightarrow> \<not> pass_done t \<Longrightarrow> pass_step P inp t = Inr t' \<Longrightarrow> I t' \<and> (t', t) \<in> R"
  shows "pass_loop P inp s \<noteq> None"
  using assms(1,2)
proof (induction s rule: wf_induct_rule)
  case (less s)
  show ?case
  proof (cases "pass_done s")
    case True
    then show ?thesis by (simp add: pass_loop.simps [of P inp s])
  next
    case False
    show ?thesis
    proof (cases "pass_step P inp s")
      case (Inl e)
      then show ?thesis using False by (simp add: pass_loop.simps [of P inp s])
    next
      case (Inr t)
      then show ?thesis
        using less.IH [of t] step [OF less.prems False Inr] False by (simp add: pass_loop.simps [of P inp s])
    qed
  qed
qed

subsection \<open>A finite universe\<close>

definition summary_within :: "package_name set \<Rightarrow> string set \<Rightarrow> summary \<Rightarrow> bool" where
  "summary_within N U sm \<longleftrightarrow>
     (\<forall>d\<in>set (su_dependencies sm). dr_package d \<in> N \<and> set (dr_features d) \<subseteq> U) \<and>
     (\<forall>f l x. Dependency_Feature l x \<in> set (feature_values sm f) \<longrightarrow> x \<in> U)"

definition provider_within :: "package_name set \<Rightarrow> string set \<Rightarrow> ('p, 'e) provider \<Rightarrow> bool" where
  "provider_within N U P \<longleftrightarrow> (\<forall>p ids sm. Inr sm \<in> set (snd (summaries_batch P p ids)) \<longrightarrow> summary_within N U sm)"

definition memo_within :: "package_name set \<Rightarrow> string set \<Rightarrow> summary_memo \<Rightarrow> bool" where
  "memo_within N U memo \<longleftrightarrow> (\<forall>pid sm. memo (package_key pid) = Some sm \<longrightarrow> summary_within N U sm)"

definition root_within :: "package_name set \<Rightarrow> string set \<Rightarrow> root_request \<Rightarrow> bool" where
  "root_within N U root \<longleftrightarrow> summary_within N U (rr_summary root) \<and> root_name root \<in> N \<and>
     (\<forall>entry\<in>set (rr_features root). entry \<in> U \<and>
        (\<forall>label feature. split_once ''/'' entry = Some (label, feature) \<longrightarrow> feature \<in> U))"

text \<open>Requests keep within it.\<close>

definition request_within :: "string set \<Rightarrow> requested \<Rightarrow> bool" where
  "request_within U r \<longleftrightarrow> in_order (rq_selected r) \<and> in_order (rq_forwarded r) \<and>
     set (rq_selected r) \<subseteq> U \<and> set (rq_forwarded r) \<subseteq> U"

definition pass_within :: "package_name set \<Rightarrow> string set \<Rightarrow> 'p pass \<Rightarrow> bool" where
  "pass_within N U s \<longleftrightarrow> chosen_names s \<subseteq> N \<and> set (ps_package_queue s) \<subseteq> N \<and> memo_within N U (ps_summaries s) \<and>
     (\<forall>n r. map_of (ps_requested s) n = Some r \<longrightarrow> n \<in> N \<and> request_within U r)"

lemma in_order_os_extend: "in_order xs \<Longrightarrow> in_order (os_extend xs ys)"
proof -
  have "in_order xs \<Longrightarrow> in_order (fold os_insert ys xs)" by (induction ys arbitrary: xs) (auto intro: in_order_os_insert)
  then show "in_order xs \<Longrightarrow> in_order (os_extend xs ys)" by (simp add: os_extend_def)
qed

lemma request_within_default: "request_within U requested_default"
  by (simp add: request_within_def requested_default_def in_order_def)

lemma request_within_selected:
  "request_within U r \<Longrightarrow> set fs \<subseteq> U \<Longrightarrow> request_within U (r\<lparr>rq_selected := os_extend (rq_selected r) fs, rq_defaults := b\<rparr>)"
  by (simp add: request_within_def in_order_os_extend)

lemma request_within_forwarded:
  "request_within U r \<Longrightarrow> set fs \<subseteq> U \<Longrightarrow> request_within U (r\<lparr>rq_forwarded := os_extend (rq_forwarded r) fs\<rparr>)"
  by (simp add: request_within_def in_order_os_extend)

subsection \<open>Routes stay within the universe\<close>

lemma om_insert_values: "(l, w) \<in> set (om_insert k v m) \<Longrightarrow> w = v \<or> (\<exists>l'. (l', w) \<in> set m)"
  by (induction m) (auto split: ordering.splits)

definition routes_within :: "string set \<Rightarrow> expansion \<Rightarrow> bool" where
  "routes_within U ex \<longleftrightarrow> (\<forall>(l, fs)\<in>set (ex_routes ex). set fs \<subseteq> U)"

lemma expand_value_within:
  "routes_within U ex \<Longrightarrow> (\<And>l x. v = Dependency_Feature l x \<Longrightarrow> x \<in> U) \<Longrightarrow> routes_within U (snd (expand_value v (pending, ex)))"
proof (cases v)
  case (Dependency_Feature l x)
  assume r: "routes_within U ex" and v: "\<And>l x. v = Dependency_Feature l x \<Longrightarrow> x \<in> U"
  let ?old = "case map_of (ex_routes ex) l of None \<Rightarrow> [] | Some w \<Rightarrow> w"
  have "set ?old \<subseteq> U"
  proof (cases "map_of (ex_routes ex) l")
    case (Some w)
    then show ?thesis using map_of_SomeD [OF Some] r by (auto simp: routes_within_def)
  qed simp
  then have "set fs \<subseteq> U" if "(k, fs) \<in> set (om_insert l (os_insert x ?old) (ex_routes ex))" for k fs
    using om_insert_values [OF that] r v Dependency_Feature by (fastforce simp: routes_within_def)
  then show ?thesis by (auto simp: Dependency_Feature routes_within_def om_update_def)
qed (auto simp: routes_within_def)

lemma expand_values_within:
  "routes_within U ex \<Longrightarrow> (\<And>l x. Dependency_Feature l x \<in> set vs \<Longrightarrow> x \<in> U) \<Longrightarrow>
     routes_within U (snd (fold expand_value vs (pending, ex)))"
proof (induction vs arbitrary: pending ex)
  case (Cons v vs)
  obtain pending1 ex1 where step: "expand_value v (pending, ex) = (pending1, ex1)" by (rule prod.exhaust)
  have "x \<in> U" if "v = Dependency_Feature l x" for l x using Cons.prems(2) [of l x] that by simp
  then have "routes_within U ex1" using expand_value_within [OF Cons.prems(1), of v pending] step by simp
  moreover have "x \<in> U" if "Dependency_Feature l x \<in> set vs" for l x using Cons.prems(2) [of l x] that by simp
  ultimately show ?case using Cons.IH [of ex1 pending1] step by simp
qed simp

lemma expand_loop_within:
  "summary_within N U sm \<Longrightarrow> routes_within U ex \<Longrightarrow> routes_within U (expand_loop sm pending ex)"
proof (induction sm pending ex rule: expand_loop.induct)
  case (2 s feature pending ex)
  have "routes_within U (snd (fold expand_value (feature_values s feature)
      (pending, ex\<lparr>ex_enabled := os_insert feature (ex_enabled ex)\<rparr>)))"
    using "2.prems" by (intro expand_values_within) (auto simp: routes_within_def summary_within_def)
  then show ?case using 2 by (simp add: expand_loop.simps Let_def)
qed (simp add: expand_loop.simps)

lemma expand_within: "summary_within N U sm \<Longrightarrow> routes_within U (expand sm seed defaults)"
proof -
  assume sm: "summary_within N U sm"
  let ?r = "expand_loop sm (rev (seed @ (if defaults then [''default''] else []))) \<lparr>ex_enabled = [], ex_activated = [], ex_routes = []\<rparr>"
  have "routes_within U ?r" by (rule expand_loop_within [OF sm]) (simp add: routes_within_def)
  then show ?thesis by (simp add: expand_def Let_def routes_within_def activate_implicit_spec)
qed

subsection \<open>Steps keep within the universe\<close>

lemma summary_dependency_in: "summary_dependency sm l = Some d \<Longrightarrow> d \<in> set (su_dependencies sm)"
  by (auto simp: summary_dependency_def find_Some_iff)

lemma within_enqueue:
  assumes w: "pass_within N U s" and d: "dr_package d \<in> N" "set (dr_features d) \<subseteq> U"
    and e: "enqueue_dependency o1 d s = (Inr s' :: 'e resolve_error + _)"
  shows "pass_within N U s'"
proof -
  have "n \<in> N \<and> request_within U r" if r: "map_of (ps_requested s') n = Some r" for n r
  proof (cases "n = dr_package d")
    case True
    let ?r = "case map_of (ps_requested s) n of None \<Rightarrow> requested_default | Some r \<Rightarrow> r"
    have "request_within U ?r"
      using w request_within_default by (auto simp: pass_within_def split: option.split)
    then show ?thesis
      using r True d request_within_selected by (auto simp: enqueue_grows(3) [OF e] Let_def)
  next
    case False
    then show ?thesis using r w by (simp add: enqueue_grows(3) [OF e] pass_within_def)
  qed
  then show ?thesis using w d by (simp add: pass_within_def enqueue_fields [OF e])
qed

lemma within_enqueues:
  assumes "try_fold (enqueue_dependency o1) ds s = (Inr s' :: 'e resolve_error + _)" "pass_within N U s"
    "\<forall>d\<in>set ds. dr_package d \<in> N \<and> set (dr_features d) \<subseteq> U"
  shows "pass_within N U s'"
  using assms(1,2) by (rule try_fold_invariant) (use assms(3) within_enqueue in blast)

lemma within_queues:
  "pass_within N U s \<Longrightarrow> set pq \<subseteq> set (ps_package_queue s) \<Longrightarrow>
     pass_within N U (s\<lparr>ps_package_queue := pq\<rparr>) \<and> pass_within N U (s\<lparr>ps_feature_queue := fq\<rparr>) \<and>
     pass_within N U (s\<lparr>ps_provider := p\<rparr>) \<and> pass_within N U (s\<lparr>ps_expanded := ex\<rparr>)"
  by (auto simp: pass_within_def chosen_names_def)

lemma within_chosen_summary: "pass_within N U s \<Longrightarrow> chosen_summary s n = Some sm \<Longrightarrow> summary_within N U sm"
  by (auto simp: pass_within_def memo_within_def chosen_summary_def split: option.splits)

lemma fetch_candidates_within:
  assumes "fetch_candidates P inp ms s = (Inr s' :: 'e resolve_error + _)" "pass_within N U s"
  shows "pass_within N U s'"
proof -
  have "ps_summaries s' = ps_summaries s"
  proof (cases "ms = []")
    case True
    then show ?thesis using assms(1) by (simp add: fetch_candidates_def)
  next
    case False
    then obtain p results where "try_fold store_candidates (zip ms results) (s\<lparr>ps_provider := p\<rparr>) = (Inr s' :: 'e resolve_error + _)"
      using assms(1) by (auto simp: fetch_candidates_def split: prod.splits)
    then show ?thesis
      by (rule try_fold_invariant [where I = "\<lambda>t. ps_summaries t = ps_summaries s"])
        (auto simp: store_candidates_def Let_def split: prod.splits sum.splits)
  qed
  then show ?thesis
    using assms(2) fetched_views [OF fetch_candidates_fetched [OF assms(1)]] by (simp add: pass_within_def)
qed

lemma fetch_summaries_within:
  assumes "fetch_summaries P ids s = (Inr s' :: 'e resolve_error + _)" "pass_within N U s" "provider_within N U P"
  shows "pass_within N U s'"
proof -
  let ?missing = "filter (\<lambda>pid. ps_summaries s (package_key pid) = None) ids"
  show ?thesis
  proof (cases "?missing = []")
    case True
    then show ?thesis using assms by (simp add: fetch_summaries_def)
  next
    case False
    obtain p results where b: "summaries_batch P (ps_provider s) ?missing = (p, results)" by (rule prod.exhaust)
    have "try_fold store_summary (zip ?missing results) (s\<lparr>ps_provider := p\<rparr>) = (Inr s' :: 'e resolve_error + _)"
      using assms(1) False b by (simp add: fetch_summaries_def Let_def)
    then show ?thesis
    proof (rule try_fold_invariant)
      show "pass_within N U (s\<lparr>ps_provider := p\<rparr>)" using within_queues [OF assms(2) order_refl] by blast
    next
      fix x and t t' :: "'a pass"
      assume x: "x \<in> set (zip ?missing results)" "pass_within N U t" "store_summary x t = (Inr t' :: 'e resolve_error + _)"
      obtain pid sm where sm: "x = (pid, Inr sm)" "t' = t\<lparr>ps_summaries := (ps_summaries t)(package_key pid \<mapsto> sm)\<rparr>"
        using x(3) by (auto simp: store_summary_def split: prod.splits sum.splits if_splits)
      have "summary_within N U sm"
        using assms(3) b x(1) sm(1) unfolding provider_within_def by (metis set_zip_rightD snd_conv)
      then show "pass_within N U t'"
        using x(2) unfolding sm(2) by (simp add: pass_within_def memo_within_def chosen_names_def)
    qed
  qed
qed

lemma within_choose:
  "choose_one inp name (ids, s) = Inr (ids', s') \<Longrightarrow> pass_within N U s \<Longrightarrow> name \<in> N \<Longrightarrow> pass_within N U s'"
proof -
  assume c: "choose_one inp name (ids, s) = Inr (ids', s')" and w: "pass_within N U s" "name \<in> N"
  have "ps_requested s' = ps_requested s" "ps_summaries s' = ps_summaries s" "ps_package_queue s' = ps_package_queue s"
    using choose_fields [OF c] by simp_all
  then show "pass_within N U s'" using w by (simp add: pass_within_def choose_names [OF c])
qed

lemma chooses_within:
  "try_fold (choose_one inp) names (ids, s) = (Inr (ids', s') :: 'e resolve_error + _) \<Longrightarrow> pass_within N U s \<Longrightarrow>
     set names \<subseteq> N \<Longrightarrow> pass_within N U s' \<and> chosen_names s' = chosen_names s \<union> set names"
proof (induction names arbitrary: ids s)
  case (Cons name names)
  obtain ids1 s1 where c: "choose_one inp name (ids, s) = (Inr (ids1, s1) :: 'e resolve_error + _)"
    "try_fold (choose_one inp) names (ids1, s1) = (Inr (ids', s') :: 'e resolve_error + _)"
    using Cons.prems(1) by (auto simp: res_bind_Inr)
  show ?case
    using Cons.IH [OF c(2) within_choose [OF c(1) Cons.prems(2)]] Cons.prems(3) choose_names [OF c(1)] by simp
qed simp

lemma discovers_within:
  assumes "try_fold discover names s = (Inr s' :: 'e resolve_error + _)" "pass_within N U s"
  shows "pass_within N U s' \<and> chosen_names s' = chosen_names s"
  using assms(1)
proof (rule try_fold_invariant)
  fix name and t t' :: "'a pass"
  assume t: "pass_within N U t \<and> chosen_names t = chosen_names s" and d: "discover name t = (Inr t' :: 'e resolve_error + _)"
  show "pass_within N U t' \<and> chosen_names t' = chosen_names s"
  proof (cases "map_of (ps_chosen t) name")
    case None
    then show ?thesis using t d by (simp add: discover_def)
  next
    case (Some pid)
    let ?u = "t\<lparr>ps_feature_queue := ps_feature_queue t @ [name]\<rparr>"
    let ?ds = "case chosen_summary t name of None \<Rightarrow> [] | Some sm \<Rightarrow> transitive_dependencies sm"
    have e: "try_fold (enqueue_dependency name) ?ds ?u = (Inr t' :: 'e resolve_error + _)" using d Some by (simp add: discover_def)
    have "\<forall>d\<in>set ?ds. dr_package d \<in> N \<and> set (dr_features d) \<subseteq> U"
    proof (cases "chosen_summary t name")
      case (Some sm)
      then have "summary_within N U sm" using t within_chosen_summary by blast
      then show ?thesis using Some by (simp add: transitive_dependencies_def summary_within_def)
    qed simp
    moreover have "pass_within N U ?u" using within_queues [of N U t] t by blast
    ultimately have "pass_within N U t'" using within_enqueues [OF e] by blast
    moreover have "chosen_names t' = chosen_names ?u" by (rule enqueues_chosen [OF e])
    ultimately show ?thesis using t by (simp add: chosen_names_def)
  qed
qed (use assms(2) in simp)

subsection \<open>What is left to do\<close>

definition request_size :: "requested option \<Rightarrow> nat" where
  "request_size r = (case r of None \<Rightarrow> 0
     | Some r \<Rightarrow> Suc (length (rq_selected r) + length (rq_forwarded r) + (if rq_defaults r then 1 else 0)))"

definition capacity :: "string set \<Rightarrow> nat" where
  "capacity U = 2 * card U + 2"

definition left_over :: "string set \<Rightarrow> 'p pass \<Rightarrow> package_name \<Rightarrow> nat" where
  "left_over U s n = 2 * (capacity U - request_size (map_of (ps_requested s) n)) + (if uptodate s n then 0 else 1)"

definition potential :: "package_name set \<Rightarrow> string set \<Rightarrow> 'p pass \<Rightarrow> nat" where
  "potential N U s = (\<Sum>n\<in>N. left_over U s n)"

lemma request_size_bound:
  assumes "finite U" "request_within U r"
  shows "request_size (Some r) \<le> capacity U"
proof -
  have "length xs \<le> card U" if "in_order xs" "set xs \<subseteq> U" for xs
    using that assms(1) by (metis card_mono distinct_card in_order_distinct)
  then have "length (rq_selected r) \<le> card U" "length (rq_forwarded r) \<le> card U"
    using assms(2) by (auto simp: request_within_def)
  then show ?thesis by (auto simp: request_size_def capacity_def)
qed

text \<open>A package is left alone, or more is requested of it.\<close>

definition nearer :: "string set \<Rightarrow> 'p pass \<Rightarrow> 'p pass \<Rightarrow> package_name \<Rightarrow> bool" where
  "nearer U s s' n \<longleftrightarrow>
     map_of (ps_requested s') n = map_of (ps_requested s) n \<and> (uptodate s n \<longrightarrow> uptodate s' n) \<or>
     request_size (map_of (ps_requested s) n) < request_size (map_of (ps_requested s') n) \<and>
     request_size (map_of (ps_requested s') n) \<le> capacity U"

lemma nearer_left_over: "nearer U s s' n \<Longrightarrow> left_over U s' n \<le> left_over U s n"
  by (auto simp: nearer_def left_over_def)

lemma nearer_potential: "(\<And>n. nearer U s s' n) \<Longrightarrow> potential N U s' \<le> potential N U s"
  unfolding potential_def by (intro sum_mono nearer_left_over)

lemma enqueue_nearer:
  assumes U: "finite U" and w: "pass_within N U s'" and e: "enqueue_dependency o1 d s = (Inr s' :: 'e resolve_error + _)"
  shows "nearer U s s' n"
proof (cases "n = dr_package d")
  case False
  then show ?thesis
    by (simp add: nearer_def uptodate_def enqueue_grows(3) [OF e] enqueue_fields [OF e])
next
  case True
  let ?r = "case map_of (ps_requested s) n of None \<Rightarrow> requested_default | Some r \<Rightarrow> r"
  let ?r' = "?r\<lparr>rq_selected := os_extend (rq_selected ?r) (dr_features d), rq_defaults := rq_defaults ?r \<or> dr_default_features d\<rparr>"
  have r': "map_of (ps_requested s') n = Some ?r'" using True by (simp add: enqueue_grows(3) [OF e] Let_def)
  then have bound: "request_size (map_of (ps_requested s') n) \<le> capacity U"
    using w request_size_bound [OF U] unfolding pass_within_def by metis
  have "map_of (ps_requested s) n = Some ?r' \<or> request_size (map_of (ps_requested s) n) < request_size (Some ?r')"
    using length_os_extend [of "rq_selected ?r" "dr_features d"]
    by (cases "map_of (ps_requested s) n") (auto simp: request_size_def)
  then show ?thesis
    using bound r' by (auto simp: nearer_def uptodate_def enqueue_fields [OF e])
qed

lemma within_route:
  assumes w: "pass_within N U s" and sm: "summary_within N U sm" and fs: "set (snd lf) \<subseteq> U"
  shows "pass_within N U (route sm lf s)"
proof (cases rule: routeE [of sm lf s])
  case skip
  then show ?thesis using w by simp
next
  case (target d r)
  have "request_within U r" "dr_package d \<in> N"
    using w request_within_default sm summary_dependency_in [OF target(1)]
    by (auto simp: target(2) pass_within_def summary_within_def split: option.split)
  then have "request_within U (r\<lparr>rq_forwarded := os_extend (rq_forwarded r) (snd lf)\<rparr>)"
    using fs by (intro request_within_forwarded)
  moreover have "ps_summaries (route sm lf s) = ps_summaries s"
    by (simp add: route_def Let_def split: prod.split option.split)
  ultimately show ?thesis
    using w \<open>dr_package d \<in> N\<close> by (auto simp: pass_within_def target(3) route_fields split: if_splits)
qed

lemma route_nearer:
  assumes U: "finite U" and w: "pass_within N U (route sm lf s)"
  shows "nearer U s (route sm lf s) n"
proof (cases rule: routeE [of sm lf s])
  case skip
  then show ?thesis by (simp add: nearer_def)
next
  case (target d r)
  let ?s' = "route sm lf s"
  have up: "uptodate s n \<Longrightarrow> uptodate ?s' n" if "map_of (ps_requested ?s') n = map_of (ps_requested s) n"
    using that by (simp add: uptodate_def route_fields)
  show ?thesis
  proof (cases "n = dr_package d")
    case False
    then show ?thesis using up by (simp add: nearer_def target(3))
  next
    case True
    let ?r' = "r\<lparr>rq_forwarded := os_extend (rq_forwarded r) (snd lf)\<rparr>"
    have r': "map_of (ps_requested ?s') n = Some ?r'" using True by (simp add: target(3))
    then have "request_size (map_of (ps_requested ?s') n) \<le> capacity U"
      using w request_size_bound [OF U] unfolding pass_within_def by metis
    moreover have "map_of (ps_requested s) n = Some ?r' \<or> request_size (map_of (ps_requested s) n) < request_size (Some ?r')"
      using length_os_extend [of "rq_forwarded r" "snd lf"] True
      by (cases "map_of (ps_requested s) n") (auto simp: request_size_def target(2))
    ultimately show ?thesis using up r' by (auto simp: nearer_def)
  qed
qed

lemma routes_nearer:
  "finite U \<Longrightarrow> pass_within N U s \<Longrightarrow> summary_within N U sm \<Longrightarrow> \<forall>(l, fs)\<in>set lfs. set fs \<subseteq> U \<Longrightarrow>
     pass_within N U (fold (route sm) lfs s) \<and> potential N U (fold (route sm) lfs s) \<le> potential N U s \<and>
     chosen_names (fold (route sm) lfs s) = chosen_names s"
proof (induction lfs arbitrary: s)
  case (Cons lf lfs)
  have w: "pass_within N U (route sm lf s)" using Cons.prems by (intro within_route) auto
  have "potential N U (route sm lf s) \<le> potential N U s"
    by (rule nearer_potential) (rule route_nearer [OF Cons.prems(1) w])
  then show ?case using Cons.IH [OF Cons.prems(1) w Cons.prems(3)] Cons.prems(4) by (simp add: route_fields)
qed simp

lemma expanded_potential:
  assumes "finite N" "name \<in> N" "chosen_summary s name = Some sm" "map_of (ps_requested s) name = Some r"
    "ps_expanded s name \<noteq> Some (expansion_for sm r)"
  shows "potential N U (s\<lparr>ps_expanded := (ps_expanded s)(name \<mapsto> expansion_for sm r)\<rparr>) < potential N U s"
proof -
  let ?u = "s\<lparr>ps_expanded := (ps_expanded s)(name \<mapsto> expansion_for sm r)\<rparr>"
  have other: "left_over U ?u n = left_over U s n" if "n \<noteq> name" for n
    using that by (simp add: left_over_def uptodate_def expanded_fields)
  have "left_over U ?u name < left_over U s name"
    using assms(3-5) by (simp add: left_over_def uptodate_def expanded_fields)
  then show ?thesis
    unfolding potential_def using assms(1,2) other by (intro sum_strict_mono_ex1) (auto, metis le_refl less_or_eq_imp_le)
qed

lemma expand_features_within:
  assumes e: "expand_features name s = (Inr s' :: 'e resolve_error + _)" and w: "pass_within N U s"
    and fin: "finite N" "finite U"
  shows "pass_within N U s' \<and> chosen_names s' = chosen_names s \<and> (s' = s \<or> potential N U s' < potential N U s)"
  using e
proof (cases rule: expand_featuresE)
  case same
  then show ?thesis using w by simp
next
  case (grown sm r ex)
  let ?u = "s\<lparr>ps_expanded := (ps_expanded s)(name \<mapsto> ex)\<rparr>"
  let ?t = "fold (route sm) (ex_routes ex) ?u"
  have sm: "summary_within N U sm" using within_chosen_summary [OF w grown(1)] .
  have "name \<in> N" using w chosen_summary_chosen [OF grown(1)] by (auto simp: pass_within_def)
  then have less: "potential N U ?u < potential N U s"
    using expanded_potential [OF fin(1) _ grown(1,2)] grown(3,4) by (simp add: expansion_for_def)
  have "pass_within N U ?u" using within_queues [OF w order_refl] by blast
  moreover have "\<forall>(l, fs)\<in>set (ex_routes ex). set fs \<subseteq> U"
    using expand_within [OF sm] unfolding grown(3) routes_within_def .
  ultimately have t: "pass_within N U ?t \<and> potential N U ?t \<le> potential N U ?u \<and> chosen_names ?t = chosen_names ?u"
    using routes_nearer [OF fin(2) _ sm] by blast
  have "pass_within N U s' \<and> potential N U s' \<le> potential N U ?u \<and> chosen_names s' = chosen_names ?u"
  proof (rule activates_invariant [OF grown(5),
        of "\<lambda>v. pass_within N U v \<and> potential N U v \<le> potential N U ?u \<and> chosen_names v = chosen_names ?u", OF t])
    fix v v' l d
    assume v: "pass_within N U v \<and> potential N U v \<le> potential N U ?u \<and> chosen_names v = chosen_names ?u"
      and l: "summary_dependency sm l = Some d" and d: "enqueue_dependency name d v = (Inr v' :: 'e resolve_error + _)"
    have within: "pass_within N U v'"
      using within_enqueue [OF _ _ _ d] v sm summary_dependency_in [OF l] by (simp add: summary_within_def)
    have "potential N U v' \<le> potential N U v" by (rule nearer_potential) (rule enqueue_nearer [OF fin(2) within d])
    then show "pass_within N U v' \<and> potential N U v' \<le> potential N U ?u \<and> chosen_names v' = chosen_names ?u"
      using v within enqueue_fields(11) [OF d] by simp
  qed
  then show ?thesis using less by (simp add: expanded_fields)
qed

lemma classify_misses: "classify s queue cs ms = (Inr (cs', ms') :: 'e resolve_error + _) \<Longrightarrow> set ms \<subseteq> set cs \<Longrightarrow> set ms' \<subseteq> set cs'"
proof (induction s queue cs ms rule: classify.induct)
  case (2 s name queue cs ms)
  then show ?case by (auto split: option.splits if_splits)
qed auto

definition pass_left :: "package_name set \<Rightarrow> string set \<Rightarrow> ('p pass \<times> 'p pass) set" where
  "pass_left N U = measures [\<lambda>s. card (N - chosen_names s), potential N U,
     \<lambda>s. length (ps_package_queue s) + length (ps_feature_queue s)]"

lemma process_packages_within:
  assumes p: "process_packages P inp s = (Inr s' :: 'e resolve_error + _)" and w: "pass_within N U s"
    and P: "provider_within N U P" and fin: "finite N" and busy: "ps_package_queue s \<noteq> []"
  shows "pass_within N U s' \<and> (s', s) \<in> pass_left N U"
  using p
proof (cases rule: process_packagesE)
  case (1 cs ms s1 ids s2 s3)
  let ?t = "s\<lparr>ps_package_queue := []\<rparr>"
  note spec = classify_spec [OF 1(1)]
  have cs: "set cs \<subseteq> N" using w spec by (auto simp: pass_within_def)
  have "pass_within N U ?t" using within_queues [OF w, of "[]"] by simp
  then have w1: "pass_within N U s1" by (rule fetch_candidates_within [OF 1(2)])
  have names: "chosen_names s1 = chosen_names s"
    using fetched_views(2) [OF fetch_candidates_fetched [OF 1(2)]] by (simp add: chosen_names_def)
  have w2: "pass_within N U s2 \<and> chosen_names s2 = chosen_names s1 \<union> set cs" by (rule chooses_within [OF 1(3) w1 cs])
  then have "pass_within N U s3" using fetch_summaries_within [OF 1(4) _ P] by blast
  then have w': "pass_within N U s' \<and> chosen_names s' = chosen_names s3" by (rule discovers_within [OF 1(5)])
  have names': "chosen_names s' = chosen_names s \<union> set cs"
    using w' w2 names same_wiring_views(3) [OF fetch_summaries_wiring [OF 1(4)]] by simp
  show ?thesis
  proof (cases cs)
    case Nil
    then have "ms = []" using classify_misses [OF 1(1)] by simp
    then have "s' = ?t" using 1 Nil by (simp add: fetch_candidates_def fetch_summaries_def)
    moreover have "potential N U ?t = potential N U s"
    proof -
      have "chosen_summary ?t n = chosen_summary s n" for n by (simp add: chosen_summary_def split: option.split)
      then show ?thesis by (simp add: potential_def left_over_def uptodate_def)
    qed
    ultimately show ?thesis using w' busy by (simp add: pass_left_def chosen_names_def)
  next
    case (Cons c rest)
    then have "c \<in> N" "c \<notin> chosen_names s" "c \<in> chosen_names s'" using cs spec names' by auto
    then have "N - chosen_names s' \<subset> N - chosen_names s" using names' by auto
    then have "card (N - chosen_names s') < card (N - chosen_names s)" using fin by (simp add: psubset_card_mono)
    then show ?thesis using w' by (simp add: pass_left_def)
  qed
qed

lemma pass_step_within:
  fixes P :: "('p, 'e) provider"
  assumes "pass_step P inp s = Inr s'" "\<not> pass_done s" "pass_within N U s" "provider_within N U P" "finite N" "finite U"
  shows "pass_within N U s' \<and> (s', s) \<in> pass_left N U"
proof (cases "ps_package_queue s = []")
  case False
  then have "process_packages P inp s = (Inr s' :: 'e resolve_error + _)" using assms(1) by (simp add: pass_step_def)
  then show ?thesis using process_packages_within assms(3-5) False by blast
next
  case True
  then obtain name rest where q: "ps_feature_queue s = name # rest"
    using assms(2) by (cases "ps_feature_queue s") (auto simp: pass_done_def)
  let ?t = "s\<lparr>ps_feature_queue := rest\<rparr>"
  have t: "pass_within N U ?t" using within_queues [OF assms(3) order_refl] by blast
  have "expand_features name ?t = (Inr s' :: 'e resolve_error + _)" using assms(1) True q by (simp add: pass_step_def)
  note e = expand_features_within [OF this t assms(5,6)]
  have "potential N U ?t = potential N U s"
  proof -
    have "chosen_summary ?t n = chosen_summary s n" for n by (simp add: chosen_summary_def split: option.split)
    then show ?thesis by (simp add: potential_def left_over_def uptodate_def)
  qed
  moreover have "chosen_names ?t = chosen_names s" by (simp add: chosen_names_def)
  ultimately show ?thesis using e q True by (auto simp: pass_left_def)
qed

subsection \<open>The first state\<close>

lemma forward_within:
  assumes w: "pass_within N U s" and sm: "summary_within N U sm" and f: "feature \<in> U"
  shows "pass_within N U (forward sm label feature s)"
proof (cases "summary_dependency sm label")
  case None
  then show ?thesis using w by (simp add: forward_def)
next
  case (Some d)
  let ?r = "case map_of (ps_requested s) (dr_package d) of None \<Rightarrow> requested_default | Some r \<Rightarrow> r"
  have "request_within U ?r" using w request_within_default by (auto simp: pass_within_def split: option.split)
  then have "request_within U (?r\<lparr>rq_forwarded := os_insert feature (rq_forwarded ?r)\<rparr>)"
    using f by (simp add: request_within_def in_order_os_insert)
  moreover have "dr_package d \<in> N" using sm summary_dependency_in [OF Some] by (simp add: summary_within_def)
  ultimately show ?thesis using w Some by (auto simp: forward_def pass_within_def chosen_names_def)
qed

lemma seed_feature_within:
  "pass_within N U s \<Longrightarrow> request_within U r \<Longrightarrow> summary_within N U sm \<Longrightarrow>
     \<forall>entry\<in>set es. entry \<in> U \<and> (\<forall>label feature. split_once ''/'' entry = Some (label, feature) \<longrightarrow> feature \<in> U) \<Longrightarrow>
     pass_within N U (snd (fold (seed_feature sm) es (r, s))) \<and> request_within U (fst (fold (seed_feature sm) es (r, s)))"
proof (induction es arbitrary: r s)
  case (Cons e es)
  obtain r1 s1 where step: "seed_feature sm e (r, s) = (r1, s1)" by (rule prod.exhaust)
  have "pass_within N U s1 \<and> request_within U r1"
  proof (cases "split_once ''/'' e")
    case None
    then show ?thesis
      using step Cons.prems by (auto simp: seed_feature_def request_within_def in_order_os_insert)
  next
    case (Some lf)
    then show ?thesis
      using step Cons.prems forward_within by (cases lf) (auto simp: seed_feature_def)
  qed
  then show ?case using Cons.IH [of s1 r1] Cons.prems(3,4) step by simp
qed simp

lemma seed_root_within:
  assumes "seed_root root s = (Inr s' :: 'e resolve_error + _)" "pass_within N U s" "root_within N U root"
  shows "pass_within N U s'"
proof -
  let ?p = "place_root root s" and ?sm = "rr_summary root"
  let ?r0 = "requested_default\<lparr>rq_defaults := rr_default_features root\<rparr>"
  have sm: "summary_within N U ?sm" and n: "root_name root \<in> N" using assms(3) by (simp_all add: root_within_def)
  have "pass_within N U ?p"
    using assms(2) sm n by (auto simp: pass_within_def place_root_def Let_def memo_within_def chosen_names_def)
  moreover have "request_within U ?r0" by (simp add: request_within_def requested_default_def in_order_def)
  ultimately have f: "pass_within N U (snd (fold (seed_feature ?sm) (rr_features root) (?r0, ?p))) \<and>
      request_within U (fst (fold (seed_feature ?sm) (rr_features root) (?r0, ?p)))"
    using sm assms(3) by (intro seed_feature_within) (auto simp: root_within_def)
  have "pass_within N U (seed_features root ?p)"
    using f n by (auto simp: seed_features_def pass_within_def chosen_names_def split: prod.splits)
  moreover have "\<forall>d\<in>set (seed_dependencies root). dr_package d \<in> N \<and> set (dr_features d) \<subseteq> U"
    using sm by (simp add: summary_within_def seed_dependencies_def)
  ultimately show ?thesis using assms(1) within_enqueues unfolding seed_root_def by blast
qed

lemma seed_roots_within:
  assumes "seed_roots roots s = (Inr s' :: 'e resolve_error + _)" "pass_within N U s" "list_all (root_within N U) roots"
  shows "pass_within N U s'"
proof -
  obtain t where t: "try_fold seed_root roots s = (Inr t :: 'e resolve_error + _)" "s' = seed_pending t"
    using assms(1) by (auto simp: seed_roots_def res_bind_Inr)
  have "pass_within N U t" using t(1)
  proof (rule try_fold_invariant)
    fix root and u u' :: "'a pass"
    assume "root \<in> set roots" "pass_within N U u" "seed_root root u = (Inr u' :: 'e resolve_error + _)"
    then show "pass_within N U u'" using seed_root_within assms(3) by (fastforce simp: list_all_iff)
  qed (use assms(2) in simp)
  then show ?thesis by (simp add: t(2) seed_pending_def pass_within_def chosen_names_def)
qed

lemma pass_run_ends:
  fixes P :: "('p, 'e) provider"
  assumes "finite N" "finite U" "provider_within N U P" "list_all (root_within N U) (in_roots inp)" "memo_within N U m"
  shows "pass_run P inp (pass_new p c m) \<noteq> None"
    "pass_run P inp (pass_new p c m) = Some (Inr (s, out)) \<Longrightarrow> memo_within N U (ps_summaries s)"
proof -
  let ?s0 = "pass_new p c m"
  have w0: "pass_within N U ?s0" using assms(5) by (simp add: pass_within_def pass_new_def chosen_names_def)
  show "pass_run P inp ?s0 \<noteq> None"
  proof (cases "seed_roots (in_roots inp) ?s0 :: 'e resolve_error + 'p pass")
    case (Inl e)
    then show ?thesis by (simp add: pass_run_def)
  next
    case (Inr s1)
    have "pass_loop P inp s1 \<noteq> None"
    proof (rule pass_loop_ends [of "pass_left N U" "pass_within N U"])
      show "wf (pass_left N U)" by (simp add: pass_left_def)
      show "pass_within N U s1" by (rule seed_roots_within [OF Inr w0 assms(4)])
    qed (rule pass_step_within [OF _ _ _ assms(3,1,2)])
    then show ?thesis using Inr by (simp add: pass_run_def)
  qed
  assume "pass_run P inp ?s0 = Some (Inr (s, out))"
  then show "memo_within N U (ps_summaries s)"
  proof (cases rule: pass_runE)
    case (1 s1)
    have "pass_within N U s1" by (rule seed_roots_within [OF 1(1) w0 assms(4)])
    then have "pass_within N U s \<and> pass_done s"
      by (rule pass_loop_invariant [OF 1(2)]) (use pass_step_within assms(1-3) in blast)
    then show ?thesis by (simp add: pass_within_def)
  qed
qed

lemma resolve_rounds_ends:
  fixes P :: "('p, 'e) provider"
  assumes "finite N" "finite U" "provider_within N U P" "list_all (root_within N U) roots"
  shows "memo_within N U (rs_summaries r) \<Longrightarrow> resolve_rounds k P roots locked r pins \<noteq> None"
proof (induction k arbitrary: r pins)
  case (Suc k)
  let ?inp = "\<lparr>in_roots = roots, in_locked = locked, in_pins = pins\<rparr>"
  let ?s0 = "pass_new (rs_provider r) (rs_candidates r) (rs_summaries r)"
  have "pass_run P ?inp ?s0 \<noteq> None" using pass_run_ends(1) [OF assms(1-3) _ Suc.prems] assms(4) by simp
  then obtain res where res: "pass_run P ?inp ?s0 = Some res" by blast
  show ?case
  proof (cases res)
    case (Inl e)
    then show ?thesis using res by simp
  next
    case (Inr so)
    then obtain s out where so: "pass_run P ?inp ?s0 = Some (Inr (s, out))" using res by (cases so) simp
    have "memo_within N U (ps_summaries s)" using pass_run_ends(2) [OF assms(1-3) _ Suc.prems so] assms(4) by simp
    then show ?thesis using so Suc.IH by (simp add: Let_def)
  qed
qed simp

subsection \<open>Property\<close>

text \<open>C8: resolution returns, with a graph or an error: no cycle of dependencies or of features keeps a
  pass running, provided that what the provider and the roots can name is finite.\<close>

theorem resolution_ends:
  fixes P :: "('p, 'e) provider"
  assumes "finite N" "finite U" "provider_within N U P" "list_all (root_within N U) roots"
    "memo_within N U (rs_summaries r)"
  shows "\<exists>res. resolve sha256 P roots lock r = Some res"
  using resolve_rounds_ends [OF assms, of "rs_max_rounds r" "locked_map lock" "initial_pins (locked_map lock)"]
  by (auto simp: resolve_def Let_def)

lemma resolution_ends_witness:
  "\<exists>res. resolve (\<lambda>_. []) sample_provider [sample_root] None (resolver_new ()) = Some res"
proof (rule resolution_ends)
  let ?N = "{''a'', ''b'', ''r''}" and ?U = "{''x''}"
  show "finite ?N" "finite ?U" by simp_all
  have within: "summary_within ?N ?U (sample_summary pid)" for pid
    by (simp add: summary_within_def sample_summary_def sample_request_def feature_values_def)
  then show "provider_within ?N ?U sample_provider" by (auto simp: provider_within_def sample_provider_def)
  show "list_all (root_within ?N ?U) [sample_root]"
  proof -
    have "root_name sample_root = ''r''"
      by (simp add: root_name_def sample_root_def root_request_new_def sample_summary_def sample_id_def)
    then show ?thesis using within by (simp add: root_within_def) (simp add: sample_root_def root_request_new_def within)
  qed
  show "memo_within ?N ?U (rs_summaries (resolver_new ()))" by (simp add: memo_within_def resolver_new_def)
qed

end
