(* ===== verification/Source_Text.thy ===== *)
theory Source_Text
  imports Prelude
begin

text \<open>
  Source text as the lexer of \<open>jals-syntax\<close> sees it: a Rust \<open>&str\<close> is a list of Unicode scalar
  values, a position in it is an index into that list, and the byte offsets the code exchanges
  between its parts are the UTF-8 lengths of prefixes. The tests the scanners make on single
  bytes are tests for ASCII characters, which no byte of a longer UTF-8 sequence passes, so
  reading a character where the code reads a byte gives the same answer.
\<close>

type_synonym source = "nat list"

abbreviation ch :: "char \<Rightarrow> nat" where
  "ch \<equiv> of_char"

abbreviation codes :: "string \<Rightarrow> source" where
  "codes \<equiv> map of_char"

abbreviation newline :: nat where "newline \<equiv> 10"
abbreviation carriage_return :: nat where "carriage_return \<equiv> 13"
abbreviation form_feed :: nat where "form_feed \<equiv> 12"
abbreviation tab :: nat where "tab \<equiv> 9"
abbreviation space :: nat where "space \<equiv> 32"
abbreviation double_quote :: nat where "double_quote \<equiv> 34"
abbreviation single_quote :: nat where "single_quote \<equiv> 39"
abbreviation backslash :: nat where "backslash \<equiv> 92"
abbreviation underscore :: nat where "underscore \<equiv> 95"

text \<open>\<open>char\<close>: the scalar values, which leave the surrogates out.\<close>

definition is_unicode_scalar :: "nat \<Rightarrow> bool" where
  "is_unicode_scalar c \<longleftrightarrow> c < 0xD800 \<or> 0xE000 \<le> c \<and> c < 0x110000"

definition char_from_u32 :: "nat \<Rightarrow> nat option" where
  "char_from_u32 c = (if is_unicode_scalar c then Some c else None)"

subsection \<open>UTF-8 widths\<close>

definition len_utf8 :: "nat \<Rightarrow> nat" where
  "len_utf8 c = (if c < 0x80 then 1 else if c < 0x800 then 2 else if c < 0x10000 then 3 else 4)"

definition byte_len :: "source \<Rightarrow> nat" where
  "byte_len s = sum_list (map len_utf8 s)"

definition byte_offset :: "source \<Rightarrow> nat \<Rightarrow> nat" where
  "byte_offset s i = byte_len (take i s)"

lemma len_utf8_pos [simp]: "0 < len_utf8 c"
  by (simp add: len_utf8_def)

lemma byte_len_Nil [simp]: "byte_len [] = 0"
  by (simp add: byte_len_def)

lemma byte_len_Cons [simp]: "byte_len (c # s) = len_utf8 c + byte_len s"
  by (simp add: byte_len_def)

lemma byte_len_append [simp]: "byte_len (s @ t) = byte_len s + byte_len t"
  by (simp add: byte_len_def)

lemma byte_len_eq_0 [simp]: "byte_len s = 0 \<longleftrightarrow> s = []"
  by (cases s) auto

lemma byte_len_positive [simp]: "0 < byte_len s \<longleftrightarrow> s \<noteq> []"
  by (cases s) auto

lemma byte_offset_0 [simp]: "byte_offset s 0 = 0"
  by (simp add: byte_offset_def)

lemma byte_offset_all [simp]: "length s \<le> i \<Longrightarrow> byte_offset s i = byte_len s"
  by (simp add: byte_offset_def)

lemma byte_offset_split:
  "i \<le> j \<Longrightarrow> byte_offset s j = byte_offset s i + byte_len (take (j - i) (drop i s))"
  by (metis byte_len_append byte_offset_def le_add_diff_inverse take_add)

lemma byte_offset_append:
  "i \<le> length s \<Longrightarrow> byte_offset (s @ t) i = byte_offset s i"
  by (simp add: byte_offset_def)

text \<open>
  \<open>&s[a..b]\<close> on byte offsets. It panics, here \<^const>\<open>None\<close>, when an offset is behind the end or
  inside a character, or when the range is reversed.
\<close>

fun split_at :: "source \<Rightarrow> nat \<Rightarrow> (source \<times> source) option" where
  "split_at s 0 = Some ([], s)"
| "split_at [] (Suc n) = None"
| "split_at (c # s) (Suc n) =
     (if len_utf8 c \<le> Suc n
      then map_option (\<lambda>(before, behind). (c # before, behind)) (split_at s (Suc n - len_utf8 c))
      else None)"

definition byte_slice :: "source \<Rightarrow> nat \<Rightarrow> nat \<Rightarrow> source option" where
  "byte_slice s a b =
     (if a \<le> b
      then case split_at s b of
             None \<Rightarrow> None
           | Some (taken, _) \<Rightarrow> map_option snd (split_at taken a)
      else None)"

lemma split_at_byte_len: "split_at (s @ t) (byte_len s) = Some (s, t)"
proof (induction s)
  case (Cons c s)
  obtain n where n: "len_utf8 c + byte_len s = Suc n"
    by (metis add_gr_0 gr0_implies_Suc len_utf8_pos)
  then have "Suc n - len_utf8 c = byte_len s" "len_utf8 c \<le> Suc n" by linarith+
  with Cons n show ?case by simp
qed simp

lemma byte_slice_byte_offset:
  assumes "i \<le> j" "j \<le> length s"
  shows "byte_slice s (byte_offset s i) (byte_offset s j) = Some (take (j - i) (drop i s))"
proof -
  have taken: "split_at s (byte_offset s j) = Some (take j s, drop j s)"
    using split_at_byte_len [of "take j s" "drop j s"] by (simp add: byte_offset_def)
  have "take j s = take i s @ take (j - i) (drop i s)"
    using assms by (metis le_add_diff_inverse take_add)
  then have "split_at (take j s) (byte_offset s i) = Some (take i s, take (j - i) (drop i s))"
    using split_at_byte_len [of "take i s" "take (j - i) (drop i s)"] by (simp add: byte_offset_def)
  moreover have "byte_offset s i \<le> byte_offset s j"
    using byte_offset_split [OF assms(1), of s] by simp
  ultimately show ?thesis by (simp add: byte_slice_def taken)
qed

lemma byte_offset_mono: "i \<le> j \<Longrightarrow> byte_offset s i \<le> byte_offset s j"
  using byte_offset_split [of i j s] by simp

lemma byte_offset_strict:
  assumes "i < j" "j \<le> length s"
  shows "byte_offset s i < byte_offset s j"
  using byte_offset_split [of i j s] assms by simp

subsection \<open>ASCII classes of the Rust standard library\<close>

definition is_ascii_char :: "nat \<Rightarrow> bool" where
  "is_ascii_char c \<longleftrightarrow> c < 0x80"

definition is_ascii_digit :: "nat \<Rightarrow> bool" where
  "is_ascii_digit c \<longleftrightarrow> ch CHR ''0'' \<le> c \<and> c \<le> ch CHR ''9''"

definition is_ascii_alphabetic :: "nat \<Rightarrow> bool" where
  "is_ascii_alphabetic c \<longleftrightarrow>
     ch CHR ''A'' \<le> c \<and> c \<le> ch CHR ''Z'' \<or> ch CHR ''a'' \<le> c \<and> c \<le> ch CHR ''z''"

definition is_ascii_alphanumeric :: "nat \<Rightarrow> bool" where
  "is_ascii_alphanumeric c \<longleftrightarrow> is_ascii_alphabetic c \<or> is_ascii_digit c"

definition is_ascii_hexdigit :: "nat \<Rightarrow> bool" where
  "is_ascii_hexdigit c \<longleftrightarrow>
     is_ascii_digit c \<or> ch CHR ''A'' \<le> c \<and> c \<le> ch CHR ''F'' \<or> ch CHR ''a'' \<le> c \<and> c \<le> ch CHR ''f''"

definition to_digit_16 :: "nat \<Rightarrow> nat option" where
  "to_digit_16 c =
     (if is_ascii_digit c then Some (c - ch CHR ''0'')
      else if ch CHR ''A'' \<le> c \<and> c \<le> ch CHR ''F'' then Some (c - ch CHR ''A'' + 10)
      else if ch CHR ''a'' \<le> c \<and> c \<le> ch CHR ''f'' then Some (c - ch CHR ''a'' + 10)
      else None)"

text \<open>\<open>byte_slice.get(i)\<close>.\<close>

definition get :: "'a list \<Rightarrow> nat \<Rightarrow> 'a option" where
  "get xs i = (if i < length xs then Some (xs ! i) else None)"

lemma get_drop: "get xs (i + k) = get (drop i xs) k"
  by (auto simp: get_def less_diff_conv add.commute)

lemma get_Cons [simp]: "get (x # xs) 0 = Some x" "get (x # xs) (Suc k) = get xs k"
  by (simp_all add: get_def)

lemma get_Nil [simp]: "get [] k = None"
  by (simp add: get_def)

lemma get_SomeD: "get xs i = Some x \<Longrightarrow> i < length xs \<and> xs ! i = x"
  by (simp add: get_def split: if_splits)

end
