(* ===== verification/Token_Kind.thy ===== *)
theory Token_Kind
  imports Source_Text
begin

text \<open>
  The terminal token kinds of \<open>jals-syntax/src/token.rs\<close>, its keyword table, and the part of
  \<open>syntax_kind.rs\<close> the lexer reaches. The enumeration \<open>TokenKind\<close> keeps the source's constructor
  names and is grouped as its comments group it (trivia, keywords, literals, delimiters,
  operators): one datatype of 110 constructors costs minutes, a few small ones cost nothing.
  \<open>SyntaxKind\<close> repeats the terminals and adds \<open>DOC_COMMENT\<close>, \<open>ERROR\<close>, the node kinds and the kinds
  the parser promotes to; only the first three groups can leave the lexer.
\<close>

subsection \<open>Kinds\<close>

datatype trivia_kind =
    WHITESPACE | NEWLINE | LINE_COMMENT | BLOCK_COMMENT

datatype (plugins only: code) reserved_kind =
    ABSTRACT_KW | ASSERT_KW | BOOLEAN_KW | BREAK_KW | BYTE_KW | CASE_KW
  | CATCH_KW | CHAR_KW | CLASS_KW | CONST_KW | CONTINUE_KW | DEFAULT_KW
  | DO_KW | DOUBLE_KW | ELSE_KW | ENUM_KW | EXTENDS_KW | FINAL_KW
  | FINALLY_KW | FLOAT_KW | FOR_KW | GOTO_KW | IF_KW | IMPLEMENTS_KW
  | IMPORT_KW | INSTANCEOF_KW | INT_KW | INTERFACE_KW | LONG_KW | NATIVE_KW
  | NEW_KW | PACKAGE_KW | PRIVATE_KW | PROTECTED_KW | PUBLIC_KW | RETURN_KW
  | SHORT_KW | STATIC_KW | STRICTFP_KW | SUPER_KW | SWITCH_KW | SYNCHRONIZED_KW
  | THIS_KW | THROW_KW | THROWS_KW | TRANSIENT_KW | TRY_KW | VOID_KW
  | VOLATILE_KW | WHILE_KW

datatype literal_keyword_kind =
    TRUE_KW | FALSE_KW | NULL_KW

datatype literal_kind =
    INT_LITERAL | FLOAT_LITERAL | CHAR_LITERAL | STRING_LITERAL | TEXT_BLOCK

datatype delimiter_kind =
    LPAREN | RPAREN | LBRACE | RBRACE | LBRACK | RBRACK
  | SEMICOLON | COMMA | DOT | ELLIPSIS | AT | COLON_COLON
  | HASH

datatype (plugins only: code) operator_kind =
    EQ | LT | GT | BANG | TILDE | QUESTION
  | COLON | ARROW | EQ_EQ | LT_EQ | BANG_EQ | AMP_AMP
  | PIPE_PIPE | PLUS_PLUS | MINUS_MINUS | PLUS | MINUS | STAR
  | SLASH | AMP | PIPE | CARET | PERCENT | LSHIFT
  | LSHIFT_EQ | PLUS_EQ | MINUS_EQ | STAR_EQ | SLASH_EQ | AMP_EQ
  | PIPE_EQ | CARET_EQ | PERCENT_EQ

datatype token_kind =
    Trivia trivia_kind
  | IDENT
  | UNDERSCORE
  | Reserved reserved_kind
  | Literal_Keyword literal_keyword_kind
  | Literal literal_kind
  | Delimiter delimiter_kind
  | Operator operator_kind

subsection \<open>Keywords\<close>

definition keyword_table :: "(source \<times> token_kind) list" where
  "keyword_table =
    [(codes ''abstract'', Reserved ABSTRACT_KW),
     (codes ''assert'', Reserved ASSERT_KW),
     (codes ''boolean'', Reserved BOOLEAN_KW),
     (codes ''break'', Reserved BREAK_KW),
     (codes ''byte'', Reserved BYTE_KW),
     (codes ''case'', Reserved CASE_KW),
     (codes ''catch'', Reserved CATCH_KW),
     (codes ''char'', Reserved CHAR_KW),
     (codes ''class'', Reserved CLASS_KW),
     (codes ''const'', Reserved CONST_KW),
     (codes ''continue'', Reserved CONTINUE_KW),
     (codes ''default'', Reserved DEFAULT_KW),
     (codes ''do'', Reserved DO_KW),
     (codes ''double'', Reserved DOUBLE_KW),
     (codes ''else'', Reserved ELSE_KW),
     (codes ''enum'', Reserved ENUM_KW),
     (codes ''extends'', Reserved EXTENDS_KW),
     (codes ''final'', Reserved FINAL_KW),
     (codes ''finally'', Reserved FINALLY_KW),
     (codes ''float'', Reserved FLOAT_KW),
     (codes ''for'', Reserved FOR_KW),
     (codes ''goto'', Reserved GOTO_KW),
     (codes ''if'', Reserved IF_KW),
     (codes ''implements'', Reserved IMPLEMENTS_KW),
     (codes ''import'', Reserved IMPORT_KW),
     (codes ''instanceof'', Reserved INSTANCEOF_KW),
     (codes ''int'', Reserved INT_KW),
     (codes ''interface'', Reserved INTERFACE_KW),
     (codes ''long'', Reserved LONG_KW),
     (codes ''native'', Reserved NATIVE_KW),
     (codes ''new'', Reserved NEW_KW),
     (codes ''package'', Reserved PACKAGE_KW),
     (codes ''private'', Reserved PRIVATE_KW),
     (codes ''protected'', Reserved PROTECTED_KW),
     (codes ''public'', Reserved PUBLIC_KW),
     (codes ''return'', Reserved RETURN_KW),
     (codes ''short'', Reserved SHORT_KW),
     (codes ''static'', Reserved STATIC_KW),
     (codes ''strictfp'', Reserved STRICTFP_KW),
     (codes ''super'', Reserved SUPER_KW),
     (codes ''switch'', Reserved SWITCH_KW),
     (codes ''synchronized'', Reserved SYNCHRONIZED_KW),
     (codes ''this'', Reserved THIS_KW),
     (codes ''throw'', Reserved THROW_KW),
     (codes ''throws'', Reserved THROWS_KW),
     (codes ''transient'', Reserved TRANSIENT_KW),
     (codes ''try'', Reserved TRY_KW),
     (codes ''void'', Reserved VOID_KW),
     (codes ''volatile'', Reserved VOLATILE_KW),
     (codes ''while'', Reserved WHILE_KW),
     (codes ''true'', Literal_Keyword TRUE_KW),
     (codes ''false'', Literal_Keyword FALSE_KW),
     (codes ''null'', Literal_Keyword NULL_KW)]"

definition keyword_kind :: "source \<Rightarrow> token_kind option" where
  "keyword_kind spelling = map_of keyword_table spelling"

subsection \<open>Syntax kinds the lexer produces\<close>

datatype syntax_kind = Terminal token_kind | DOC_COMMENT | ERROR

definition is_doc_comment :: "source \<Rightarrow> bool" where
  "is_doc_comment spelling \<longleftrightarrow>
     take 3 spelling = codes ''/**'' \<and> spelling \<noteq> codes ''/**/''"

definition from_token :: "token_kind \<Rightarrow> source \<Rightarrow> syntax_kind" where
  "from_token token spelling =
     (if token = Trivia BLOCK_COMMENT \<and> is_doc_comment spelling then DOC_COMMENT
      else Terminal token)"

definition is_trivia :: "syntax_kind \<Rightarrow> bool" where
  "is_trivia kind =
     (case kind of
        Terminal (Trivia t) \<Rightarrow> True
      | Terminal other \<Rightarrow> False
      | DOC_COMMENT \<Rightarrow> True
      | ERROR \<Rightarrow> False)"

end
