(* ===== verification/Number_Scanner.thy ===== *)
theory Number_Scanner
  imports Token_Kind
begin

text \<open>
  The numeric literal scanners of \<open>jals-syntax/src/lexer.rs\<close>, in the order of the source: runs of
  digits with underscores between them, exponents and suffixes, and the decimal, hexadecimal and
  fraction-first literals built from them. Positions are indexes into the source.
\<close>

definition is_octal_digit :: "nat \<Rightarrow> bool" where
  "is_octal_digit c \<longleftrightarrow> ch CHR ''0'' \<le> c \<and> c \<le> ch CHR ''7''"

subsection \<open>Numeric literals\<close>

function skip_underscores :: "source \<Rightarrow> nat \<Rightarrow> nat" where
  "skip_underscores bytes i =
     (if get bytes i = Some underscore then skip_underscores bytes (i + 1) else i)"
  by pat_completeness auto
termination
  by (relation "measure (\<lambda>(bytes, i). length bytes - i)") (auto simp: get_def split: if_splits)

declare skip_underscores.simps [simp del]

lemma skip_underscores_ge: "i \<le> skip_underscores bytes i"
proof (induction bytes i rule: skip_underscores.induct)
  case (1 bytes i)
  then show ?case
    by (subst skip_underscores.simps) (auto dest: Suc_leD)
qed

definition digit_at :: "source \<Rightarrow> nat \<Rightarrow> (nat \<Rightarrow> bool) \<Rightarrow> bool" where
  "digit_at bytes i is_digit = (case get bytes i of None \<Rightarrow> False | Some b \<Rightarrow> is_digit b)"

function digit_run_loop :: "source \<Rightarrow> nat \<Rightarrow> (nat \<Rightarrow> bool) \<Rightarrow> nat" where
  "digit_run_loop bytes fin is_digit =
     (let i = skip_underscores bytes fin in
      if digit_at bytes i is_digit then digit_run_loop bytes (i + 1) is_digit else fin)"
  by pat_completeness auto
termination
proof (relation "measure (\<lambda>(bytes, fin, _). length bytes - fin)", goal_cases)
  case (2 bytes fin is_digit i)
  then show ?case
    using skip_underscores_ge [of fin bytes]
    by (auto simp: digit_at_def get_def split: if_splits option.splits)
qed simp

declare digit_run_loop.simps [simp del]

definition digit_run :: "source \<Rightarrow> nat \<Rightarrow> (nat \<Rightarrow> bool) \<Rightarrow> nat" where
  "digit_run bytes start is_digit =
     (if digit_at bytes start is_digit then digit_run_loop bytes (start + 1) is_digit else start)"

definition exponent :: "source \<Rightarrow> nat \<Rightarrow> nat \<Rightarrow> nat \<Rightarrow> nat option" where
  "exponent bytes start lower upper =
     (if digit_at bytes start (\<lambda>b. b = lower \<or> b = upper) then
        let i = (if digit_at bytes (start + 1) (\<lambda>b. b = ch CHR ''+'' \<or> b = ch CHR ''-'')
                 then start + 2 else start + 1);
            fin = digit_run bytes i is_ascii_digit
        in if fin > i then Some fin else None
      else None)"

definition decimal_exponent :: "source \<Rightarrow> nat \<Rightarrow> nat option" where
  "decimal_exponent bytes start = exponent bytes start (ch CHR ''e'') (ch CHR ''E'')"

definition hex_exponent :: "source \<Rightarrow> nat \<Rightarrow> nat option" where
  "hex_exponent bytes start = exponent bytes start (ch CHR ''p'') (ch CHR ''P'')"

definition int_suffix :: "source \<Rightarrow> nat \<Rightarrow> nat" where
  "int_suffix bytes fin =
     (if digit_at bytes fin (\<lambda>b. b = ch CHR ''l'' \<or> b = ch CHR ''L'') then fin + 1 else fin)"

definition is_float_suffix :: "nat \<Rightarrow> bool" where
  "is_float_suffix b \<longleftrightarrow>
     b = ch CHR ''f'' \<or> b = ch CHR ''F'' \<or> b = ch CHR ''d'' \<or> b = ch CHR ''D''"

definition float_suffix :: "source \<Rightarrow> nat \<Rightarrow> nat" where
  "float_suffix bytes fin = (if digit_at bytes fin is_float_suffix then fin + 1 else fin)"

text \<open>\<open>Option::max\<close>: \<open>None\<close> is the least option, and of equal ones the second is kept.\<close>

definition later :: "nat option \<Rightarrow> nat option \<Rightarrow> nat option" where
  "later a b = (case a of
       None \<Rightarrow> b
     | Some x \<Rightarrow> (case b of None \<Rightarrow> a | Some y \<Rightarrow> Some (max x y)))"

definition is_binary_digit :: "nat \<Rightarrow> bool" where
  "is_binary_digit b \<longleftrightarrow> b = ch CHR ''0'' \<or> b = ch CHR ''1''"

definition decimal_int_body :: "source \<Rightarrow> nat \<Rightarrow> nat" where
  "decimal_int_body bytes start =
     (if get bytes start = Some (ch CHR ''0'') then
        if digit_at bytes (start + 1) (\<lambda>b. b = ch CHR ''b'' \<or> b = ch CHR ''B'') then
          let run = digit_run bytes (start + 2) is_binary_digit in
          if run > start + 2 then run else start + 1
        else digit_run bytes start is_octal_digit
      else digit_run bytes start is_ascii_digit)"

definition decimal_float_end :: "source \<Rightarrow> nat \<Rightarrow> nat option" where
  "decimal_float_end bytes start =
     (let digits = digit_run bytes start is_ascii_digit;
          dotted =
            (if get bytes digits = Some (ch CHR ''.'') then
               let fraction = digit_run bytes (digits + 1) is_ascii_digit;
                   fin = (case decimal_exponent bytes fraction of Some e \<Rightarrow> e | None \<Rightarrow> fraction)
               in Some (float_suffix bytes fin)
             else None);
          scaled =
            (case decimal_exponent bytes digits of
               Some fin \<Rightarrow> later dotted (Some (float_suffix bytes fin))
             | None \<Rightarrow> dotted)
      in if digit_at bytes digits is_float_suffix then later scaled (Some (digits + 1)) else scaled)"

text \<open>The longest candidate wins: a float only when it ends behind the integer.\<close>

definition pick_number :: "nat \<Rightarrow> nat option \<Rightarrow> token_kind \<times> nat" where
  "pick_number int_end float_end =
     (case float_end of
        Some fin \<Rightarrow> if fin > int_end then (Literal FLOAT_LITERAL, fin)
                    else (Literal INT_LITERAL, int_end)
      | None \<Rightarrow> (Literal INT_LITERAL, int_end))"

definition decimal_number :: "source \<Rightarrow> nat \<Rightarrow> token_kind \<times> nat" where
  "decimal_number bytes start =
     (let int_body = decimal_int_body bytes start;
          int_end = int_suffix bytes int_body
      in pick_number int_end (decimal_float_end bytes start))"

definition hex_float_end :: "source \<Rightarrow> nat \<Rightarrow> nat \<Rightarrow> nat option" where
  "hex_float_end bytes start digits =
     (let plain =
            (if digits > start + 2 then
               let after_dot =
                     (if get bytes digits = Some (ch CHR ''.'') then digits + 1 else digits)
               in map_option (float_suffix bytes) (hex_exponent bytes after_dot)
             else None)
      in if get bytes digits = Some (ch CHR ''.'') then
           let frac = digit_run bytes (digits + 1) is_ascii_hexdigit in
           if frac > digits + 1 then
             (case hex_exponent bytes frac of
                Some fin \<Rightarrow> later plain (Some (float_suffix bytes fin))
              | None \<Rightarrow> plain)
           else plain
         else plain)"

definition hex_number :: "source \<Rightarrow> nat \<Rightarrow> token_kind \<times> nat" where
  "hex_number bytes start =
     (let digits = digit_run bytes (start + 2) is_ascii_hexdigit;
          int_end = (if digits > start + 2 then int_suffix bytes digits else start + 1)
      in pick_number int_end (hex_float_end bytes start digits))"

definition number :: "source \<Rightarrow> nat \<Rightarrow> token_kind \<times> nat" where
  "number bytes start =
     (if get bytes start = Some (ch CHR ''0'') \<and>
         digit_at bytes (start + 1) (\<lambda>b. b = ch CHR ''x'' \<or> b = ch CHR ''X'')
      then hex_number bytes start
      else decimal_number bytes start)"

definition fraction_float :: "source \<Rightarrow> nat \<Rightarrow> nat" where
  "fraction_float bytes start =
     (let digits = digit_run bytes (start + 1) is_ascii_digit;
          fin = (case decimal_exponent bytes digits of Some e \<Rightarrow> e | None \<Rightarrow> digits)
      in float_suffix bytes fin)"

end
