(* ===== verification/Lexer.thy ===== *)
theory Lexer
  imports Number_Scanner
begin

text \<open>
  The scanner of \<open>jals-syntax/src/lexer.rs\<close>: the character cursor, the string, character and text
  block scanners, the identifier classes, \<open>Scan::token\<close>, which decides the kind and the end of
  the token at a position, and the iterator that applies it until the source is used up. A cursor
  is a source and a position; an operation that moves it returns the new position. \<open>Err(())\<close> of
  an unmatched character is \<^const>\<open>None\<close>.
\<close>

subsection \<open>Cursor\<close>

definition first :: "source \<Rightarrow> nat \<Rightarrow> nat option" where
  "first src pos = get src pos"

definition eat_if :: "source \<Rightarrow> nat \<Rightarrow> nat \<Rightarrow> nat option" where
  "eat_if src pos c = (if first src pos = Some c then Some (pos + 1) else None)"

function eat_while :: "source \<Rightarrow> nat \<Rightarrow> (nat \<Rightarrow> bool) \<Rightarrow> nat" where
  "eat_while src pos keep =
     (case first src pos of
        None \<Rightarrow> pos
      | Some c \<Rightarrow> if keep c then eat_while src (pos + 1) keep else pos)"
  by pat_completeness auto
termination
  by (relation "measure (\<lambda>(src, pos, _). length src - pos)")
    (auto simp: first_def get_def split: if_splits)

declare eat_while.simps [simp del]

text \<open>\<open>for _ in 0..n\<close> with a \<open>break\<close> at the first character that does not fit.\<close>

fun eat_at_most :: "nat \<Rightarrow> source \<Rightarrow> nat \<Rightarrow> (nat \<Rightarrow> bool) \<Rightarrow> nat" where
  "eat_at_most 0 src pos keep = pos"
| "eat_at_most (Suc n) src pos keep =
     (case first src pos of
        None \<Rightarrow> pos
      | Some c \<Rightarrow> if keep c then eat_at_most n src (pos + 1) keep else pos)"

definition consume_char_escape_body :: "source \<Rightarrow> nat \<Rightarrow> nat" where
  "consume_char_escape_body src pos =
     (case first src pos of
        None \<Rightarrow> pos
      | Some c \<Rightarrow>
          if c = newline then pos
          else if is_octal_digit c then eat_at_most 2 src (pos + 1) is_octal_digit
          else if c = ch CHR ''u'' then
            eat_at_most 4 src (eat_while src pos (\<lambda>d. d = ch CHR ''u'')) is_ascii_hexdigit
          else pos + 1)"

subsection \<open>Strings, text blocks and characters\<close>

fun backslash_run_start :: "source \<Rightarrow> nat \<Rightarrow> nat \<Rightarrow> nat" where
  "backslash_run_start bytes pos 0 = 0"
| "backslash_run_start bytes pos (Suc j) =
     (if Suc j > pos \<and> bytes ! j = backslash then backslash_run_start bytes pos j else Suc j)"

definition closes_block :: "source \<Rightarrow> nat \<Rightarrow> nat \<Rightarrow> bool" where
  "closes_block bytes pos i \<longleftrightarrow>
     take 3 (drop i bytes) = [double_quote, double_quote, double_quote] \<and>
     (i - backslash_run_start bytes pos i) mod 2 = 0"

function text_block_loop :: "source \<Rightarrow> nat \<Rightarrow> nat \<Rightarrow> nat" where
  "text_block_loop bytes pos i =
     (if i + 3 \<le> length bytes then
        if closes_block bytes pos i then i + 3 else text_block_loop bytes pos (i + 1)
      else length bytes)"
  by pat_completeness auto
termination
  by (relation "measure (\<lambda>(bytes, pos, i). length bytes - i)") auto

declare text_block_loop.simps [simp del]

definition text_block :: "source \<Rightarrow> nat \<Rightarrow> nat" where
  "text_block bytes pos = text_block_loop bytes pos pos"

function string_loop :: "source \<Rightarrow> nat \<Rightarrow> token_kind option \<times> nat" where
  "string_loop src pos =
     (case first src pos of
        None \<Rightarrow> (None, pos)
      | Some c \<Rightarrow>
          if c = double_quote then (Some (Literal STRING_LITERAL), pos + 1)
          else if c = backslash then
            (case first src (pos + 1) of
               None \<Rightarrow> (None, pos + 1)
             | Some d \<Rightarrow> if d = newline then (None, pos + 1) else string_loop src (pos + 2))
          else if c = carriage_return \<or> c = newline then (None, pos)
          else string_loop src (pos + 1))"
  by pat_completeness auto
termination
  by (relation "measure (\<lambda>(src, pos). length src - pos)")
    (auto simp: first_def get_def split: if_splits)

declare string_loop.simps [simp del]

definition string_or_text_block :: "source \<Rightarrow> nat \<Rightarrow> token_kind option \<times> nat" where
  "string_or_text_block src start =
     (if get src (start + 1) = Some double_quote \<and> get src (start + 2) = Some double_quote
      then (Some (Literal TEXT_BLOCK), text_block src (start + 3))
      else string_loop src (start + 1))"

definition close_char :: "source \<Rightarrow> nat \<Rightarrow> token_kind option \<times> nat" where
  "close_char src pos =
     (case eat_if src pos single_quote of
        Some pos' \<Rightarrow> (Some (Literal CHAR_LITERAL), pos')
      | None \<Rightarrow> (None, pos))"

definition char_literal :: "source \<Rightarrow> nat \<Rightarrow> token_kind option \<times> nat" where
  "char_literal src start =
     (case first src (start + 1) of
        None \<Rightarrow> (None, start + 1)
      | Some c \<Rightarrow>
          if c = single_quote \<or> c = carriage_return \<or> c = newline then (None, start + 1)
          else if c = backslash then close_char src (consume_char_escape_body src (start + 2))
          else close_char src (start + 2))"

subsection \<open>Identifier characters\<close>

text \<open>
  The general category of a non-ASCII character comes from the crate \<open>unicode_properties\<close> and is
  a parameter of the lexer. The categories the lexer asks for have their names; the others are one
  constructor.
\<close>

datatype general_category =
    UppercaseLetter | LowercaseLetter | TitlecaseLetter | ModifierLetter | OtherLetter
  | LetterNumber | CurrencySymbol | ConnectorPunctuation
  | DecimalNumber | NonspacingMark | SpacingMark | Format
  | AnotherCategory

definition is_ident_start :: "(nat \<Rightarrow> general_category) \<Rightarrow> nat \<Rightarrow> bool" where
  "is_ident_start category c =
     (if is_ascii_char c then is_ascii_alphabetic c \<or> c = underscore \<or> c = ch CHR ''$''
      else category c \<in> {UppercaseLetter, LowercaseLetter, TitlecaseLetter, ModifierLetter,
                         OtherLetter, LetterNumber, CurrencySymbol, ConnectorPunctuation})"

definition is_identifier_ignorable :: "nat \<Rightarrow> bool" where
  "is_identifier_ignorable c \<longleftrightarrow>
     c \<le> 0x8 \<or> 0xe \<le> c \<and> c \<le> 0x1b \<or> 0x7f \<le> c \<and> c \<le> 0x9f"

definition is_ident_continue :: "(nat \<Rightarrow> general_category) \<Rightarrow> nat \<Rightarrow> bool" where
  "is_ident_continue category c =
     (if is_ascii_char c then is_ascii_alphanumeric c \<or> c = underscore \<or> c = ch CHR ''$'' \<or>
                         is_identifier_ignorable c
      else is_ident_start category c \<or> is_identifier_ignorable c \<or>
           category c \<in> {DecimalNumber, NonspacingMark, SpacingMark, Format})"

subsection \<open>Tokens\<close>

definition is_blank :: "nat \<Rightarrow> bool" where
  "is_blank c \<longleftrightarrow> c = space \<or> c = tab \<or> c = form_feed"

definition not_line_break :: "nat \<Rightarrow> bool" where
  "not_line_break c \<longleftrightarrow> c \<noteq> carriage_return \<and> c \<noteq> newline"

text \<open>\<open>str::find\<close> of a literal: the first index at which it occurs.\<close>

fun find_literal :: "source \<Rightarrow> source \<Rightarrow> nat option" where
  "find_literal needle [] = (if needle = [] then Some 0 else None)"
| "find_literal needle (c # cs) =
     (if take (length needle) (c # cs) = needle then Some 0
      else map_option Suc (find_literal needle cs))"

text \<open>The arm for \<open>/\<close>: comments and the two operators.\<close>

definition slash_token :: "source \<Rightarrow> nat \<Rightarrow> token_kind \<times> nat" where
  "slash_token src pos =
     (if first src pos = Some (ch CHR ''/'') then
        (Trivia LINE_COMMENT, eat_while src (pos + 1) not_line_break)
      else if first src pos = Some (ch CHR ''*'') then
        (Trivia BLOCK_COMMENT,
         case find_literal (codes ''*/'') (drop (pos + 1) src) of
           Some i \<Rightarrow> pos + 1 + i + 2
         | None \<Rightarrow> length src)
      else if first src pos = Some (ch CHR ''='') then (Operator SLASH_EQ, pos + 1)
      else (Operator SLASH, pos))"

text \<open>The arm for \<open>.\<close>: \<open>...\<close>, a fraction-first float, or the delimiter.\<close>

definition dot_token :: "source \<Rightarrow> nat \<Rightarrow> token_kind \<times> nat" where
  "dot_token src start =
     (if get src (start + 1) = Some (ch CHR ''.'') \<and> get src (start + 2) = Some (ch CHR ''.'')
      then (Delimiter ELLIPSIS, start + 3)
      else if digit_at src (start + 1) is_ascii_digit
      then (Literal FLOAT_LITERAL, fraction_float src start)
      else (Delimiter DOT, start + 1))"

text \<open>The arm for identifiers: the whole run is scanned, then looked up.\<close>

definition word_token :: "(nat \<Rightarrow> general_category) \<Rightarrow> source \<Rightarrow> nat \<Rightarrow> token_kind \<times> nat" where
  "word_token category src start =
     (let pos = eat_while src (start + 1) (is_ident_continue category);
          spelling = take (pos - start) (drop start src)
      in (if spelling = [underscore] then UNDERSCORE
          else case keyword_kind spelling of Some kind \<Rightarrow> kind | None \<Rightarrow> IDENT, pos))"

definition delimiter_table :: "(nat \<times> token_kind) list" where
  "delimiter_table =
     [(ch CHR ''('', Delimiter LPAREN), (ch CHR '')'', Delimiter RPAREN),
      (ch CHR ''{'', Delimiter LBRACE), (ch CHR ''}'', Delimiter RBRACE),
      (ch CHR ''['', Delimiter LBRACK), (ch CHR '']'', Delimiter RBRACK),
      (ch CHR '';'', Delimiter SEMICOLON), (ch CHR '','', Delimiter COMMA),
      (ch CHR ''@'', Delimiter AT), (ch CHR ''#'', Delimiter HASH),
      (ch CHR ''~'', Operator TILDE), (ch CHR ''?'', Operator QUESTION)]"

text \<open>
  The chains of \<open>eat_if\<close> behind the first character of an operator: the first alternative that
  can be consumed decides.
\<close>

fun munch :: "source \<Rightarrow> nat \<Rightarrow> (nat \<times> token_kind) list \<Rightarrow> token_kind \<Rightarrow> token_kind \<times> nat" where
  "munch src pos [] otherwise = (otherwise, pos)"
| "munch src pos ((c, kind) # alternatives) otherwise =
     (case eat_if src pos c of
        Some pos' \<Rightarrow> (kind, pos')
      | None \<Rightarrow> munch src pos alternatives otherwise)"

definition less_token :: "source \<Rightarrow> nat \<Rightarrow> token_kind \<times> nat" where
  "less_token src pos =
     (case eat_if src pos (ch CHR ''<'') of
        Some pos' \<Rightarrow> munch src pos' [(ch CHR ''='', Operator LSHIFT_EQ)] (Operator LSHIFT)
      | None \<Rightarrow> munch src pos [(ch CHR ''='', Operator LT_EQ)] (Operator LT))"

definition operator_token :: "source \<Rightarrow> nat \<Rightarrow> nat \<Rightarrow> (token_kind \<times> nat) option" where
  "operator_token src c pos =
     (if c = ch CHR '':'' then
        Some (munch src pos [(ch CHR '':'', Delimiter COLON_COLON)] (Operator COLON))
      else if c = ch CHR ''='' then
        Some (munch src pos [(ch CHR ''='', Operator EQ_EQ)] (Operator EQ))
      else if c = ch CHR ''!'' then
        Some (munch src pos [(ch CHR ''='', Operator BANG_EQ)] (Operator BANG))
      else if c = ch CHR ''<'' then Some (less_token src pos)
      else if c = ch CHR ''>'' then Some (Operator GT, pos)
      else if c = ch CHR ''+'' then
        Some (munch src pos [(ch CHR ''+'', Operator PLUS_PLUS),
                             (ch CHR ''='', Operator PLUS_EQ)] (Operator PLUS))
      else if c = ch CHR ''-'' then
        Some (munch src pos [(ch CHR ''>'', Operator ARROW),
                             (ch CHR ''-'', Operator MINUS_MINUS),
                             (ch CHR ''='', Operator MINUS_EQ)] (Operator MINUS))
      else if c = ch CHR ''*'' then
        Some (munch src pos [(ch CHR ''='', Operator STAR_EQ)] (Operator STAR))
      else if c = ch CHR ''&'' then
        Some (munch src pos [(ch CHR ''&'', Operator AMP_AMP),
                             (ch CHR ''='', Operator AMP_EQ)] (Operator AMP))
      else if c = ch CHR ''|'' then
        Some (munch src pos [(ch CHR ''|'', Operator PIPE_PIPE),
                             (ch CHR ''='', Operator PIPE_EQ)] (Operator PIPE))
      else if c = ch CHR ''^'' then
        Some (munch src pos [(ch CHR ''='', Operator CARET_EQ)] (Operator CARET))
      else if c = ch CHR ''%'' then
        Some (munch src pos [(ch CHR ''='', Operator PERCENT_EQ)] (Operator PERCENT))
      else None)"

text \<open>\<open>Scan::token\<close>. A kind that is not an error is returned as \<^const>\<open>Some\<close>.\<close>

abbreviation matched :: "token_kind \<times> nat \<Rightarrow> token_kind option \<times> nat" where
  "matched r \<equiv> (Some (fst r), snd r)"

definition scan_from :: "(nat \<Rightarrow> general_category) \<Rightarrow> source \<Rightarrow> nat \<Rightarrow> nat \<Rightarrow>
    token_kind option \<times> nat" where
  "scan_from category src start c =
     (let pos = start + 1 in
      if is_blank c then (Some (Trivia WHITESPACE), eat_while src pos is_blank)
      else if c = newline then (Some (Trivia NEWLINE), pos)
      else if c = carriage_return then
        (Some (Trivia NEWLINE),
         case eat_if src pos newline of Some pos' \<Rightarrow> pos' | None \<Rightarrow> pos)
      else if c = ch CHR ''/'' then matched (slash_token src pos)
      else if c = double_quote then string_or_text_block src start
      else if c = single_quote then char_literal src start
      else if is_ascii_digit c then matched (number src start)
      else if c = ch CHR ''.'' then matched (dot_token src start)
      else if is_ident_start category c then matched (word_token category src start)
      else case map_of delimiter_table c of
             Some kind \<Rightarrow> (Some kind, pos)
           | None \<Rightarrow>
               (case operator_token src c pos of
                  Some r \<Rightarrow> matched r
                | None \<Rightarrow> (None, pos)))"

definition scan_token :: "(nat \<Rightarrow> general_category) \<Rightarrow> source \<Rightarrow> nat \<Rightarrow>
    token_kind option \<times> nat" where
  "scan_token category src start =
     (case first src start of
        None \<Rightarrow> (None, length src)
      | Some c \<Rightarrow> scan_from category src start c)"

end
