(* ===== verification/Number_Grammar.thy ===== *)
theory Number_Grammar
  imports Number_Scanner
begin

text \<open>
  The grammar of Java's numeric literals (JLS 3.10.1 and 3.10.2) as sets of words, and the proof
  that the scanners of \<open>Number_Scanner\<close> find the longest word of it at their position. The set
  operations are the usual ones of regular languages; a word of a concatenation is read off a
  source by the positions where its parts meet.
\<close>

subsection \<open>Words of the grammar\<close>

definition cat :: "source set \<Rightarrow> source set \<Rightarrow> source set" where
  "cat A B = {u @ v | u v. u \<in> A \<and> v \<in> B}"

definition opt :: "source set \<Rightarrow> source set" where
  "opt A = insert [] A"

definition one :: "(nat \<Rightarrow> bool) \<Rightarrow> source set" where
  "one p = {[c] | c. p c}"

text \<open>\<open>digit (_* digit)*\<close>: digits and underscores, with a digit at either end.\<close>

definition digit_words :: "(nat \<Rightarrow> bool) \<Rightarrow> source set" where
  "digit_words p = {w. w \<noteq> [] \<and> p (hd w) \<and> p (last w) \<and> (\<forall>c \<in> set w. p c \<or> c = underscore)}"

definition exponents :: "nat \<Rightarrow> nat \<Rightarrow> source set" where
  "exponents lower upper =
     cat (one (\<lambda>c. c = lower \<or> c = upper))
         (cat (opt (one (\<lambda>c. c = ch CHR ''+'' \<or> c = ch CHR ''-''))) (digit_words is_ascii_digit))"

definition float_suffixes :: "source set" where
  "float_suffixes = opt (one is_float_suffix)"

definition int_suffixes :: "source set" where
  "int_suffixes = opt (one (\<lambda>c. c = ch CHR ''l'' \<or> c = ch CHR ''L''))"

definition int_bodies :: "source set" where
  "int_bodies =
     {w \<in> digit_words is_ascii_digit. hd w \<noteq> ch CHR ''0''} \<union>
     {w \<in> digit_words is_octal_digit. hd w = ch CHR ''0''} \<union>
     cat {codes ''0b'', codes ''0B''} (digit_words is_binary_digit) \<union>
     cat {codes ''0x'', codes ''0X''} (digit_words is_ascii_hexdigit)"

definition int_literals :: "source set" where
  "int_literals = cat int_bodies int_suffixes"

definition decimal_tail :: "source set" where
  "decimal_tail = cat (opt (exponents (ch CHR ''e'') (ch CHR ''E''))) float_suffixes"

definition hex_tail :: "source set" where
  "hex_tail = cat (exponents (ch CHR ''p'') (ch CHR ''P'')) float_suffixes"

definition decimal_floats :: "source set" where
  "decimal_floats =
     cat (digit_words is_ascii_digit)
         (cat (one (\<lambda>c. c = ch CHR ''.'')) (cat (opt (digit_words is_ascii_digit)) decimal_tail) \<union>
          cat (exponents (ch CHR ''e'') (ch CHR ''E'')) float_suffixes \<union>
          one is_float_suffix)"

definition hex_floats :: "source set" where
  "hex_floats =
     cat {codes ''0x'', codes ''0X''}
         (cat (digit_words is_ascii_hexdigit) (cat (opt (one (\<lambda>c. c = ch CHR ''.''))) hex_tail) \<union>
          cat (opt (digit_words is_ascii_hexdigit))
              (cat (one (\<lambda>c. c = ch CHR ''.'')) (cat (digit_words is_ascii_hexdigit) hex_tail)))"

definition fraction_floats :: "source set" where
  "fraction_floats = cat (one (\<lambda>c. c = ch CHR ''.'')) (cat (digit_words is_ascii_digit) decimal_tail)"

definition float_literals :: "source set" where
  "float_literals = decimal_floats \<union> hex_floats \<union> fraction_floats"

subsection \<open>Words in a source\<close>

definition span :: "source \<Rightarrow> nat \<Rightarrow> nat \<Rightarrow> source" where
  "span s a b = take (b - a) (drop a s)"

lemma length_span [simp]: "b \<le> length s \<Longrightarrow> length (span s a b) = b - a"
  by (simp add: span_def)

lemma span_empty [simp]: "b \<le> a \<Longrightarrow> span s a b = []"
  by (simp add: span_def)

lemma nth_span: "a + k < b \<Longrightarrow> b \<le> length s \<Longrightarrow> span s a b ! k = s ! (a + k)"
  by (simp add: span_def)

lemma span_split: "a \<le> k \<Longrightarrow> k \<le> b \<Longrightarrow> span s a b = span s a k @ span s k b"
  using take_add [of "k - a" "b - k" "drop a s"] by (simp add: span_def)

text \<open>\<open>word s a b A\<close>: the characters from \<open>a\<close> to \<open>b\<close> are a word of \<open>A\<close>.\<close>

definition word_at :: "source \<Rightarrow> nat \<Rightarrow> nat \<Rightarrow> source set \<Rightarrow> bool" where
  "word_at s a b A \<longleftrightarrow> a \<le> b \<and> b \<le> length s \<and> span s a b \<in> A"

lemma word_at_bounds: "word_at s a b A \<Longrightarrow> a \<le> b \<and> b \<le> length s"
  by (simp add: word_at_def)

lemma word_at_cat:
  "word_at s a b (cat A B) \<longleftrightarrow> (\<exists>k. word_at s a k A \<and> word_at s k b B)"
proof
  assume w: "word_at s a b (cat A B)"
  then obtain u v where uv: "span s a b = u @ v" "u \<in> A" "v \<in> B"
    by (auto simp: word_at_def cat_def)
  define k where "k = a + length u"
  have b: "a \<le> b" "b \<le> length s" using w by (auto simp: word_at_def)
  have len: "b - a = length u + length v" using uv(1) b by (metis length_append length_span)
  then have k: "a \<le> k" "k \<le> b" using b by (auto simp: k_def)
  have "span s a k @ span s k b = u @ v" using uv(1) span_split [OF k, of s] by simp
  moreover have "length (span s a k) = length u" using k b by (simp add: k_def)
  ultimately have "span s a k = u" "span s k b = v" by (auto simp: append_eq_append_conv)
  then show "\<exists>k. word_at s a k A \<and> word_at s k b B"
    using uv k b by (auto simp: word_at_def intro!: exI [of _ k])
next
  assume "\<exists>k. word_at s a k A \<and> word_at s k b B"
  then obtain k where k: "word_at s a k A" "word_at s k b B" by blast
  then have "span s a b = span s a k @ span s k b"
    by (intro span_split) (auto simp: word_at_def)
  with k show "word_at s a b (cat A B)"
    by (auto simp: word_at_def cat_def)
qed

lemma word_at_opt: "word_at s a b (opt A) \<longleftrightarrow> a = b \<and> b \<le> length s \<or> word_at s a b A"
  by (auto simp: word_at_def opt_def span_def)

lemma word_at_Un: "word_at s a b (A \<union> B) \<longleftrightarrow> word_at s a b A \<or> word_at s a b B"
  by (auto simp: word_at_def)

lemma word_at_one: "word_at s a b (one p) \<longleftrightarrow> b = a + 1 \<and> digit_at s a p"
proof
  assume w: "word_at s a b (one p)"
  then obtain c where c: "span s a b = [c]" "p c" and b: "a \<le> b" "b \<le> length s"
    by (auto simp: word_at_def one_def)
  then have "b - a = 1" by (metis One_nat_def length_Cons length_span list.size(3))
  then show "b = a + 1 \<and> digit_at s a p"
    using c b nth_span [of a 0 b s] by (auto simp: digit_at_def get_def)
next
  assume r: "b = a + 1 \<and> digit_at s a p"
  then have "a < length s" "p (s ! a)" by (auto simp: digit_at_def get_def split: if_splits)
  then show "word_at s a b (one p)"
    using r by (auto simp: word_at_def one_def span_def take_Suc_conv_app_nth)
qed

lemma word_at_take: "word_at (take n s) a b A \<longleftrightarrow> b \<le> n \<and> word_at s a b A"
  by (auto simp: word_at_def span_def drop_take min_def)

lemma word_at_shift: "word_at (xs @ s) (length xs + a) (length xs + b) A = word_at s a b A"
  by (auto simp: word_at_def span_def)

subsection \<open>Digit runs\<close>

lemma digit_at_iff: "digit_at s i p \<longleftrightarrow> i < length s \<and> p (s ! i)"
  by (auto simp: digit_at_def get_def)

lemma get_eq_Some: "get s i = Some c \<longleftrightarrow> i < length s \<and> s ! i = c"
  by (auto simp: get_def)

lemma skip_underscores_between:
  "i \<le> j \<Longrightarrow> j < skip_underscores s i \<Longrightarrow> j < length s \<and> s ! j = underscore"
proof (induction s i rule: skip_underscores.induct)
  case (1 s i)
  show ?case
  proof (cases "get s i = Some underscore")
    case True
    with 1 show ?thesis
      by (cases "i = j") (auto simp: skip_underscores.simps [of s i] get_eq_Some)
  qed (use 1 in \<open>auto simp: skip_underscores.simps [of s i]\<close>)
qed

lemma skip_underscores_stop: "get s (skip_underscores s i) \<noteq> Some underscore"
proof (induction s i rule: skip_underscores.induct)
  case (1 s i)
  then show ?case
    by (cases "get s i = Some underscore") (auto simp: skip_underscores.simps [of s i])
qed

text \<open>Positions \<open>a\<close> to \<open>b\<close> hold digits and underscores, the last of them a digit.\<close>

definition run_between :: "(nat \<Rightarrow> bool) \<Rightarrow> source \<Rightarrow> nat \<Rightarrow> nat \<Rightarrow> bool" where
  "run_between p s a b \<longleftrightarrow>
     a < b \<and> b \<le> length s \<and> p (s ! (b - 1)) \<and>
     (\<forall>j. a \<le> j \<and> j < b \<longrightarrow> p (s ! j) \<or> s ! j = underscore)"

lemma run_between_step:
  assumes "\<forall>j. a \<le> j \<and> j < i \<longrightarrow> s ! j = underscore" "a \<le> i" "digit_at s i p"
    and "e = i + 1 \<or> run_between p s (i + 1) e"
  shows "run_between p s a e"
proof -
  have "p (s ! j) \<or> s ! j = underscore" if "a \<le> j" "j < e" for j
    using assms that
    by (cases "j < i"; cases "j = i") (auto simp: run_between_def digit_at_iff)
  then show ?thesis
    using assms by (auto simp: run_between_def digit_at_iff)
qed

lemma digit_run_loop_sound:
  "digit_run_loop s a p = a \<or> run_between p s a (digit_run_loop s a p)"
proof (induction s a p rule: digit_run_loop.induct)
  case (1 s a p)
  define i where "i = skip_underscores s a"
  show ?case
  proof (cases "digit_at s i p")
    case True
    then have "digit_run_loop s a p = digit_run_loop s (i + 1) p"
      by (subst digit_run_loop.simps) (simp add: i_def)
    moreover have "run_between p s a (digit_run_loop s (i + 1) p)"
    proof (rule run_between_step [where i = i])
      show "digit_run_loop s (i + 1) p = i + 1 \<or>
            run_between p s (i + 1) (digit_run_loop s (i + 1) p)"
        using 1 [OF i_def] True by simp
    qed (use True skip_underscores_between [of a _ s] skip_underscores_ge [of a s]
         in \<open>auto simp: i_def\<close>)
    ultimately show ?thesis by simp
  qed (simp add: digit_run_loop.simps [of s a p] i_def)
qed

lemma digit_run_loop_max:
  assumes "\<not> p underscore" "run_between p s a m"
  shows "m \<le> digit_run_loop s a p"
  using assms
proof (induction s a p rule: digit_run_loop.induct)
  case (1 s a p)
  define i where "i = skip_underscores s a"
  have i: "i \<le> m - 1"
  proof (rule ccontr)
    assume "\<not> i \<le> m - 1"
    then have "s ! (m - 1) = underscore"
      using 1(3) skip_underscores_between [of a "m - 1" s] by (auto simp: i_def run_between_def)
    with 1 show False by (auto simp: run_between_def)
  qed
  moreover have "a \<le> i" by (simp add: i_def skip_underscores_ge)
  ultimately have "digit_at s i p"
    using 1(3) skip_underscores_stop [of s a]
    by (auto simp: run_between_def digit_at_iff get_eq_Some i_def [symmetric])
  then have loop: "digit_run_loop s a p = digit_run_loop s (i + 1) p"
    by (subst digit_run_loop.simps) (simp add: i_def)
  show ?case
  proof (cases "m = i + 1")
    case True
    then show ?thesis
      using loop digit_run_loop_sound [of s "i + 1" p] by (auto simp: run_between_def)
  next
    case False
    then have "run_between p s (i + 1) m"
      using 1(3) i \<open>a \<le> i\<close> by (auto simp: run_between_def)
    then show ?thesis
      using 1(1) [OF i_def \<open>digit_at s i p\<close> 1(2)] loop by simp
  qed
qed

lemma span_nth: "b \<le> length s \<Longrightarrow> span s a b = map ((!) s) [a..<b]"
  by (rule nth_equalityI) (auto simp: nth_span)

lemma word_digits_all:
  "word_at s a b (digit_words p) \<longleftrightarrow>
     a < b \<and> b \<le> length s \<and> p (s ! a) \<and> p (s ! (b - 1)) \<and>
     (\<forall>j. a \<le> j \<and> j < b \<longrightarrow> p (s ! j) \<or> s ! j = underscore)"
proof (cases "a < b \<and> b \<le> length s")
  case True
  then have "[a..<b] \<noteq> []" by simp
  moreover from this have "hd (span s a b) = s ! a" "last (span s a b) = s ! (b - 1)"
    using True by (simp_all add: span_nth hd_map last_map)
  ultimately show ?thesis
    using True by (auto simp: word_at_def digit_words_def span_nth)
qed (auto simp: word_at_def digit_words_def)

lemma word_digits_iff:
  "word_at s a b (digit_words p) \<longleftrightarrow> digit_at s a p \<and> (b = a + 1 \<or> run_between p s (a + 1) b)"
proof -
  have split: "(\<forall>j. a \<le> j \<and> j < b \<longrightarrow> Q j) \<longleftrightarrow> Q a \<and> (\<forall>j. a + 1 \<le> j \<and> j < b \<longrightarrow> Q j)"
    if "a < b" for Q :: "nat \<Rightarrow> bool"
  proof -
    have "a \<le> j \<and> j < b \<longleftrightarrow> j = a \<or> a + 1 \<le> j \<and> j < b" for j
      using that by auto
    then show ?thesis by (simp only:) blast
  qed
  show ?thesis
    unfolding word_digits_all run_between_def digit_at_iff
    by (cases "a < b") (simp_all add: split, auto)
qed

text \<open>A run is a word of digits, the longest one, and the only one a foreign character follows.\<close>

lemma digit_run_word: "digit_at s a p \<Longrightarrow> word_at s a (digit_run s a p) (digit_words p)"
  using digit_run_loop_sound [of s "a + 1" p] by (auto simp: digit_run_def word_digits_iff)

lemma digit_run_none: "\<not> digit_at s a p \<Longrightarrow> digit_run s a p = a"
  by (simp add: digit_run_def)

lemma digit_run_max:
  assumes "\<not> p underscore" "word_at s a b (digit_words p)"
  shows "b \<le> digit_run s a p"
  using assms digit_run_loop_max [of p s "a + 1" b] digit_run_loop_sound [of s "a + 1" p]
  by (auto simp: word_digits_iff digit_run_def run_between_def)

lemma digit_run_ge: "a \<le> digit_run s a p"
  using digit_run_word [of s a p] digit_run_none [of s a p] word_at_bounds by force

lemma digit_run_gt: "a < digit_run s a p \<longleftrightarrow> digit_at s a p"
  using digit_run_loop_sound [of s "a + 1" p] by (auto simp: digit_run_def run_between_def)

lemma digit_run_le: "a \<le> length s \<Longrightarrow> digit_run s a p \<le> length s"
  using digit_run_word [of s a p] digit_run_none [of s a p] word_at_bounds by force

lemma digit_run_cut:
  assumes "\<not> p underscore" "word_at s a b (digit_words p)" "digit_at s b q"
    and "\<And>c. q c \<Longrightarrow> \<not> p c \<and> c \<noteq> underscore"
  shows "b = digit_run s a p"
proof (rule ccontr)
  assume "b \<noteq> digit_run s a p"
  then have lt: "b < digit_run s a p" using digit_run_max [OF assms(1,2)] by simp
  have "digit_at s a p" using assms(2) by (simp add: word_digits_iff)
  from digit_run_word [OF this] have "p (s ! b) \<or> s ! b = underscore"
    using lt assms(2) by (auto simp: word_digits_all)
  then show False using assms(3,4) by (auto simp: digit_at_iff)
qed

subsection \<open>Longest words\<close>

text \<open>The end of the longest word of a set at a position, \<^const>\<open>None\<close> when there is none.\<close>

definition longest_end :: "source \<Rightarrow> nat \<Rightarrow> source set \<Rightarrow> nat option \<Rightarrow> bool" where
  "longest_end s a A e =
     (case e of
        None \<Rightarrow> (\<forall>m. \<not> word_at s a m A)
      | Some b \<Rightarrow> word_at s a b A \<and> (\<forall>m. word_at s a m A \<longrightarrow> m \<le> b))"

lemma longest_endI:
  assumes "word_at s a b A" "\<And>m. word_at s a m A \<Longrightarrow> m \<le> b"
  shows "longest_end s a A (Some b)"
  using assms by (simp add: longest_end_def)

lemma longest_end_NoneI: "(\<And>m. \<not> word_at s a m A) \<Longrightarrow> longest_end s a A None"
  by (simp add: longest_end_def)

lemma longest_end_Un:
  "longest_end s a A e \<Longrightarrow> longest_end s a B f \<Longrightarrow> longest_end s a (A \<union> B) (later e f)"
  by (cases e; cases f) (force simp: longest_end_def later_def word_at_Un max_def)+

lemma longest_end_cong:
  "longest_end s a A e \<Longrightarrow> (\<And>m. word_at s a m B \<longleftrightarrow> word_at s a m A) \<Longrightarrow> longest_end s a B e"
  by (cases e) (auto simp: longest_end_def)

lemma cat_Un: "cat A (B \<union> C) = cat A B \<union> cat A C"
  by (auto simp: cat_def)

lemma longest_end_one: "longest_end s a (one p) (if digit_at s a p then Some (a + 1) else None)"
  by (auto simp: longest_end_def word_at_one)

text \<open>A set that starts with one character of a class.\<close>

lemma longest_end_after_one:
  assumes "longest_end s (a + 1) A e"
  shows "longest_end s a (cat (one p) A) (if digit_at s a p then e else None)"
  using assms by (cases e) (auto simp: longest_end_def word_at_cat word_at_one)

text \<open>An optional character behind words that do not hold it.\<close>

lemma longest_end_opt_one:
  assumes e: "longest_end s a A e"
    and free: "\<And>b j. e = Some b \<Longrightarrow> a \<le> j \<Longrightarrow> j < b \<Longrightarrow> \<not> q (s ! j)"
  shows "longest_end s a (cat A (opt (one q)))
           (map_option (\<lambda>b. if digit_at s b q then b + 1 else b) e)"
proof (cases e)
  case None
  then show ?thesis using e by (auto simp: longest_end_def word_at_cat)
next
  case (Some b)
  then have b: "word_at s a b A" "\<And>m. word_at s a m A \<Longrightarrow> m \<le> b"
    using e by (auto simp: longest_end_def)
  have "m \<le> (if digit_at s b q then b + 1 else b)" if w: "word_at s a m (cat A (opt (one q)))" for m
  proof -
    obtain k where k: "word_at s a k A" "k = m \<or> m = k + 1 \<and> digit_at s k q"
      using w unfolding word_at_cat word_at_opt word_at_one by blast
    then have "k \<le> b" "a \<le> k" using b(2) word_at_bounds by blast+
    moreover have "k = b" if "digit_at s k q"
      using free [OF Some, of k] that \<open>k \<le> b\<close> \<open>a \<le> k\<close> by (force simp: digit_at_iff)
    ultimately show ?thesis using k(2) by auto
  qed
  moreover have "word_at s a (if digit_at s b q then b + 1 else b) (cat A (opt (one q)))"
    using b(1) word_at_bounds [OF b(1)] by (auto simp: word_at_cat word_at_opt word_at_one)
  ultimately show ?thesis by (auto simp: Some intro!: longest_endI)
qed

text \<open>Words behind a run of digits, when they start with a character that is no part of it.\<close>

lemma longest_end_after_opt_run:
  assumes p: "\<not> p underscore"
    and e: "longest_end s (digit_run s a p) A e"
    and start: "\<And>k m. word_at s k m A \<Longrightarrow> digit_at s k q"
    and q: "\<And>c. q c \<Longrightarrow> \<not> p c \<and> c \<noteq> underscore"
  shows "longest_end s a (cat (opt (digit_words p)) A) e"
proof -
  have word: "word_at s a m (cat (opt (digit_words p)) A) \<longleftrightarrow> word_at s (digit_run s a p) m A" for m
  proof
    assume "word_at s a m (cat (opt (digit_words p)) A)"
    then obtain k where k: "k = a \<or> word_at s a k (digit_words p)" "word_at s k m A"
      by (auto simp: word_at_cat word_at_opt)
    have "k = digit_run s a p"
    proof (cases "k = a")
      case True
      then show ?thesis
        using start [OF k(2)] q by (auto simp: digit_run_def digit_at_iff)
    qed (use k digit_run_cut [OF p _ start [OF k(2)] q] in blast)
    then show "word_at s (digit_run s a p) m A" using k by simp
  next
    assume m: "word_at s (digit_run s a p) m A"
    then have "a \<le> length s"
      using digit_run_ge [of a s p] word_at_bounds [OF m] by linarith
    then have "word_at s a (digit_run s a p) (opt (digit_words p))"
      using digit_run_word [of s a p] digit_run_none [of s a p]
      by (cases "digit_at s a p") (auto simp: word_at_opt)
    then show "word_at s a m (cat (opt (digit_words p)) A)" using m by (auto simp: word_at_cat)
  qed
  show ?thesis using e by (cases e) (auto simp: longest_end_def word)
qed

text \<open>With at least one digit required, the same holds where there is one.\<close>

lemma longest_end_after_run:
  assumes "\<not> p underscore" "digit_at s a p" "longest_end s (digit_run s a p) A e"
    and start: "\<And>k m. word_at s k m A \<Longrightarrow> digit_at s k q"
    and q: "\<And>c. q c \<Longrightarrow> \<not> p c \<and> c \<noteq> underscore"
  shows "longest_end s a (cat (digit_words p) A) e"
proof (rule longest_end_cong [OF longest_end_after_opt_run [OF assms(1,3) start q]])
  fix m
  show "word_at s a m (cat (digit_words p) A) \<longleftrightarrow> word_at s a m (cat (opt (digit_words p)) A)"
    using assms(2) start q by (auto simp: word_at_cat word_at_opt digit_at_iff)
qed

text \<open>An optional character before words that cannot start with it.\<close>

lemma longest_end_after_opt_one:
  assumes e: "longest_end s (if digit_at s a q then a + 1 else a) A e"
    and start: "\<And>k m. word_at s k m A \<Longrightarrow> digit_at s k p"
    and p: "\<And>c. p c \<Longrightarrow> \<not> q c"
  shows "longest_end s a (cat (opt (one q)) A) e"
proof -
  have word: "word_at s a m (cat (opt (one q)) A) \<longleftrightarrow>
      word_at s (if digit_at s a q then a + 1 else a) m A" for m
  proof (cases "digit_at s a q")
    case True
    then have "\<not> word_at s a m A" using start [of a m] p by (auto simp: digit_at_iff)
    then show ?thesis using True by (auto simp: word_at_cat word_at_opt word_at_one)
  next
    case False
    then show ?thesis
      using word_at_bounds [of s a m A] by (auto simp: word_at_cat word_at_opt word_at_one)
  qed
  show ?thesis using e by (cases e) (auto simp: longest_end_def word split: if_splits)
qed

lemma longest_end_digits:
  "\<not> p underscore \<Longrightarrow>
     longest_end s a (digit_words p) (if digit_at s a p then Some (digit_run s a p) else None)"
  by (auto simp: longest_end_def digit_run_word digit_run_max) (simp add: word_digits_iff)

subsection \<open>Exponents and tails\<close>

lemma class_simps [simp]:
  "\<not> is_ascii_digit underscore" "\<not> is_octal_digit underscore" "\<not> is_binary_digit underscore"
  "\<not> is_ascii_hexdigit underscore"
  by (simp_all add: is_ascii_digit_def is_octal_digit_def is_binary_digit_def
      is_ascii_hexdigit_def)

lemma exponent_longest: "longest_end s a (exponents lower upper) (exponent s a lower upper)"
proof -
  let ?sign = "\<lambda>b. b = ch CHR ''+'' \<or> b = ch CHR ''-''"
  let ?i = "if digit_at s (a + 1) ?sign then a + 1 + 1 else a + 1"
  have "longest_end s (a + 1) (cat (opt (one ?sign)) (digit_words is_ascii_digit))
      (if digit_at s ?i is_ascii_digit then Some (digit_run s ?i is_ascii_digit) else None)"
  proof (rule longest_end_after_opt_one [where p = is_ascii_digit])
    show "digit_at s k is_ascii_digit" if "word_at s k m (digit_words is_ascii_digit)" for k m
      using that by (simp add: word_digits_iff)
  next
    show "longest_end s ?i (digit_words is_ascii_digit)
        (if digit_at s ?i is_ascii_digit then Some (digit_run s ?i is_ascii_digit) else None)"
      by (rule longest_end_digits) simp
  qed (auto simp: is_ascii_digit_def)
  from longest_end_after_one [OF this, of "\<lambda>b. b = lower \<or> b = upper"]
  show ?thesis
    by (simp add: exponents_def exponent_def Let_def digit_run_gt cong: if_cong)
qed

lemma exponent_start: "word_at s a b (exponents lower upper) \<Longrightarrow> digit_at s a (\<lambda>c. c = lower \<or> c = upper)"
  by (auto simp: exponents_def word_at_cat word_at_one)

lemma exponent_chars:
  assumes "word_at s a b (exponents lower upper)" "a \<le> j" "j < b"
  shows "s ! j \<in> {lower, upper, ch CHR ''+'', ch CHR ''-'', underscore} \<or> is_ascii_digit (s ! j)"
proof -
  let ?sign = "\<lambda>b. b = ch CHR ''+'' \<or> b = ch CHR ''-''"
  obtain k where k: "k = a + 1 \<or> k = a + 2 \<and> digit_at s (a + 1) ?sign"
      "word_at s k b (digit_words is_ascii_digit)" "digit_at s a (\<lambda>c. c = lower \<or> c = upper)"
    using assms(1) by (auto simp: exponents_def word_at_cat word_at_opt word_at_one)
  consider "j = a" | "j = a + 1" "digit_at s (a + 1) ?sign" | "k \<le> j"
    using k(1) assms(2) by linarith
  then show ?thesis
  proof cases
    case 3
    then show ?thesis using k(2) assms(3) unfolding word_digits_all by blast
  qed (use k(3) in \<open>auto simp: digit_at_iff\<close>)
qed

lemma suffix_foreign:
  "is_float_suffix c \<Longrightarrow>
     \<not> is_ascii_digit c \<and> c \<noteq> ch CHR ''+'' \<and> c \<noteq> ch CHR ''-'' \<and> c \<noteq> underscore"
  by (auto simp: is_float_suffix_def is_ascii_digit_def)

text \<open>An exponent with its optional suffix.\<close>

lemma exponent_suffix_longest:
  assumes "\<not> is_float_suffix lower" "\<not> is_float_suffix upper"
  shows "longest_end s a (cat (exponents lower upper) float_suffixes)
           (map_option (float_suffix s) (exponent s a lower upper))"
proof -
  have free: "\<not> is_float_suffix (s ! j)" if "exponent s a lower upper = Some b" "a \<le> j" "j < b" for b j
  proof -
    have "word_at s a b (exponents lower upper)"
      using exponent_longest [of s a lower upper] that by (simp add: longest_end_def)
    from exponent_chars [OF this that(2,3)] show ?thesis
      using assms suffix_foreign [of "s ! j"] by auto
  qed
  have "longest_end s a (cat (exponents lower upper) (opt (one is_float_suffix)))
      (map_option (\<lambda>b. if digit_at s b is_float_suffix then b + 1 else b)
        (exponent s a lower upper))"
    by (rule longest_end_opt_one [OF exponent_longest]) (rule free)
  then show ?thesis
    by (simp add: float_suffixes_def float_suffix_def [abs_def])
qed

text \<open>The optional exponent and suffix of a decimal floating-point literal.\<close>

definition decimal_tail_end :: "source \<Rightarrow> nat \<Rightarrow> nat" where
  "decimal_tail_end s k =
     float_suffix s (case decimal_exponent s k of Some e \<Rightarrow> e | None \<Rightarrow> k)"

definition starts_tail :: "nat \<Rightarrow> bool" where
  "starts_tail c \<longleftrightarrow> c = ch CHR ''e'' \<or> c = ch CHR ''E'' \<or> is_float_suffix c"

lemma starts_tail_foreign: "starts_tail c \<Longrightarrow> \<not> is_ascii_digit c \<and> c \<noteq> underscore"
  by (auto simp: starts_tail_def is_float_suffix_def is_ascii_digit_def)

lemma decimal_tail_split:
  "cat (opt A) B = cat A B \<union> B"
  by (auto simp: cat_def opt_def)

lemma decimal_exponent_longest:
  "longest_end s k (cat (exponents (ch CHR ''e'') (ch CHR ''E'')) float_suffixes)
     (map_option (float_suffix s) (decimal_exponent s k))"
  unfolding decimal_exponent_def
  by (rule exponent_suffix_longest) (simp_all add: is_float_suffix_def)

lemma float_suffix_longest:
  "k \<le> length s \<Longrightarrow> longest_end s k float_suffixes (Some (float_suffix s k))"
  by (auto simp: longest_end_def float_suffixes_def word_at_opt word_at_one float_suffix_def
      digit_at_iff)

lemma float_suffix_ge: "k \<le> float_suffix s k"
  by (simp add: float_suffix_def)

lemma decimal_exponent_ge: "decimal_exponent s k = Some e \<Longrightarrow> k < e"
  using exponent_longest [of s k "ch CHR ''e''" "ch CHR ''E''"]
  by (auto simp: decimal_exponent_def longest_end_def exponents_def word_at_cat word_at_one
      dest!: word_at_bounds split: option.splits)

lemma decimal_tail_longest:
  assumes "k \<le> length s"
  shows "longest_end s k decimal_tail (Some (decimal_tail_end s k))"
proof -
  have "longest_end s k decimal_tail
      (later (map_option (float_suffix s) (decimal_exponent s k)) (Some (float_suffix s k)))"
    unfolding decimal_tail_def decimal_tail_split
    by (rule longest_end_Un [OF decimal_exponent_longest float_suffix_longest [OF assms]])
  moreover have "float_suffix s k \<le> float_suffix s e" if "decimal_exponent s k = Some e" for e
    using decimal_exponent_ge [OF that] float_suffix_ge [of e s]
    by (simp add: float_suffix_def split: if_splits)
  ultimately show ?thesis
    by (cases "decimal_exponent s k") (auto simp: later_def decimal_tail_end_def max_absorb1)
qed

lemma decimal_tail_start: "word_at s k m decimal_tail \<Longrightarrow> m = k \<or> digit_at s k starts_tail"
  by (auto simp: decimal_tail_def float_suffixes_def word_at_cat word_at_opt word_at_one
      starts_tail_def digit_at_iff dest!: exponent_start)

text \<open>A tail behind optional digits: the digits are taken whole.\<close>

lemma decimal_run_tail_longest:
  assumes "j \<le> length s"
  shows "longest_end s j (cat (opt (digit_words is_ascii_digit)) decimal_tail)
           (Some (decimal_tail_end s (digit_run s j is_ascii_digit)))"
proof (rule longest_endI)
  let ?d = "digit_run s j is_ascii_digit"
  have d: "?d \<le> length s" using assms by (rule digit_run_le)
  have tail: "word_at s ?d (decimal_tail_end s ?d) decimal_tail"
    using decimal_tail_longest [OF d] by (simp add: longest_end_def)
  have run: "word_at s j ?d (opt (digit_words is_ascii_digit))"
    using digit_run_word [of s j is_ascii_digit] digit_run_none [of s j is_ascii_digit] assms
    by (cases "digit_at s j is_ascii_digit") (auto simp: word_at_opt)
  show "word_at s j (decimal_tail_end s ?d) (cat (opt (digit_words is_ascii_digit)) decimal_tail)"
    using run tail by (auto simp: word_at_cat)
  fix m
  assume "word_at s j m (cat (opt (digit_words is_ascii_digit)) decimal_tail)"
  then obtain k where k: "k = j \<or> word_at s j k (digit_words is_ascii_digit)"
      "word_at s k m decimal_tail"
    by (auto simp: word_at_cat word_at_opt)
  have "k \<le> ?d" using k(1) digit_run_ge digit_run_max by (metis class_simps(1))
  moreover have "k = ?d" if "digit_at s k starts_tail"
    using k(1)
  proof
    assume "k = j"
    with that show ?thesis
      using starts_tail_foreign by (auto simp: digit_at_iff digit_run_def)
  next
    assume "word_at s j k (digit_words is_ascii_digit)"
    from digit_run_cut [OF _ this that starts_tail_foreign] show ?thesis by simp
  qed
  ultimately show "m \<le> decimal_tail_end s ?d"
    using decimal_tail_start [OF k(2)] decimal_tail_longest [OF d] k(2)
      word_at_bounds [OF tail]
    by (auto simp: longest_end_def)
qed

lemma fraction_float_longest:
  assumes "get s a = Some (ch CHR ''.'')" "digit_at s (a + 1) is_ascii_digit"
  shows "longest_end s a fraction_floats (Some (fraction_float s a))"
proof -
  have "longest_end s (a + 1) (cat (digit_words is_ascii_digit) decimal_tail) (Some (fraction_float s a))"
  proof (rule longest_endI)
    have "a + 1 \<le> length s" using assms(2) by (simp add: digit_at_iff)
    then have all: "longest_end s (a + 1) (cat (opt (digit_words is_ascii_digit)) decimal_tail)
        (Some (fraction_float s a))"
      using decimal_run_tail_longest [of "a + 1" s]
      by (simp add: fraction_float_def decimal_tail_end_def Let_def)
    show "m \<le> fraction_float s a" if "word_at s (a + 1) m (cat (digit_words is_ascii_digit) decimal_tail)" for m
      using all that by (auto simp: longest_end_def word_at_cat word_at_opt)
    have "digit_run s (a + 1) is_ascii_digit \<le> length s"
      using \<open>a + 1 \<le> length s\<close> by (rule digit_run_le)
    from decimal_tail_longest [OF this] digit_run_word [OF assms(2)]
    show "word_at s (a + 1) (fraction_float s a) (cat (digit_words is_ascii_digit) decimal_tail)"
      by (auto simp: longest_end_def word_at_cat fraction_float_def decimal_tail_end_def Let_def)
  qed
  from longest_end_after_one [OF this, of "\<lambda>c. c = ch CHR ''.''"] assms(1)
  show ?thesis by (simp add: fraction_floats_def digit_at_iff get_eq_Some)
qed

subsection \<open>Decimal literals\<close>

lemma decimal_float_longest:
  assumes a: "digit_at s a is_ascii_digit"
  shows "longest_end s a decimal_floats (decimal_float_end s a)"
proof -
  let ?d = "digit_run s a is_ascii_digit"
  let ?dot = "\<lambda>c. c = ch CHR ''.''"
  have "longest_end s ?d
      (cat (one ?dot) (cat (opt (digit_words is_ascii_digit)) decimal_tail))
      (if digit_at s ?d ?dot then Some (decimal_tail_end s (digit_run s (?d + 1) is_ascii_digit))
       else None)"
  proof (cases "?d + 1 \<le> length s")
    case True
    then show ?thesis by (intro longest_end_after_one decimal_run_tail_longest)
  next
    case False
    then show ?thesis by (auto simp: longest_end_def word_at_cat word_at_one digit_at_iff)
  qed
  note dotted = longest_end_after_run [OF _ a this]
  note scaled = longest_end_after_run [OF _ a decimal_exponent_longest [of s ?d]]
  note suffixed = longest_end_after_run [OF _ a longest_end_one [of s ?d is_float_suffix]]
  have "longest_end s a decimal_floats
      (later (later
        (if digit_at s ?d ?dot
         then Some (decimal_tail_end s (digit_run s (?d + 1) is_ascii_digit)) else None)
        (map_option (float_suffix s) (decimal_exponent s ?d)))
        (if digit_at s ?d is_float_suffix then Some (?d + 1) else None))"
    unfolding decimal_floats_def cat_Un
  proof (intro longest_end_Un)
    show "longest_end s a
        (cat (digit_words is_ascii_digit) (cat (one ?dot) (cat (opt (digit_words is_ascii_digit)) decimal_tail)))
        (if digit_at s ?d ?dot
         then Some (decimal_tail_end s (digit_run s (?d + 1) is_ascii_digit)) else None)"
      by (rule dotted [where q = ?dot]) (auto simp: word_at_cat word_at_one is_ascii_digit_def)
    show "longest_end s a
        (cat (digit_words is_ascii_digit) (cat (exponents (ch CHR ''e'') (ch CHR ''E'')) float_suffixes))
        (map_option (float_suffix s) (decimal_exponent s ?d))"
      by (rule scaled [where q = "\<lambda>c. c = ch CHR ''e'' \<or> c = ch CHR ''E''"])
        (auto simp: word_at_cat is_ascii_digit_def dest!: exponent_start)
    show "longest_end s a (cat (digit_words is_ascii_digit) (one is_float_suffix))
        (if digit_at s ?d is_float_suffix then Some (?d + 1) else None)"
      by (rule suffixed [where q = is_float_suffix])
        (auto simp: word_at_one is_ascii_digit_def is_float_suffix_def)
  qed
  moreover have "digit_at s ?d ?dot \<longleftrightarrow> get s ?d = Some (ch CHR ''.'')"
    by (auto simp: digit_at_iff get_eq_Some)
  ultimately show ?thesis
    by (simp add: decimal_float_end_def Let_def decimal_tail_end_def later_def split: option.splits
        if_splits cong: if_cong)
qed

lemma word_at_pair:
  "word_at s a b {codes [x, y], codes [x, z]} \<longleftrightarrow>
     b = a + 2 \<and> get s a = Some (of_char x) \<and>
     digit_at s (a + 1) (\<lambda>c. c = of_char y \<or> c = of_char z)"
proof (cases "a \<le> b \<and> b \<le> length s")
  case True
  show ?thesis
  proof (cases "b = a + 2")
    case two: True
    then have "[a..<b] = [a, a + 1]" by (simp add: upt_rec)
    then show ?thesis
      using True two by (auto simp: word_at_def span_nth get_eq_Some digit_at_iff)
  next
    case False
    then have "length (span s a b) \<noteq> 2" using True by auto
    then show ?thesis using False by (auto simp: word_at_def)
  qed
qed (auto simp: word_at_def get_eq_Some digit_at_iff)

lemma word_at_hd:
  "word_at s a b {w \<in> digit_words p. P (hd w)} \<longleftrightarrow> word_at s a b (digit_words p) \<and> P (s ! a)"
proof (cases "word_at s a b (digit_words p)")
  case True
  then have "hd (span s a b) = s ! a"
    by (auto simp: word_digits_all span_nth hd_map)
  then show ?thesis using True by (auto simp: word_at_def)
qed (auto simp: word_at_def)

text \<open>What an integer body can be, seen from its first two characters.\<close>

lemma int_body_cases:
  "word_at s a b int_bodies \<longleftrightarrow>
     (if get s a = Some (ch CHR ''0'') then
        word_at s a b (digit_words is_octal_digit) \<or>
        digit_at s (a + 1) (\<lambda>c. c = ch CHR ''b'' \<or> c = ch CHR ''B'') \<and>
          word_at s (a + 2) b (digit_words is_binary_digit) \<or>
        digit_at s (a + 1) (\<lambda>c. c = ch CHR ''x'' \<or> c = ch CHR ''X'') \<and>
          word_at s (a + 2) b (digit_words is_ascii_hexdigit)
      else word_at s a b (digit_words is_ascii_digit))"
proof -
  have "a < length s" if "word_at s a b (digit_words p)" for p
    using that by (simp add: word_digits_all)
  then show ?thesis
    unfolding int_bodies_def word_at_Un word_at_hd [where P = "\<lambda>c. c = ch CHR ''0''"]
      word_at_hd [where P = "\<lambda>c. c \<noteq> ch CHR ''0''"] word_at_cat word_at_pair get_eq_Some
    by auto
qed

lemma digits_before_foreign:
  assumes "word_at s a b (digit_words p)" "digit_at s (a + 1) q" "\<And>c. q c \<Longrightarrow> \<not> p c \<and> c \<noteq> underscore"
  shows "b = a + 1"
proof (rule ccontr)
  assume "b \<noteq> a + 1"
  then have "p (s ! (a + 1)) \<or> s ! (a + 1) = underscore"
    using assms(1) by (auto simp: word_digits_all)
  then show False using assms(2,3) by (auto simp: digit_at_iff)
qed

lemma octal_imp_digit: "is_octal_digit c \<Longrightarrow> is_ascii_digit c"
  by (simp add: is_octal_digit_def is_ascii_digit_def)

lemma zero_word:
  "get s a = Some (ch CHR ''0'') \<Longrightarrow> word_at s a (a + 1) (digit_words is_octal_digit)"
  by (simp add: word_digits_iff get_eq_Some digit_at_iff is_octal_digit_def)

text \<open>A zero and a radix letter: the digits behind them, or the zero alone.\<close>

lemma radix_body_longest:
  assumes zero: "get s a = Some (ch CHR ''0'')"
    and letter: "digit_at s (a + 1) q" "\<And>c. q c \<Longrightarrow> \<not> is_octal_digit c \<and> c \<noteq> underscore"
    and p: "\<not> p underscore"
    and bodies: "\<And>m. word_at s a m int_bodies \<longleftrightarrow>
          word_at s a m (digit_words is_octal_digit) \<or> word_at s (a + 2) m (digit_words p)"
    and d: "d = digit_run s (a + 2) p"
  shows "longest_end s a int_bodies (Some (if d > a + 2 then d else a + 1))"
proof -
  have octal: "m \<le> a + 1" if "word_at s a m (digit_words is_octal_digit)" for m
    using digits_before_foreign [OF that letter] by simp
  show ?thesis
  proof (cases "a + 2 < d")
    case True
    then have "word_at s (a + 2) d (digit_words p)" by (simp add: d digit_run_gt digit_run_word)
    moreover have "m \<le> d" if "word_at s (a + 2) m (digit_words p)" for m
      using digit_run_max [OF p that] d by simp
    ultimately have "longest_end s a int_bodies (Some d)"
      using True octal by (intro longest_endI) (force simp: bodies)+
    then show ?thesis using True by simp
  next
    case False
    then have "\<not> word_at s (a + 2) m (digit_words p)" for m
      by (simp add: d digit_run_gt word_digits_iff)
    then have "longest_end s a int_bodies (Some (a + 1))"
      using octal zero_word [OF zero] by (intro longest_endI) (force simp: bodies)+
    then show ?thesis using False by simp
  qed
qed

lemma int_body_longest:
  assumes a: "digit_at s a is_ascii_digit"
    and hex: "\<not> (get s a = Some (ch CHR ''0'') \<and>
                 digit_at s (a + 1) (\<lambda>c. c = ch CHR ''x'' \<or> c = ch CHR ''X''))"
  shows "longest_end s a int_bodies (Some (decimal_int_body s a))"
proof (cases "get s a = Some (ch CHR ''0'')")
  case False
  with a show ?thesis
    by (auto simp: longest_end_def int_body_cases decimal_int_body_def digit_run_word digit_run_max)
next
  case zero: True
  show ?thesis
  proof (cases "digit_at s (a + 1) (\<lambda>c. c = ch CHR ''b'' \<or> c = ch CHR ''B'')")
    case False
    have "digit_at s a is_octal_digit" using zero_word [OF zero] by (simp add: word_digits_iff)
    with zero False hex show ?thesis
      by (auto simp: longest_end_def int_body_cases decimal_int_body_def digit_run_word digit_run_max)
  next
    case b: True
    have "longest_end s a int_bodies (Some (if digit_run s (a + 2) is_binary_digit > a + 2
        then digit_run s (a + 2) is_binary_digit else a + 1))"
      by (rule radix_body_longest [OF zero b _ _ _ refl])
        (use zero b hex in \<open>auto simp: int_body_cases is_octal_digit_def\<close>)
    then show ?thesis using zero b by (simp add: decimal_int_body_def Let_def cong: if_cong)
  qed
qed

lemma hex_body_longest:
  assumes zero: "get s a = Some (ch CHR ''0'')"
    and x: "digit_at s (a + 1) (\<lambda>c. c = ch CHR ''x'' \<or> c = ch CHR ''X'')"
    and d: "d = digit_run s (a + 2) is_ascii_hexdigit"
  shows "longest_end s a int_bodies (Some (if d > a + 2 then d else a + 1))"
proof (rule radix_body_longest [OF zero x _ _ _ d])
  have "\<not> digit_at s (a + 1) (\<lambda>c. c = ch CHR ''b'' \<or> c = ch CHR ''B'')"
    using x by (auto simp: digit_at_iff)
  then show "word_at s a m int_bodies \<longleftrightarrow> word_at s a m (digit_words is_octal_digit) \<or>
      word_at s (a + 2) m (digit_words is_ascii_hexdigit)" for m
    using zero x by (simp add: int_body_cases)
qed (auto simp: is_octal_digit_def)

lemma int_body_chars:
  assumes w: "word_at s a b int_bodies" and j: "a \<le> j" "j < b"
  shows "\<not> (s ! j = ch CHR ''l'' \<or> s ! j = ch CHR ''L'')"
proof -
  have run: ?thesis if "word_at s k b (digit_words p)" "k \<le> j"
      "\<not> p (ch CHR ''l'')" "\<not> p (ch CHR ''L'')" for k p
  proof -
    have "p (s ! j) \<or> s ! j = underscore" using that(1,2) j(2) by (auto simp: word_digits_all)
    with that(3,4) show ?thesis by auto
  qed
  have prefixed: ?thesis if "word_at s (a + 2) b (digit_words p)" "digit_at s (a + 1) q"
      "get s a = Some (ch CHR ''0'')" "\<not> p (ch CHR ''l'')" "\<not> p (ch CHR ''L'')"
      "\<not> q (ch CHR ''l'')" "\<not> q (ch CHR ''L'')" for p q
  proof (cases "a + 2 \<le> j")
    case False
    then have "j = a \<or> j = a + 1" using j(1) by linarith
    then show ?thesis using that(2,3,6,7) by (auto simp: digit_at_iff get_eq_Some)
  qed (use run that in blast)
  show ?thesis
  proof (cases "get s a = Some (ch CHR ''0'')")
    case True
    from w consider "word_at s a b (digit_words is_octal_digit)"
      | "digit_at s (a + 1) (\<lambda>c. c = ch CHR ''b'' \<or> c = ch CHR ''B'')"
        "word_at s (a + 2) b (digit_words is_binary_digit)"
      | "digit_at s (a + 1) (\<lambda>c. c = ch CHR ''x'' \<or> c = ch CHR ''X'')"
        "word_at s (a + 2) b (digit_words is_ascii_hexdigit)"
      unfolding int_body_cases by (auto simp: True)
    then show ?thesis
    proof cases
      case 1
      then show ?thesis by (rule run [OF _ j(1)]) (simp_all add: is_octal_digit_def)
    next
      case 2
      show ?thesis by (rule prefixed [OF 2(2,1) True]) (simp_all add: is_binary_digit_def)
    next
      case 3
      show ?thesis
        by (rule prefixed [OF 3(2,1) True]) (simp_all add: is_ascii_hexdigit_def is_ascii_digit_def)
    qed
  next
    case False
    with w have "word_at s a b (digit_words is_ascii_digit)" by (simp add: int_body_cases)
    then show ?thesis by (rule run [OF _ j(1)]) (simp_all add: is_ascii_digit_def)
  qed
qed

lemma int_literal_longest:
  assumes "longest_end s a int_bodies (Some b)"
  shows "longest_end s a int_literals (Some (int_suffix s b))"
proof -
  let ?l = "\<lambda>c. c = ch CHR ''l'' \<or> c = ch CHR ''L''"
  have "longest_end s a (cat int_bodies (opt (one ?l)))
      (map_option (\<lambda>b. if digit_at s b ?l then b + 1 else b) (Some b))"
    using assms
    by (rule longest_end_opt_one) (use assms int_body_chars in \<open>auto simp: longest_end_def\<close>)
  then show ?thesis
    by (simp add: int_literals_def int_suffixes_def int_suffix_def)
qed

subsection \<open>Hexadecimal floating-point literals\<close>

abbreviation is_dot :: "nat \<Rightarrow> bool" where
  "is_dot \<equiv> \<lambda>c. c = ch CHR ''.''"

lemma later_None [simp]: "later e None = e" "later None e = e"
  by (cases e; simp add: later_def)+

lemma get_dot: "get s i = Some (ch CHR ''.'') \<longleftrightarrow> digit_at s i is_dot"
  by (auto simp: get_eq_Some digit_at_iff)

lemma hex_tail_longest:
  "longest_end s k hex_tail (map_option (float_suffix s) (hex_exponent s k))"
  unfolding hex_tail_def hex_exponent_def
  by (rule exponent_suffix_longest) (simp_all add: is_float_suffix_def)

lemma hex_tail_start: "word_at s k m hex_tail \<Longrightarrow> digit_at s k (\<lambda>c. c = ch CHR ''p'' \<or> c = ch CHR ''P'')"
  by (auto simp: hex_tail_def word_at_cat dest: exponent_start)

lemma hex_whole_longest:
  assumes d: "d = digit_run s (a + 2) is_ascii_hexdigit"
  shows "longest_end s (a + 2)
      (cat (digit_words is_ascii_hexdigit) (cat (opt (one is_dot)) hex_tail))
      (if d > a + 2
       then map_option (float_suffix s) (hex_exponent s (if digit_at s d is_dot then d + 1 else d))
       else None)"
proof (cases "digit_at s (a + 2) is_ascii_hexdigit")
  case True
  let ?q = "\<lambda>c. c = ch CHR ''.'' \<or> c = ch CHR ''p'' \<or> c = ch CHR ''P''"
  have whole: "longest_end s d (cat (opt (one is_dot)) hex_tail)
      (map_option (float_suffix s) (hex_exponent s (if digit_at s d is_dot then d + 1 else d)))"
    by (rule longest_end_after_opt_one [OF hex_tail_longest hex_tail_start]) auto
  have start: "digit_at s k ?q" if "word_at s k m (cat (opt (one is_dot)) hex_tail)" for k m
    using that by (auto simp: word_at_cat word_at_opt word_at_one digit_at_iff dest!: hex_tail_start)
  have "longest_end s (a + 2)
      (cat (digit_words is_ascii_hexdigit) (cat (opt (one is_dot)) hex_tail))
      (map_option (float_suffix s) (hex_exponent s (if digit_at s d is_dot then d + 1 else d)))"
    by (rule longest_end_after_run [OF _ True whole [unfolded d] start, folded d])
      (auto simp: is_ascii_hexdigit_def is_ascii_digit_def)
  then show ?thesis using True by (simp add: d digit_run_gt)
next
  case False
  then show ?thesis
    by (auto simp: d digit_run_gt longest_end_def word_at_cat word_digits_iff)
qed

lemma hex_fraction_longest:
  assumes d: "d = digit_run s (a + 2) is_ascii_hexdigit"
    and f: "f = digit_run s (d + 1) is_ascii_hexdigit"
  shows "longest_end s (a + 2)
      (cat (opt (digit_words is_ascii_hexdigit)) (cat (one is_dot) (cat (digit_words is_ascii_hexdigit) hex_tail)))
      (if digit_at s d is_dot \<and> f > d + 1 then map_option (float_suffix s) (hex_exponent s f) else None)"
proof -
  have "longest_end s (d + 1) (cat (digit_words is_ascii_hexdigit) hex_tail)
      (if f > d + 1 then map_option (float_suffix s) (hex_exponent s f) else None)"
  proof (cases "digit_at s (d + 1) is_ascii_hexdigit")
    case True
    have "longest_end s (d + 1) (cat (digit_words is_ascii_hexdigit) hex_tail)
        (map_option (float_suffix s) (hex_exponent s f))"
      unfolding f
      by (rule longest_end_after_run [OF _ True hex_tail_longest hex_tail_start])
        (auto simp: is_ascii_hexdigit_def is_ascii_digit_def)
    then show ?thesis using True by (simp add: f digit_run_gt)
  next
    case False
    then show ?thesis
      by (auto simp: f digit_run_gt longest_end_def word_at_cat word_digits_iff)
  qed
  from longest_end_after_one [OF this, of is_dot]
  have dotted: "longest_end s d (cat (one is_dot) (cat (digit_words is_ascii_hexdigit) hex_tail))
      (if digit_at s d is_dot \<and> f > d + 1 then map_option (float_suffix s) (hex_exponent s f)
       else None)"
    by (auto split: if_splits)
  show ?thesis
    by (rule longest_end_after_opt_run [where q = is_dot, OF _ dotted [unfolded d], folded d])
      (auto simp: word_at_cat word_at_one is_ascii_hexdigit_def is_ascii_digit_def)
qed

lemma hex_float_longest:
  assumes zero: "get s a = Some (ch CHR ''0'')"
    and x: "digit_at s (a + 1) (\<lambda>c. c = ch CHR ''x'' \<or> c = ch CHR ''X'')"
    and d: "d = digit_run s (a + 2) is_ascii_hexdigit"
  shows "longest_end s a hex_floats (hex_float_end s a d)"
proof -
  have e: "hex_float_end s a d = later
      (if d > a + 2
       then map_option (float_suffix s) (hex_exponent s (if digit_at s d is_dot then d + 1 else d))
       else None)
      (if digit_at s d is_dot \<and> digit_run s (d + 1) is_ascii_hexdigit > d + 1
       then map_option (float_suffix s) (hex_exponent s (digit_run s (d + 1) is_ascii_hexdigit))
       else None)"
    unfolding hex_float_end_def Let_def get_dot by (simp split: option.split)
  have "longest_end s a (cat {codes ''0x'', codes ''0X''} A) r" if "longest_end s (a + 2) A r" for A r
    using that zero x
    by (cases r) (auto simp: longest_end_def word_at_cat word_at_pair simp del: list.map)
  from this [OF longest_end_Un [OF hex_whole_longest [OF d] hex_fraction_longest [OF d refl]]]
  show ?thesis unfolding e hex_floats_def .
qed

subsection \<open>Numeric literals\<close>

lemma no_hex_prefix:
  assumes "\<not> (get s a = Some (ch CHR ''0'') \<and>
              digit_at s (a + 1) (\<lambda>c. c = ch CHR ''x'' \<or> c = ch CHR ''X''))"
  shows "longest_end s a hex_floats None"
  using assms unfolding longest_end_def hex_floats_def word_at_cat word_at_pair by auto

lemma no_fraction:
  assumes "digit_at s a is_ascii_digit"
  shows "longest_end s a fraction_floats None"
  using assms
  by (auto simp: longest_end_def fraction_floats_def word_at_cat word_at_one digit_at_iff
      is_ascii_digit_def)

lemma no_decimal_float:
  assumes zero: "get s a = Some (ch CHR ''0'')"
    and x: "digit_at s (a + 1) (\<lambda>c. c = ch CHR ''x'' \<or> c = ch CHR ''X'')"
  shows "longest_end s a decimal_floats None"
proof (rule longest_end_NoneI, rule notI)
  fix m
  assume "word_at s a m decimal_floats"
  then obtain k where k: "word_at s a k (digit_words is_ascii_digit)"
      and "digit_at s k (\<lambda>c. c = ch CHR ''.'' \<or> c = ch CHR ''e'' \<or> c = ch CHR ''E'' \<or> is_float_suffix c)"
    by (auto simp: decimal_floats_def word_at_cat word_at_Un word_at_one digit_at_iff
        dest!: exponent_start)
  moreover have "k = a + 1"
    by (rule digits_before_foreign [OF k x]) (auto simp: is_ascii_digit_def)
  ultimately show False using x by (auto simp: digit_at_iff is_float_suffix_def)
qed

lemma pick_number_longest:
  assumes "longest_end s a A (Some i)" "longest_end s a B f" "pick_number i f = (kind, e)"
  shows "longest_end s a (A \<union> B) (Some e) \<and>
     (kind = Literal INT_LITERAL \<and> word_at s a e A \<or>
      kind = Literal FLOAT_LITERAL \<and> word_at s a e B \<and> \<not> word_at s a e A)"
  using assms longest_end_Un [OF assms(1,2)]
  by (fastforce simp: pick_number_def longest_end_def later_def max_def split: option.splits if_splits)

lemma number_longest:
  assumes a: "digit_at s a is_ascii_digit" and n: "number s a = (kind, e)"
  shows "longest_end s a (int_literals \<union> float_literals) (Some e) \<and>
     (kind = Literal INT_LITERAL \<and> word_at s a e int_literals \<or>
      kind = Literal FLOAT_LITERAL \<and> word_at s a e float_literals \<and> \<not> word_at s a e int_literals)"
proof (cases "get s a = Some (ch CHR ''0'') \<and>
              digit_at s (a + 1) (\<lambda>c. c = ch CHR ''x'' \<or> c = ch CHR ''X'')")
  case True
  let ?d = "digit_run s (a + 2) is_ascii_hexdigit"
  have suffix: "int_suffix s (a + 1) = a + 1"
    using True by (auto simp: int_suffix_def digit_at_iff)
  have ints: "longest_end s a int_literals (Some (if ?d > a + 2 then int_suffix s ?d else a + 1))"
    using int_literal_longest [OF hex_body_longest [OF _ _ refl, of s a]] True suffix
    by (auto split: if_splits)
  have floats: "longest_end s a float_literals (hex_float_end s a ?d)"
    using longest_end_Un [OF longest_end_Un [OF no_decimal_float hex_float_longest [OF _ _ refl]]
        no_fraction [OF a]] True
    by (simp add: float_literals_def)
  show ?thesis
    by (rule pick_number_longest [OF ints floats]) 
      (use n True in \<open>simp add: number_def hex_number_def Let_def cong: if_cong\<close>)
next
  case False
  have ints: "longest_end s a int_literals (Some (int_suffix s (decimal_int_body s a)))"
    by (rule int_literal_longest [OF int_body_longest [OF a False]])
  have floats: "longest_end s a float_literals (decimal_float_end s a)"
    using longest_end_Un [OF longest_end_Un [OF decimal_float_longest [OF a] no_hex_prefix [OF False]]
        no_fraction [OF a]]
    by (simp add: float_literals_def)
  show ?thesis
    by (rule pick_number_longest [OF ints floats])
      (use n False in \<open>auto simp: number_def decimal_number_def Let_def split: if_splits\<close>)
qed

end
