(* ===== verification/Lexer_Extent.thy ===== *)
theory Lexer_Extent
  imports Lexer Number_Grammar
begin

text \<open>
  How far a token reaches. Every scanner moves forward and stays in the source; what it answers
  depends on the characters from its start to its end only. The second fact comes in two halves
  for each scanner: putting text in front of the start shifts the answer, and cutting the source
  anywhere behind the end leaves it alone.
\<close>

subsection \<open>Reading a shifted or shortened source\<close>

lemma get_shift [simp]: "get (xs @ s) (length xs + i) = get s i"
  by (simp add: get_def)

lemma get_shift_Suc [simp]: "get (xs @ s) (Suc (length xs + i)) = get s (Suc i)"
  using get_shift [of xs s "Suc i"] by simp

lemma get_take [simp]: "get (take n s) i = (if i < n then get s i else None)"
  by (auto simp: get_def)

lemma first_shift [simp]: "first (xs @ s) (length xs + i) = first s i"
  by (simp add: first_def)

lemma first_shift_Suc [simp]: "first (xs @ s) (Suc (length xs + i)) = first s (Suc i)"
  by (simp add: first_def)

lemma first_shift_Suc2 [simp]:
  "first (xs @ s) (Suc (Suc (length xs + i))) = first s (Suc (Suc i))"
  using first_shift [of xs s "Suc (Suc i)"] by simp

lemma first_take [simp]: "first (take n s) i = (if i < n then first s i else None)"
  by (simp add: first_def)

lemma first_lt: "first s i = Some c \<Longrightarrow> i < length s"
  by (simp add: first_def get_def split: if_splits)

lemma digit_at_shift [simp]:
  "digit_at (xs @ s) (length xs + i) p = digit_at s i p"
  "digit_at (xs @ s) (Suc (length xs + i)) p = digit_at s (Suc i) p"
  by (simp_all add: digit_at_def)

lemma digit_at_take [simp]: "digit_at (take n s) i p \<longleftrightarrow> i < n \<and> digit_at s i p"
  by (simp add: digit_at_def)

lemma eat_if_shift [simp]:
  "eat_if (xs @ s) (length xs + i) c = map_option ((+) (length xs)) (eat_if s i c)"
  by (simp add: eat_if_def)

subsection \<open>Runs of characters\<close>

lemma eat_while_ge: "i \<le> eat_while s i p"
proof (induction s i p rule: eat_while.induct)
  case (1 s i p)
  then show ?case by (subst eat_while.simps) (fastforce split: option.split)
qed

lemma eat_while_le: "i \<le> length s \<Longrightarrow> eat_while s i p \<le> length s"
proof (induction s i p rule: eat_while.induct)
  case (1 s i p)
  then show ?case
    by (subst eat_while.simps) (auto simp: Suc_le_eq split: option.split dest: first_lt)
qed

lemmas eat_while_bounds = eat_while_ge eat_while_le

lemma eat_while_shift [simp]:
  "eat_while (xs @ s) (length xs + i) p = length xs + eat_while s i p"
proof (induction s i p rule: eat_while.induct)
  case (1 s i p)
  then show ?case
    by (simp add: eat_while.simps [of s i p] eat_while.simps [of "xs @ s" "length xs + i" p]
        split: option.split)
qed

lemma eat_while_take:
  "eat_while s i p \<le> n \<Longrightarrow> eat_while (take n s) i p = eat_while s i p"
proof (induction s i p rule: eat_while.induct)
  case (1 s i p)
  show ?case
  proof (cases "\<exists>c. first s i = Some c \<and> p c")
    case True
    then obtain c where c: "first s i = Some c" "p c" by blast
    then have "eat_while s i p = eat_while s (i + 1) p"
      by (subst eat_while.simps) simp
    moreover from this have "i < n" using 1(2) eat_while_bounds(1) [of "i + 1" s p] by simp
    ultimately show ?thesis
      using 1 c by (simp add: eat_while.simps [of "take n s" i p])
  next
    case False
    then show ?thesis
      by (auto simp: eat_while.simps [of s i p] eat_while.simps [of "take n s" i p]
          split: option.split)
  qed
qed

lemma eat_at_most_bounds:
  "i \<le> eat_at_most k s i p" "i \<le> length s \<Longrightarrow> eat_at_most k s i p \<le> length s"
  by (induction k arbitrary: i)
    (auto split: option.split dest: first_lt intro: Suc_leD)

lemma eat_at_most_shift [simp]:
  "eat_at_most k (xs @ s) (length xs + i) p = length xs + eat_at_most k s i p"
proof (induction k arbitrary: i)
  case (Suc k)
  from Suc [of "Suc i"] show ?case by (simp split: option.split)
qed simp

lemma eat_at_most_take:
  "eat_at_most k s i p \<le> n \<Longrightarrow> eat_at_most k (take n s) i p = eat_at_most k s i p"
proof (induction k arbitrary: i)
  case (Suc k)
  show ?case
  proof (cases "\<exists>c. first s i = Some c \<and> p c")
    case True
    then obtain c where c: "first s i = Some c" "p c" by blast
    with Suc(2) have "i < n" using eat_at_most_bounds(1) [of "i + 1" k s p] by simp
    with Suc c show ?thesis by simp
  qed (use Suc in \<open>auto split: option.split\<close>)
qed simp

subsection \<open>Character literals\<close>

lemma escape_body_bounds:
  "i \<le> consume_char_escape_body s i"
  "i \<le> length s \<Longrightarrow> consume_char_escape_body s i \<le> length s"
proof -
  let ?u = "eat_while s i (\<lambda>d. d = ch CHR ''u'')"
  have "i \<le> eat_at_most 2 s (i + 1) is_octal_digit"
    using eat_at_most_bounds(1) [of "i + 1" 2 s is_octal_digit] by simp
  moreover have "i \<le> eat_at_most 4 s ?u is_ascii_hexdigit"
    by (meson eat_at_most_bounds(1) eat_while_bounds(1) order_trans)
  ultimately show "i \<le> consume_char_escape_body s i"
    by (auto simp: consume_char_escape_body_def split: option.split)
  assume "i \<le> length s"
  then have "eat_at_most 4 s ?u is_ascii_hexdigit \<le> length s"
    by (intro eat_at_most_bounds eat_while_bounds)
  moreover have "eat_at_most 2 s (i + 1) is_octal_digit \<le> length s" if "first s i = Some c" for c
    using first_lt [OF that] by (intro eat_at_most_bounds) simp
  ultimately show "consume_char_escape_body s i \<le> length s"
    using \<open>i \<le> length s\<close>
    by (auto simp: consume_char_escape_body_def Suc_le_eq split: option.split dest: first_lt)
qed

lemma escape_body_shift [simp]:
  "consume_char_escape_body (xs @ s) (length xs + i) = length xs + consume_char_escape_body s i"
  using eat_at_most_shift [of 2 xs s "Suc i" is_octal_digit]
  by (simp add: consume_char_escape_body_def split: option.split)

lemma escape_body_take:
  assumes "consume_char_escape_body s i \<le> n"
  shows "consume_char_escape_body (take n s) i = consume_char_escape_body s i"
proof (cases "first s i")
  case None
  then show ?thesis by (simp add: consume_char_escape_body_def)
next
  case (Some c)
  let ?u = "eat_while s i (\<lambda>d. d = ch CHR ''u'')"
  show ?thesis
  proof (cases "c = newline")
    case True
    then show ?thesis using Some by (simp add: consume_char_escape_body_def)
  next
    case newline: False
    show ?thesis
    proof (cases "is_octal_digit c")
      case True
      then have "eat_at_most 2 s (i + 1) is_octal_digit \<le> n"
        using assms Some newline by (simp add: consume_char_escape_body_def)
      moreover from this have "i < n"
        using eat_at_most_bounds(1) [of "i + 1" 2 s is_octal_digit] by simp
      ultimately show ?thesis
        using Some True newline eat_at_most_take by (simp add: consume_char_escape_body_def)
    next
      case octal: False
      show ?thesis
      proof (cases "c = ch CHR ''u''")
        case True
        then have le: "eat_at_most 4 s ?u is_ascii_hexdigit \<le> n"
          using assms Some octal by (simp add: consume_char_escape_body_def)
        have u: "?u = eat_while s (i + 1) (\<lambda>d. d = ch CHR ''u'')"
          using Some True by (subst eat_while.simps) simp
        have "?u \<le> n"
          using le eat_at_most_bounds(1) [of ?u 4 s is_ascii_hexdigit] by linarith
        moreover from this have "i < n"
          using eat_while_bounds(1) [of "i + 1" s "\<lambda>d. d = ch CHR ''u''"] u by linarith
        ultimately have "?u \<le> n" "i < n" by simp_all
        then show ?thesis
          using Some True octal eat_while_take [OF \<open>?u \<le> n\<close>] eat_at_most_take [OF le]
          by (simp add: consume_char_escape_body_def)
      qed (use assms Some newline octal in \<open>simp add: consume_char_escape_body_def\<close>)
    qed
  qed
qed

subsection \<open>Scanners that depend on their token only\<close>

text \<open>
  \<open>self_contained f s i\<close>: the scanner \<open>f\<close> moves forward from \<open>i\<close>, stays in \<open>s\<close>, and answers
  the same when the source is cut behind its answer or when text stands in front of it.
\<close>

definition self_contained :: "(source \<Rightarrow> nat \<Rightarrow> 'k \<times> nat) \<Rightarrow> source \<Rightarrow> nat \<Rightarrow> bool" where
  "self_contained f s i \<longleftrightarrow>
     i < snd (f s i) \<and> snd (f s i) \<le> length s \<and>
     (\<forall>n. snd (f s i) \<le> n \<longrightarrow> f (take n s) i = f s i) \<and>
     (\<forall>xs. f (xs @ s) (length xs + i) = (fst (f s i), length xs + snd (f s i)))"

lemma self_containedI:
  assumes "f s i = (k, e)" "i < e" "e \<le> length s" "\<And>n. e \<le> n \<Longrightarrow> f (take n s) i = (k, e)"
    and "\<And>xs. f (xs @ s) (length xs + i) = (k, length xs + e)"
  shows "self_contained f s i"
  using assms by (simp add: self_contained_def)

lemma self_contained_if:
  "(P \<Longrightarrow> self_contained f s i) \<Longrightarrow> (\<not> P \<Longrightarrow> self_contained g s i) \<Longrightarrow>
     self_contained (\<lambda>s i. if P then f s i else g s i) s i"
  by (cases P) simp_all

lemma self_contained_matched:
  "self_contained f s i \<Longrightarrow> self_contained (\<lambda>s i. matched (f s i)) s i"
  by (simp add: self_contained_def)

lemma self_contained_one: "i < length s \<Longrightarrow> self_contained (\<lambda>s i. (k, i + 1)) s i"
  by (simp add: self_contained_def)

lemma self_contained_run:
  assumes "i < length s"
  shows "self_contained (\<lambda>s i. (k, eat_while s (i + 1) p)) s i"
proof (rule self_containedI [OF refl])
  show "i < eat_while s (i + 1) p" using eat_while_ge [of "i + 1" s p] by simp
  show "eat_while s (i + 1) p \<le> length s" using assms by (intro eat_while_le) simp
qed (use eat_while_take eat_while_shift [of _ s "i + 1" p] in simp_all)

lemma self_contained_optional:
  assumes "i < length s"
  shows "self_contained
    (\<lambda>s i. (k, case eat_if s (i + 1) c of Some pos' \<Rightarrow> pos' | None \<Rightarrow> i + 1)) s i"
  using assms by (auto simp: self_contained_def eat_if_def Suc_le_eq dest: first_lt)

lemma munch_bounds:
  "i \<le> length s \<Longrightarrow> i \<le> snd (munch s i alts k) \<and> snd (munch s i alts k) \<le> length s"
  by (induction alts) (auto simp: eat_if_def Suc_le_eq dest: first_lt)

lemma munch_take: "snd (munch s i alts k) \<le> n \<Longrightarrow> munch (take n s) i alts k = munch s i alts k"
  by (induction alts) (auto simp: eat_if_def split: if_splits)

lemma munch_shift:
  "munch (xs @ s) (length xs + i) alts k =
     (fst (munch s i alts k), length xs + snd (munch s i alts k))"
  by (induction alts) (auto simp: eat_if_def)

lemma self_contained_munch:
  assumes "i < length s"
  shows "self_contained (\<lambda>s i. munch s (i + 1) alts k) s i"
  using munch_bounds [of "i + 1" s alts k] munch_take [of s "i + 1" alts k]
    munch_shift [of _ s "i + 1" alts k] assms
  by (auto simp: self_contained_def)

lemma self_contained_less:
  assumes "i < length s"
  shows "self_contained (\<lambda>s i. less_token s (i + 1)) s i"
proof (cases "first s (i + 1) = Some (ch CHR ''<'')")
  case True
  then have "i + 1 < length s" by (rule first_lt)
  with True show ?thesis
    by (auto simp: self_contained_def less_token_def eat_if_def Suc_le_eq dest: first_lt)
next
  case False
  with assms show ?thesis
    by (auto simp: self_contained_def less_token_def eat_if_def Suc_le_eq dest: first_lt)
qed

subsection \<open>Strings and text blocks\<close>

lemma string_loop_bounds:
  "i \<le> length s \<Longrightarrow> i \<le> snd (string_loop s i) \<and> snd (string_loop s i) \<le> length s"
proof (induction s i rule: string_loop.induct)
  case (1 s i)
  then show ?case
    by (subst (1 2) string_loop.simps)
      (fastforce simp: Suc_le_eq split: option.split dest: first_lt)
qed

lemma string_loop_shift:
  "string_loop (xs @ s) (length xs + i) =
     (fst (string_loop s i), length xs + snd (string_loop s i))"
proof (induction s i rule: string_loop.induct)
  case (1 s i)
  then show ?case
    by (subst (1 2 3) string_loop.simps) (simp split: option.split)
qed

lemma string_loop_take:
  "i \<le> length s \<Longrightarrow> snd (string_loop s i) \<le> n \<Longrightarrow> string_loop (take n s) i = string_loop s i"
proof (induction s i rule: string_loop.induct)
  case (1 s i)
  show ?case
  proof (cases "first s i")
    case None
    then show ?thesis by (simp add: string_loop.simps [of _ i])
  next
    case (Some c)
    then have i: "i + 1 \<le> length s" by (auto dest: first_lt)
    consider "c = double_quote" | "c = backslash" "first s (i + 1) = None \<or> first s (i + 1) = Some newline"
      | d where "c = backslash" "first s (i + 1) = Some d" "d \<noteq> newline"
      | "c = carriage_return \<or> c = newline"
      | "c \<noteq> double_quote" "c \<noteq> backslash" "c \<noteq> carriage_return" "c \<noteq> newline"
      by (cases "first s (i + 1)") blast+
    then show ?thesis
    proof cases
      case 3
      then have "i + 2 \<le> length s" by (auto dest: first_lt)
      with 3 1 Some show ?thesis
        using string_loop_bounds [of "i + 2" s]
        by (simp add: string_loop.simps [of s i] string_loop.simps [of "take n s" i])
    next
      case 5
      with 1 Some i show ?thesis
        using string_loop_bounds [of "i + 1" s]
        by (simp add: string_loop.simps [of s i] string_loop.simps [of "take n s" i])
    qed (use 1 Some in \<open>auto simp: string_loop.simps [of s i] string_loop.simps [of "take n s" i]\<close>)
  qed
qed

lemma backslash_run_start_shift:
  "pos \<le> j \<Longrightarrow> backslash_run_start (xs @ s) (length xs + pos) (length xs + j) =
     length xs + backslash_run_start s pos j"
proof (induction j)
  case 0
  then show ?case by (cases "length xs") (auto simp: nth_append)
next
  case (Suc j)
  then show ?case by (cases "pos = Suc j") (auto simp: nth_append)
qed

lemma backslash_run_start_take:
  "j \<le> n \<Longrightarrow> backslash_run_start (take n s) pos j = backslash_run_start s pos j"
  by (induction j) auto

lemma backslash_run_start_le: "backslash_run_start s pos j \<le> j"
  by (induction j) auto

lemma closes_block_shift:
  "pos \<le> i \<Longrightarrow> closes_block (xs @ s) (length xs + pos) (length xs + i) = closes_block s pos i"
  by (simp add: closes_block_def backslash_run_start_shift)

lemma closes_block_take:
  "i + 3 \<le> n \<Longrightarrow> closes_block (take n s) pos i = closes_block s pos i"
  by (simp add: closes_block_def backslash_run_start_take drop_take min_def)

lemma text_block_loop_bounds:
  "i \<le> length s \<Longrightarrow> i \<le> text_block_loop s pos i \<and> text_block_loop s pos i \<le> length s"
proof (induction s pos i rule: text_block_loop.induct)
  case (1 s pos i)
  then show ?case by (subst (1 2) text_block_loop.simps) fastforce
qed

lemma text_block_loop_shift:
  "pos \<le> i \<Longrightarrow> text_block_loop (xs @ s) (length xs + pos) (length xs + i) =
     length xs + text_block_loop s pos i"
proof (induction s pos i rule: text_block_loop.induct)
  case (1 s pos i)
  then show ?case
    by (subst (1 2) text_block_loop.simps) (simp add: closes_block_shift add.assoc)
qed

text \<open>The block ends behind a closing delimiter, or with the source.\<close>

lemma text_block_loop_end:
  "text_block_loop s pos i = length s \<or> i + 3 \<le> text_block_loop s pos i"
proof (induction s pos i rule: text_block_loop.induct)
  case (1 s pos i)
  then show ?case by (subst (1 2) text_block_loop.simps) auto
qed

lemma text_block_loop_take:
  "i \<le> length s \<Longrightarrow> text_block_loop s pos i \<le> n \<Longrightarrow>
     text_block_loop (take n s) pos i = text_block_loop s pos i"
proof (induction s pos i rule: text_block_loop.induct)
  case (1 s pos i)
  show ?case
  proof (cases "length s \<le> n")
    case False
    then have "i + 3 \<le> n" "text_block_loop s pos i \<noteq> length s"
      using 1(3) text_block_loop_end [of s pos i] by auto
    with 1 False show ?thesis
      by (subst (1 2) text_block_loop.simps, subst (asm) (2) text_block_loop.simps)
        (auto simp: closes_block_take split: if_splits)
  qed simp
qed

lemma text_block_take:
  "i \<le> length s \<Longrightarrow> text_block s i \<le> n \<Longrightarrow> text_block (take n s) i = text_block s i"
  by (simp add: text_block_def text_block_loop_take)

lemma text_block_shift: "text_block (xs @ s) (length xs + i) = length xs + text_block s i"
  by (simp add: text_block_def text_block_loop_shift)

lemma text_block_opening:
  "get s (i + 2) = Some c \<Longrightarrow>
     i + 3 \<le> length s \<and> i + 3 \<le> text_block s (i + 3) \<and> text_block s (i + 3) \<le> length s"
  using text_block_loop_bounds [of "i + 3" s "i + 3"]
  by (simp add: text_block_def get_eq_Some)

lemma self_contained_string:
  assumes "i < length s"
  shows "self_contained string_or_text_block s i"
proof (cases "get s (i + 1) = Some double_quote \<and> get s (i + 2) = Some double_quote")
  case True
  then have b: "i + 3 \<le> length s" "i + 3 \<le> text_block s (i + 3)" "text_block s (i + 3) \<le> length s"
    using text_block_opening [of s i double_quote] by simp_all
  have "text_block (take n s) (i + 3) = text_block s (i + 3)" if "text_block s (i + 3) \<le> n" for n
    using b that by (simp add: text_block_take)
  moreover have "text_block (xs @ s) (length xs + i + 3) = length xs + text_block s (i + 3)" for xs
    using text_block_shift [of xs s "i + 3"] by (simp add: add.assoc)
  moreover have "get (xs @ s) (length xs + i + 2) = Some double_quote" for xs
    using True get_shift [of xs s "i + 2"] by (simp add: add.assoc)
  ultimately show ?thesis
    using True b by (auto simp: self_contained_def string_or_text_block_def)
next
  case False
  have "i + 1 \<le> snd (string_loop s (i + 1))" "snd (string_loop s (i + 1)) \<le> length s"
    using string_loop_bounds [of "i + 1" s] assms by simp_all
  moreover have "string_loop (take n s) (i + 1) = string_loop s (i + 1)"
    if "snd (string_loop s (i + 1)) \<le> n" for n
    using that assms by (simp add: string_loop_take)
  moreover have "\<not> (get (xs @ s) (length xs + i + 1) = Some double_quote \<and>
      get (xs @ s) (length xs + i + 2) = Some double_quote)" for xs
    using False get_shift [of xs s "i + 2"] by (simp add: add.assoc)
  ultimately show ?thesis
    using False string_loop_shift [of _ s "i + 1"]
    by (auto simp: self_contained_def string_or_text_block_def)
qed

lemma close_char_bounds:
  "i \<le> length s \<Longrightarrow> i \<le> snd (close_char s i) \<and> snd (close_char s i) \<le> length s"
  by (auto simp: close_char_def eat_if_def Suc_le_eq dest: first_lt)

lemma close_char_take: "snd (close_char s i) \<le> n \<Longrightarrow> close_char (take n s) i = close_char s i"
  by (auto simp: close_char_def eat_if_def split: if_splits)

lemma close_char_shift:
  "close_char (xs @ s) (length xs + i) = (fst (close_char s i), length xs + snd (close_char s i))"
  by (auto simp: close_char_def eat_if_def)

lemma close_char_ge: "i \<le> snd (close_char s i)"
  by (auto simp: close_char_def eat_if_def)

text \<open>One element and the closing quote.\<close>

lemma self_contained_closed:
  assumes "\<And>n. e s i \<le> n \<Longrightarrow> e (take n s) i = e s i"
    and "\<And>xs. e (xs @ s) (length xs + i) = length xs + e s i" "i < e s i" "e s i \<le> length s"
  shows "self_contained (\<lambda>s i. close_char s (e s i)) s i"
  using close_char_bounds [OF assms(4)] assms close_char_ge [of "e s i" s]
  by (auto simp: self_contained_def close_char_take close_char_shift intro: le_trans)

lemma self_contained_char:
  assumes "i < length s"
  shows "self_contained char_literal s i"
proof (cases "first s (i + 1)")
  case None
  then show ?thesis using assms by (simp add: self_contained_def char_literal_def)
next
  case (Some c)
  then have i: "i + 2 \<le> length s" using first_lt by fastforce
  have body: "self_contained (\<lambda>s i. close_char s (consume_char_escape_body s (i + 2))) s i"
  proof (rule self_contained_closed)
    show "consume_char_escape_body (xs @ s) (length xs + i + 2) =
        length xs + consume_char_escape_body s (i + 2)" for xs
      using escape_body_shift [of xs s "i + 2"] by (simp add: add.assoc)
  qed (use escape_body_bounds [of "i + 2" s] i in \<open>auto simp: escape_body_take\<close>)
  have plain: "self_contained (\<lambda>s i. close_char s (i + 2)) s i"
    by (rule self_contained_closed) (use i in auto)
  consider "c = single_quote \<or> c = carriage_return \<or> c = newline"
    | "c = backslash" | "c \<noteq> backslash" "\<not> (c = single_quote \<or> c = carriage_return \<or> c = newline)"
    by blast
  then show ?thesis
  proof cases
    case 1
    then show ?thesis using Some assms by (auto simp: self_contained_def char_literal_def)
  next
    case 2
    have "consume_char_escape_body s (i + 2) \<le> snd (char_literal s i)"
      using Some 2 close_char_ge by (simp add: char_literal_def)
    then have "i + 1 < n" if "snd (char_literal s i) \<le> n" for n
      using that escape_body_bounds(1) [of "i + 2" s] by linarith
    with body Some 2 show ?thesis by (simp add: self_contained_def char_literal_def)
  next
    case 3
    have "i + 2 \<le> snd (char_literal s i)"
      using Some 3 close_char_ge by (simp add: char_literal_def)
    then have "i + 1 < n" if "snd (char_literal s i) \<le> n" for n
      using that by linarith
    with plain Some 3 show ?thesis by (simp add: self_contained_def char_literal_def)
  qed
qed

subsection \<open>Numbers\<close>

lemma longest_end_unique:
  "longest_end s a A (Some b) \<Longrightarrow> longest_end s a A (Some c) \<Longrightarrow> b = c"
  by (simp add: longest_end_def le_antisym)

lemma longest_end_take:
  "longest_end s a A (Some b) \<Longrightarrow> b \<le> n \<Longrightarrow> longest_end (take n s) a A (Some b)"
  by (simp add: longest_end_def word_at_take)

lemma longest_end_shift:
  assumes "longest_end s a A (Some b)"
  shows "longest_end (xs @ s) (length xs + a) A (Some (length xs + b))"
proof (rule longest_endI)
  fix m
  assume m: "word_at (xs @ s) (length xs + a) m A"
  then obtain k where "m = length xs + k"
    using word_at_bounds [OF m] by (metis add.assoc le_Suc_ex)
  with m assms show "m \<le> length xs + b"
    by (simp add: word_at_shift longest_end_def)
qed (use assms in \<open>simp add: word_at_shift longest_end_def\<close>)

lemma number_pos:
  assumes "digit_at s a is_ascii_digit" "number s a = (kind, e)"
  shows "a < e"
proof -
  have "word_at s a (a + 1) int_bodies"
    using assms(1) zero_word
    by (auto simp: int_body_cases word_digits_iff)
  moreover have "word_at s (a + 1) (a + 1) int_suffixes"
    using assms(1) by (simp add: int_suffixes_def word_at_opt digit_at_iff)
  ultimately have "word_at s a (a + 1) int_literals"
    by (auto simp: int_literals_def word_at_cat)
  then show ?thesis
    using number_longest [OF assms] by (force simp: longest_end_def word_at_Un)
qed

lemma number_determined:
  assumes n: "number s a = (kind, e)" "digit_at s a is_ascii_digit"
    and n': "number s' a' = (kind', e')" "digit_at s' a' is_ascii_digit"
    and longest: "longest_end s' a' (int_literals \<union> float_literals) (Some f)"
    and ints: "word_at s' a' f int_literals \<longleftrightarrow> word_at s a e int_literals"
  shows "kind' = kind \<and> e' = f"
proof -
  have "e' = f"
    using number_longest [OF n'(2,1)] longest by (blast intro: longest_end_unique)
  then show ?thesis
    using number_longest [OF n'(2,1)] number_longest [OF n(2,1)] ints by auto
qed

lemma self_contained_number:
  assumes i: "digit_at s i is_ascii_digit"
  shows "self_contained number s i"
proof -
  obtain k e where n: "number s i = (k, e)" by (cases "number s i")
  have long: "longest_end s i (int_literals \<union> float_literals) (Some e)"
    using number_longest [OF i n] by blast
  have ie: "i < e" using number_pos [OF i n] .
  show ?thesis
  proof (rule self_containedI)
    show "number s i = (k, e)" "i < e" by (fact n, fact ie)
    show "e \<le> length s" using long word_at_bounds by (auto simp: longest_end_def)
    show "number (take m s) i = (k, e)" if "e \<le> m" for m
    proof -
      obtain k' e' where n': "number (take m s) i = (k', e')" by (cases "number (take m s) i")
      have "digit_at (take m s) i is_ascii_digit" using i ie that by simp
      from number_determined [OF n i n' this longest_end_take [OF long that]] that
      show ?thesis using n' by (simp add: word_at_take)
    qed
    show "number (xs @ s) (length xs + i) = (k, length xs + e)" for xs
    proof -
      obtain k' e' where n': "number (xs @ s) (length xs + i) = (k', e')"
        by (cases "number (xs @ s) (length xs + i)")
      have "digit_at (xs @ s) (length xs + i) is_ascii_digit" using i by simp
      from number_determined [OF n i n' this longest_end_shift [OF long]]
      show ?thesis using n' by (simp add: word_at_shift)
    qed
  qed
qed

lemma self_contained_fraction:
  assumes "get s i = Some (ch CHR ''.'')" "digit_at s (i + 1) is_ascii_digit"
  shows "self_contained (\<lambda>s i. (k, fraction_float s i)) s i"
proof -
  have long: "longest_end s i fraction_floats (Some (fraction_float s i))"
    using fraction_float_longest [OF assms] .
  then have w: "word_at s i (fraction_float s i) fraction_floats" by (simp add: longest_end_def)
  then have ie: "i + 1 < fraction_float s i"
    by (auto simp: fraction_floats_def word_at_cat word_at_one word_digits_iff run_between_def
        dest!: word_at_bounds)
  show ?thesis
  proof (rule self_containedI [OF refl])
    show "i < fraction_float s i" using ie by simp
    show "fraction_float s i \<le> length s" using word_at_bounds [OF w] by simp
    show "(k, fraction_float (take m s) i) = (k, fraction_float s i)" if "fraction_float s i \<le> m" for m
    proof -
      have "get (take m s) i = Some (ch CHR ''.'')" "digit_at (take m s) (i + 1) is_ascii_digit"
        using assms ie that by simp_all
      from longest_end_unique [OF fraction_float_longest [OF this] longest_end_take [OF long that]]
      show ?thesis by simp
    qed
    show "(k, fraction_float (xs @ s) (length xs + i)) = (k, length xs + fraction_float s i)" for xs
    proof -
      have "get (xs @ s) (length xs + i) = Some (ch CHR ''.'')"
          "digit_at (xs @ s) (length xs + i + 1) is_ascii_digit"
        using assms by simp_all
      from longest_end_unique [OF fraction_float_longest [OF this] longest_end_shift [OF long]]
      show ?thesis by simp
    qed
  qed
qed

subsection \<open>Tokens\<close>

lemma find_literal_bounds:
  "find_literal needle s = Some i \<Longrightarrow> i + length needle \<le> length s"
proof (induction s arbitrary: i)
  case (Cons c s)
  then show ?case
    by (auto split: if_splits) (metis length_Cons length_take min_def nat_le_linear)
qed (auto split: if_splits)

lemma find_literal_take:
  "find_literal needle s = Some i \<Longrightarrow> i + length needle \<le> n \<Longrightarrow>
     find_literal needle (take n s) = Some i"
proof (induction s arbitrary: i n)
  case (Cons c s)
  show ?case
  proof (cases "take (length needle) (c # s) = needle")
    case True
    then have "i = 0" using Cons(2) by simp
    then have "take (length needle) (take n (c # s)) = needle"
      using Cons(3) True by (simp add: min_absorb1)
    then show ?thesis
      using \<open>i = 0\<close> True by (cases "take n (c # s)") auto
  next
    case False
    then obtain j where j: "i = Suc j" "find_literal needle s = Some j"
      using Cons(2) by auto
    then obtain m where m: "n = Suc m" using Cons(3) by (cases n) auto
    have "take (length needle) (take n (c # s)) \<noteq> needle"
    proof (cases "length needle \<le> n")
      case True
      then show ?thesis using False by (simp add: min_absorb1)
    next
      case False
      then show ?thesis using Cons(3) by linarith
    qed
    moreover have "find_literal needle (take m s) = Some j"
      using Cons(1) [OF j(2)] Cons(3) j m by simp
    ultimately show ?thesis using j m by simp
  qed
qed (auto split: if_splits)

lemma self_contained_block_comment:
  assumes "i + 1 < length s"
  shows "self_contained
    (\<lambda>s i. (k, case find_literal (codes ''*/'') (drop (i + 2) s) of
                 Some j \<Rightarrow> i + 2 + j + 2 | None \<Rightarrow> length s)) s i"
proof (cases "find_literal (codes ''*/'') (drop (i + 2) s)")
  case None
  with assms show ?thesis by (auto simp: self_contained_def)
next
  case (Some j)
  then have "i + 2 + j + 2 \<le> length s"
    using find_literal_bounds [OF Some] assms by simp
  moreover have "find_literal (codes ''*/'') (drop (i + 2) (take n s)) = Some j"
    if "i + 2 + j + 2 \<le> n" for n
    using find_literal_take [OF Some, of "n - (i + 2)"] that by (simp add: drop_take)
  ultimately show ?thesis using Some by (auto simp: self_contained_def)
qed

lemma self_contained_cong:
  assumes "self_contained f s i" "g s i = f s i"
    and "\<And>n. snd (f s i) \<le> n \<Longrightarrow> g (take n s) i = f (take n s) i"
    and "\<And>xs. g (xs @ s) (length xs + i) = f (xs @ s) (length xs + i)"
  shows "self_contained g s i"
  using assms by (simp add: self_contained_def)

lemma self_contained_slash:
  assumes i: "i < length s"
  shows "self_contained (\<lambda>s i. slash_token s (i + 1)) s i"
proof -
  consider "first s (i + 1) = Some (ch CHR ''/'')" | "first s (i + 1) = Some (ch CHR ''*'')"
    | "first s (i + 1) = Some (ch CHR ''='')"
    | "first s (i + 1) \<notin> Some ` {ch CHR ''/'', ch CHR ''*'', ch CHR ''=''}"
    by auto
  then show ?thesis
  proof cases
    case 1
    then have "i + 1 < length s" by (rule first_lt)
    then have "self_contained (\<lambda>s i. (Trivia LINE_COMMENT, eat_while s (i + 1) not_line_break)) s (i + 1)"
      by (rule self_contained_run)
    with 1 show ?thesis
      by (fastforce simp: self_contained_def slash_token_def dest: spec [where x = "_ :: nat list"])
  next
    case 2
    then have le: "i + 1 < length s" by (rule first_lt)
    from self_contained_block_comment [OF this] show ?thesis
      by (rule self_contained_cong) (use 2 le in \<open>auto simp: slash_token_def split: option.splits\<close>)
  qed (use i in \<open>auto simp: self_contained_def slash_token_def Suc_le_eq dest: first_lt\<close>)
qed

lemma self_contained_dot:
  assumes dot: "get s i = Some (ch CHR ''.'')"
  shows "self_contained dot_token s i"
proof -
  have i: "i < length s" using dot by (simp add: get_eq_Some)
  consider "get s (i + 1) = Some (ch CHR ''.'')" "get s (i + 2) = Some (ch CHR ''.'')"
    | "\<not> (get s (i + 1) = Some (ch CHR ''.'') \<and> get s (i + 2) = Some (ch CHR ''.''))"
      "digit_at s (i + 1) is_ascii_digit"
    | "\<not> (get s (i + 1) = Some (ch CHR ''.'') \<and> get s (i + 2) = Some (ch CHR ''.''))"
      "\<not> digit_at s (i + 1) is_ascii_digit"
    by blast
  then show ?thesis
  proof cases
    case 1
    then have "i + 3 \<le> length s" by (simp add: get_eq_Some)
    moreover have "get (xs @ s) (length xs + i + 2) = Some (ch CHR ''.'')" for xs
      using 1(2) get_shift [of xs s "i + 2"] by (simp add: add.assoc)
    ultimately show ?thesis using 1 by (auto simp: self_contained_def dot_token_def)
  next
    case 2
    have "get s (i + 1) \<noteq> Some (ch CHR ''.'')"
      using 2(2) by (auto simp: digit_at_iff get_eq_Some is_ascii_digit_def)
    moreover have "i + 1 < fraction_float s i"
      using fraction_float_longest [OF dot 2(2)]
      by (auto simp: longest_end_def fraction_floats_def word_at_cat word_at_one word_digits_iff
          run_between_def dest!: word_at_bounds)
    ultimately show ?thesis
      using self_contained_fraction [OF dot 2(2), of "Literal FLOAT_LITERAL"] 2(2)
      by (auto elim!: self_contained_cong simp: dot_token_def)
  next
    case 3
    have "\<not> (get (xs @ s) (length xs + i + 1) = Some (ch CHR ''.'') \<and>
        get (xs @ s) (length xs + i + 2) = Some (ch CHR ''.''))" for xs
      using 3(1) get_shift [of xs s "i + 2"] by (simp add: add.assoc)
    then show ?thesis using 3 i by (auto simp: self_contained_def dot_token_def)
  qed
qed

lemma self_contained_word:
  assumes "i < length s"
  shows "self_contained (word_token category) s i"
proof -
  have run: "self_contained (\<lambda>s i. ((), eat_while s (i + 1) (is_ident_continue category))) s i"
    using assms by (rule self_contained_run)
  then have "drop i (take n s) = take (n - i) (drop i s)" for n by (simp add: drop_take)
  then show ?thesis
    using run by (simp add: self_contained_def word_token_def Let_def)
qed

lemma self_contained_operator:
  assumes i: "i < length s" and op: "operator_token s c (i + 1) = Some r"
  shows "self_contained (\<lambda>s i. the (operator_token s c (i + 1))) s i"
proof -
  have "self_contained (\<lambda>s i. (Operator GT, i + 1)) s i"
    using i by (rule self_contained_one)
  then show ?thesis
    using op self_contained_munch [OF i] self_contained_less [OF i]
    by (simp add: operator_token_def del: munch.simps split: if_splits)
qed

lemma operator_token_defined:
  "operator_token s c i = None \<longleftrightarrow> operator_token s' c i' = None"
  by (simp add: operator_token_def)

lemma self_contained_symbol:
  assumes i: "i < length s"
  shows "self_contained (\<lambda>s i. case map_of delimiter_table c of
             Some kind \<Rightarrow> (Some kind, i + 1)
           | None \<Rightarrow>
               (case operator_token s c (i + 1) of
                  Some r \<Rightarrow> matched r
                | None \<Rightarrow> (None, i + 1))) s i"
proof (cases "map_of delimiter_table c")
  case (Some kind)
  then show ?thesis using self_contained_one [OF i] by simp
next
  case table: None
  show ?thesis
  proof (cases "operator_token s c (i + 1)")
    case None
    then have "operator_token s' c i' = None" for s' i' using operator_token_defined by blast
    then show ?thesis using table self_contained_one [OF i] by simp
  next
    case (Some r)
    then have op: "operator_token s' c i' = Some (the (operator_token s' c i'))" for s' i'
      using operator_token_defined [of s' c i' s "i + 1"] by simp
    show ?thesis
      unfolding table option.case
      by (subst op) (use self_contained_matched [OF self_contained_operator [OF i Some]] in simp)
  qed
qed

lemma self_contained_scan_from:
  assumes c: "first s i = Some c"
  shows "self_contained (\<lambda>s i. scan_from category s i c) s i"
proof -
  have i: "i < length s" using c by (rule first_lt)
  have get: "get s i = Some c" using c by (simp add: first_def)
  have digit: "digit_at s i is_ascii_digit" if "is_ascii_digit c"
    using get that by (simp add: digit_at_def)
  show ?thesis
    unfolding scan_from_def Let_def
    by (intro self_contained_if self_contained_run self_contained_one self_contained_optional
        self_contained_matched self_contained_slash self_contained_string self_contained_char
        self_contained_number self_contained_dot self_contained_word self_contained_symbol)
      (use i get digit in simp_all)
qed

lemma self_contained_token:
  assumes i: "i < length s"
  shows "self_contained (scan_token category) s i"
proof -
  obtain c where c: "first s i = Some c" using i by (auto simp: first_def get_def)
  from self_contained_scan_from [OF c, of category]
  show ?thesis
    by (rule self_contained_cong)
      (use c self_contained_scan_from [OF c, of category] in
        \<open>auto simp: scan_token_def self_contained_def\<close>)
qed

end
