(* ===== verification/Token_Stream.thy ===== *)
theory Token_Stream
  imports Lexer_Extent
begin

text \<open>
  The token iterator of \<open>jals-syntax/src/lexer.rs\<close>: \<open>Lexer::next\<close> scans one token at the cursor,
  classifies it by its text and reports the byte range it covers; the iterator ends with the
  source. A byte offset that does not fit \<open>TextSize\<close> makes \<open>expect\<close> panic. The lemmas compare the
  iterator with the plain division of the source into scanned spans, which never panics.
\<close>

subsection \<open>The iterator\<close>

record lexed_token =
  lt_kind :: syntax_kind
  lt_text :: source
  lt_start :: nat
  lt_fin :: nat

text \<open>\<open>TextSize::try_from(usize)\<close>: the offset as \<open>u32\<close>.\<close>

definition text_size :: "nat \<Rightarrow> nat option" where
  "text_size offset = (if offset < 2 ^ 32 then Some offset else None)"

datatype lexer_step = Finished | Panicked | Produced lexed_token nat

definition token_syntax :: "token_kind option \<Rightarrow> source \<Rightarrow> syntax_kind" where
  "token_syntax token spelling =
     (case token of Some kind \<Rightarrow> from_token kind spelling | None \<Rightarrow> ERROR)"

definition lexer_next :: "(nat \<Rightarrow> general_category) \<Rightarrow> source \<Rightarrow> nat \<Rightarrow> lexer_step" where
  "lexer_next category src pos =
     (if pos \<ge> length src then Finished
      else let (token, fin) = scan_token category src pos;
               spelling = take (fin - pos) (drop pos src)
           in case (text_size (byte_offset src pos), text_size (byte_offset src fin)) of
                (Some a, Some b) \<Rightarrow>
                  Produced \<lparr>lt_kind = token_syntax token spelling, lt_text = spelling,
                            lt_start = a, lt_fin = b\<rparr> fin
              | _ \<Rightarrow> Panicked)"

lemma scan_token_bounds:
  assumes "pos < length src" "scan_token category src pos = (token, fin)"
  shows "pos < fin" "fin \<le> length src"
  using self_contained_token [OF assms(1), of category] assms(2)
  by (simp_all add: self_contained_def)

lemma lexer_next_advances:
  "lexer_next category src pos = Produced t pos' \<Longrightarrow> pos < pos' \<and> pos' \<le> length src"
  using scan_token_bounds [of pos src category]
  by (auto simp: lexer_next_def Let_def split: if_splits prod.splits option.splits)

function lex_from :: "(nat \<Rightarrow> general_category) \<Rightarrow> source \<Rightarrow> nat \<Rightarrow> lexed_token list option" where
  "lex_from category src pos =
     (case lexer_next category src pos of
        Finished \<Rightarrow> Some []
      | Panicked \<Rightarrow> None
      | Produced t pos' \<Rightarrow> map_option ((#) t) (lex_from category src pos'))"
  by pat_completeness auto
termination
  by (relation "measure (\<lambda>(category, src, pos). length src - pos)")
    (auto dest!: lexer_next_advances)

declare lex_from.simps [simp del]

subsection \<open>Spans\<close>

text \<open>The division into tokens, as kinds and positions.\<close>

function spans_from :: "(nat \<Rightarrow> general_category) \<Rightarrow> source \<Rightarrow> nat \<Rightarrow>
    (token_kind option \<times> nat \<times> nat) list" where
  "spans_from category src pos =
     (if pos \<ge> length src then []
      else let (token, fin) = scan_token category src pos
           in (token, pos, fin) # spans_from category src fin)"
  by pat_completeness auto
termination
proof (relation "measure (\<lambda>(category, src, pos). length src - pos)", goal_cases)
  case (2 category src pos r token fin)
  then show ?case using scan_token_bounds [of pos src category token fin] by auto
qed simp

declare spans_from.simps [simp del]

definition span_token :: "source \<Rightarrow> token_kind option \<times> nat \<times> nat \<Rightarrow> lexed_token" where
  "span_token src sp =
     (case sp of (token, a, b) \<Rightarrow>
        \<lparr>lt_kind = token_syntax token (span src a b), lt_text = span src a b,
         lt_start = byte_offset src a, lt_fin = byte_offset src b\<rparr>)"

lemma spans_from_Nil: "length src \<le> pos \<Longrightarrow> spans_from category src pos = []"
  by (simp add: spans_from.simps)

lemma spans_from_Cons:
  "pos < length src \<Longrightarrow> scan_token category src pos = (token, fin) \<Longrightarrow>
     spans_from category src pos = (token, pos, fin) # spans_from category src fin"
  by (simp add: spans_from.simps [of category src pos])

text \<open>Neighbouring spans meet, from the start of the source to its end.\<close>

fun chained :: "nat \<Rightarrow> (token_kind option \<times> nat \<times> nat) list \<Rightarrow> nat \<Rightarrow> bool" where
  "chained a [] b \<longleftrightarrow> a = b"
| "chained a ((token, c, d) # sps) b \<longleftrightarrow> c = a \<and> a < d \<and> chained d sps b"

lemma spans_chained: "pos \<le> length src \<Longrightarrow> chained pos (spans_from category src pos) (length src)"
proof (induction category src pos rule: spans_from.induct)
  case (1 category src pos)
  show ?case
  proof (cases "pos < length src")
    case True
    obtain token fin where t: "scan_token category src pos = (token, fin)"
      by (cases "scan_token category src pos")
    from 1(1) [OF _ t [symmetric] refl] True scan_token_bounds [OF True t]
    show ?thesis by (simp add: spans_from_Cons [OF True t])
  qed (use 1 in \<open>simp add: spans_from_Nil\<close>)
qed

lemma chained_bounds:
  "chained a sps b \<Longrightarrow> (token, c, d) \<in> set sps \<Longrightarrow> a \<le> c \<and> c < d \<and> d \<le> b"
proof (induction a sps b rule: chained.induct)
  case (2 a token' c' d' sps b)
  have "a' \<le> b'" if "chained a' sps' b'" for a' b' sps'
    using that by (induction a' sps' b' rule: chained.induct) auto
  with 2 show ?case by fastforce
qed simp

lemma spans_scanned:
  "(token, a, b) \<in> set (spans_from category src pos) \<Longrightarrow>
     a < length src \<and> scan_token category src a = (token, b)"
proof (induction category src pos rule: spans_from.induct)
  case (1 category src pos)
  show ?case
  proof (cases "pos < length src")
    case True
    obtain token' fin where t: "scan_token category src pos = (token', fin)"
      by (cases "scan_token category src pos")
    from 1(1) [OF _ t [symmetric] refl] True 1(2) t
    show ?thesis by (auto simp: spans_from_Cons [OF True t])
  qed (use 1(2) in \<open>simp add: spans_from_Nil\<close>)
qed

subsection \<open>The iterator against the spans\<close>

lemma lex_from_spans:
  assumes "pos \<le> length src"
  shows "lex_from category src pos =
     (if pos = length src \<or> byte_len src < 2 ^ 32
      then Some (map (span_token src) (spans_from category src pos)) else None)"
  using assms
proof (induction category src pos rule: spans_from.induct)
  case (1 category src pos)
  show ?case
  proof (cases "pos < length src")
    case False
    then show ?thesis
      using 1(2) by (simp add: lex_from.simps lexer_next_def spans_from_Nil)
  next
    case True
    obtain token fin where t: "scan_token category src pos = (token, fin)"
      by (cases "scan_token category src pos")
    note b = scan_token_bounds [OF True t]
    have IH: "lex_from category src fin =
        (if fin = length src \<or> byte_len src < 2 ^ 32
         then Some (map (span_token src) (spans_from category src fin)) else None)"
      using 1(1) [OF _ t [symmetric] refl] True b by simp
    have le: "byte_offset src i \<le> byte_len src" for i
      using byte_offset_mono [of i "max i (length src)" src] by simp
    show ?thesis
    proof (cases "byte_len src < 2 ^ 32")
      case True
      then have "text_size (byte_offset src i) = Some (byte_offset src i)" for i
        using le [of i] by (simp add: text_size_def)
      with IH True \<open>pos < length src\<close> show ?thesis
        by (simp add: lex_from.simps [of category src pos] lexer_next_def t
            spans_from_Cons [OF \<open>pos < length src\<close> t] span_token_def span_def Let_def)
    next
      case False
      then have "fin = length src \<Longrightarrow> text_size (byte_offset src fin) = None"
        by (simp add: text_size_def)
      with IH False \<open>pos < length src\<close> show ?thesis
        by (auto simp: lex_from.simps [of category src pos] lexer_next_def t Let_def
            split: option.split)
    qed
  qed
qed

end
