(* ===== verification/Unicode_Escape.thy ===== *)
theory Unicode_Escape
  imports Token_Stream
begin

text \<open>
  The unicode escapes of \<open>jals-syntax/src/unicode_escape.rs\<close> (JLS 3.3): the single pass that
  replaces every eligible escape by the character it names, and the sparse map from byte offsets
  of the translated text back to the source. The pass is compared with the division of a source
  into pieces, one per translated character: the translated text is the characters of the pieces,
  and the map answers as the sum of the pieces' widths.
\<close>

subsection \<open>Escapes\<close>

fun hex_unit :: "nat \<Rightarrow> source \<Rightarrow> nat option" where
  "hex_unit unit [] = Some unit"
| "hex_unit unit (digit # rest) =
     (case to_digit_16 digit of
        None \<Rightarrow> None
      | Some value \<Rightarrow>
          if unit * 16 < 2 ^ 16 \<and> unit * 16 + value < 2 ^ 16 then hex_unit (unit * 16 + value) rest
          else None)"

definition escape_unit :: "source \<Rightarrow> nat \<Rightarrow> (nat \<times> nat) option" where
  "escape_unit bytes at =
     (if get bytes at \<noteq> Some backslash then None
      else let cursor = eat_while bytes (at + 1) (\<lambda>c. c = ch CHR ''u'') in
           if cursor = at + 1 then None
           else if cursor + 4 \<le> length bytes then
             map_option (\<lambda>unit. (unit, cursor + 4 - at)) (hex_unit 0 (take 4 (drop cursor bytes)))
           else None)"

definition escape_at :: "source \<Rightarrow> nat \<Rightarrow> (nat \<times> nat) option" where
  "escape_at src at =
     (case escape_unit src at of
        None \<Rightarrow> None
      | Some (unit, width) \<Rightarrow>
          if 0xD800 \<le> unit \<and> unit < 0xDC00 then
            (case escape_unit src (at + width) of
               Some (low, low_width) \<Rightarrow>
                 if 0xDC00 \<le> low \<and> low < 0xE000 then
                   map_option (\<lambda>c. (c, width + low_width))
                     (char_from_u32 (0x10000 + (unit - 0xD800) * 2 ^ 10 + (low - 0xDC00)))
                 else None
             | None \<Rightarrow> None)
          else map_option (\<lambda>c. (c, width)) (char_from_u32 unit))"

lemma escape_unit_width:
  "escape_unit src at = Some (unit, width) \<Longrightarrow> 6 \<le> width \<and> at + width \<le> length src"
  using eat_while_ge [of "at + 1" src "\<lambda>c. c = ch CHR ''u''"]
  by (auto simp: escape_unit_def Let_def split: if_splits)

lemma escape_at_width:
  "escape_at src at = Some (c, width) \<Longrightarrow> 6 \<le> width \<and> at + width \<le> length src"
  by (auto simp: escape_at_def dest!: escape_unit_width split: option.splits prod.splits if_splits)

subsection \<open>The translation\<close>

record translation =
  tr_text :: source
  tr_runs :: "(nat \<times> nat) list"

function translate_from :: "source \<Rightarrow> nat \<Rightarrow> bool \<Rightarrow> (source \<times> (nat \<times> nat) list) option \<Rightarrow>
    (source \<times> (nat \<times> nat) list) option" where
  "translate_from src at run_even built =
     (if at < length src then
        case (if run_even \<and> src ! at = backslash then escape_at src at else None) of
          Some (decoded, width) \<Rightarrow>
            let (written, runs) = (case built of Some b \<Rightarrow> b | None \<Rightarrow> (take at src, []));
                written' = written @ [decoded]
            in translate_from src (at + width) True
                 (Some (written', runs @ [(byte_len written', byte_offset src (at + width))]))
        | None \<Rightarrow>
            translate_from src (at + 1) (src ! at \<noteq> backslash \<or> \<not> run_even)
              (map_option (\<lambda>(written, runs). (written @ [src ! at], runs)) built)
      else built)"
  by pat_completeness auto
termination
  by (relation "measure (\<lambda>(src, at, _, _). length src - at)")
    (auto dest!: escape_at_width split: if_splits)

declare translate_from.simps [simp del]

definition translation_of :: "source \<Rightarrow> translation option" where
  "translation_of src =
     map_option (\<lambda>(written, runs). \<lparr>tr_text = written, tr_runs = runs\<rparr>)
       (translate_from src 0 True None)"

text \<open>
  \<open>partition_point\<close>: the number of runs at the front that begin at or before the offset. The
  code finds it by bisection, which answers this on the increasing runs it is called with.
\<close>

definition partition_point :: "('a \<Rightarrow> bool) \<Rightarrow> 'a list \<Rightarrow> nat" where
  "partition_point p xs = length (takeWhile p xs)"

definition origin :: "translation \<Rightarrow> nat \<Rightarrow> nat" where
  "origin tr translated_offset =
     (let partition = partition_point (\<lambda>(start, _). start \<le> translated_offset) (tr_runs tr);
          (translated_start, original_start) =
            (if partition = 0 then (0, 0) else tr_runs tr ! (partition - 1))
      in original_start + (translated_offset - translated_start))"

text \<open>\<open>api::decode\<close>: a token's text as the language reads it.\<close>

definition decode :: "source \<Rightarrow> source" where
  "decode spelling =
     (case translation_of spelling of Some translated \<Rightarrow> tr_text translated | None \<Rightarrow> spelling)"

subsection \<open>Pieces\<close>

text \<open>
  What one translated character stands for: itself, or an escape of a number of characters. The
  flag says whether an even number of backslashes stands directly in front.
\<close>

datatype piece = Verbatim nat | Escaped nat nat

fun piece_char :: "piece \<Rightarrow> nat" where
  "piece_char (Verbatim c) = c"
| "piece_char (Escaped c width) = c"

fun piece_width :: "piece \<Rightarrow> nat" where
  "piece_width (Verbatim c) = 1"
| "piece_width (Escaped c width) = width"

fun piece_bytes :: "piece \<Rightarrow> nat" where
  "piece_bytes (Verbatim c) = len_utf8 c"
| "piece_bytes (Escaped c width) = width"

fun is_escaped :: "piece \<Rightarrow> bool" where
  "is_escaped (Verbatim c) = False"
| "is_escaped (Escaped c width) = True"

function pieces :: "bool \<Rightarrow> source \<Rightarrow> piece list" where
  "pieces run_even [] = []"
| "pieces run_even (c # cs) =
     (case (if run_even \<and> c = backslash then escape_at (c # cs) 0 else None) of
        Some (decoded, width) \<Rightarrow> Escaped decoded width # pieces True (drop width (c # cs))
      | None \<Rightarrow> Verbatim c # pieces (c \<noteq> backslash \<or> \<not> run_even) cs)"
  by pat_completeness auto
termination
  by (relation "measure (\<lambda>(_, cs). length cs)") (auto dest!: escape_at_width split: if_splits)

declare pieces.simps(2) [simp del]

abbreviation width_of :: "piece list \<Rightarrow> nat" where
  "width_of ps \<equiv> sum_list (map piece_width ps)"

abbreviation bytes_of :: "piece list \<Rightarrow> nat" where
  "bytes_of ps \<equiv> sum_list (map piece_bytes ps)"

lemma pieces_verbatim:
  "(if run_even \<and> c = backslash then escape_at (c # cs) 0 else None) = None \<Longrightarrow>
     pieces run_even (c # cs) = Verbatim c # pieces (c \<noteq> backslash \<or> \<not> run_even) cs"
  by (subst pieces.simps) (simp only: option.case)

lemma pieces_escaped:
  "(if run_even \<and> c = backslash then escape_at (c # cs) 0 else None) = Some (d, w) \<Longrightarrow>
     pieces run_even (c # cs) = Escaped d w # pieces True (drop w (c # cs))"
  by (subst pieces.simps) (simp only: option.case prod.case)

text \<open>One step of the division, in the three ways it can go.\<close>

lemma pieces_cases [consumes 1, case_names verbatim escaped]:
  assumes "s \<noteq> []"
  obtains c cs where "s = c # cs" "\<not> (run_even \<and> c = backslash \<and> escape_at s 0 \<noteq> None)"
      "pieces run_even s = Verbatim c # pieces (c \<noteq> backslash \<or> \<not> run_even) cs"
    | d w where "run_even" "escape_at s 0 = Some (d, w)" "hd s = backslash" "6 \<le> w" "w \<le> length s"
      "pieces run_even s = Escaped d w # pieces True (drop w s)"
proof -
  obtain c cs where s: "s = c # cs" using assms by (cases s) auto
  show thesis
  proof (cases "if run_even \<and> c = backslash then escape_at s 0 else None")
    case None
    from pieces_verbatim [OF this [unfolded s]] None show thesis
      by (intro that(1) [OF s]) (auto simp: s split: if_splits)
  next
    case (Some r)
    then obtain d w where r: "r = (d, w)" by (cases r)
    from pieces_escaped [OF Some [unfolded s r]] Some escape_at_width [of s 0 d w] show thesis
      by (intro that(2)) (auto simp: s r split: if_splits)
  qed
qed

lemma pieces_width: "width_of (pieces run_even s) = length s"
proof (induction "length s" arbitrary: run_even s rule: less_induct)
  case less
  show ?case
  proof (cases "s = []")
    case False
    then show ?thesis
    proof (cases rule: pieces_cases [where run_even = run_even])
      case (verbatim c cs)
      then show ?thesis using less [of cs] by simp
    next
      case (escaped d w)
      then show ?thesis using less [of "drop w s" True] False by simp
    qed
  qed simp
qed

subsection \<open>The pass against the pieces\<close>

text \<open>The runs the pass records, from a translated and an original byte offset on.\<close>

fun runs_of :: "nat \<Rightarrow> nat \<Rightarrow> piece list \<Rightarrow> (nat \<times> nat) list" where
  "runs_of t b [] = []"
| "runs_of t b (Verbatim c # ps) = runs_of (t + len_utf8 c) (b + len_utf8 c) ps"
| "runs_of t b (Escaped c w # ps) =
     (t + len_utf8 c, b + w) # runs_of (t + len_utf8 c) (b + w) ps"

definition no_escapes :: "piece list \<Rightarrow> bool" where
  "no_escapes ps \<longleftrightarrow> (\<forall>p \<in> set ps. \<not> is_escaped p)"

lemma no_escapes_simps [simp]:
  "no_escapes []" "no_escapes (Verbatim c # ps) = no_escapes ps"
  "\<not> no_escapes (Escaped c w # ps)"
  by (simp_all add: no_escapes_def)

text \<open>An escape is ASCII, so its characters count its bytes.\<close>

lemma eat_while_between: "i \<le> j \<Longrightarrow> j < eat_while s i p \<Longrightarrow> p (s ! j)"
proof (induction s i p rule: eat_while.induct)
  case (1 s i p)
  show ?case
  proof (cases "\<exists>c. first s i = Some c \<and> p c")
    case True
    then obtain c where c: "first s i = Some c" "p c" by blast
    then have "eat_while s i p = eat_while s (i + 1) p" by (subst eat_while.simps) simp
    with 1 c show ?thesis
      by (cases "i = j") (auto simp: first_def get_eq_Some)
  next
    case False
    then have "eat_while s i p = i" by (subst eat_while.simps) (auto split: option.split)
    with 1 show ?thesis by simp
  qed
qed

lemma to_digit_16_ascii: "to_digit_16 c = Some v \<Longrightarrow> c < 0x80"
  by (simp add: to_digit_16_def is_ascii_digit_def split: if_splits)

lemma hex_unit_ascii: "hex_unit u ds = Some v \<Longrightarrow> c \<in> set ds \<Longrightarrow> c < 0x80"
  by (induction u ds rule: hex_unit.induct)
    (auto split: option.splits if_splits dest: to_digit_16_ascii)

lemma escape_unit_ascii:
  assumes e: "escape_unit s i = Some (u, w)" and j: "i \<le> j" "j < i + w"
  shows "s ! j < 0x80"
proof -
  let ?c = "eat_while s (i + 1) (\<lambda>c. c = ch CHR ''u'')"
  have c: "get s i = Some backslash" "?c + 4 \<le> length s" "w = ?c + 4 - i"
      "hex_unit 0 (take 4 (drop ?c s)) = Some u"
    using e by (auto simp: escape_unit_def Let_def split: if_splits)
  have "i + 1 \<le> ?c" by (rule eat_while_ge)
  with j c(3) consider "j = i" | "i + 1 \<le> j" "j < ?c" | "?c \<le> j" "j < ?c + 4" by linarith
  then show ?thesis
  proof cases
    case 2
    then show ?thesis using eat_while_between [OF 2] by simp
  next
    case 3
    then have "s ! j = take 4 (drop ?c s) ! (j - ?c)" "j - ?c < length (take 4 (drop ?c s))"
      using c(2) by simp_all
    then have "s ! j \<in> set (take 4 (drop ?c s))" by (metis nth_mem)
    then show ?thesis by (rule hex_unit_ascii [OF c(4)])
  qed (use c(1) in \<open>simp add: get_eq_Some\<close>)
qed

lemma escape_at_ascii:
  assumes e: "escape_at s i = Some (d, w)" and j: "i \<le> j" "j < i + w"
  shows "s ! j < 0x80"
proof -
  obtain u v where u: "escape_unit s i = Some (u, v)"
      "w = v \<or> (\<exists>l lw. escape_unit s (i + v) = Some (l, lw) \<and> w = v + lw)"
    using e by (auto simp: escape_at_def split: option.splits prod.splits if_splits)
  show ?thesis
  proof (cases "j < i + v")
    case True
    then show ?thesis using escape_unit_ascii [OF u(1) j(1)] by simp
  next
    case False
    then obtain l lw where "escape_unit s (i + v) = Some (l, lw)" "w = v + lw"
      using u(2) j by auto
    then show ?thesis using escape_unit_ascii [of s "i + v" l lw j] False j by simp
  qed
qed

lemma byte_len_ascii: "\<forall>c \<in> set s. c < 0x80 \<Longrightarrow> byte_len s = length s"
  by (induction s) (auto simp: len_utf8_def)

lemma escape_at_bytes:
  assumes "escape_at s i = Some (d, w)"
  shows "byte_offset s (i + w) = byte_offset s i + w"
proof -
  have le: "i + w \<le> length s" using escape_at_width [OF assms] by simp
  have "c < 0x80" if "c \<in> set (take w (drop i s))" for c
  proof -
    obtain k where "k < w" "c = s ! (i + k)"
      using \<open>c \<in> _\<close> le by (auto simp: in_set_conv_nth)
    then show ?thesis using escape_at_ascii [OF assms, of "i + k"] by simp
  qed
  then have "byte_len (take w (drop i s)) = w"
    using byte_len_ascii [of "take w (drop i s)"] le by simp
  then show ?thesis using byte_offset_split [of i "i + w" s] by simp
qed

text \<open>An escape is read from its own start.\<close>

lemma escape_unit_shift: "escape_unit (xs @ s) (length xs + i) = escape_unit s i"
  using eat_while_shift [of xs s "i + 1" "\<lambda>c. c = ch CHR ''u''"]
  by (auto simp: escape_unit_def Let_def add.assoc)

lemma escape_at_shift: "escape_at (xs @ s) (length xs + i) = escape_at s i"
  by (simp only: escape_at_def add.assoc escape_unit_shift)

lemma escape_at_drop: "i \<le> length s \<Longrightarrow> escape_at (drop i s) 0 = escape_at s i"
  using escape_at_shift [of "take i s" "drop i s" 0] by simp

definition translation_start :: "source \<Rightarrow> nat \<Rightarrow> (source \<times> (nat \<times> nat) list) option \<Rightarrow>
    source \<times> (nat \<times> nat) list" where
  "translation_start src at built = (case built of Some b \<Rightarrow> b | None \<Rightarrow> (take at src, []))"

text \<open>The first piece of a suffix, from what the pass finds at its start.\<close>

lemma pieces_at:
  assumes at: "at < length src"
    and found: "(if run_even \<and> src ! at = backslash then escape_at src at else None) = r"
  shows "pieces run_even (drop at src) =
    (case r of
       None \<Rightarrow> Verbatim (src ! at) # pieces (src ! at \<noteq> backslash \<or> \<not> run_even) (drop (at + 1) src)
     | Some (c, w) \<Rightarrow> Escaped c w # pieces True (drop (at + w) src))"
proof -
  have d: "drop at src = src ! at # drop (at + 1) src" using at by (simp add: Cons_nth_drop_Suc)
  have "escape_at (src ! at # drop (at + 1) src) 0 = escape_at src at"
    using escape_at_drop [of at src] at d by simp
  then have esc: "(if run_even \<and> src ! at = backslash
      then escape_at (src ! at # drop (at + 1) src) 0 else None) = r"
    using found by (simp only:)
  show ?thesis
  proof (cases r)
    case None
    with pieces_verbatim [OF esc [unfolded None]] show ?thesis by (simp add: d)
  next
    case (Some cw)
    obtain c w where cw: "cw = (c, w)" by (cases cw)
    have "drop (at + w) src = drop w (src ! at # drop (at + 1) src)"
      using d by (metis add.commute drop_drop)
    with pieces_escaped [OF esc [unfolded Some cw]] show ?thesis by (simp add: d Some cw)
  qed
qed

lemma translate_from_pieces:
  assumes "at \<le> length src"
  shows "translate_from src at run_even built =
    (let ps = pieces run_even (drop at src); (t, rs) = translation_start src at built
     in if built = None \<and> no_escapes ps then None
        else Some (t @ map piece_char ps, rs @ runs_of (byte_len t) (byte_offset src at) ps))"
  using assms
proof (induction src at run_even built rule: translate_from.induct)
  case (1 src at run_even built)
  obtain t rs where start: "translation_start src at built = (t, rs)"
    by (cases "translation_start src at built")
  consider "\<not> at < length src"
    | "at < length src" "(if run_even \<and> src ! at = backslash then escape_at src at else None) = None"
    | c w where "at < length src"
      "(if run_even \<and> src ! at = backslash then escape_at src at else None) = Some (c, w)"
    by (metis not_None_eq surj_pair)
  then show ?case
  proof cases
    case 1
    then show ?thesis
      using \<open>at \<le> length src\<close>
      by (cases built) (auto simp: translate_from.simps translation_start_def)
  next
    case 2
    let ?even = "src ! at \<noteq> backslash \<or> \<not> run_even"
    let ?built = "map_option (\<lambda>(t, rs). (t @ [src ! at], rs)) built"
    have "translate_from src at run_even built = translate_from src (at + 1) ?even ?built"
      using 2 by (subst translate_from.simps) simp
    moreover have "translation_start src (at + 1) ?built = (t @ [src ! at], rs)"
      using start 2(1)
      by (cases built) (auto simp: translation_start_def take_Suc_conv_app_nth)
    moreover have "byte_offset src (at + 1) = byte_offset src at + len_utf8 (src ! at)"
      using 2(1) by (simp add: byte_offset_def take_Suc_conv_app_nth)
    ultimately show ?thesis
      using 1(1) [OF 2] start pieces_at [OF 2] 2(1) by (simp add: Let_def)
  next
    case 3
    have e: "escape_at src at = Some (c, w)" using 3(2) by (auto split: if_splits)
    have "translate_from src at run_even built =
        translate_from src (at + w) True
          (Some (t @ [c], rs @ [(byte_len (t @ [c]), byte_offset src (at + w))]))"
      using 3 start by (subst translate_from.simps) (simp add: translation_start_def Let_def)
    then show ?thesis
      using 1(2) [OF 3 refl refl start [symmetric, unfolded translation_start_def] refl] start
        pieces_at [OF 3] escape_at_bytes [OF e] escape_at_width [OF e]
      by (simp add: translation_start_def Let_def)
  qed
qed

lemma no_escapes_verbatim: "no_escapes ps \<Longrightarrow> ps = map (Verbatim \<circ> piece_char) ps"
proof (induction ps)
  case (Cons p ps)
  then show ?case by (cases p) simp_all
qed simp

text \<open>The translation in terms of the pieces.\<close>

abbreviation source_pieces :: "source \<Rightarrow> piece list" where
  "source_pieces src \<equiv> pieces True src"

lemma translation_pieces:
  "translation_of src =
     (if no_escapes (source_pieces src) then None
      else Some \<lparr>tr_text = map piece_char (source_pieces src), tr_runs = runs_of 0 0 (source_pieces src)\<rparr>)"
  by (simp add: translation_of_def translate_from_pieces translation_start_def Let_def)

lemma chars_of_verbatim:
  assumes "no_escapes (pieces run_even s)"
  shows "map piece_char (pieces run_even s) = s"
  using assms
proof (induction s arbitrary: run_even)
  case (Cons c cs)
  have "c # cs \<noteq> []" by simp
  then show ?case
  proof (cases rule: pieces_cases [where run_even = run_even])
    case (verbatim c' cs')
    then show ?thesis using Cons by simp
  next
    case (escaped d w)
    then show ?thesis using Cons(2) by simp
  qed
qed simp

lemma decode_pieces: "decode src = map piece_char (source_pieces src)"
  by (simp add: decode_def translation_pieces chars_of_verbatim)

subsection \<open>The map back to the source\<close>

lemma bytes_of_pieces:
  "n \<le> length (pieces run_even s) \<Longrightarrow>
     bytes_of (take n (pieces run_even s)) = byte_offset s (width_of (take n (pieces run_even s)))"
proof (induction "length s" arbitrary: run_even s n rule: less_induct)
  case less
  show ?case
  proof (cases "s = [] \<or> n = 0")
    case False
    then obtain m where n: "n = Suc m" by (cases n) auto
    from False have "s \<noteq> []" by simp
    then show ?thesis
    proof (cases rule: pieces_cases [where run_even = run_even])
      case (verbatim c cs)
      then show ?thesis using less(1) [of cs m] less(2) n by (simp add: byte_offset_def)
    next
      case (escaped d w)
      have "byte_offset s (w + k) = w + byte_offset (drop w s) k" for k
        using escape_at_bytes [OF escaped(2)] byte_offset_split [of w "w + k" s]
        by (simp add: byte_offset_def)
      then show ?thesis
        using escaped less(1) [of "drop w s" m True] less(2) n \<open>s \<noteq> []\<close> by simp
    qed
  qed auto
qed

definition origin_from :: "nat \<times> nat \<Rightarrow> (nat \<times> nat) list \<Rightarrow> nat \<Rightarrow> nat" where
  "origin_from base runs offset =
     (let (s, b) = last (base # takeWhile (\<lambda>(start, _). start \<le> offset) runs)
      in b + (offset - s))"

lemma origin_last: "origin tr offset = origin_from (0, 0) (tr_runs tr) offset"
proof -
  let ?t = "takeWhile (\<lambda>(start, _). start \<le> offset) (tr_runs tr)"
  have "last ?t = tr_runs tr ! (length ?t - 1)" if "?t \<noteq> []"
    using that by (simp add: last_conv_nth takeWhile_nth)
  then show ?thesis
    by (auto simp: origin_def origin_from_def partition_point_def Let_def)
qed

text \<open>Runs lie behind the point they are recorded from, in increasing order.\<close>

lemma runs_of_greater: "(x, y) \<in> set (runs_of t b ps) \<Longrightarrow> t < x"
proof (induction t b ps rule: runs_of.induct)
  case (2 t b c ps)
  then show ?case using len_utf8_pos [of c] by fastforce
next
  case (3 t b c w ps)
  then show ?case using len_utf8_pos [of c] by fastforce
qed simp

lemma runs_increasing: "sorted_wrt (<) (map fst (runs_of t b ps))"
  by (induction t b ps rule: runs_of.induct) (auto dest: runs_of_greater)

lemma origin_from_none:
  assumes "\<And>x y. (x, y) \<in> set runs \<Longrightarrow> offset < x"
  shows "origin_from (s, b) runs offset = b + (offset - s)"
proof -
  have "takeWhile (\<lambda>(start, _). start \<le> offset) runs = []"
    using assms by (cases runs) (auto dest: leD)
  then show ?thesis by (simp add: origin_from_def)
qed

lemma origin_from_runs:
  assumes "s \<le> t" "b = base + (t - s)" "n \<le> length ps"
  shows "origin_from (s, base) (runs_of t b ps) (t + byte_len (map piece_char (take n ps))) =
    b + bytes_of (take n ps)"
  using assms
proof (induction t b ps arbitrary: s base n rule: runs_of.induct)
  case (1 t b)
  then show ?case by (simp add: origin_from_def)
next
  case (2 t b c ps)
  show ?case
  proof (cases n)
    case 0
    then show ?thesis using 2 runs_of_greater
      by (subst origin_from_none) fastforce+
  next
    case (Suc m)
    then show ?thesis using 2(1) [of s base m] 2(2-4) by (simp add: add.assoc)
  qed
next
  case (3 t b c w ps)
  show ?case
  proof (cases n)
    case 0
    then show ?thesis
      using 3 runs_of_greater [of _ _ t b "Escaped c w # ps"]
      by (subst origin_from_none) auto
  next
    case (Suc m)
    have "origin_from (s, base) (runs_of t b (Escaped c w # ps)) off =
        origin_from (t + len_utf8 c, b + w) (runs_of (t + len_utf8 c) (b + w) ps) off"
      if "t + len_utf8 c \<le> off" for off
      using that by (simp add: origin_from_def)
    then show ?thesis
      using Suc 3(1) [of "t + len_utf8 c" "b + w" m] 3(2-4) by (simp add: add.assoc)
  qed
qed

lemma origin_pieces:
  assumes "translation_of src = Some tr" "n \<le> length (tr_text tr)"
  shows "origin tr (byte_offset (tr_text tr) n) =
    byte_offset src (width_of (take n (source_pieces src)))"
proof -
  have tr: "tr_text tr = map piece_char (source_pieces src)" "tr_runs tr = runs_of 0 0 (source_pieces src)"
    using assms(1) by (auto simp: translation_pieces split: if_splits)
  then have n: "n \<le> length (source_pieces src)" using assms(2) by simp
  then have "origin tr (byte_offset (tr_text tr) n) = bytes_of (take n (source_pieces src))"
    using origin_from_runs [of 0 0 0 0 n "source_pieces src"] tr
    by (simp add: origin_last byte_offset_def take_map)
  then show ?thesis using bytes_of_pieces [OF n] by simp
qed

end
