(* ===== verification/Tokenize.thy ===== *)
theory Tokenize
  imports Unicode_Escape
begin

text \<open>
  \<open>Lexer::tokenize\<close> of \<open>jals-syntax/src/lexer.rs\<close>: the unicode escapes are translated, the
  translated text is divided into tokens, and every token is cut out of the source again at the
  offsets its ends came from. The scheduler the function yields to does not see its data and is
  left out. The lemmas show that this never panics on a source \<open>TextSize\<close> can measure, that the
  tokens tile the source, and that a token can be decoded and lexed again on its own.
\<close>

subsection \<open>Cutting tokens out of the source\<close>

definition recut :: "source \<Rightarrow> translation \<Rightarrow> lexed_token \<Rightarrow> lexed_token option" where
  "recut src tr token =
     (let start = origin tr (lt_start token); fin = origin tr (lt_fin token)
      in case (byte_slice src start fin, text_size start, text_size fin) of
           (Some spelling, Some a, Some b) \<Rightarrow>
             Some \<lparr>lt_kind = lt_kind token, lt_text = spelling, lt_start = a, lt_fin = b\<rparr>
         | _ \<Rightarrow> None)"

definition tokenize :: "(nat \<Rightarrow> general_category) \<Rightarrow> source \<Rightarrow> lexed_token list option" where
  "tokenize category src =
     (case translation_of src of
        None \<Rightarrow> lex_from category src 0
      | Some tr \<Rightarrow>
          (case lex_from category (tr_text tr) 0 of
             None \<Rightarrow> None
           | Some tokens \<Rightarrow> those (map (recut src tr) tokens)))"

subsection \<open>Tokens by pieces\<close>

definition source_pos :: "source \<Rightarrow> nat \<Rightarrow> nat" where
  "source_pos src i = width_of (take i (source_pieces src))"

definition source_token :: "source \<Rightarrow> token_kind option \<times> nat \<times> nat \<Rightarrow> lexed_token" where
  "source_token src sp =
     (case sp of (token, a, b) \<Rightarrow>
        \<lparr>lt_kind = token_syntax token (span (decode src) a b),
         lt_text = span src (source_pos src a) (source_pos src b),
         lt_start = byte_offset src (source_pos src a),
         lt_fin = byte_offset src (source_pos src b)\<rparr>)"

lemma source_pos_0 [simp]: "source_pos src 0 = 0"
  by (simp add: source_pos_def)

lemma source_pos_mono: "i \<le> j \<Longrightarrow> source_pos src i \<le> source_pos src j"
  by (metis le_add1 le_add_diff_inverse map_append source_pos_def sum_list_append take_add)

lemma source_pos_all: "length (decode src) \<le> i \<Longrightarrow> source_pos src i = length src"
  by (simp add: source_pos_def decode_pieces pieces_width)

lemma source_pos_le: "source_pos src i \<le> length src"
  using source_pos_mono [of i "max i (length (decode src))" src]
    source_pos_all [of src "max i (length (decode src))"] by simp

lemma source_pos_verbatim:
  assumes "no_escapes (source_pieces src)" "i \<le> length src"
  shows "source_pos src i = i"
proof -
  have "take i (source_pieces src) = map (Verbatim \<circ> piece_char) (take i (source_pieces src))"
    using no_escapes_verbatim [OF assms(1)] by (metis take_map)
  moreover have "width_of (map (Verbatim \<circ> piece_char) ps) = length ps" for ps
    by (induction ps) auto
  moreover have "length (source_pieces src) = length src"
    using chars_of_verbatim [OF assms(1)] by (metis length_map)
  ultimately show ?thesis using assms(2) by (metis length_take min.absorb2 source_pos_def)
qed

lemma piece_fits: "p \<in> set (pieces run_even s) \<Longrightarrow> len_utf8 (piece_char p) \<le> piece_bytes p \<and> 0 < piece_width p"
proof (induction "length s" arbitrary: run_even s rule: less_induct)
  case less
  then have "s \<noteq> []" by auto
  then show ?case
  proof (cases rule: pieces_cases [where run_even = run_even])
    case (verbatim c cs)
    then show ?thesis using less(1) [of cs] less(2) by auto
  next
    case (escaped d w)
    then show ?thesis
      using less(1) [of "drop w s" True] less(2) \<open>s \<noteq> []\<close> by (auto simp: len_utf8_def)
  qed
qed

lemma decode_shorter: "byte_len (decode src) \<le> byte_len src"
proof -
  have "byte_len (decode src) \<le> bytes_of (source_pieces src)"
    using piece_fits [of _ True src]
    by (auto simp: decode_pieces byte_len_def comp_def intro!: sum_list_mono)
  also have "\<dots> = byte_len src"
    using bytes_of_pieces [of "length (source_pieces src)" True src] by (simp add: pieces_width)
  finally show ?thesis .
qed

lemma source_pos_strict:
  assumes "i < j" "j \<le> length (decode src)"
  shows "source_pos src i < source_pos src j"
proof -
  let ?ps = "source_pieces src"
  have i: "i < length ?ps" using assms by (simp add: decode_pieces)
  then have "source_pos src (Suc i) = source_pos src i + piece_width (?ps ! i)"
    by (simp add: source_pos_def take_Suc_conv_app_nth)
  moreover have "0 < piece_width (?ps ! i)" using piece_fits [of "?ps ! i" True src] i by simp
  moreover have "source_pos src (Suc i) \<le> source_pos src j"
    using assms(1) by (intro source_pos_mono) simp
  ultimately show ?thesis by linarith
qed

subsection \<open>The tokens of a source\<close>

abbreviation token_spans :: "(nat \<Rightarrow> general_category) \<Rightarrow> source \<Rightarrow>
    (token_kind option \<times> nat \<times> nat) list" where
  "token_spans category src \<equiv> spans_from category (decode src) 0"

lemma token_span_bounds:
  assumes "(token, a, b) \<in> set (token_spans category src)"
  shows "a < b" "b \<le> length (decode src)"
  using chained_bounds [OF spans_chained assms] by simp_all

lemma byte_offset_le: "byte_offset s i \<le> byte_len s"
  using byte_offset_mono [of i "max i (length s)" s] by simp

lemma recut_span:
  assumes tr: "translation_of src = Some tr" and sp: "(token, a, b) \<in> set (token_spans category src)"
  shows "recut src tr (span_token (tr_text tr) (token, a, b)) =
    (if byte_offset src (source_pos src b) < 2 ^ 32 then Some (source_token src (token, a, b))
     else None)"
proof -
  have written: "tr_text tr = decode src" using tr by (simp add: decode_def)
  note ab = token_span_bounds [OF sp]
  have orig: "origin tr (byte_offset (decode src) i) = byte_offset src (source_pos src i)"
    if "i \<le> b" for i
    using origin_pieces [OF tr, of i] that ab written by (simp add: source_pos_def)
  have "source_pos src a \<le> source_pos src b" using ab by (intro source_pos_mono) simp
  then have "byte_slice src (byte_offset src (source_pos src a)) (byte_offset src (source_pos src b)) =
      Some (span src (source_pos src a) (source_pos src b))"
    using byte_slice_byte_offset [of "source_pos src a" "source_pos src b" src] source_pos_le
    by (simp add: span_def)
  moreover have "byte_offset src (source_pos src a) \<le> byte_offset src (source_pos src b)"
    using \<open>source_pos src a \<le> _\<close> by (rule byte_offset_mono)
  ultimately show ?thesis
    using ab orig [of a] orig [of b]
    by (auto simp: recut_def span_token_def source_token_def written text_size_def Let_def)
qed

lemma those_map_Some: "(\<And>x. x \<in> set xs \<Longrightarrow> f x = Some (g x)) \<Longrightarrow> those (map f xs) = Some (map g xs)"
  by (induction xs) auto

lemma those_None: "x \<in> set xs \<Longrightarrow> f x = None \<Longrightarrow> those (map f xs) = None"
  by (induction xs) (auto split: option.split)

lemma chained_last: "chained a sps b \<Longrightarrow> a \<noteq> b \<Longrightarrow> \<exists>token c. (token, c, b) \<in> set sps"
proof (induction a sps b rule: chained.induct)
  case (2 a token c d sps b)
  then show ?case by (cases "d = b") auto
qed simp

lemma tokenize_spans:
  "tokenize category src =
     (if byte_len src < 2 ^ 32 then Some (map (source_token src) (token_spans category src))
      else None)"
proof (cases "translation_of src")
  case None
  then have verbatim: "no_escapes (source_pieces src)" "decode src = src"
    by (auto simp: translation_pieces decode_def split: if_splits)
  have "source_token src sp = span_token src sp" if "sp \<in> set (token_spans category src)" for sp
  proof (cases sp)
    case (fields token a b)
    with token_span_bounds [of token a b category src] that verbatim show ?thesis
      by (simp add: source_token_def span_token_def source_pos_verbatim)
  qed
  then show ?thesis
    using None lex_from_spans [of 0 src category] verbatim(2)
    by (cases "src = []") (auto simp: tokenize_def spans_from_Nil cong: map_cong)
next
  case (Some tr)
  have written: "tr_text tr = decode src" using Some by (simp add: decode_def)
  let ?sps = "token_spans category src"
  have tokens: "tokenize category src =
      (if decode src = [] \<or> byte_len (decode src) < 2 ^ 32
       then those (map (recut src tr) (map (span_token (decode src)) ?sps)) else None)"
    using lex_from_spans [of 0 "decode src" category] by (simp add: tokenize_def Some written)
  show ?thesis
  proof (cases "byte_len src < 2 ^ 32")
    case True
    then have "byte_len (decode src) < 2 ^ 32" using decode_shorter le_less_trans by blast
    moreover have "recut src tr (span_token (decode src) sp) = Some (source_token src sp)"
      if "sp \<in> set ?sps" for sp
      using recut_span [OF Some, of "fst sp" "fst (snd sp)" "snd (snd sp)" category] that True
        byte_offset_le [of src "source_pos src (snd (snd sp))"] written by simp
    ultimately show ?thesis
      using True tokens those_map_Some [of ?sps "\<lambda>sp. recut src tr (span_token (decode src) sp)"
          "source_token src"]
      by (simp add: comp_def)
  next
    case False
    have "decode src \<noteq> []"
      using False source_pos_all [of src 0] by auto
    then obtain token a where last: "(token, a, length (decode src)) \<in> set ?sps"
      using chained_last [OF spans_chained [of 0 "decode src" category]] by auto
    have "recut src tr (span_token (decode src) (token, a, length (decode src))) = None"
      using recut_span [OF Some last] False written source_pos_all [of src "length (decode src)"]
      by simp
    then show ?thesis
      using False tokens those_None [OF last, of "\<lambda>sp. recut src tr (span_token (decode src) sp)"]
      by (simp add: comp_def)
  qed
qed

subsection \<open>Pieces of a part of the source\<close>

lemma pieces_drop:
  "n \<le> length (pieces e s) \<Longrightarrow>
     \<exists>e'. drop n (pieces e s) = pieces e' (drop (width_of (take n (pieces e s))) s)"
proof (induction "length s" arbitrary: e s n rule: less_induct)
  case less
  show ?case
  proof (cases "s = [] \<or> n = 0")
    case False
    then obtain m where n: "n = Suc m" by (cases n) auto
    from False have "s \<noteq> []" by simp
    then show ?thesis
    proof (cases rule: pieces_cases [where run_even = e])
      case (verbatim c cs)
      then show ?thesis
        using less(1) [of cs m "c \<noteq> backslash \<or> \<not> e"] less(2) n by simp
    next
      case (escaped d w)
      then show ?thesis
        using less(1) [of "drop w s" m True] less(2) n \<open>s \<noteq> []\<close> by (simp add: add.commute)
    qed
  qed auto
qed

lemma eat_while_take_min:
  "i \<le> n \<Longrightarrow> n \<le> length s \<Longrightarrow> eat_while (take n s) i p = min n (eat_while s i p)"
proof (induction s i p rule: eat_while.induct)
  case (1 s i p)
  show ?case
  proof (cases "i < n \<and> (\<exists>c. first s i = Some c \<and> p c)")
    case True
    with 1 show ?thesis
      by (auto simp: eat_while.simps [of s i] eat_while.simps [of "take n s" i])
  next
    case False
    then have "eat_while (take n s) i p = i"
      by (subst eat_while.simps) (auto split: option.split)
    moreover have "min n (eat_while s i p) = i"
    proof (cases "i < n")
      case True
      then have "eat_while s i p = i"
        using False by (subst eat_while.simps) (auto split: option.split)
      then show ?thesis using True by simp
    qed (use 1(2) eat_while_ge [of i s p] in simp)
    ultimately show ?thesis by simp
  qed
qed

text \<open>Cutting a source behind an escape keeps it, and cutting never makes a new one.\<close>

lemma escape_unit_take:
  assumes "n \<le> length s" "i < n"
  shows "escape_unit (take n s) i =
    (case escape_unit s i of Some (u, w) \<Rightarrow> if i + w \<le> n then Some (u, w) else None | None \<Rightarrow> None)"
proof -
  let ?u = "\<lambda>c. c = ch CHR ''u''"
  have eat: "eat_while (take n s) (i + 1) ?u = min n (eat_while s (i + 1) ?u)"
    using assms by (intro eat_while_take_min) simp_all
  show ?thesis
  proof (cases "eat_while s (i + 1) ?u + 4 \<le> n")
    case True
    with eat have "eat_while (take n s) (i + 1) ?u = eat_while s (i + 1) ?u" by simp
    moreover have "take 4 (drop k (take n s)) = take 4 (drop k s)" if "k + 4 \<le> n" for k
      using that by (simp add: drop_take min_def)
    ultimately show ?thesis
      using True assms eat_while_ge [of "i + 1" s ?u]
      by (auto simp: escape_unit_def Let_def min_def split: option.split)
  next
    case False
    with eat assms eat_while_ge [of "i + 1" s ?u] show ?thesis
      by (auto simp: escape_unit_def Let_def min_def split: option.split)
  qed
qed

lemma escape_at_take:
  assumes "escape_at s i = Some (d, w)" "i + w \<le> n" "n \<le> length s"
  shows "escape_at (take n s) i = Some (d, w)"
proof -
  have "i < n" using escape_at_width [OF assms(1)] assms(2) by simp
  obtain u v where u: "escape_unit s i = Some (u, v)" "v \<le> w"
    using assms(1) by (auto simp: escape_at_def split: option.splits prod.splits if_splits)
  then have u': "escape_unit (take n s) i = Some (u, v)"
    using escape_unit_take [OF assms(3) \<open>i < n\<close>] assms(2) by simp
  show ?thesis
  proof (cases "0xD800 \<le> u \<and> u < 0xDC00")
    case True
    then obtain l lw where l: "escape_unit s (i + v) = Some (l, lw)" "w = v + lw"
      using assms(1) u by (auto simp: escape_at_def split: option.splits prod.splits if_splits)
    then have "i + v < n" using escape_unit_width [OF l(1)] assms(2) by simp
    then have "escape_unit (take n s) (i + v) = Some (l, lw)"
      using escape_unit_take [OF assms(3) \<open>i + v < n\<close>] l assms(2) by simp
    then show ?thesis using assms(1) u u' l True by (auto simp: escape_at_def split: if_splits)
  next
    case False
    then show ?thesis using assms(1) u u' by (auto simp: escape_at_def)
  qed
qed

lemma escape_at_take_None:
  assumes "escape_at s i = None" "i < n" "n \<le> length s"
  shows "escape_at (take n s) i = None"
proof (rule ccontr)
  assume "escape_at (take n s) i \<noteq> None"
  then obtain d w where e: "escape_at (take n s) i = Some (d, w)" by auto
  have keep: "escape_unit s j = Some r" if "escape_unit (take n s) j = Some r" for j r
  proof -
    have "j < n" using escape_unit_width [of "take n s" j "fst r" "snd r"] that assms(3) by simp
    from escape_unit_take [OF assms(3) this] that show ?thesis
      by (auto split: option.splits prod.splits if_splits)
  qed
  from e have "escape_at s i = Some (d, w)"
    by (auto simp: escape_at_def dest!: keep split: option.splits prod.splits if_splits)
  with assms(1) show False by simp
qed

lemma pieces_take:
  "n \<le> length (pieces e s) \<Longrightarrow>
     pieces e (take (width_of (take n (pieces e s))) s) = take n (pieces e s)"
proof (induction "length s" arbitrary: e s n rule: less_induct)
  case less
  show ?case
  proof (cases "s = [] \<or> n = 0")
    case False
    then obtain m where n: "n = Suc m" by (cases n) auto
    from False have "s \<noteq> []" by simp
    then show ?thesis
    proof (cases rule: pieces_cases [where run_even = e])
      case (verbatim c cs)
      let ?k = "width_of (take m (pieces (c \<noteq> backslash \<or> \<not> e) cs))"
      have k: "?k \<le> length cs"
        using pieces_width [of "c \<noteq> backslash \<or> \<not> e" cs]
        by (metis append_take_drop_id le_add1 map_append sum_list_append)
      have "escape_at (take (Suc ?k) s) 0 = None" if "e" "c = backslash"
      proof (rule escape_at_take_None)
        show "escape_at s 0 = None" using verbatim(2) that by blast
      qed (use verbatim(1) k in auto)
      then have "pieces e (c # take ?k cs) = Verbatim c # pieces (c \<noteq> backslash \<or> \<not> e) (take ?k cs)"
        using verbatim(1) by (intro pieces_verbatim) simp
      then show ?thesis using less(1) [of cs m] less(2) verbatim n by simp
    next
      case (escaped d w)
      let ?k = "width_of (take m (pieces True (drop w s)))"
      have k: "w + ?k \<le> length s"
        using pieces_width [of True "drop w s"] escaped(5)
        by (metis Nat.le_diff_conv2 add.commute append_take_drop_id le_add1 length_drop map_append
            sum_list_append)
      obtain cs where s: "s = backslash # cs" using escaped(3) \<open>s \<noteq> []\<close> by (cases s) auto
      have t: "take (w + ?k) s = backslash # take (w + ?k - 1) cs"
        using escaped(4) s by (cases "w + ?k") auto
      have "escape_at (take (w + ?k) s) 0 = Some (d, w)"
        using escaped k by (intro escape_at_take) auto
      then have "pieces e (take (w + ?k) s) = Escaped d w # pieces True (drop w (take (w + ?k) s))"
        using escaped(1) unfolding t by (intro pieces_escaped) simp
      moreover have "drop w (take (w + ?k) s) = take ?k (drop w s)" by (simp add: drop_take)
      ultimately show ?thesis
        using less(1) [of "drop w s" m True] less(2) escaped n \<open>s \<noteq> []\<close> by simp
    qed
  qed auto
qed

text \<open>The flag in front matters only for a backslash.\<close>

lemma pieces_parity: "s \<noteq> [] \<Longrightarrow> hd s \<noteq> backslash \<Longrightarrow> pieces e s = pieces e' s"
proof -
  assume "s \<noteq> []" "hd s \<noteq> backslash"
  then obtain c cs where "s = c # cs" "c \<noteq> backslash" by (cases s) auto
  then show ?thesis by (simp add: pieces_verbatim)
qed

lemma backslash_token: "get s i = Some backslash \<Longrightarrow> scan_token category s i = (None, i + 1)"
  by (simp add: scan_token_def first_def scan_from_def is_blank_def is_ident_start_def is_ascii_char_def
      is_ascii_alphabetic_def is_ascii_digit_def delimiter_table_def operator_token_def)

lemma lone_backslash: "source_pieces [backslash] = [Verbatim backslash]"
proof -
  have "escape_at [backslash] 0 = None"
    using escape_at_width [of "[backslash]" 0] by (cases "escape_at [backslash] 0") auto
  then show ?thesis by (simp add: pieces_verbatim)
qed

text \<open>A token's own text decodes to the part of the translated source it stands for.\<close>

lemma decode_token_text:
  assumes sp: "(token, a, b) \<in> set (token_spans category src)"
  shows "decode (span src (source_pos src a) (source_pos src b)) = span (decode src) a b"
proof -
  let ?ps = "source_pieces src" and ?t = "span src (source_pos src a) (source_pos src b)"
  note ab = token_span_bounds [OF sp]
  have scan: "scan_token category (decode src) a = (token, b)" "a < length (decode src)"
    using spans_scanned [OF sp] by simp_all
  have len: "b \<le> length ?ps" using ab by (simp add: decode_pieces)
  obtain e where e: "drop a ?ps = pieces e (drop (source_pos src a) src)"
    using pieces_drop [of a True src] ab len by (auto simp: source_pos_def)
  let ?k = "width_of (take (b - a) (drop a ?ps))"
  have "take b ?ps = take a ?ps @ take (b - a) (drop a ?ps)"
    using ab by (metis le_add_diff_inverse less_imp_le take_add)
  then have "source_pos src b = source_pos src a + ?k" by (simp add: source_pos_def)
  then have t: "?t = take ?k (drop (source_pos src a) src)" by (simp add: span_def)
  have pieces: "pieces e ?t = take (b - a) (drop a ?ps)"
    unfolding t e using pieces_take [of "b - a" e "drop (source_pos src a) src"] e len ab
    by (metis diff_le_mono length_drop)
  have chars: "map piece_char (pieces e ?t) = span (decode src) a b"
    unfolding pieces by (simp add: decode_pieces span_def take_map drop_map)
  have nonempty: "?t \<noteq> []"
    using chars ab by (auto simp: span_def)
  show ?thesis
  proof (cases "hd ?t = backslash \<and> \<not> e")
    case False
    then have "pieces True ?t = pieces e ?t"
      using pieces_parity [OF nonempty, of True e] by (cases e) auto
    then show ?thesis using chars by (simp add: decode_pieces)
  next
    case True
    then obtain cs where cs: "?t = backslash # cs" using nonempty by (cases ?t) auto
    then have first: "hd (pieces e ?t) = Verbatim backslash"
      using True by (simp add: pieces_verbatim)
    have "get (decode src) a = Some (hd (span (decode src) a b))"
      using scan(2) ab by (simp add: get_eq_Some span_nth hd_map)
    also have "hd (span (decode src) a b) = backslash"
      using first cs pieces_width [of e ?t] by (cases "pieces e ?t") (auto simp: chars [symmetric])
    finally have "b = a + 1" using backslash_token scan(1) by fastforce
    then have "length (pieces e ?t) = 1" using pieces len ab by simp
    then have "pieces e ?t = [Verbatim backslash]"
      using first by (cases "pieces e ?t") auto
    moreover from this have "?t = [backslash]"
      using pieces_width [of e ?t] cs by simp
    ultimately show ?thesis
      using chars lone_backslash by (simp add: decode_pieces)
  qed
qed

lemma byte_len_span: "byte_len (span s a b) \<le> byte_len s"
proof -
  have "byte_len s = byte_len (take a s) + byte_len (take (b - a) (drop a s)) +
      byte_len (drop (b - a) (drop a s))"
    by (metis add.assoc append_take_drop_id byte_len_append)
  then show ?thesis by (simp add: span_def)
qed

lemma span_all: "span w 0 (length w) = w"
  by (simp add: span_def)

lemma whole_spans:
  assumes "scan_token category w 0 = (token, length w)" "w \<noteq> []"
  shows "spans_from category w 0 = [(token, 0, length w)]"
  using assms by (simp add: spans_from_Cons spans_from_Nil)

lemma scan_own_text:
  assumes sp: "(token, a, b) \<in> set (spans_from category s 0)"
  shows "scan_token category (span s a b) 0 = (token, b - a)"
proof -
  have ab: "a < b" "b \<le> length s" using chained_bounds [OF spans_chained sp] by simp_all
  have scan: "scan_token category s a = (token, b)" "a < length s"
    using spans_scanned [OF sp] by simp_all
  have cut: "scan_token category (take b s) a = (token, b)"
    using self_contained_token [OF scan(2), of category] scan(1) by (simp add: self_contained_def)
  let ?w = "span s a b"
  have w: "0 < length ?w" using ab by simp
  have "take b s = take a s @ ?w"
    using ab by (metis le_add_diff_inverse less_imp_le span_def take_add)
  moreover have "length (take a s) = a" using ab by simp
  ultimately have "scan_token category (take b s) a =
      (fst (scan_token category ?w 0), a + snd (scan_token category ?w 0))"
    using self_contained_token [OF w, of category] unfolding self_contained_def
    by (metis add.right_neutral)
  with cut ab show ?thesis by (cases "scan_token category ?w 0") auto
qed

subsection \<open>Properties\<close>

text \<open>Tokens that tile a byte range: each starts where the one before ends and is not empty.\<close>

fun tiles :: "nat \<Rightarrow> lexed_token list \<Rightarrow> nat \<Rightarrow> bool" where
  "tiles a [] b \<longleftrightarrow> a = b"
| "tiles a (t # ts) b \<longleftrightarrow>
     lt_start t = a \<and> lt_text t \<noteq> [] \<and> lt_fin t = a + byte_len (lt_text t) \<and> tiles (lt_fin t) ts b"

lemma tiles_spans:
  assumes "chained a sps (length (decode src))"
  shows "tiles (byte_offset src (source_pos src a)) (map (source_token src) sps) (byte_len src) \<and>
    concat (map (lt_text \<circ> source_token src) sps) = drop (source_pos src a) src"
  using assms
proof (induction sps arbitrary: a)
  case Nil
  then show ?case by (simp add: source_pos_all)
next
  case (Cons sp sps)
  obtain token b where sp: "sp = (token, a, b)" "a < b" "chained b sps (length (decode src))"
    using Cons(2) by (cases sp) auto
  have "b \<le> length (decode src)"
    using chained_bounds [OF Cons(2), of token a b] sp(1) by simp
  let ?t = "span src (source_pos src a) (source_pos src b)"
  have lt: "source_pos src a < source_pos src b" "source_pos src b \<le> length src"
    using source_pos_strict [OF sp(2) \<open>b \<le> _\<close>] source_pos_le by simp_all
  then have "?t \<noteq> []" by (simp add: span_def)
  moreover have "byte_offset src (source_pos src b) =
      byte_offset src (source_pos src a) + byte_len ?t"
    using byte_offset_split [of "source_pos src a" "source_pos src b" src] lt by (simp add: span_def)
  moreover have "?t @ drop (source_pos src b) src = drop (source_pos src a) src"
    using lt unfolding span_def
    by (metis append_take_drop_id drop_drop le_add_diff_inverse2 less_imp_le)
  ultimately show ?case
    using Cons(1) [OF sp(3)] sp(1) by (simp add: source_token_def)
qed

text \<open>C9: Tokenizing is lossless and panics only where it must. A source of fewer than 2^32 bytes is
  divided into tokens that are not empty, whose texts are the source in order, and whose byte
  ranges tile it; a larger source has no \<open>TextSize\<close> and makes \<open>tokenize\<close> panic. Unicode escapes
  in the source change where the tokens are, never their texts.
\<close>

theorem tokens_tile_source:
  "case tokenize category src of
     None \<Rightarrow> 2 ^ 32 \<le> byte_len src
   | Some tokens \<Rightarrow>
       byte_len src < 2 ^ 32 \<and> concat (map lt_text tokens) = src \<and> tiles 0 tokens (byte_len src)"
  using tiles_spans [OF spans_chained [of 0 "decode src" category]]
  by (simp add: tokenize_spans comp_def)

text \<open>C11: A token can be decoded on its own. The tokens of a source are, kind by kind, the tokens of
  its translation, and decoding the text of each token alone gives the text of its counterpart:
  no token starts or ends inside an escape, or at a backslash that is read differently there.
\<close>

theorem tokens_decode_alone:
  assumes "tokenize category src = Some tokens"
  shows "\<exists>translated. lex_from category (decode src) 0 = Some translated \<and>
    list_all2 (\<lambda>t u. lt_kind t = lt_kind u \<and> decode (lt_text t) = lt_text u) tokens translated"
proof -
  have tokens: "byte_len src < 2 ^ 32" "tokens = map (source_token src) (token_spans category src)"
    using assms by (auto simp: tokenize_spans split: if_splits)
  then have "byte_len (decode src) < 2 ^ 32" using decode_shorter le_less_trans by blast
  then have "lex_from category (decode src) 0 =
      Some (map (span_token (decode src)) (token_spans category src))"
    by (simp add: lex_from_spans)
  moreover have "lt_kind (source_token src sp) = lt_kind (span_token (decode src) sp) \<and>
      decode (lt_text (source_token src sp)) = lt_text (span_token (decode src) sp)"
    if "sp \<in> set (token_spans category src)" for sp
    using that decode_token_text [of "fst sp" "fst (snd sp)" "snd (snd sp)" category src]
    by (cases sp rule: prod_cases3) (simp add: source_token_def span_token_def)
  ultimately show ?thesis
    by (auto simp: tokens(2) list_all2_conv_all_nth)
qed

text \<open>C10: A token stands alone. Tokenizing the text of any token gives exactly that token again, with
  the same kind and text and with its range moved to the start; so a token's kind is a function of
  its text, malformed literals and error tokens included.
\<close>

theorem token_stands_alone:
  assumes "tokenize category src = Some tokens" "t \<in> set tokens"
  shows "tokenize category (lt_text t) =
    Some [t\<lparr>lt_start := 0, lt_fin := byte_len (lt_text t)\<rparr>]"
proof -
  have tokens: "byte_len src < 2 ^ 32" "tokens = map (source_token src) (token_spans category src)"
    using assms(1) by (auto simp: tokenize_spans split: if_splits)
  then obtain token a b where sp: "(token, a, b) \<in> set (token_spans category src)"
      and t: "t = source_token src (token, a, b)"
    using assms(2) by auto
  let ?w = "span (decode src) a b" and ?t = "lt_text t"
  have ab: "a < b" "b \<le> length (decode src)" using token_span_bounds [OF sp] by simp_all
  have dec: "decode ?t = ?w" using decode_token_text [OF sp] t by (simp add: source_token_def)
  have w: "?w \<noteq> []" "length ?w = b - a" using ab by (auto simp: span_def)
  have spans: "token_spans category ?t = [(token, 0, length ?w)]"
    unfolding dec using scan_own_text [OF sp] w by (intro whole_spans) simp_all
  have "byte_len ?t \<le> byte_len src"
    using t by (simp add: source_token_def byte_len_span)
  then have "tokenize category ?t = Some [source_token ?t (token, 0, length ?w)]"
    using tokens(1) spans by (simp add: tokenize_spans)
  moreover have "source_token ?t (token, 0, length ?w) =
      t\<lparr>lt_start := 0, lt_fin := byte_len ?t\<rparr>"
  proof -
    have "source_pos ?t (length ?w) = length ?t" by (rule source_pos_all) (simp only: dec)
    moreover have "lt_kind t = token_syntax token ?w" by (simp add: t source_token_def)
    ultimately show ?thesis by (simp add: source_token_def [of ?t] dec span_all)
  qed
  ultimately show ?thesis by simp
qed

subsection \<open>Numeric literals in a source\<close>

lemma scan_digit:
  assumes "digit_at s i is_ascii_digit"
  shows "scan_token category s i = matched (number s i)"
proof -
  obtain c where "first s i = Some c" "is_ascii_digit c"
    using assms by (auto simp: digit_at_def first_def split: option.splits)
  moreover from this have "\<not> is_blank c" "c \<noteq> newline" "c \<noteq> carriage_return" "c \<noteq> ch CHR ''/''"
      "c \<noteq> double_quote" "c \<noteq> single_quote"
    by (auto simp: is_ascii_digit_def is_blank_def)
  ultimately show ?thesis by (simp add: scan_token_def scan_from_def)
qed

lemma scan_dot:
  assumes "get s i = Some (ch CHR ''.'')" "digit_at s (i + 1) is_ascii_digit"
  shows "scan_token category s i = (Some (Literal FLOAT_LITERAL), fraction_float s i)"
proof -
  have "get s (i + 1) \<noteq> Some (ch CHR ''.'')"
    using assms(2) by (auto simp: digit_at_iff get_eq_Some is_ascii_digit_def)
  then show ?thesis
    using assms
    by (simp add: scan_token_def first_def scan_from_def is_blank_def is_ascii_digit_def
        dot_token_def)
qed

lemma literals_start_with_digit:
  "word_at s i m (int_literals \<union> decimal_floats \<union> hex_floats) \<Longrightarrow> digit_at s i is_ascii_digit"
  unfolding int_literals_def decimal_floats_def hex_floats_def word_at_Un word_at_cat
    int_body_cases word_at_pair
  by (auto simp: word_digits_iff digit_at_iff get_eq_Some is_ascii_digit_def is_octal_digit_def
      split: if_splits)

lemma dot_literal_longest:
  assumes "get s i = Some (ch CHR ''.'')" "digit_at s (i + 1) is_ascii_digit"
  shows "longest_end s i (int_literals \<union> float_literals) (Some (fraction_float s i)) \<and>
    \<not> word_at s i m int_literals"
proof -
  have "\<not> digit_at s i is_ascii_digit"
    using assms(1) by (auto simp: digit_at_iff get_eq_Some is_ascii_digit_def)
  then have "longest_end s i (int_literals \<union> decimal_floats \<union> hex_floats) None"
      and none: "\<not> word_at s i m int_literals"
    using literals_start_with_digit by (auto simp: longest_end_def word_at_Un)
  from longest_end_Un [OF this(1) fraction_float_longest [OF assms]] none show ?thesis
    by (simp add: float_literals_def Un_assoc)
qed

text \<open>C12: Numbers are lexed by longest match. Where a digit, or a dot and a digit, starts a token, the
  token is the longest prefix of the rest of the source that is an integer or a floating-point
  literal of the grammar; it is an integer literal exactly when the text is one. Prefixes that
  only look like a longer literal (\<open>0x\<close>, \<open>0b2\<close>, \<open>1e+\<close>, \<open>1__\<close>, \<open>089\<close>) fall back to what precedes.
\<close>

theorem number_token_longest:
  assumes start: "digit_at src i is_ascii_digit \<or>
      get src i = Some (ch CHR ''.'') \<and> digit_at src (i + 1) is_ascii_digit"
    and scan: "scan_token category src i = (token, fin)"
  shows "span src i fin \<in> int_literals \<union> float_literals \<and>
    (\<forall>m. i \<le> m \<and> m \<le> length src \<and> span src i m \<in> int_literals \<union> float_literals \<longrightarrow> m \<le> fin) \<and>
    token = Some (Literal (if span src i fin \<in> int_literals then INT_LITERAL else FLOAT_LITERAL))"
proof (cases "digit_at src i is_ascii_digit")
  case True
  obtain k e where n: "number src i = (k, e)" by (cases "number src i")
  with scan scan_digit [OF True, of category] have "token = Some k" "e = fin" by simp_all
  with number_longest [OF True n] show ?thesis
    by (auto simp: longest_end_def word_at_def)
next
  case False
  with start have dot: "get src i = Some (ch CHR ''.'')" "digit_at src (i + 1) is_ascii_digit" by auto
  with scan scan_dot [OF dot, of category]
  have "token = Some (Literal FLOAT_LITERAL)" "fin = fraction_float src i" by simp_all
  with dot_literal_longest [OF dot, of fin] show ?thesis
    by (auto simp: longest_end_def word_at_def)
qed

end
