(* ===== verification/Token_Sample.thy ===== *)
theory Token_Sample
  imports Tokenize "HOL-Library.Code_Target_Nat"
begin

text \<open>
  One source run through the lexer, as the witness of the properties of \<open>Tokenize\<close>: the keyword
  \<open>int\<close> with its second letter written as a unicode escape, and an exponent without digits, which
  falls back to the integer before it.
\<close>

definition no_category :: "nat \<Rightarrow> general_category" where
  "no_category c = AnotherCategory"

definition sample_source :: source where
  "sample_source = codes ''i'' @ [backslash] @ codes ''u006et 1e+;''"

definition sample_tokens :: "lexed_token list" where
  "sample_tokens =
     [\<lparr>lt_kind = Terminal (Reserved INT_KW), lt_text = codes ''i'' @ [backslash] @ codes ''u006et'',
        lt_start = 0, lt_fin = 8\<rparr>,
      \<lparr>lt_kind = Terminal (Trivia WHITESPACE), lt_text = [space], lt_start = 8, lt_fin = 9\<rparr>,
      \<lparr>lt_kind = Terminal (Literal INT_LITERAL), lt_text = codes ''1'', lt_start = 9, lt_fin = 10\<rparr>,
      \<lparr>lt_kind = Terminal IDENT, lt_text = codes ''e'', lt_start = 10, lt_fin = 11\<rparr>,
      \<lparr>lt_kind = Terminal (Operator PLUS), lt_text = codes ''+'', lt_start = 11, lt_fin = 12\<rparr>,
      \<lparr>lt_kind = Terminal (Delimiter SEMICOLON), lt_text = codes '';'', lt_start = 12, lt_fin = 13\<rparr>]"

lemmas pieces_eval = escape_at_def escape_unit_def eat_while.simps first_def get_def
  to_digit_16_def is_ascii_digit_def char_from_u32_def is_unicode_scalar_def pieces.simps(2)

lemma sample_pieces:
  "source_pieces sample_source =
     [Verbatim 105, Escaped 110 6, Verbatim 116, Verbatim 32, Verbatim 49, Verbatim 101,
      Verbatim 43, Verbatim 59]"
  by (simp add: sample_source_def pieces_eval)

lemma sample_decoded: "decode sample_source = codes ''int 1e+;''"
  by (simp add: decode_pieces sample_pieces)

lemma sample_spans:
  "spans_from no_category (codes ''int 1e+;'') 0 =
     [(Some (Reserved INT_KW), 0, 3), (Some (Trivia WHITESPACE), 3, 4),
      (Some (Literal INT_LITERAL), 4, 5), (Some IDENT, 5, 6), (Some (Operator PLUS), 6, 7),
      (Some (Delimiter SEMICOLON), 7, 8)]"
  by code_simp

lemma sample_tokenize: "tokenize no_category sample_source = Some sample_tokens"
proof -
  have "byte_len sample_source < 2 ^ 32"
    by (simp add: sample_source_def len_utf8_def)
  moreover have "map (source_token sample_source) (token_spans no_category sample_source) = sample_tokens"
    unfolding sample_decoded sample_spans
    by (simp add: source_token_def source_pos_def sample_decoded sample_pieces sample_tokens_def
        token_syntax_def from_token_def span_def byte_offset_def len_utf8_def
        sample_source_def [symmetric])
      (simp add: sample_source_def len_utf8_def)
  ultimately show ?thesis by (simp add: tokenize_spans)
qed

lemma tokens_decode_alone_witness:
  "\<exists>translated. lex_from no_category (decode sample_source) 0 = Some translated \<and>
    list_all2 (\<lambda>t u. lt_kind t = lt_kind u \<and> decode (lt_text t) = lt_text u) sample_tokens translated"
  by (rule tokens_decode_alone [OF sample_tokenize])

lemma token_stands_alone_witness:
  "tokenize no_category (codes ''i'' @ [backslash] @ codes ''u006et'') =
     Some [\<lparr>lt_kind = Terminal (Reserved INT_KW),
            lt_text = codes ''i'' @ [backslash] @ codes ''u006et'', lt_start = 0, lt_fin = 8\<rparr>]"
  using token_stands_alone [OF sample_tokenize, of "hd sample_tokens"]
  by (simp add: sample_tokens_def len_utf8_def)

lemma number_token_longest_witness:
  "span (codes ''int 1e+;'') 4 5 \<in> int_literals \<union> float_literals \<and>
   span (codes ''int 1e+;'') 4 7 \<notin> int_literals \<union> float_literals"
proof -
  have "digit_at (codes ''int 1e+;'') 4 is_ascii_digit"
      "scan_token no_category (codes ''int 1e+;'') 4 = (Some (Literal INT_LITERAL), 5)"
    by code_simp+
  from number_token_longest [OF disjI1 [OF this(1)] this(2)]
  have "span (codes ''int 1e+;'') 4 5 \<in> int_literals \<union> float_literals"
      "\<And>m. 4 \<le> m \<Longrightarrow> m \<le> 8 \<Longrightarrow> span (codes ''int 1e+;'') 4 m \<in> int_literals \<union> float_literals \<Longrightarrow> m \<le> 5"
    by simp_all
  from this(1) this(2) [of 7] show ?thesis by auto
qed

end
