(* ===== verification/Layout_Doc.thy ===== *)
theory Layout_Doc
  imports Source_Text
begin

text \<open>
  The layout documents of \<open>jals-fmt/src/ir.rs\<close>: widths in UTF-16 code units, indents, breaks and
  the five shapes of a document with their measurements. \<open>usize\<close> arithmetic saturates where the
  code asks for it, and its greatest value is the width of what can never sit on one line.
\<close>

subsection \<open>Widths\<close>

definition infinite_width :: nat where
  "infinite_width = 2 ^ 64 - 1"

definition sat_add :: "nat \<Rightarrow> nat \<Rightarrow> nat" where
  "sat_add a b = min (a + b) infinite_width"

definition len_utf16 :: "nat \<Rightarrow> nat" where
  "len_utf16 c = (if c < 0x10000 then 1 else 2)"

definition width_utf16 :: "source \<Rightarrow> nat" where
  "width_utf16 spelling = sum_list (map len_utf16 spelling)"

definition token_width :: "source \<Rightarrow> nat" where
  "token_width spelling =
     (if newline \<in> set spelling then infinite_width else width_utf16 spelling)"

definition tok_width :: "source \<Rightarrow> nat" where
  "tok_width spelling = width_utf16 (takeWhile (\<lambda>c. c \<noteq> newline) spelling)"

subsection \<open>Documents\<close>

type_synonym break_tag = nat

datatype fill_mode = Unified | Independent | Forced

text \<open>Amounts are \<open>i32\<close>, kept as integers and saturated where they are added.\<close>

datatype indent = Indent_Const int | Indent_If break_tag indent indent

definition indent_zero :: indent where
  "indent_zero = Indent_Const 0"

record break_point =
  bk_fill :: fill_mode
  bk_flat :: source
  bk_plus_indent :: indent
  bk_tag :: "break_tag option"
  bk_blank_lines :: nat
  bk_broken :: bool
  bk_new_indent :: nat

definition break_new :: "fill_mode \<Rightarrow> source \<Rightarrow> indent \<Rightarrow> break_tag option \<Rightarrow> break_point" where
  "break_new fill flat plus_indent tag =
     \<lparr>bk_fill = fill, bk_flat = flat, bk_plus_indent = plus_indent, bk_tag = tag,
      bk_blank_lines = 0, bk_broken = False, bk_new_indent = 0\<rparr>"

definition is_forced :: "break_point \<Rightarrow> bool" where
  "is_forced b \<longleftrightarrow> bk_fill b = Forced"

definition break_width :: "break_point \<Rightarrow> nat" where
  "break_width b = (if is_forced b then infinite_width else width_utf16 (bk_flat b))"

text \<open>
  A level holds its extra indent, its contents, the cached width of the contents and the engine's
  verdict whether it fits on one line; comment text has a flag for the re-indentation of its
  continuation lines.
\<close>

datatype doc =
    Level indent "doc list" nat bool
  | Token source
  | Break break_point
  | Space
  | Tok source bool

fun doc_width :: "doc \<Rightarrow> nat" where
  "doc_width (Level plus_indent docs width one_line) = width"
| "doc_width (Token spelling) = token_width spelling"
| "doc_width (Break b) = break_width b"
| "doc_width Space = 1"
| "doc_width (Tok spelling reindent) = tok_width spelling"

definition width_of :: "doc list \<Rightarrow> nat" where
  "width_of docs = foldl (\<lambda>acc d. sat_add acc (doc_width d)) 0 docs"

text \<open>The loop of \<open>head_width_of\<close>, with its running total.\<close>

fun head_width_from :: "nat \<Rightarrow> doc list \<Rightarrow> nat" where
  "head_width_from acc [] = acc"
| "head_width_from acc (d # docs) =
     (case d of
        Break b \<Rightarrow> acc
      | Level plus_indent inner width one_line \<Rightarrow>
          let head = head_width_from 0 inner; acc' = sat_add acc head in
          if head \<noteq> width then acc' else head_width_from acc' docs
      | other \<Rightarrow>
          let width = doc_width other in
          if width = infinite_width then acc
          else head_width_from (sat_add acc width) docs)"

definition head_width_of :: "doc list \<Rightarrow> nat" where
  "head_width_of docs = head_width_from 0 docs"

fun write_flat :: "doc \<Rightarrow> source" where
  "write_flat (Level plus_indent docs width one_line) = concat (map write_flat docs)"
| "write_flat (Token spelling) = spelling"
| "write_flat (Break b) = bk_flat b"
| "write_flat Space = [space]"
| "write_flat (Tok spelling reindent) = spelling"

text \<open>\<open>Measure::level\<close>: the widths are filled in bottom-up.\<close>

fun measure_doc :: "doc \<Rightarrow> doc" where
  "measure_doc (Level plus_indent docs width one_line) =
     (let docs' = map measure_doc docs in Level plus_indent docs' (width_of docs') one_line)"
| "measure_doc d = d"

fun is_break :: "doc \<Rightarrow> bool" where
  "is_break (Break b) = True"
| "is_break d = False"

subsection \<open>Leaves\<close>

text \<open>A document without its levels: what is written, in order.\<close>

fun leaves :: "doc \<Rightarrow> doc list" where
  "leaves (Level plus_indent docs width one_line) = concat (map leaves docs)"
| "leaves d = [d]"

lemma concat_map_concat: "concat (map f (concat xss)) = concat (map (\<lambda>xs. concat (map f xs)) xss)"
  by (induction xss) simp_all

lemma write_flat_leaves: "write_flat d = concat (map write_flat (leaves d))"
  by (induction d) (simp_all add: concat_map_concat comp_def cong: map_cong)

lemma leaves_measure [simp]: "leaves (measure_doc d) = leaves d"
  by (induction d) (simp_all add: Let_def comp_def cong: map_cong)

end
