(* ===== verification/Layout_Engine.thy ===== *)
theory Layout_Engine
  imports Layout_Doc
begin

text \<open>
  The layout engine of \<open>jals-fmt/src/engine.rs\<close>: the break decisions of \<open>compute_level\<close> and its
  helpers, the first two passes of a rendering. The engine walks a level as
  splits separated by breaks; where the code updates the children of a level in place, the model
  returns them. The state of the walk and the recorded break tags are passed along.
\<close>

subsection \<open>Style\<close>

datatype indent_style = Indent_Space | Indent_Tab | Indent_Mixed

record style =
  sy_max_width :: nat
  sy_indent_style :: indent_style
  sy_tab_width :: nat
  sy_indent_empty_lines :: bool
  sy_trim_trailing_whitespace :: bool
  sy_insert_final_newline :: bool
  sy_newline :: source

definition write_indent :: "style \<Rightarrow> nat \<Rightarrow> source" where
  "write_indent sty columns =
     (if sy_indent_style sty = Indent_Space then replicate columns space
      else let tab_stop = max (sy_tab_width sty) 1
           in replicate (columns div tab_stop) tab @ replicate (columns mod tab_stop) space)"

subsection \<open>Columns\<close>

text \<open>\<open>i32\<close> saturation.\<close>

definition sat_i32 :: "int \<Rightarrow> int" where
  "sat_i32 n = max (- (2 ^ 31)) (min (2 ^ 31 - 1) n)"

definition trim_end_cr :: "source \<Rightarrow> source" where
  "trim_end_cr spelling = rev (dropWhile (\<lambda>c. c = carriage_return) (rev spelling))"

definition last_line :: "source \<Rightarrow> source" where
  "last_line spelling = rev (takeWhile (\<lambda>c. c \<noteq> newline) (rev spelling))"

definition advance :: "nat \<Rightarrow> source \<Rightarrow> nat" where
  "advance column spelling =
     (if newline \<in> set spelling then width_utf16 (trim_end_cr (last_line spelling))
      else sat_add column (width_utf16 spelling))"

record walk =
  wk_last_indent :: int
  wk_indent :: int
  wk_column :: nat
  wk_must_break :: bool

fun eval_indent :: "bool list \<Rightarrow> indent \<Rightarrow> int" where
  "eval_indent tags (Indent_Const columns) = columns"
| "eval_indent tags (Indent_If t broken flat) =
     (if t < length tags \<and> tags ! t then eval_indent tags broken else eval_indent tags flat)"

definition record_tag :: "bool list \<Rightarrow> break_tag \<Rightarrow> bool \<Rightarrow> bool list" where
  "record_tag tags t broken = (if t < length tags then tags[t := broken] else tags)"

subsection \<open>Decisions\<close>

definition decide_break :: "bool list \<Rightarrow> break_point \<Rightarrow> bool \<Rightarrow> walk \<Rightarrow>
    bool list \<times> break_point \<times> walk" where
  "decide_break tags b broken state =
     (let tags' = (case bk_tag b of Some t \<Rightarrow> record_tag tags t broken | None \<Rightarrow> tags);
          flat_width = width_utf16 (bk_flat b);
          plus_indent = eval_indent tags' (bk_plus_indent b);
          new_indent = nat (max (sat_i32 (wk_last_indent state + plus_indent)) 0);
          b' = b\<lparr>bk_broken := broken, bk_new_indent := new_indent\<rparr>
      in (tags', b',
          state\<lparr>wk_column := if broken then new_indent else sat_add (wk_column state) flat_width\<rparr>))"

text \<open>Whether the break in front of a split goes, and what is left of it in the level.\<close>

definition should_break :: "style \<Rightarrow> break_point option \<Rightarrow> walk \<Rightarrow> nat \<Rightarrow> bool" where
  "should_break sty at state split_width =
     (let width = (case at of Some b \<Rightarrow> break_width b | None \<Rightarrow> 0);
          unified = (case at of Some b \<Rightarrow> bk_fill b = Unified | None \<Rightarrow> False)
      in unified \<or> wk_must_break state \<or>
         sat_add (sat_add (wk_column state) width) split_width > sy_max_width sty)"

definition decide_at :: "bool list \<Rightarrow> break_point option \<Rightarrow> bool \<Rightarrow> walk \<Rightarrow>
    bool list \<times> doc list \<times> walk" where
  "decide_at tags at broken state =
     (case at of
        None \<Rightarrow> (tags, [], state)
      | Some b \<Rightarrow> let (tags', b', state') = decide_break tags b broken state
                  in (tags', [Break b'], state'))"

definition fits :: "style \<Rightarrow> walk \<Rightarrow> nat \<Rightarrow> nat \<Rightarrow> bool" where
  "fits sty state width tail \<longleftrightarrow>
     sat_add (sat_add (wk_column state) width) tail \<le> sy_max_width sty"

definition split_of :: "doc list \<Rightarrow> doc list" where
  "split_of docs = takeWhile (\<lambda>d. \<not> is_break d) docs"

definition after_split :: "doc list \<Rightarrow> doc list" where
  "after_split docs = dropWhile (\<lambda>d. \<not> is_break d) docs"

lemma size_split_of: "size_list size (split_of docs) \<le> size_list size docs"
  unfolding split_of_def by (induction docs) auto

lemma size_after_split: "after_split docs = d # docs' \<Longrightarrow> size_list size docs' < size_list size docs"
  unfolding after_split_def by (induction docs) (auto split: if_splits)

function compute :: "style \<Rightarrow> bool list \<Rightarrow> doc \<Rightarrow> walk \<Rightarrow> nat \<Rightarrow> bool list \<times> doc \<times> walk"
  and compute_split :: "style \<Rightarrow> bool list \<Rightarrow> doc list \<Rightarrow> walk \<Rightarrow> nat \<Rightarrow> bool list \<times> doc list \<times> walk"
  and compute_broken :: "style \<Rightarrow> bool list \<Rightarrow> break_point option \<Rightarrow> doc list \<Rightarrow> walk \<Rightarrow> nat \<Rightarrow>
    bool list \<times> doc list \<times> walk" where
  "compute sty tags (Level plus_indent docs width one_line) state tail =
     (if fits sty state width tail
      then (tags, Level plus_indent docs width True, state\<lparr>wk_column := wk_column state + width\<rparr>)
      else let indent = sat_i32 (wk_indent state + eval_indent tags plus_indent);
               inner = \<lparr>wk_last_indent = indent, wk_indent = indent,
                        wk_column = wk_column state, wk_must_break = False\<rparr>;
               (tags', docs', broken) = compute_broken sty tags None docs inner tail
           in (tags', Level plus_indent docs' width False, state\<lparr>wk_column := wk_column broken\<rparr>))"
| "compute sty tags (Break b) state tail = (tags, Break b, state)"
| "compute sty tags Space state tail =
     (tags, Space, state\<lparr>wk_column := sat_add (wk_column state) 1\<rparr>)"
| "compute sty tags (Token spelling) state tail =
     (tags, Token spelling, state\<lparr>wk_column := advance (wk_column state) spelling\<rparr>)"
| "compute sty tags (Tok spelling reindent) state tail =
     (tags, Tok spelling reindent, state\<lparr>wk_column := advance (wk_column state) spelling\<rparr>)"
| "compute_split sty tags [] state tail = (tags, [], state)"
| "compute_split sty tags (d # docs) state tail =
     (let (tags1, d', state1) = compute sty tags d state (sat_add (head_width_of docs) tail);
          (tags2, docs', state2) = compute_split sty tags1 docs state1 tail
      in (tags2, d' # docs', state2))"
| "compute_broken sty tags at docs state tail =
     (let split = split_of docs; rest = after_split docs;
          here = (if rest = [] then tail else 0);
          split_width = sat_add (width_of split) here;
          (tags1, at', state1) = decide_at tags at (should_break sty at state split_width) state;
          enough_room = sat_add (wk_column state1) split_width \<le> sy_max_width sty;
          (tags2, split', state2) =
            compute_split sty tags1 split (state1\<lparr>wk_must_break := False\<rparr>) here;
          state3 = (if enough_room then state2 else state2\<lparr>wk_must_break := True\<rparr>)
      in case rest of
           Break b # docs' \<Rightarrow>
             (let (tags3, rest', state4) = compute_broken sty tags2 (Some b) docs' state3 tail
              in (tags3, at' @ split' @ rest', state4))
         | _ \<Rightarrow> (tags2, at' @ split', state3))"
  by pat_completeness auto

termination
proof (relation "measure (\<lambda>x. case x of
      Inl (_, _, d, _, _) \<Rightarrow> 2 * size d
    | Inr (Inl (_, _, docs, _, _)) \<Rightarrow> 2 * size_list size docs
    | Inr (Inr (_, _, _, docs, _, _)) \<Rightarrow> 2 * size_list size docs + 1)", goal_cases)
qed (auto simp: le_imp_less_Suc size_split_of dest: size_after_split [OF sym] size_after_split)

declare compute_broken.simps [simp del]

end
