(* ===== verification/Layout_Writer.thy ===== *)
theory Layout_Writer
  imports Layout_Engine
begin

text \<open>
  The third pass of \<open>jals-fmt/src/engine.rs\<close>: the writer that turns a decided document into text
  with \<open>\n\<close> as the line break, and the three passes together.
\<close>

subsection \<open>The writer\<close>

text \<open>\<open>char::is_whitespace\<close>: the White_Space characters of Unicode.\<close>

definition is_whitespace :: "nat \<Rightarrow> bool" where
  "is_whitespace c \<longleftrightarrow>
     9 \<le> c \<and> c \<le> 13 \<or> c = 0x20 \<or> c = 0x85 \<or> c = 0xA0 \<or> c = 0x1680 \<or>
     0x2000 \<le> c \<and> c \<le> 0x200A \<or> c = 0x2028 \<or> c = 0x2029 \<or> c = 0x202F \<or> c = 0x205F \<or> c = 0x3000"

definition trim_start :: "source \<Rightarrow> source" where
  "trim_start spelling = dropWhile is_whitespace spelling"

fun split_lines :: "source \<Rightarrow> source list" where
  "split_lines [] = [[]]"
| "split_lines (c # cs) =
     (if c = newline then [] # split_lines cs
      else case split_lines cs of line # lines \<Rightarrow> (c # line) # lines | [] \<Rightarrow> [[c]])"

definition starts_with :: "source \<Rightarrow> source \<Rightarrow> bool" where
  "starts_with prefix spelling \<longleftrightarrow> take (length prefix) spelling = prefix"

definition write_raw :: "source \<Rightarrow> source \<times> nat \<Rightarrow> source \<times> nat" where
  "write_raw spelling w = (fst w @ spelling, advance (snd w) spelling)"

definition conventional_line :: "source \<Rightarrow> bool" where
  "conventional_line line \<longleftrightarrow>
     (let body = trim_start line in starts_with (codes ''*'') body \<or> starts_with (codes ''//'') body)"

definition comment_line :: "style \<Rightarrow> nat \<Rightarrow> source \<Rightarrow> source" where
  "comment_line sty indent line = newline # write_indent sty indent @ trim_start (trim_end_cr line)"

definition write_comment :: "style \<Rightarrow> source \<Rightarrow> source \<times> nat \<Rightarrow> source \<times> nat" where
  "write_comment sty spelling w =
     (let start = snd w; head = hd (split_lines spelling); others = tl (split_lines spelling) in
      if \<not> list_all conventional_line others then write_raw spelling w
      else let indent = (if starts_with (codes ''//'') head then start else start + 1);
               last_width = (if others = [] then width_utf16 head
                             else indent + width_utf16 (trim_start (trim_end_cr (last others))))
           in (fst w @ trim_end_cr head @ concat (map (comment_line sty indent) others), last_width))"

definition broken_text :: "style \<Rightarrow> break_point \<Rightarrow> source" where
  "broken_text sty b =
     concat (replicate (bk_blank_lines b + 1)
       (newline # (if sy_indent_empty_lines sty then write_indent sty (bk_new_indent b) else []))) @
     write_indent sty (bk_new_indent b)"

fun write_doc :: "style \<Rightarrow> doc \<Rightarrow> source \<times> nat \<Rightarrow> source \<times> nat" where
  "write_doc sty (Level plus_indent docs width one_line) w =
     (if one_line then
        let flat = concat (map write_flat docs) in (fst w @ flat, advance (snd w) flat)
      else fold (write_doc sty) docs w)"
| "write_doc sty (Token spelling) w = write_raw spelling w"
| "write_doc sty Space w = (fst w @ [space], snd w + 1)"
| "write_doc sty (Break b) w =
     (if bk_broken b then (fst w @ broken_text sty b, bk_new_indent b)
      else (fst w @ bk_flat b, snd w + width_utf16 (bk_flat b)))"
| "write_doc sty (Tok spelling reindent) w =
     (if reindent then write_comment sty spelling w else write_raw spelling w)"

definition start_walk :: walk where
  "start_walk = \<lparr>wk_last_indent = 0, wk_indent = 0, wk_column = 0, wk_must_break = False\<rparr>"

definition lay_out :: "style \<Rightarrow> nat \<Rightarrow> doc \<Rightarrow> doc" where
  "lay_out sty tag_count d =
     (case d of
        Level _ _ _ _ \<Rightarrow>
          fst (snd (compute sty (replicate tag_count False) (measure_doc d) start_walk 0))
      | _ \<Rightarrow> d)"

definition render :: "style \<Rightarrow> nat \<Rightarrow> doc \<Rightarrow> source" where
  "render sty tag_count d = fst (write_doc sty (lay_out sty tag_count d) ([], 0))"

text \<open>
  With \<open>indent-empty-lines\<close>, the line behind a break is indented twice: once with the empty lines
  of the run, once as itself.
\<close>

lemma indent_empty_lines_twice:
  "sy_indent_empty_lines sty \<Longrightarrow> bk_blank_lines b = 0 \<Longrightarrow>
    broken_text sty b = newline # write_indent sty (bk_new_indent b) @ write_indent sty (bk_new_indent b)"
  by (simp add: broken_text_def)

end
