(* ===== verification/Layout_Decisions.thy ===== *)
theory Layout_Decisions
  imports Layout_Writer
begin

text \<open>
  What the engine decides: the relation between a document and its decided form, which every
  outcome of \<open>compute\<close> satisfies, and its consequences for levels, breaks and widths.
\<close>

subsection \<open>Walks\<close>

text \<open>
  An abstract view of the walk, without tags and tails: a level may stay flat when it fits,
  otherwise its children are walked as splits between breaks, each break decided either way, but
  a unified or a forced one always taken.
\<close>

definition at_docs :: "break_point option \<Rightarrow> doc list" where
  "at_docs at = (case at of Some b \<Rightarrow> [Break b] | None \<Rightarrow> [])"

definition must_take :: "break_point option \<Rightarrow> bool" where
  "must_take at \<longleftrightarrow> (case at of Some b \<Rightarrow> bk_fill b \<noteq> Independent | None \<Rightarrow> False)"

inductive walks :: "style \<Rightarrow> doc \<Rightarrow> walk \<Rightarrow> doc \<Rightarrow> walk \<Rightarrow> bool"
  and walks_split :: "style \<Rightarrow> doc list \<Rightarrow> walk \<Rightarrow> doc list \<Rightarrow> walk \<Rightarrow> bool"
  and walks_broken :: "style \<Rightarrow> break_point option \<Rightarrow> doc list \<Rightarrow> walk \<Rightarrow> doc list \<Rightarrow> walk \<Rightarrow> bool"
  for sty where
  flat: "fits sty state width tail \<Longrightarrow>
    walks sty (Level plus_indent docs width one_line) state (Level plus_indent docs width True)
      (state\<lparr>wk_column := wk_column state + width\<rparr>)"
| broken: "walks_broken sty None docs inner docs' inner' \<Longrightarrow> wk_column inner = wk_column state \<Longrightarrow>
    walks sty (Level plus_indent docs width one_line) state (Level plus_indent docs' width False)
      (state\<lparr>wk_column := wk_column inner'\<rparr>)"
| gap: "walks sty Space state Space (state\<lparr>wk_column := sat_add (wk_column state) 1\<rparr>)"
| token: "walks sty (Token spelling) state (Token spelling)
    (state\<lparr>wk_column := advance (wk_column state) spelling\<rparr>)"
| tok: "walks sty (Tok spelling reindent) state (Tok spelling reindent)
    (state\<lparr>wk_column := advance (wk_column state) spelling\<rparr>)"
| split_end: "walks_split sty [] state [] state"
| split_doc: "walks sty d state d' state1 \<Longrightarrow> walks_split sty docs state1 docs' state' \<Longrightarrow>
    walks_split sty (d # docs) state (d' # docs') state'"
| last: "decide_at tags at taken state = (tags', at', state1) \<Longrightarrow> (must_take at \<longrightarrow> taken) \<Longrightarrow>
    walks_split sty split (state1\<lparr>wk_must_break := False\<rparr>) split' state2 \<Longrightarrow>
    walks_broken sty at split state (at' @ split') (state2\<lparr>wk_must_break := must\<rparr>)"
| more: "decide_at tags at taken state = (tags', at', state1) \<Longrightarrow> (must_take at \<longrightarrow> taken) \<Longrightarrow>
    walks_split sty split (state1\<lparr>wk_must_break := False\<rparr>) split' state2 \<Longrightarrow>
    walks_broken sty (Some b) docs (state2\<lparr>wk_must_break := must\<rparr>) docs' state' \<Longrightarrow>
    walks_broken sty at (split @ Break b # docs) state (at' @ split' @ docs') state'"

lemma split_after: "split_of docs @ after_split docs = docs"
  by (simp add: split_of_def after_split_def)

lemma split_no_break: "\<forall>d \<in> set (split_of docs). \<not> is_break d"
  by (auto simp: split_of_def dest: set_takeWhileD)

lemma after_split_head: "after_split docs = d # docs' \<Longrightarrow> \<exists>b. d = Break b"
proof -
  assume "after_split docs = d # docs'"
  then have "is_break d"
    unfolding after_split_def by (metis dropWhile_eq_Cons_conv)
  then show ?thesis by (cases d) auto
qed

lemma sat_add_infinite: "sat_add a infinite_width = infinite_width" "sat_add infinite_width a = infinite_width"
  by (simp_all add: sat_add_def)

lemma must_take_should_break:
  "must_take at \<Longrightarrow> sy_max_width sty < infinite_width \<Longrightarrow> should_break sty at state split_width"
  by (cases at; cases "bk_fill (the at)")
    (auto simp: must_take_def should_break_def break_width_def is_forced_def sat_add_infinite)

lemma must_break_or_not:
  obtains must where "(if enough then state else state\<lparr>wk_must_break := True\<rparr>) =
    (state\<lparr>wk_must_break := must\<rparr> :: walk)"
proof (cases enough)
  case True
  then show ?thesis using that [of "wk_must_break state"] by simp
qed (use that [of True] in simp)

text \<open>The engine walks.\<close>

lemma compute_walks:
  shows "sy_max_width sty < infinite_width \<Longrightarrow> \<not> is_break d \<Longrightarrow>
      compute sty tags d state tail = (tags', d', state') \<Longrightarrow> walks sty d state d' state'"
    and "sy_max_width sty < infinite_width \<Longrightarrow> \<forall>d \<in> set docs. \<not> is_break d \<Longrightarrow>
      compute_split sty tags docs state tail = (tags', docs', state') \<Longrightarrow> walks_split sty docs state docs' state'"
    and "sy_max_width sty < infinite_width \<Longrightarrow>
      compute_broken sty tags at docs state tail = (tags', docs', state') \<Longrightarrow>
      walks_broken sty at docs state docs' state'"
proof (induction sty tags d state tail and sty tags docs state tail and sty tags at docs state tail
    arbitrary: tags' d' state' and tags' docs' state' and tags' docs' state'
    rule: compute_compute_split_compute_broken.induct)
  case (1 sty tags plus_indent docs width one_line state tail)
  show ?case
  proof (cases "fits sty state width tail")
    case False
    note IH = 1(1) [OF False refl refl 1(2)]
    from False 1(4) show ?thesis
      by (auto simp: Let_def split: prod.splits dest!: IH intro: walks_walks_split_walks_broken.broken)
  qed (use 1(4) in \<open>auto intro: walks_walks_split_walks_broken.flat\<close>)
next
  case (7 sty tags d docs state tail)
  obtain tags1 d1 state1 where
      "compute sty tags d state (sat_add (head_width_of docs) tail) = (tags1, d1, state1)"
    by (metis surj_pair)
  with 7 show ?case
    by (auto split: prod.splits intro!: walks_walks_split_walks_broken.split_doc)
next
  case (8 sty tags at docs state tail)
  define here where "here = (if after_split docs = [] then tail else 0)"
  define sw where "sw = sat_add (width_of (split_of docs)) here"
  obtain tags1 at' state1 where
      A: "decide_at tags at (should_break sty at state sw) state = (tags1, at', state1)"
    by (metis surj_pair)
  obtain tags2 split' state2 where
      B: "compute_split sty tags1 (split_of docs) (state1\<lparr>wk_must_break := False\<rparr>) here =
        (tags2, split', state2)"
    by (metis surj_pair)
  obtain must where must: "(if sat_add (wk_column state1) sw \<le> sy_max_width sty then state2
      else state2\<lparr>wk_must_break := True\<rparr>) = state2\<lparr>wk_must_break := must\<rparr>"
    by (rule must_break_or_not)
  note here_sw = sw_def here_def
  note ab = A [unfolded here_sw] B [unfolded here_sw]
  have split: "walks_split sty (split_of docs) (state1\<lparr>wk_must_break := False\<rparr>) split' state2"
    by (rule 8(1) [OF refl refl refl refl refl ab(1) [symmetric] refl refl 8(3) split_no_break ab(2)])
  have taken: "must_take at \<longrightarrow> should_break sty at state sw"
    using must_take_should_break 8(3) by blast
  show ?case
  proof (cases "after_split docs")
    case Nil
    then have "split_of docs = docs" using split_after [of docs] by simp
    moreover have "docs' = at' @ split'" "state' = state2\<lparr>wk_must_break := must\<rparr>"
      using 8(4) ab must [unfolded here_sw] Nil
      by (simp_all add: compute_broken.simps [of sty tags at docs] Let_def split del: if_split)
    ultimately show ?thesis using last [OF A taken split, of must] by simp
  next
    case (Cons d rest)
    then obtain b where b: "d = Break b" using after_split_head by blast
    obtain tags3 rest' state4 where
        C: "compute_broken sty tags2 (Some b) rest (state2\<lparr>wk_must_break := must\<rparr>) tail =
          (tags3, rest', state4)"
      by (metis surj_pair)
    note c = C [folded must, unfolded here_sw]
    have "walks_broken sty (Some b) rest (state2\<lparr>wk_must_break := must\<rparr>) rest' state4"
      using 8(2) [OF refl refl refl refl refl ab(1) [symmetric] refl refl refl ab(2) [symmetric]
          refl refl Cons b 8(3) c] must [unfolded here_sw] by simp
    with more [OF A taken split] have "walks_broken sty at docs state (at' @ split' @ rest') state4"
      using split_after [of docs] Cons b by metis
    moreover have "docs' = at' @ split' @ rest'" "state' = state4"
      using 8(4) Cons b ab c
      by (simp_all add: compute_broken.simps [of sty tags at docs] Let_def split del: if_split)
    ultimately show ?thesis by simp
  qed
qed (auto intro: walks_walks_split_walks_broken.intros simp del: One_nat_def)

subsection \<open>What a decided document is\<close>

text \<open>
  The verdicts of a walk, as a relation between a document and its decided form. Only the
  engine's own fields of a break change.
\<close>

definition same_break :: "break_point \<Rightarrow> break_point \<Rightarrow> bool" where
  "same_break b b' \<longleftrightarrow> b' = b\<lparr>bk_broken := bk_broken b', bk_new_indent := bk_new_indent b'\<rparr>"

inductive decided :: "nat \<Rightarrow> doc \<Rightarrow> doc \<Rightarrow> bool" for limit where
  flat: "width \<le> limit \<Longrightarrow>
    decided limit (Level plus_indent docs width one_line) (Level plus_indent docs width True)"
| broken: "list_all2 (decided limit) docs docs' \<Longrightarrow>
    decided limit (Level plus_indent docs width one_line) (Level plus_indent docs' width False)"
| taken: "same_break b b' \<Longrightarrow> (bk_fill b \<noteq> Independent \<Longrightarrow> bk_broken b') \<Longrightarrow>
    decided limit (Break b) (Break b')"
| token: "decided limit (Token spelling) (Token spelling)"
| gap: "decided limit Space Space"
| tok: "decided limit (Tok spelling reindent) (Tok spelling reindent)"

lemma decide_at_decided:
  assumes "decide_at tags at taken state = (tags', at', state')" and "must_take at \<longrightarrow> taken"
  shows "list_all2 (decided limit) (at_docs at) at'"
  using assms
  by (cases at) (auto simp: decide_at_def at_docs_def must_take_def decide_break_def Let_def
      same_break_def split: prod.splits intro!: decided.taken)

lemma fits_limit:
  "fits sty state width tail \<Longrightarrow> sy_max_width sty < infinite_width \<Longrightarrow>
    wk_column state + width \<le> sy_max_width sty"
  by (auto simp: fits_def sat_add_def min_def split: if_splits)

lemma walks_decided:
  shows "walks sty d state d' state' \<Longrightarrow> sy_max_width sty < infinite_width \<Longrightarrow>
      decided (sy_max_width sty) d d'"
    and "walks_split sty docs state docs' state' \<Longrightarrow> sy_max_width sty < infinite_width \<Longrightarrow>
      list_all2 (decided (sy_max_width sty)) docs docs'"
    and "walks_broken sty at docs state docs' state' \<Longrightarrow> sy_max_width sty < infinite_width \<Longrightarrow>
      list_all2 (decided (sy_max_width sty)) (at_docs at @ docs) docs'"
proof (induction rule: walks_walks_split_walks_broken.inducts)
  case (flat state width tail plus_indent docs one_line)
  then show ?case using fits_limit by (fastforce intro: decided.flat)
next
  case (last tags at taken state tags' at' state1 split split' state2 must)
  then show ?case by (auto intro: list_all2_appendI decide_at_decided)
next
  case (more tags at taken state tags' at' state1 split split' state2 b docs must docs' state')
  then have "list_all2 (decided (sy_max_width sty)) (at_docs at @ split @ at_docs (Some b) @ docs)
      (at' @ split' @ docs')"
    by (intro list_all2_appendI decide_at_decided)
  then show ?case by (simp add: at_docs_def)
qed (auto simp: at_docs_def intro: decided.intros)

subsection \<open>Measured documents\<close>

text \<open>A node no flat level may hold: a forced break, or a token that spans lines.\<close>

fun never_flat :: "doc \<Rightarrow> bool" where
  "never_flat (Level plus_indent docs width one_line) = list_ex never_flat docs"
| "never_flat (Token spelling) = (newline \<in> set spelling)"
| "never_flat (Break b) = is_forced b"
| "never_flat d = False"

definition measured :: "doc \<Rightarrow> bool" where
  "measured d \<longleftrightarrow> measure_doc d = d"

lemma measured_level: "measured (Level plus_indent docs width one_line) \<longleftrightarrow>
    (\<forall>d \<in> set docs. measured d) \<and> width = width_of docs"
proof -
  have "map measure_doc docs = docs \<longleftrightarrow> (\<forall>d \<in> set docs. measure_doc d = d)"
    by (induction docs) auto
  then show ?thesis by (auto simp: measured_def Let_def)
qed

lemma measured_measure_doc [simp]: "measured (measure_doc d)"
  by (induction d) (simp_all add: measured_def Let_def comp_def cong: map_cong)

lemma sat_add_assoc: "sat_add (sat_add a b) c = sat_add a (sat_add b c)"
  by (simp add: sat_add_def min_def)

lemma foldl_sat_add:
  "foldl (\<lambda>acc d. sat_add acc (doc_width d)) (sat_add a b) docs =
    sat_add a (foldl (\<lambda>acc d. sat_add acc (doc_width d)) b docs)"
  by (induction docs arbitrary: b) (simp_all add: sat_add_assoc)

lemma width_of_Nil [simp]: "width_of [] = 0"
  by (simp add: width_of_def)

lemma width_of_le: "width_of docs \<le> infinite_width"
proof -
  have "foldl (\<lambda>acc d. sat_add acc (doc_width d)) a docs \<le> infinite_width" if "a \<le> infinite_width" for a
    using that by (induction docs arbitrary: a) (simp_all add: sat_add_def)
  then show ?thesis by (simp add: width_of_def)
qed

lemma width_of_Cons [simp]: "width_of (d # docs) = sat_add (doc_width d) (width_of docs)"
  using foldl_sat_add [of "doc_width d" 0 docs]
  by (simp add: width_of_def) (simp add: sat_add_def)

lemma never_flat_width:
  "measured d \<Longrightarrow> never_flat d \<Longrightarrow> doc_width d = infinite_width"
proof (induction d)
  case (Level plus_indent docs width one_line)
  then obtain d where d: "d \<in> set docs" "never_flat d" by (auto simp: list_ex_iff)
  with Level have "doc_width d = infinite_width" by (simp add: measured_level)
  with d(1) have "width_of docs = infinite_width"
    by (induction docs) (auto simp: sat_add_infinite)
  with Level show ?case by (simp add: measured_level)
qed (auto simp: token_width_def break_width_def)

subsection \<open>Settled documents\<close>

text \<open>
  A flat level stays within the limit and holds neither a forced break nor a token that spans
  lines; in a broken level every unified and every forced break is taken.
\<close>

fun settled :: "nat \<Rightarrow> doc \<Rightarrow> bool" where
  "settled limit (Level plus_indent docs width one_line) =
     (if one_line then width \<le> limit \<and> \<not> list_ex never_flat docs
      else list_all (settled limit) docs)"
| "settled limit (Break b) = (bk_fill b \<noteq> Independent \<longrightarrow> bk_broken b)"
| "settled limit d = True"

lemma same_break_fill: "same_break b b' \<Longrightarrow> bk_fill b' = bk_fill b"
  unfolding same_break_def by (metis break_point.select_convs(1) break_point.surjective
      break_point.update_convs(6,7))

lemma decided_settled:
  "decided limit d d' \<Longrightarrow> measured d \<Longrightarrow> limit < infinite_width \<Longrightarrow> settled limit d'"
proof (induction rule: decided.induct)
  case (flat width plus_indent docs one_line)
  then show ?case
    using never_flat_width [of "Level plus_indent docs width one_line"] by auto
next
  case (broken docs docs' plus_indent width one_line)
  then show ?case
    by (auto simp: measured_level list_all2_conv_all_nth list_all_length)
qed (auto dest: same_break_fill)

text \<open>Deciding changes what is written of no leaf but the breaks.\<close>

fun same_leaf :: "doc \<Rightarrow> doc \<Rightarrow> bool" where
  "same_leaf (Break b) (Break b') = same_break b b'"
| "same_leaf d d' = (d = d')"

lemma same_leaf_refl [simp]: "same_leaf d d"
  by (cases d) (simp_all add: same_break_def)

lemma decided_leaves: "decided limit d d' \<Longrightarrow> list_all2 same_leaf (leaves d) (leaves d')"
proof (induction rule: decided.induct)
  case (flat width plus_indent docs one_line)
  then show ?case by (simp add: list_all2_refl)
next
  case (broken docs docs' plus_indent width one_line)
  then show ?case
    by (induction rule: list_all2_induct) (auto intro: list_all2_appendI)
qed auto

lemma lay_out_walks:
  assumes "sy_max_width sty < infinite_width"
  obtains state where "walks sty (measure_doc (Level plus_indent docs width one_line)) start_walk
    (lay_out sty tag_count (Level plus_indent docs width one_line)) state"
proof -
  let ?d = "measure_doc (Level plus_indent docs width one_line)"
  obtain tags' d' state' where
      C: "compute sty (replicate tag_count False) ?d start_walk 0 = (tags', d', state')"
    by (metis surj_pair)
  have "walks sty ?d start_walk d' state'"
    by (rule compute_walks(1) [OF assms _ C]) (simp add: Let_def)
  with that C show ?thesis by (simp add: lay_out_def del: measure_doc.simps)
qed

lemma lay_out_decided:
  assumes "sy_max_width sty < infinite_width"
  shows "decided (sy_max_width sty) (measure_doc (Level plus_indent docs width one_line))
    (lay_out sty tag_count (Level plus_indent docs width one_line))"
  using lay_out_walks [OF assms] walks_decided(1) [OF _ assms] by metis

lemma lay_out_root:
  "\<exists>docs'. lay_out sty tag_count (Level plus_indent docs width one_line) =
    Level plus_indent docs' (width_of (map measure_doc docs)) (width_of (map measure_doc docs) \<le> sy_max_width sty) \<and>
    (width_of (map measure_doc docs) \<le> sy_max_width sty \<longrightarrow> docs' = map measure_doc docs)"
proof -
  have "fits sty start_walk (width_of (map measure_doc docs)) 0 \<longleftrightarrow>
      width_of (map measure_doc docs) \<le> sy_max_width sty"
    using width_of_le [of "map measure_doc docs"] by (simp add: fits_def start_walk_def sat_add_def)
  then show ?thesis
    by (auto simp: lay_out_def Let_def split: prod.splits)
qed

text \<open>C15: 
  What laying out a level decides: the root is flat exactly when its width is within the limit,
  and then its text is its flat text; flat levels stay within the limit and hold no forced break
  and no token that spans lines, in broken levels all unified and forced breaks are taken; the
  leaves stay the same but for the verdicts on breaks.
\<close>

theorem laid_out_settled:
  assumes "sy_max_width sty < infinite_width"
  shows "settled (sy_max_width sty) (lay_out sty tag_count (Level plus_indent docs width one_line)) \<and>
    list_all2 same_leaf (leaves (Level plus_indent docs width one_line))
      (leaves (lay_out sty tag_count (Level plus_indent docs width one_line))) \<and>
    (width_of (map measure_doc docs) \<le> sy_max_width sty \<longrightarrow>
      render sty tag_count (Level plus_indent docs width one_line) = concat (map write_flat docs)) \<and>
    (\<exists>docs'. lay_out sty tag_count (Level plus_indent docs width one_line) =
      Level plus_indent docs' (width_of (map measure_doc docs))
        (width_of (map measure_doc docs) \<le> sy_max_width sty))"
proof -
  let ?d = "Level plus_indent docs width one_line"
  note decided = lay_out_decided [OF assms, of plus_indent docs width one_line tag_count]
  have "settled (sy_max_width sty) (lay_out sty tag_count ?d)"
    by (rule decided_settled [OF decided measured_measure_doc assms])
  moreover have "list_all2 same_leaf (leaves ?d) (leaves (lay_out sty tag_count ?d))"
    using decided_leaves [OF decided] unfolding leaves_measure .
  moreover have "write_flat (measure_doc d) = write_flat d" for d
    by (simp add: write_flat_leaves)
  then have "render sty tag_count ?d = concat (map write_flat docs)"
      if "width_of (map measure_doc docs) \<le> sy_max_width sty"
    using lay_out_root [of sty tag_count plus_indent docs width one_line] that
    by (auto simp: render_def Let_def comp_def)
  ultimately show ?thesis
    using lay_out_root [of sty tag_count plus_indent docs width one_line] by blast
qed

end
