(* ===== verification/Layout_Text.thy ===== *)
theory Layout_Text
  imports Layout_Decisions
begin

text \<open>
  What the writer makes of a settled document: one piece of text per leaf, in order. Tokens and
  verbatim regions are written as they are, comments up to the whitespace of their continuation
  lines, and every forced break starts a new line.
\<close>

definition visible :: "source \<Rightarrow> source" where
  "visible spelling = filter (\<lambda>c. \<not> is_whitespace c) spelling"

definition blank :: "source \<Rightarrow> bool" where
  "blank spelling \<longleftrightarrow> list_all is_whitespace spelling"

lemma visible_simps [simp]:
  "visible [] = []"
  "visible (s @ t) = visible s @ visible t"
  "visible (c # s) = (if is_whitespace c then visible s else c # visible s)"
  by (simp_all add: visible_def)

lemma visible_concat: "visible (concat ss) = concat (map visible ss)"
  by (induction ss) simp_all

lemma visible_blank: "visible s = [] \<longleftrightarrow> blank s"
  by (induction s) (simp_all add: blank_def)

lemma blank_simps [simp]:
  "blank []"
  "blank (c # s) \<longleftrightarrow> is_whitespace c \<and> blank s"
  "blank (s @ t) \<longleftrightarrow> blank s \<and> blank t"
  "blank (replicate n c) \<longleftrightarrow> n = 0 \<or> is_whitespace c"
  by (auto simp: blank_def list_all_iff)

lemma blank_concat: "(\<And>s. s \<in> set ss \<Longrightarrow> blank s) \<Longrightarrow> blank (concat ss)"
  by (induction ss) simp_all

lemma whitespace_simps [simp]:
  "is_whitespace newline" "is_whitespace carriage_return" "is_whitespace space" "is_whitespace tab"
  by (simp_all add: is_whitespace_def)

lemma visible_dropWhile:
  assumes "\<And>c. P c \<Longrightarrow> is_whitespace c"
  shows "visible (dropWhile P s) = visible s"
  using assms by (induction s) auto

lemma visible_rev: "visible (rev s) = rev (visible s)"
  by (simp add: visible_def rev_filter)

lemma visible_trim [simp]: "visible (trim_start s) = visible s" "visible (trim_end_cr s) = visible s"
proof -
  have "rev (visible (dropWhile (\<lambda>c. c = carriage_return) (rev s))) = visible s"
    by (subst visible_dropWhile) (simp_all add: visible_rev)
  then show "visible (trim_end_cr s) = visible s" by (simp add: trim_end_cr_def visible_rev)
qed (simp add: trim_start_def visible_dropWhile)

lemma blank_write_indent [simp]: "blank (write_indent sty columns)"
  by (simp add: write_indent_def Let_def)

subsection \<open>Comments\<close>

lemma split_lines_not_Nil [simp]: "split_lines s \<noteq> []"
  by (induction s) (auto split: list.splits)

lemma split_lines_visible: "concat (map visible (split_lines s)) = visible s"
  by (induction s) (auto split: list.splits)

lemma visible_comment_line: "visible (comment_line sty indent line) = visible line"
  by (simp add: comment_line_def visible_blank [THEN iffD2])

lemma write_comment_text:
  "\<exists>chunk col'. write_comment sty spelling (out, col) = (out @ chunk, col') \<and> visible chunk = visible spelling"
proof -
  let ?head = "hd (split_lines spelling)" and ?others = "tl (split_lines spelling)"
  have "visible (trim_end_cr ?head @ concat (map (comment_line sty indent) ?others)) = visible spelling" for indent
    using split_lines_visible [of spelling]
    by (cases "split_lines spelling") (simp_all add: visible_concat comp_def visible_comment_line)
  then show ?thesis
    by (auto simp: write_comment_def write_raw_def Let_def)
qed

subsection \<open>Pieces\<close>

definition line_start :: "source \<Rightarrow> bool" where
  "line_start piece \<longleftrightarrow> (\<exists>rest. piece = newline # rest \<and> blank rest)"

fun piece_of :: "doc \<Rightarrow> source \<Rightarrow> bool" where
  "piece_of (Token spelling) piece = (piece = spelling)"
| "piece_of Space piece = (piece = [space])"
| "piece_of (Tok spelling reindent) piece =
     (if reindent then visible piece = visible spelling else piece = spelling)"
| "piece_of (Break b) piece = (line_start piece \<or> \<not> is_forced b \<and> piece = bk_flat b)"
| "piece_of (Level plus_indent docs width one_line) piece = False"

lemma broken_text_line_start: "line_start (broken_text sty b)"
  by (auto simp: line_start_def broken_text_def intro!: blank_concat)

lemma flat_pieces:
  "\<not> never_flat d \<Longrightarrow> list_all2 piece_of (leaves d) (map write_flat (leaves d))"
proof (induction d)
  case (Level plus_indent docs width one_line)
  then have "list_all2 piece_of (concat (map leaves docs)) (map write_flat (concat (map leaves docs)))"
    by (induction docs) (auto intro: list_all2_appendI)
  then show ?case by simp
qed auto

lemma fold_write_pieces:
  assumes "\<And>d out col. d \<in> set docs \<Longrightarrow> \<exists>pieces col'. write_doc sty d (out, col) = (out @ concat pieces, col') \<and>
      list_all2 piece_of (leaves d) pieces"
  shows "\<exists>pieces col'. fold (write_doc sty) docs (out, col) = (out @ concat pieces, col') \<and>
      list_all2 piece_of (concat (map leaves docs)) pieces"
  using assms
proof (induction docs arbitrary: out col)
  case (Cons d docs)
  obtain pieces col' where d: "write_doc sty d (out, col) = (out @ concat pieces, col')"
      "list_all2 piece_of (leaves d) pieces"
    using Cons.prems [of d out col] by auto
  obtain pieces' col'' where docs:
      "fold (write_doc sty) docs (out @ concat pieces, col') = ((out @ concat pieces) @ concat pieces', col'')"
      "list_all2 piece_of (concat (map leaves docs)) pieces'"
    using Cons.IH [of "out @ concat pieces" col'] Cons.prems by auto
  show ?case
    using d docs by (intro exI [of _ "pieces @ pieces'"]) (auto intro: list_all2_appendI)
qed auto

lemma write_doc_pieces:
  "settled limit d \<Longrightarrow> \<exists>pieces col'. write_doc sty d (out, col) = (out @ concat pieces, col') \<and>
     list_all2 piece_of (leaves d) pieces"
proof (induction d arbitrary: out col)
  case (Level plus_indent docs width one_line)
  show ?case
  proof (cases one_line)
    case True
    let ?d = "Level plus_indent docs width one_line"
    have flat: "concat (map write_flat docs) = concat (map write_flat (leaves ?d))"
      using write_flat_leaves [of ?d] by simp
    have "list_all2 piece_of (leaves ?d) (map write_flat (leaves ?d))"
      using Level True by (intro flat_pieces) simp
    with True flat show ?thesis
      by (intro exI [of _ "map write_flat (leaves ?d)"]) (simp add: Let_def)
  next
    case False
    have "\<exists>pieces col'. fold (write_doc sty) docs (out, col) = (out @ concat pieces, col') \<and>
        list_all2 piece_of (concat (map leaves docs)) pieces"
      by (rule fold_write_pieces) (use Level False in \<open>simp add: list_all_iff\<close>)
    with False show ?thesis by simp
  qed
next
  case (Break b)
  have forced: "bk_broken b" if "is_forced b" using Break that by (simp add: is_forced_def)
  show ?case
    by (intro exI [of _ "[if bk_broken b then broken_text sty b else bk_flat b]"])
      (use forced in \<open>auto simp: broken_text_line_start\<close>)
next
  case (Tok spelling reindent)
  obtain piece col' where "write_comment sty spelling (out, col) = (out @ piece, col')"
      "visible piece = visible spelling"
    using write_comment_text by blast
  then show ?case
    by (intro exI [of _ "[if reindent then piece else spelling]"]) (simp add: write_raw_def)
next
  case (Token spelling)
  then show ?case by (intro exI [of _ "[spelling]"]) (simp add: write_raw_def)
next
  case Space
  then show ?case by (intro exI [of _ "[[space]]"]) simp
qed

lemma piece_of_same_leaf: "same_leaf d d' \<Longrightarrow> piece_of d' piece \<Longrightarrow> piece_of d piece"
proof (induction d d' rule: same_leaf.induct)
  case (1 b b')
  then have "bk_fill b' = bk_fill b" by (simp add: same_break_fill)
  moreover have "bk_flat b' = bk_flat b"
    using 1 unfolding same_leaf.simps same_break_def
    by (metis break_point.select_convs(2) break_point.surjective break_point.update_convs(6,7))
  ultimately show ?case using 1 by (simp add: is_forced_def)
qed auto

lemma render_pieces:
  assumes "sy_max_width sty < infinite_width"
  shows "\<exists>pieces. render sty tag_count (Level plus_indent docs width one_line) = concat pieces \<and>
    list_all2 piece_of (leaves (Level plus_indent docs width one_line)) pieces"
proof -
  let ?d = "Level plus_indent docs width one_line"
  let ?d' = "lay_out sty tag_count ?d"
  have decided: "decided (sy_max_width sty) (measure_doc ?d) ?d'"
    using assms by (rule lay_out_decided)
  then have "settled (sy_max_width sty) ?d'"
    by (rule decided_settled) (rule measured_measure_doc, rule assms)
  then obtain pieces col' where pieces: "write_doc sty ?d' ([], 0) = ([] @ concat pieces, col')"
      "list_all2 piece_of (leaves ?d') pieces"
    using write_doc_pieces by metis
  have same: "list_all2 same_leaf (leaves ?d) (leaves ?d')"
    using decided_leaves [OF decided] by (metis leaves_measure)
  have "list_all2 piece_of (leaves ?d) pieces"
    by (rule list_all2_trans [OF _ same pieces(2)]) (rule piece_of_same_leaf)
  with pieces(1) show ?thesis by (auto simp: render_def)
qed

end
