(* ===== verification/Layout_Columns.thy ===== *)
theory Layout_Columns
  imports Layout_Text
begin

text \<open>
  The column the engine computes against the text that is written: for documents whose comments
  stay on one line, the walk's column is the width of the last line of the output, so that a
  level left flat really ends within the limit.
\<close>

definition text_column :: "source \<Rightarrow> nat" where
  "text_column out = width_utf16 (last_line out)"

text \<open>Comments without line breaks, and text whose last line does not end in a carriage return.\<close>

fun plain :: "doc \<Rightarrow> bool" where
  "plain (Level plus_indent docs width one_line) = list_all plain docs"
| "plain (Token spelling) = (trim_end_cr (last_line spelling) = last_line spelling)"
| "plain (Break b) = (newline \<notin> set (bk_flat b))"
| "plain Space = True"
| "plain (Tok spelling reindent) = (newline \<notin> set spelling \<and> carriage_return \<notin> set spelling)"

text \<open>Every level that is written flat ends within the limit of the line it is written on.\<close>

fun levels_fit :: "style \<Rightarrow> doc \<Rightarrow> source \<times> nat \<Rightarrow> bool"
  and levels_fit_all :: "style \<Rightarrow> doc list \<Rightarrow> source \<times> nat \<Rightarrow> bool" where
  "levels_fit sty (Level plus_indent docs width one_line) w =
     (if one_line
      then newline \<notin> set (concat (map write_flat docs)) \<and>
        text_column (fst w @ concat (map write_flat docs)) \<le> sy_max_width sty
      else levels_fit_all sty docs w)"
| "levels_fit sty d w = True"
| "levels_fit_all sty [] w = True"
| "levels_fit_all sty (d # docs) w =
     (levels_fit sty d w \<and> levels_fit_all sty docs (write_doc sty d w))"

subsection \<open>Widths of text\<close>

lemma width_utf16_simps [simp]:
  "width_utf16 [] = 0" "width_utf16 (c # s) = len_utf16 c + width_utf16 s"
  "width_utf16 (s @ t) = width_utf16 s + width_utf16 t"
  by (simp_all add: width_utf16_def)

lemma width_spaces [simp]: "width_utf16 (replicate n space) = n"
  by (induction n) (simp_all add: len_utf16_def)

lemma takeWhile_id: "newline \<notin> set s \<Longrightarrow> takeWhile (\<lambda>c. c \<noteq> newline) s = s"
  by (induction s) auto

lemma last_line_id: "newline \<notin> set s \<Longrightarrow> last_line s = s"
  by (simp add: last_line_def takeWhile_id)

lemma text_column_append:
  "text_column (out @ s) =
    (if newline \<in> set s then width_utf16 (last_line s) else text_column out + width_utf16 s)"
proof (cases "newline \<in> set s")
  case False
  then show ?thesis
    by (simp add: text_column_def last_line_def takeWhile_append takeWhile_id)
next
  case True
  then have "takeWhile (\<lambda>c. c \<noteq> newline) (rev s @ rev out) = takeWhile (\<lambda>c. c \<noteq> newline) (rev s)"
    by (intro takeWhile_append1) auto
  with True show ?thesis by (simp add: text_column_def last_line_def)
qed

lemma text_column_newline: "newline \<notin> set s \<Longrightarrow> text_column (out @ newline # s) = width_utf16 s"
  by (simp add: text_column_append last_line_def takeWhile_append takeWhile_id)

lemma sat_add_min: "sat_add (min a infinite_width) b = min (a + b) infinite_width"
  by (simp add: sat_add_def min_def)

lemma min_infinite: "n < infinite_width \<Longrightarrow> min n infinite_width = n"
  by simp

lemma plain_measure: "plain (measure_doc d) \<longleftrightarrow> plain d"
  by (induction d) (auto simp: Let_def list_all_iff)

subsection \<open>The width of a level\<close>

lemma flat_width:
  "measured d \<Longrightarrow> plain d \<Longrightarrow> doc_width d < infinite_width \<Longrightarrow>
    newline \<notin> set (write_flat d) \<and> width_utf16 (write_flat d) = doc_width d"
proof (induction d)
  case (Level plus_indent docs width one_line)
  have "width_of docs < infinite_width" "\<forall>d \<in> set docs. measured d \<and> plain d"
    using Level.prems by (auto simp: measured_level list_all_iff)
  then have "newline \<notin> set (concat (map write_flat docs)) \<and>
      width_utf16 (concat (map write_flat docs)) = width_of docs"
    using Level.IH
  proof (induction docs)
    case (Cons d docs)
    then have sum: "doc_width d < infinite_width" "width_of docs < infinite_width"
        "width_of (d # docs) = doc_width d + width_of docs"
      by (auto simp: sat_add_def min_def split: if_splits)
    have "newline \<notin> set (write_flat d) \<and> width_utf16 (write_flat d) = doc_width d"
      using Cons.prems(2,3) sum(1) by auto
    moreover have "newline \<notin> set (concat (map write_flat docs)) \<and>
        width_utf16 (concat (map write_flat docs)) = width_of docs"
      using Cons.prems(2,3) sum(2) by (intro Cons.IH) auto
    ultimately show ?case using sum(3) by auto
  qed simp
  then show ?case using Level.prems by (simp add: measured_level)
qed (auto simp: token_width_def break_width_def tok_width_def takeWhile_id len_utf16_def split: if_splits)

subsection \<open>The walk and the writer\<close>

text \<open>Columns agree when they are the same number below the greatest \<open>usize\<close>.\<close>

definition same_column :: "nat \<Rightarrow> nat \<Rightarrow> bool" where
  "same_column a b \<longleftrightarrow> min a infinite_width = min b infinite_width"

lemma same_column_refl [simp]: "same_column a a"
  by (simp add: same_column_def)

lemma same_column_sat_add [simp]: "same_column (sat_add a b) c \<longleftrightarrow> same_column (a + b) c"
  by (simp add: same_column_def sat_add_def)

lemma same_column_add: "same_column a b \<Longrightarrow> same_column (a + c) (b + c)"
  by (auto simp: same_column_def min_def split: if_splits)

lemma same_column_le:
  "same_column a b \<Longrightarrow> limit < infinite_width \<Longrightarrow> a \<le> limit \<Longrightarrow> b \<le> limit"
  by (auto simp: same_column_def min_def split: if_splits)

lemma advance_column:
  assumes "trim_end_cr (last_line s) = last_line s" "same_column column (text_column out)"
  shows "same_column (advance column s) (text_column (out @ s))"
  using assms by (auto simp: advance_def text_column_append same_column_add)

lemma trim_end_cr_id:
  assumes "carriage_return \<notin> set s" shows "trim_end_cr s = s"
proof -
  have "dropWhile (\<lambda>c. c = carriage_return) cs = cs" if "carriage_return \<notin> set cs" for cs
    using that by (cases cs) auto
  then show ?thesis using assms by (simp add: trim_end_cr_def)
qed

lemma write_comment_line:
  assumes "newline \<notin> set s" "carriage_return \<notin> set s"
  shows "fst (write_comment sty s w) = fst w @ s"
proof -
  have lines: "split_lines s = [s]" using assms(1) by (induction s) auto
  then show ?thesis using assms(2) by (simp add: trim_end_cr_id write_comment_def write_raw_def Let_def)
qed

text \<open>Behind a comment of one line the writer counts from the comment on, not from the line.\<close>

lemma write_comment_column: "newline \<notin> set s \<Longrightarrow> snd (write_comment sty s w) = width_utf16 s"
proof -
  assume "newline \<notin> set s"
  then have "split_lines s = [s]" by (induction s) auto
  then show ?thesis by (simp add: write_comment_def Let_def)
qed

text \<open>Indents are written with spaces, and blank lines are left without one.\<close>

definition space_indents :: "style \<Rightarrow> bool" where
  "space_indents sty \<longleftrightarrow> sy_indent_style sty = Indent_Space \<and> \<not> sy_indent_empty_lines sty"

lemma broken_text_column:
  assumes "space_indents sty"
  shows "text_column (out @ broken_text sty b) = bk_new_indent b"
proof -
  let ?gap = "concat (replicate (bk_blank_lines b) [newline])"
  have "replicate (Suc n) [newline] = replicate n [newline] @ [[newline]]" for n
    by (simp add: replicate_append_same)
  then have "broken_text sty b = ?gap @ newline # replicate (bk_new_indent b) space"
    using assms by (simp add: broken_text_def space_indents_def write_indent_def del: replicate_Suc)
  then have "out @ broken_text sty b = (out @ ?gap) @ newline # replicate (bk_new_indent b) space"
    by simp
  then show ?thesis
    using text_column_newline [of "replicate (bk_new_indent b) space" "out @ ?gap"] by simp
qed


definition agrees :: "style \<Rightarrow> doc list \<Rightarrow> source \<times> nat \<Rightarrow> walk \<Rightarrow> bool" where
  "agrees sty docs w state \<longleftrightarrow>
     same_column (wk_column state) (text_column (fst (fold (write_doc sty) docs w))) \<and>
     levels_fit_all sty docs w"

lemma agrees_Nil [simp]:
  "agrees sty [] w state \<longleftrightarrow> same_column (wk_column state) (text_column (fst w))"
  by (simp add: agrees_def)

lemma agrees_append:
  assumes "agrees sty docs w state" and "agrees sty docs' (fold (write_doc sty) docs w) state'"
  shows "agrees sty (docs @ docs') w state'"
proof -
  have "levels_fit_all sty (xs @ ys) v \<longleftrightarrow>
      levels_fit_all sty xs v \<and> levels_fit_all sty ys (fold (write_doc sty) xs v)" for xs ys v
    by (induction xs arbitrary: v) auto
  with assms show ?thesis by (simp add: agrees_def)
qed

lemma agrees_column: "agrees sty docs w state \<Longrightarrow>
    same_column (wk_column state) (text_column (fst (fold (write_doc sty) docs w)))"
  by (simp add: agrees_def)

lemma agrees_must_break [simp]:
  "agrees sty docs w (state\<lparr>wk_must_break := m\<rparr>) \<longleftrightarrow> agrees sty docs w state"
  by (simp add: agrees_def)

lemma decide_at_agrees:
  assumes decide: "decide_at tags at broken state = (tags', at', state')"
    and style: "space_indents sty" and plain: "\<forall>d \<in> set (at_docs at). plain d"
    and column: "same_column (wk_column state) (text_column (fst w))"
  shows "agrees sty at' w state'"
proof (cases at)
  case (Some b)
  then have flat: "newline \<notin> set (bk_flat b)" using plain by (simp add: at_docs_def)
  show ?thesis
    using decide Some flat column broken_text_column [OF style]
    by (cases w) (auto simp: decide_at_def decide_break_def Let_def agrees_def text_column_append
        same_column_add split: prod.splits option.splits)
qed (use decide column in \<open>simp add: decide_at_def\<close>)

lemma flat_level_agrees:
  assumes level: "measured (Level plus_indent docs width one_line)" "plain (Level plus_indent docs width one_line)"
    and limit: "sy_max_width sty < infinite_width" and fits: "fits sty state width tail"
    and column: "same_column (wk_column state) (text_column (fst w))"
  shows "agrees sty [Level plus_indent docs width True] w (state\<lparr>wk_column := wk_column state + width\<rparr>)"
proof -
  let ?flat = "concat (map write_flat docs)"
  note column_limit = fits_limit [OF fits limit]
  then have "width < infinite_width" using limit by simp
  then have flat: "newline \<notin> set ?flat" "width_utf16 ?flat = width"
    using flat_width [OF level] by simp_all
  have reached: "same_column (wk_column state + width) (text_column (fst w @ ?flat))"
    using column flat by (simp add: text_column_append same_column_add)
  from same_column_le [OF reached limit column_limit]
  have "text_column (fst w @ ?flat) \<le> sy_max_width sty" .
  with flat reached show ?thesis by (simp add: agrees_def Let_def)
qed

lemma walks_agrees:
  shows "walks sty d state d' state' \<Longrightarrow> sy_max_width sty < infinite_width \<Longrightarrow> space_indents sty \<Longrightarrow>
      measured d \<Longrightarrow> plain d \<Longrightarrow> same_column (wk_column state) (text_column (fst w)) \<Longrightarrow>
      agrees sty [d'] w state'"
    and "walks_split sty docs state docs' state' \<Longrightarrow> sy_max_width sty < infinite_width \<Longrightarrow> space_indents sty \<Longrightarrow>
      \<forall>d \<in> set docs. measured d \<and> plain d \<Longrightarrow> same_column (wk_column state) (text_column (fst w)) \<Longrightarrow>
      agrees sty docs' w state'"
    and "walks_broken sty at docs state docs' state' \<Longrightarrow> sy_max_width sty < infinite_width \<Longrightarrow> space_indents sty \<Longrightarrow>
      \<forall>d \<in> set (at_docs at @ docs). measured d \<and> plain d \<Longrightarrow>
      same_column (wk_column state) (text_column (fst w)) \<Longrightarrow> agrees sty docs' w state'"
proof (induction arbitrary: w and w and w rule: walks_walks_split_walks_broken.inducts)
  case (flat state width tail plus_indent docs one_line)
  then show ?case by (auto intro: flat_level_agrees)
next
  case (broken docs inner docs' inner' state plus_indent width one_line)
  then have "agrees sty docs' w inner'" by (simp add: at_docs_def measured_level list_all_iff)
  then show ?case by (simp add: agrees_def)
next
  case (split_doc d state d' state1 docs docs' state')
  then have first: "agrees sty [d'] w state1" by simp
  have "agrees sty docs' (fold (write_doc sty) [d'] w) state'"
    by (rule split_doc(4)) (use split_doc agrees_column [OF first] in simp_all)
  with agrees_append [OF first] show ?case by simp
next
  case (last tags at taken state tags' at' state1 split split' state2 must)
  then have at: "agrees sty at' w state1" by (auto intro: decide_at_agrees)
  have "agrees sty split' (fold (write_doc sty) at' w) state2"
    by (rule last(4)) (use last agrees_column [OF at] in simp_all)
  with agrees_append [OF at] show ?case by simp
next
  case (more tags at taken state tags' at' state1 split split' state2 b docs must docs' state')
  then have at: "agrees sty at' w state1" by (auto intro: decide_at_agrees)
  have "agrees sty split' (fold (write_doc sty) at' w) state2"
    by (rule more(4)) (use more agrees_column [OF at] in simp_all)
  with agrees_append [OF at] have upto: "agrees sty (at' @ split') w state2" by simp
  have "agrees sty docs' (fold (write_doc sty) (at' @ split') w) state'"
    by (rule more(6)) (use more agrees_column [OF upto] in \<open>simp_all add: at_docs_def\<close>)
  with agrees_append [OF upto] show ?case by simp
next
  case (gap state)
  then show ?case
    using same_column_add [of "wk_column state" "text_column (fst w)" 1]
    by (simp add: agrees_def text_column_append len_utf16_def)
next
  case (token spelling state)
  then show ?case by (simp add: agrees_def write_raw_def advance_column)
next
  case (tok spelling reindent state)
  then show ?case
    by (simp add: agrees_def write_raw_def write_comment_line advance_column last_line_id trim_end_cr_id)
qed simp

text \<open>C16: 
  The limit is a limit on lines: where indents are spaces and empty lines are not indented, and
  where comments and regions are of one line without a carriage return at the end, every level
  the engine leaves flat is written without a line break and ends within the limit, measured in
  the text that is really written. (With empty lines indented, a blank line in front of a level
  adds its indentation to the line the level stands on.)
\<close>

theorem flat_levels_fit:
  assumes "sy_max_width sty < infinite_width" and "space_indents sty"
    and "plain (Level plus_indent docs width one_line)"
  shows "levels_fit sty (lay_out sty tag_count (Level plus_indent docs width one_line)) ([], 0)"
proof -
  let ?d = "Level plus_indent docs width one_line"
  obtain state where walks: "walks sty (measure_doc ?d) start_walk (lay_out sty tag_count ?d) state"
    by (rule lay_out_walks [OF assms(1)])
  have "plain (measure_doc ?d)" using assms(3) plain_measure by blast
  then have "agrees sty [lay_out sty tag_count ?d] ([], 0) state"
    by (rule walks_agrees(1) [OF walks assms(1,2) measured_measure_doc])
      (simp add: start_walk_def text_column_def last_line_def)
  then show ?thesis by (simp add: agrees_def)
qed

end
