(* ===== verification/Layout_Ops.thy ===== *)
theory Layout_Ops
  imports Layout_Text
begin

text \<open>
  The emission API of \<open>jals-fmt/src/ops.rs\<close>: a builder that turns a stream of calls into a layout
  document. The stack of open levels is a list with the innermost level first; an open level is
  its indent and its contents so far. A flat view of the builder, the leaves written so far, is
  what its operations are specified on.
\<close>

subsection \<open>The builder\<close>

type_synonym open_level = "indent \<times> doc list"

record ops =
  op_stack :: "open_level list"
  op_next_tag :: nat
  op_force_next :: bool
  op_suppressed :: bool

definition level_new :: "indent \<Rightarrow> open_level" where
  "level_new plus_indent = (plus_indent, [])"

definition ops_new :: ops where
  "ops_new = \<lparr>op_stack = [level_new indent_zero], op_next_tag = 0, op_force_next = False,
    op_suppressed = False\<rparr>"

definition set_suppressed :: "bool \<Rightarrow> ops \<Rightarrow> ops" where
  "set_suppressed suppressed st = st\<lparr>op_suppressed := suppressed\<rparr>"

definition open_level :: "indent \<Rightarrow> ops \<Rightarrow> ops" where
  "open_level plus_indent st = st\<lparr>op_stack := level_new plus_indent # op_stack st\<rparr>"

definition close_level :: "ops \<Rightarrow> ops" where
  "close_level st =
     (case op_stack st of
        (plus_indent, docs) # (outer_indent, outer) # rest \<Rightarrow>
          st\<lparr>op_stack := (outer_indent,
            if docs = [] then outer else outer @ [Level plus_indent docs 0 False]) # rest\<rparr>
      | _ \<Rightarrow> st)"

text \<open>\<open>level.docs.push\<close> on the innermost level.\<close>

definition append_doc :: "doc \<Rightarrow> ops \<Rightarrow> ops" where
  "append_doc d st =
     (case op_stack st of
        (plus_indent, docs) # rest \<Rightarrow> st\<lparr>op_stack := (plus_indent, docs @ [d]) # rest\<rparr>
      | [] \<Rightarrow> st)"

definition push_doc :: "doc \<Rightarrow> ops \<Rightarrow> ops" where
  "push_doc d st =
     (if op_suppressed st then st
      else let st' =
             (if op_force_next st \<and> \<not> (is_break d \<or> d = Space)
              then append_doc (Break (break_new Forced [] indent_zero None)) (st\<lparr>op_force_next := False\<rparr>)
              else st)
           in append_doc d st')"

definition level_is_empty :: "ops \<Rightarrow> bool" where
  "level_is_empty st = (case op_stack st of (_, docs) # _ \<Rightarrow> docs = [] | [] \<Rightarrow> False)"

definition ops_is_empty :: "ops \<Rightarrow> bool" where
  "ops_is_empty st = list_all (\<lambda>level. snd level = []) (op_stack st)"

definition emit_token :: "source \<Rightarrow> ops \<Rightarrow> ops" where
  "emit_token spelling st = push_doc (Token spelling) st"

definition emit_space :: "ops \<Rightarrow> ops" where
  "emit_space st = push_doc Space st"

definition emit_comment :: "source \<Rightarrow> ops \<Rightarrow> ops" where
  "emit_comment spelling st = push_doc (Tok spelling True) st"

definition emit_verbatim :: "source \<Rightarrow> ops \<Rightarrow> ops" where
  "emit_verbatim spelling st = push_doc (Tok spelling False) st"

definition new_tag :: "ops \<Rightarrow> break_tag \<times> ops" where
  "new_tag st = (op_next_tag st, st\<lparr>op_next_tag := op_next_tag st + 1\<rparr>)"

definition force_next_break :: "ops \<Rightarrow> ops" where
  "force_next_break st = st\<lparr>op_force_next := True\<rparr>"

definition innermost_written :: "ops \<Rightarrow> doc option" where
  "innermost_written st =
     (case dropWhile (\<lambda>level. snd level = []) (op_stack st) of
        level # _ \<Rightarrow> Some (last (snd level))
      | [] \<Rightarrow> None)"

definition last_is_break :: "ops \<Rightarrow> bool" where
  "last_is_break st = (case innermost_written st of Some d \<Rightarrow> is_break d | None \<Rightarrow> False)"

text \<open>An update of the last document of a level, when that is a break.\<close>

definition raise_last :: "(break_point \<Rightarrow> break_point) \<Rightarrow> doc list \<Rightarrow> doc list" where
  "raise_last f docs =
     (if docs = [] then docs
      else case last docs of Break b \<Rightarrow> butlast docs @ [Break (f b)] | _ \<Rightarrow> docs)"

fun force_last :: "open_level list \<Rightarrow> open_level list" where
  "force_last [] = []"
| "force_last ((plus_indent, docs) # stack) =
     (if docs = [] then (plus_indent, docs) # force_last stack
      else (plus_indent, raise_last (\<lambda>b. b\<lparr>bk_fill := Forced\<rparr>) docs) # stack)"

definition force_last_break :: "ops \<Rightarrow> ops" where
  "force_last_break st = st\<lparr>op_stack := force_last (op_stack st)\<rparr>"

definition raise_innermost :: "(break_point \<Rightarrow> break_point) \<Rightarrow> ops \<Rightarrow> ops" where
  "raise_innermost f st =
     (case op_stack st of
        (plus_indent, docs) # rest \<Rightarrow> st\<lparr>op_stack := (plus_indent, raise_last f docs) # rest\<rparr>
      | [] \<Rightarrow> st)"

definition unify_last_break :: "ops \<Rightarrow> ops" where
  "unify_last_break st =
     raise_innermost (\<lambda>b. if bk_fill b = Independent then b\<lparr>bk_fill := Unified\<rparr> else b) st"

definition brk :: "fill_mode \<Rightarrow> source \<Rightarrow> indent \<Rightarrow> break_tag option \<Rightarrow> ops \<Rightarrow> ops" where
  "brk fill flat plus_indent tag st =
     (let forced = op_force_next st;
          tag' = (if forced then None else tag);
          fill' = (if forced then Forced else fill)
      in push_doc (Break (break_new fill' flat plus_indent tag')) (st\<lparr>op_force_next := False\<rparr>))"

definition break_op :: "indent \<Rightarrow> ops \<Rightarrow> ops" where
  "break_op plus_indent st = brk Unified [space] plus_indent None st"

definition forced_break :: "indent \<Rightarrow> ops \<Rightarrow> ops" where
  "forced_break plus_indent st = brk Forced [] plus_indent None st"

definition blank_lines :: "nat \<Rightarrow> indent \<Rightarrow> ops \<Rightarrow> ops" where
  "blank_lines count plus_indent st =
     push_doc (Break ((break_new Forced [] plus_indent None)\<lparr>bk_blank_lines := count\<rparr>))
       (st\<lparr>op_force_next := False\<rparr>)"

definition ends_in_break :: "ops \<Rightarrow> bool" where
  "ends_in_break st =
     (case op_stack st of (_, docs) # _ \<Rightarrow> docs \<noteq> [] \<and> is_break (last docs) | [] \<Rightarrow> False)"

definition ensure_blank_lines :: "nat \<Rightarrow> indent \<Rightarrow> ops \<Rightarrow> ops" where
  "ensure_blank_lines count plus_indent st =
     (if ends_in_break st
      then raise_innermost
        (\<lambda>b. b\<lparr>bk_fill := Forced, bk_blank_lines := max (bk_blank_lines b) count\<rparr>) st
      else if level_is_empty st then st
      else blank_lines count plus_indent st)"

lemma close_level_shrinks:
  "1 < length (op_stack st) \<Longrightarrow> length (op_stack (close_level st)) < length (op_stack st)"
  by (auto simp: close_level_def split: list.splits)

function close_all :: "ops \<Rightarrow> ops" where
  "close_all st = (if length (op_stack st) > 1 then close_all (close_level st) else st)"
  by pat_completeness auto

termination
  by (relation "measure (\<lambda>st. length (op_stack st))") (simp_all add: close_level_shrinks)

declare close_all.simps [simp del]

definition finish :: "ops \<Rightarrow> doc \<times> nat" where
  "finish st =
     (let closed = close_all st;
          (plus_indent, docs) = (case op_stack closed of level # _ \<Rightarrow> level | [] \<Rightarrow> level_new indent_zero)
      in (Level plus_indent docs 0 False, op_next_tag closed))"

subsection \<open>Emission calls\<close>

text \<open>What a visitor may ask of the builder, and a run of such calls.\<close>

datatype call =
    Open_Level indent
  | Close_Level
  | Emit_Token source
  | Emit_Space
  | Emit_Comment source
  | Emit_Verbatim source
  | Emit_Break fill_mode source indent "break_tag option"
  | Emit_Blank_Lines nat indent
  | Ensure_Blank_Lines nat indent
  | New_Tag
  | Force_Next_Break
  | Force_Last_Break
  | Unify_Last_Break
  | Set_Suppressed bool

fun perform :: "call \<Rightarrow> ops \<Rightarrow> ops" where
  "perform (Open_Level plus_indent) st = open_level plus_indent st"
| "perform Close_Level st = close_level st"
| "perform (Emit_Token spelling) st = emit_token spelling st"
| "perform Emit_Space st = emit_space st"
| "perform (Emit_Comment spelling) st = emit_comment spelling st"
| "perform (Emit_Verbatim spelling) st = emit_verbatim spelling st"
| "perform (Emit_Break fill flat plus_indent tag) st = brk fill flat plus_indent tag st"
| "perform (Emit_Blank_Lines count plus_indent) st = blank_lines count plus_indent st"
| "perform (Ensure_Blank_Lines count plus_indent) st = ensure_blank_lines count plus_indent st"
| "perform New_Tag st = snd (new_tag st)"
| "perform Force_Next_Break st = force_next_break st"
| "perform Force_Last_Break st = force_last_break st"
| "perform Unify_Last_Break st = unify_last_break st"
| "perform (Set_Suppressed suppressed) st = set_suppressed suppressed st"

definition emit :: "call list \<Rightarrow> doc \<times> nat" where
  "emit calls = finish (fold perform calls ops_new)"

end
