(* ===== verification/Layout_Emission.thy ===== *)
theory Layout_Emission
  imports Layout_Ops
begin

text \<open>
  The builder specified on the leaves it has written: every call appends to them, or raises the
  last break among them. What a run of calls emits, and that line comments are closed by a
  forced break, follows on that flat view.
\<close>

definition level_leaves :: "open_level \<Rightarrow> doc list" where
  "level_leaves level = concat (map leaves (snd level))"

definition written :: "ops \<Rightarrow> doc list" where
  "written st = concat (map level_leaves (rev (op_stack st)))"

text \<open>Raising the last break, never lowering a forced one.\<close>

definition raised :: "doc list \<Rightarrow> doc list \<Rightarrow> bool" where
  "raised ls ls' \<longleftrightarrow> ls' = ls \<or>
     (\<exists>xs b b'. ls = xs @ [Break b] \<and> ls' = xs @ [Break b'] \<and>
        (is_forced b \<longrightarrow> is_forced b') \<and> bk_flat b' = bk_flat b)"

lemma raised_refl [simp]: "raised ls ls"
  by (simp add: raised_def)

definition pad :: "ops \<Rightarrow> doc list" where
  "pad st = (if op_force_next st then [Break (break_new Forced [] indent_zero None)] else [])"

text \<open>The leaves a call appends.\<close>

fun produced :: "call \<Rightarrow> ops \<Rightarrow> doc list" where
  "produced (Emit_Token spelling) st = pad st @ [Token spelling]"
| "produced Emit_Space st = [Space]"
| "produced (Emit_Comment spelling) st = pad st @ [Tok spelling True]"
| "produced (Emit_Verbatim spelling) st = pad st @ [Tok spelling False]"
| "produced (Emit_Break fill flat plus_indent tag) st =
     [Break (break_new (if op_force_next st then Forced else fill) flat plus_indent
       (if op_force_next st then None else tag))]"
| "produced (Emit_Blank_Lines count plus_indent) st =
     [Break ((break_new Forced [] plus_indent None)\<lparr>bk_blank_lines := count\<rparr>)]"
| "produced (Ensure_Blank_Lines count plus_indent) st =
     (if ends_in_break st \<or> level_is_empty st then []
      else [Break ((break_new Forced [] plus_indent None)\<lparr>bk_blank_lines := count\<rparr>)])"
| "produced c st = []"

lemma written_update [simp]:
  "written (st\<lparr>op_force_next := f\<rparr>) = written st"
  "written (st\<lparr>op_suppressed := s\<rparr>) = written st"
  "written (st\<lparr>op_next_tag := n\<rparr>) = written st"
  by (simp_all add: written_def)

lemma stack_cases:
  assumes "op_stack st \<noteq> []"
  obtains plus_indent docs rest where "op_stack st = (plus_indent, docs) # rest"
  using assms by (metis list.exhaust surj_pair)

lemma written_append_doc:
  "op_stack st \<noteq> [] \<Longrightarrow> written (append_doc d st) = written st @ leaves d"
  by (erule stack_cases) (simp add: append_doc_def written_def level_leaves_def)

lemma append_doc_stack [simp]: "op_stack (append_doc d st) = [] \<longleftrightarrow> op_stack st = []"
  by (auto simp: append_doc_def split: list.splits)

lemma written_open [simp]: "written (open_level plus_indent st) = written st"
  by (simp add: open_level_def level_new_def written_def level_leaves_def)

lemma written_close [simp]: "written (close_level st) = written st"
  by (auto simp: close_level_def written_def level_leaves_def split: list.splits)

lemma written_push_doc:
  assumes "op_stack st \<noteq> []"
  shows "written (push_doc d st) = written st @
    (if op_suppressed st then [] else (if is_break d \<or> d = Space then [] else pad st) @ leaves d)"
  using assms by (auto simp: push_doc_def pad_def written_append_doc)

lemma raise_last_leaves:
  assumes "\<And>b. is_forced b \<Longrightarrow> is_forced (f b)" and "\<And>b. bk_flat (f b) = bk_flat b"
  shows "raised (xs @ concat (map leaves docs)) (xs @ concat (map leaves (raise_last f docs)))"
proof (cases docs rule: rev_cases)
  case (snoc ds d)
  show ?thesis
  proof (cases d)
    case (Break b)
    have "xs @ concat (map leaves docs) = (xs @ concat (map leaves ds)) @ [Break b]"
        "xs @ concat (map leaves (raise_last f docs)) = (xs @ concat (map leaves ds)) @ [Break (f b)]"
      using snoc Break by (simp_all add: raise_last_def)
    then show ?thesis using assms unfolding raised_def by metis
  qed (use snoc in \<open>simp_all add: raise_last_def\<close>)
qed (simp add: raise_last_def)

lemma raised_innermost:
  assumes "\<And>b. is_forced b \<Longrightarrow> is_forced (f b)" and "\<And>b. bk_flat (f b) = bk_flat b"
  shows "raised (written st) (written (raise_innermost f st))"
proof (cases "op_stack st")
  case (Cons level rest)
  then show ?thesis
    using raise_last_leaves [OF assms]
    by (cases level) (simp add: raise_innermost_def written_def level_leaves_def)
qed (simp add: raise_innermost_def)

lemma raised_force_last:
  "raised (concat (map level_leaves (rev stack))) (concat (map level_leaves (rev (force_last stack))))"
proof (induction stack rule: force_last.induct)
  case (2 plus_indent docs stack)
  then show ?case
    by (auto simp: level_leaves_def is_forced_def intro!: raise_last_leaves)
qed simp

lemma raised_force_last_break: "raised (written st) (written (force_last_break st))"
  using raised_force_last [of "op_stack st"] by (simp add: force_last_break_def written_def)

text \<open>The specification of a call.\<close>

lemma perform_written:
  assumes "op_stack st \<noteq> []"
  obtains ls where "raised (written st) ls"
    "written (perform c st) = ls @ (if op_suppressed st then [] else produced c st)"
proof -
  have "\<exists>ls. raised (written st) ls \<and>
      written (perform c st) = ls @ (if op_suppressed st then [] else produced c st)"
  proof (cases c)
    case Force_Last_Break
    then show ?thesis using raised_force_last_break by auto
  next
    case Unify_Last_Break
    then show ?thesis
      by (auto simp: unify_last_break_def is_forced_def intro!: raised_innermost)
  next
    case (Ensure_Blank_Lines count plus_indent)
    then show ?thesis
      using assms
      by (auto simp: ensure_blank_lines_def blank_lines_def written_push_doc is_forced_def
          intro!: raised_innermost exI [of _ "written st"])
  qed (use assms in \<open>auto simp: emit_token_def emit_space_def emit_comment_def emit_verbatim_def
      brk_def blank_lines_def new_tag_def force_next_break_def set_suppressed_def written_push_doc Let_def
      intro!: exI [of _ "written st"]\<close>)
  with that show ?thesis by blast
qed


lemma perform_stack: "op_stack st \<noteq> [] \<Longrightarrow> op_stack (perform c st) \<noteq> []"
proof -
  have force: "force_last stack = [] \<longleftrightarrow> stack = []" for stack
    by (induction stack rule: force_last.induct) simp_all
  assume "op_stack st \<noteq> []"
  then show ?thesis
    by (cases c) (auto simp: force open_level_def close_level_def emit_token_def emit_space_def
        emit_comment_def emit_verbatim_def brk_def blank_lines_def ensure_blank_lines_def new_tag_def
        force_next_break_def force_last_break_def unify_last_break_def raise_innermost_def
        set_suppressed_def push_doc_def Let_def split: list.splits)
qed

definition still_suppressed :: "bool \<Rightarrow> call \<Rightarrow> bool" where
  "still_suppressed suppressed c = (case c of Set_Suppressed s \<Rightarrow> s | _ \<Rightarrow> suppressed)"

lemma perform_suppressed:
  "op_suppressed (perform c st) = still_suppressed (op_suppressed st) c"
  by (cases c) (auto simp: still_suppressed_def open_level_def close_level_def emit_token_def
      emit_space_def emit_comment_def emit_verbatim_def brk_def blank_lines_def ensure_blank_lines_def
      new_tag_def force_next_break_def force_last_break_def unify_last_break_def raise_innermost_def
      set_suppressed_def push_doc_def append_doc_def Let_def split: list.splits)

subsection \<open>Finishing\<close>

lemma written_close_all [simp]: "written (close_all st) = written st"
  by (induction st rule: close_all.induct) (subst close_all.simps, simp)

lemma close_all_stack:
  "op_stack st \<noteq> [] \<Longrightarrow> \<exists>level. op_stack (close_all st) = [level]"
proof (induction st rule: close_all.induct)
  case (1 st)
  show ?case
  proof (cases "length (op_stack st) > 1")
    case True
    have "op_stack (close_level st) \<noteq> []" using perform_stack [of st Close_Level] 1(2) by simp
    with 1(1) [OF True] True show ?thesis by (subst close_all.simps) simp
  next
    case False
    with 1(2) show ?thesis by (subst close_all.simps) (cases "op_stack st"; simp)
  qed
qed

lemma finish_leaves:
  assumes "op_stack st \<noteq> []"
  obtains plus_indent docs where "fst (finish st) = Level plus_indent docs 0 False"
    "leaves (fst (finish st)) = written st"
proof -
  obtain level where level: "op_stack (close_all st) = [level]"
    using close_all_stack [OF assms] by blast
  then have "written st = level_leaves level"
    using written_close_all [of st] by (simp add: written_def)
  with level that show ?thesis
    by (cases level) (simp add: finish_def Let_def level_leaves_def)
qed

lemma run_stack: "op_stack st \<noteq> [] \<Longrightarrow> op_stack (fold perform calls st) \<noteq> []"
  by (induction calls arbitrary: st) (simp_all add: perform_stack)

lemma ops_new_simps [simp]: "op_stack ops_new \<noteq> []" "written ops_new = []" "\<not> op_suppressed ops_new"
  by (simp_all add: ops_new_def level_new_def written_def level_leaves_def)

subsection \<open>What a run emits\<close>

fun significant :: "doc \<Rightarrow> bool" where
  "significant (Token spelling) = True"
| "significant (Tok spelling reindent) = True"
| "significant d = False"

text \<open>The tokens, comments and regions of the calls that are not suppressed, in order.\<close>

fun emitted :: "bool \<Rightarrow> call list \<Rightarrow> doc list" where
  "emitted suppressed [] = []"
| "emitted suppressed (c # calls) =
     (if suppressed then []
      else case c of
          Emit_Token spelling \<Rightarrow> [Token spelling]
        | Emit_Comment spelling \<Rightarrow> [Tok spelling True]
        | Emit_Verbatim spelling \<Rightarrow> [Tok spelling False]
        | _ \<Rightarrow> []) @
     emitted (still_suppressed suppressed c) calls"

lemma raised_significant: "raised ls ls' \<Longrightarrow> filter significant ls' = filter significant ls"
  by (auto simp: raised_def)

lemma produced_significant: "filter significant (produced c st) = emitted False [c]"
  by (cases c) (simp_all add: pad_def)

lemma run_emitted:
  "op_stack st \<noteq> [] \<Longrightarrow> filter significant (written (fold perform calls st)) =
    filter significant (written st) @ emitted (op_suppressed st) calls"
proof (induction calls arbitrary: st)
  case (Cons c calls)
  obtain ls where "raised (written st) ls"
      "written (perform c st) = ls @ (if op_suppressed st then [] else produced c st)"
    using perform_written [OF Cons.prems] .
  then have "filter significant (written (perform c st)) =
      filter significant (written st) @ (if op_suppressed st then [] else emitted False [c])"
    by (simp add: raised_significant produced_significant)
  with Cons.IH [of "perform c st"] Cons.prems show ?case
    by (simp add: perform_stack perform_suppressed)
qed simp

lemma emit_leaves:
  obtains plus_indent docs where "fst (emit calls) = Level plus_indent docs 0 False"
    "leaves (fst (emit calls)) = written (fold perform calls ops_new)"
  using finish_leaves [OF run_stack [OF ops_new_simps(1)]] unfolding emit_def by metis

lemma emit_emitted: "filter significant (leaves (fst (emit calls))) = emitted False calls"
  by (rule emit_leaves [of calls]) (simp add: run_emitted)

text \<open>Breaks whose flat text is blank.\<close>

fun blank_break :: "doc \<Rightarrow> bool" where
  "blank_break (Break b) = blank (bk_flat b)"
| "blank_break d = True"

fun blank_call :: "call \<Rightarrow> bool" where
  "blank_call (Emit_Break fill flat plus_indent tag) = blank flat"
| "blank_call c = True"

lemma run_blank:
  "op_stack st \<noteq> [] \<Longrightarrow> list_all blank_call calls \<Longrightarrow> list_all blank_break (written st) \<Longrightarrow>
    list_all blank_break (written (fold perform calls st))"
proof (induction calls arbitrary: st)
  case (Cons c calls)
  obtain ls where ls: "raised (written st) ls"
      "written (perform c st) = ls @ (if op_suppressed st then [] else produced c st)"
    using perform_written [OF Cons.prems(1)] .
  have "list_all blank_break ls" using ls(1) Cons.prems(3) by (auto simp: raised_def)
  moreover have "list_all blank_break (produced c st)"
    using Cons.prems(2) by (cases c) (auto simp: pad_def break_new_def)
  ultimately show ?case
    using Cons ls(2) by (simp add: perform_stack)
qed simp

lemma emit_blank:
  "list_all blank_call calls \<Longrightarrow> list_all blank_break (leaves (fst (emit calls)))"
  by (rule emit_leaves [of calls]) (simp add: run_blank)

text \<open>What is visible of the text is what was emitted.\<close>

lemma pieces_visible:
  "list_all2 piece_of ls pieces \<Longrightarrow> list_all blank_break ls \<Longrightarrow>
    visible (concat pieces) = concat (map (\<lambda>d. visible (write_flat d)) (filter significant ls))"
proof (induction rule: list_all2_induct)
  case (Cons d ls piece pieces)
  then show ?case
    by (cases d) (auto simp: line_start_def visible_blank [THEN iffD2] split: if_splits)
qed simp

lemma emit_render_visible:
  assumes "sy_max_width sty < infinite_width" and "list_all blank_call calls"
  shows "visible (render sty (snd (emit calls)) (fst (emit calls))) =
    concat (map (\<lambda>d. visible (write_flat d)) (emitted False calls))"
proof -
  obtain plus_indent docs where d: "fst (emit calls) = Level plus_indent docs 0 False"
    using emit_leaves by metis
  obtain pieces where "render sty (snd (emit calls)) (fst (emit calls)) = concat pieces"
      "list_all2 piece_of (leaves (fst (emit calls))) pieces"
    using render_pieces [OF assms(1)] unfolding d by metis
  then show ?thesis
    using pieces_visible emit_blank [OF assms(2)] emit_emitted by metis
qed

end
