(* ===== verification/Layout_Line_Comments.thy ===== *)
theory Layout_Line_Comments
  imports Layout_Emission
begin

text \<open>
  Line comments are closed: a comment or region whose last line is a line comment would swallow
  what follows it on the same line. When the visitor asks for a forced break after each of them,
  as \<open>emit_comment\<close> and \<open>in_disabled_region\<close> do, the builder puts a forced break before whatever
  is written next, and the engine and the writer turn it into a line break.
\<close>

















subsection \<open>Line comments in the text\<close>





end
