(* ===== verification/Layout_Finalize.thy ===== *)
theory Layout_Finalize
  imports Layout_Emission
begin

text \<open>
  The finalization of \<open>jals-fmt/src/passes/finalize.rs\<close>, which trims the rendered text line by
  line, writes the configured terminator and settles the final newline; the terminator is
  resolved as in \<open>jals-config/src/fmt/layout.rs\<close>.
\<close>

subsection \<open>The terminator\<close>

datatype line_ending = Lf | Crlf | Auto | Native

text \<open>Whether the host is Windows is fixed when the program is compiled.\<close>

definition native_terminator :: "bool \<Rightarrow> source" where
  "native_terminator windows = (if windows then [carriage_return, newline] else [newline])"

definition detect_terminator :: "bool \<Rightarrow> source \<Rightarrow> source" where
  "detect_terminator windows src =
     (if newline \<in> set src then
        let before = takeWhile (\<lambda>c. c \<noteq> newline) src in
        if before \<noteq> [] \<and> last before = carriage_return then [carriage_return, newline] else [newline]
      else native_terminator windows)"

fun resolve_terminator :: "bool \<Rightarrow> line_ending \<Rightarrow> source \<Rightarrow> source" where
  "resolve_terminator windows Lf src = [newline]"
| "resolve_terminator windows Crlf src = [carriage_return, newline]"
| "resolve_terminator windows Native src = native_terminator windows"
| "resolve_terminator windows Auto src = detect_terminator windows src"

subsection \<open>Lines\<close>

definition trim_end_by :: "(nat \<Rightarrow> bool) \<Rightarrow> source \<Rightarrow> source" where
  "trim_end_by P s = rev (dropWhile P (rev s))"

definition is_blank :: "nat \<Rightarrow> bool" where
  "is_blank c \<longleftrightarrow> c = space \<or> c = tab"

definition ends_text :: "nat \<Rightarrow> bool" where
  "ends_text c \<longleftrightarrow> c = newline \<or> c = carriage_return \<or> is_blank c"

definition kept_line :: "style \<Rightarrow> source \<Rightarrow> source" where
  "kept_line sty raw =
     (let line = trim_end_cr raw in
      if sy_trim_trailing_whitespace sty then trim_end_by is_blank line
      else if sy_indent_empty_lines sty then line
      else if list_all is_blank line then [] else line)"

fun join_lines :: "source \<Rightarrow> source list \<Rightarrow> source" where
  "join_lines terminator [] = []"
| "join_lines terminator [line] = line"
| "join_lines terminator (line # lines) = line @ terminator @ join_lines terminator lines"

definition finalize :: "style \<Rightarrow> source \<Rightarrow> source \<Rightarrow> source" where
  "finalize sty rendered src =
     (let body = trim_end_by ends_text rendered;
          out = join_lines (sy_newline sty) (map (kept_line sty) (split_lines body))
      in if (sy_insert_final_newline sty \<or> src \<noteq> [] \<and> last src = newline) \<and> out \<noteq> []
         then out @ sy_newline sty else out)"

subsection \<open>Trimming\<close>

lemma trim_end_cr_by: "trim_end_cr = trim_end_by (\<lambda>c. c = carriage_return)"
  by (simp add: trim_end_cr_def trim_end_by_def fun_eq_iff)

lemma trim_end_by_split:
  obtains rest where "s = trim_end_by P s @ rest" "list_all P rest"
proof -
  have "rev s = takeWhile P (rev s) @ dropWhile P (rev s)" by simp
  then have "s = trim_end_by P s @ rev (takeWhile P (rev s))"
    unfolding trim_end_by_def by (metis rev_append rev_rev_ident)
  moreover have "list_all P (rev (takeWhile P (rev s)))"
    by (auto simp: list_all_iff dest: set_takeWhileD)
  ultimately show ?thesis using that by blast
qed

lemma trim_end_by_last: "trim_end_by P s \<noteq> [] \<Longrightarrow> \<not> P (last (trim_end_by P s))"
  unfolding trim_end_by_def by (metis hd_dropWhile last_rev rev_is_Nil_conv)

lemma trim_end_by_id: "s = [] \<or> \<not> P (last s) \<Longrightarrow> trim_end_by P s = s"
  by (cases s rule: rev_cases) (auto simp: trim_end_by_def)

lemma trim_end_by_append: "list_all P t \<Longrightarrow> trim_end_by P (s @ t) = trim_end_by P s"
  by (induction t rule: rev_induct) (auto simp: trim_end_by_def simp flip: append_assoc)

lemma visible_trim_end_by:
  assumes "\<And>c. P c \<Longrightarrow> is_whitespace c" shows "visible (trim_end_by P s) = visible s"
proof -
  obtain rest where rest: "s = trim_end_by P s @ rest" "list_all P rest" by (rule trim_end_by_split)
  then have "visible rest = []" using assms by (auto simp: visible_blank blank_def list_all_iff)
  with arg_cong [OF rest(1), of visible] show ?thesis by simp
qed

lemma whitespace_is_blank: "is_blank c \<Longrightarrow> is_whitespace c" "ends_text c \<Longrightarrow> is_whitespace c"
  by (auto simp: is_blank_def ends_text_def)

subsection \<open>What finalizing keeps\<close>

lemma visible_kept_line: "visible (kept_line sty line) = visible line"
proof -
  have "visible (trim_end_cr line) = []" if "list_all is_blank (trim_end_cr line)"
    using that whitespace_is_blank(1) by (simp only: visible_blank) (auto simp: blank_def list_all_iff)
  then show ?thesis
    by (auto simp: kept_line_def Let_def visible_trim_end_by whitespace_is_blank(1))
qed

lemma visible_join_lines:
  "blank terminator \<Longrightarrow> visible (join_lines terminator lines) = concat (map visible lines)"
  by (induction terminator lines rule: join_lines.induct) (simp_all add: visible_blank [THEN iffD2])

lemma finalize_visible:
  assumes "blank (sy_newline sty)"
  shows "visible (finalize sty rendered src) = visible rendered"
proof -
  have "concat (map visible (map (kept_line sty) (split_lines body))) = visible body" for body
    using split_lines_visible by (simp add: comp_def visible_kept_line)
  with assms show ?thesis
    by (simp add: finalize_def Let_def visible_join_lines visible_blank [THEN iffD2]
        visible_trim_end_by whitespace_is_blank(2))
qed

lemma resolve_terminator_cases:
  "resolve_terminator windows ending src \<in> {[newline], [carriage_return, newline]}"
  by (cases ending) (simp_all add: native_terminator_def detect_terminator_def Let_def)

lemma blank_terminator: "blank (resolve_terminator windows ending src)"
  using resolve_terminator_cases [of windows ending src] by auto


subsection \<open>Finalizing again\<close>

text \<open>Carriage returns stand before line breaks: no blank follows one.\<close>

fun no_blank_after_cr :: "source \<Rightarrow> bool" where
  "no_blank_after_cr (c # d # s) = ((c = carriage_return \<longrightarrow> \<not> is_blank d) \<and> no_blank_after_cr (d # s))"
| "no_blank_after_cr s = True"

lemma no_blank_after_cr_append:
  "no_blank_after_cr (s @ t) \<Longrightarrow> no_blank_after_cr s" "no_blank_after_cr (s @ t) \<Longrightarrow> no_blank_after_cr t"
proof -
  show "no_blank_after_cr (s @ t) \<Longrightarrow> no_blank_after_cr s"
    by (induction s rule: no_blank_after_cr.induct) auto
  have "no_blank_after_cr (c # t) \<Longrightarrow> no_blank_after_cr t" for c t
    by (cases t) simp_all
  then show "no_blank_after_cr (s @ t) \<Longrightarrow> no_blank_after_cr t"
    by (induction s) auto
qed

lemma no_blank_after_cr_inner:
  "no_blank_after_cr (s @ c # d # t) \<Longrightarrow> is_blank d \<Longrightarrow> c \<noteq> carriage_return"
  using no_blank_after_cr_append(2) [of s "c # d # t"] by auto

lemma split_lines_line: "newline \<notin> set line \<Longrightarrow> split_lines line = [line]"
  by (induction line) auto

lemma split_lines_break:
  "newline \<notin> set line \<Longrightarrow> split_lines (line @ newline # s) = line # split_lines s"
  by (induction line) auto

lemma split_lines_free: "line \<in> set (split_lines s) \<Longrightarrow> newline \<notin> set line"
  by (induction s arbitrary: line) (auto split: if_splits list.splits)

lemma join_Cons: "lines \<noteq> [] \<Longrightarrow> join_lines terminator (line # lines) = line @ terminator @ join_lines terminator lines"
  by (cases lines) simp_all

lemma join_split_lines: "join_lines [newline] (split_lines s) = s"
proof (induction s)
  case (Cons c s)
  obtain line lines where "split_lines s = line # lines" by (cases "split_lines s") simp_all
  with Cons show ?case by (cases lines) auto
qed simp

lemma split_join_lines:
  assumes "lines \<noteq> []" and "\<forall>line \<in> set lines. newline \<notin> set line" and "newline \<notin> set cr"
  shows "split_lines (join_lines (cr @ [newline]) lines) =
    map (\<lambda>line. line @ cr) (butlast lines) @ [last lines]"
  using assms
proof (induction lines rule: induct_list012)
  case (3 line next_line lines)
  then show ?case using split_lines_break [of "line @ cr"] by simp
qed (simp_all add: split_lines_line)

lemma join_lines_infix: "line \<in> set lines \<Longrightarrow> \<exists>a b. join_lines terminator lines = a @ line @ b"
proof (induction terminator lines rule: join_lines.induct)
  case (3 terminator first second lines)
  show ?case
  proof (cases "line = first")
    case False
    with 3 obtain a b where "join_lines terminator (second # lines) = a @ line @ b" by auto
    then show ?thesis by (intro exI [of _ "first @ terminator @ a"] exI [of _ b]) simp
  qed (metis append_Nil join_lines.simps(3))
next
  case (2 terminator only)
  then show ?case by (intro exI [of _ "[]"]) simp
qed simp

lemma kept_line_no_cr:
  assumes "no_blank_after_cr raw" and "kept_line sty raw \<noteq> []"
  shows "last (kept_line sty raw) \<noteq> carriage_return"
proof -
  let ?line = "trim_end_cr raw"
  have line: "last ?line \<noteq> carriage_return" if "?line \<noteq> []"
    using trim_end_by_last [of "\<lambda>c. c = carriage_return" raw] that by (simp add: trim_end_cr_by)
  obtain crs where "raw = ?line @ crs"
    using trim_end_by_split [of raw] unfolding trim_end_cr_by by blast
  then have safe: "no_blank_after_cr ?line" using assms(1) no_blank_after_cr_append(1) by metis
  obtain rest where rest: "?line = trim_end_by is_blank ?line @ rest" "list_all is_blank rest"
    by (rule trim_end_by_split)
  have "last (trim_end_by is_blank ?line) \<noteq> carriage_return" if k: "trim_end_by is_blank ?line \<noteq> []"
  proof (cases rest)
    case (Cons d t)
    obtain k c where kc: "trim_end_by is_blank ?line = k @ [c]" using k by (metis rev_exhaust)
    with Cons rest have "no_blank_after_cr (k @ c # d # t)" "is_blank d" using safe by auto
    with kc show ?thesis using no_blank_after_cr_inner by simp
  qed (use rest line k in auto)
  then show ?thesis using line assms(2) by (auto simp: kept_line_def Let_def split: if_splits)
qed

lemma kept_line_again:
  assumes "no_blank_after_cr raw" and "cr \<in> {[], [carriage_return]}"
  shows "kept_line sty (kept_line sty raw @ cr) = kept_line sty raw"
proof -
  let ?kept = "kept_line sty raw"
  have "trim_end_cr (?kept @ cr) = trim_end_cr ?kept"
    using assms(2) unfolding trim_end_cr_by by (intro trim_end_by_append) auto
  also have "\<dots> = ?kept"
    using kept_line_no_cr [OF assms(1)] unfolding trim_end_cr_by by (intro trim_end_by_id) auto
  finally have "kept_line sty (?kept @ cr) =
    (if sy_trim_trailing_whitespace sty then trim_end_by is_blank ?kept
     else if sy_indent_empty_lines sty then ?kept else if list_all is_blank ?kept then [] else ?kept)"
    by (simp add: kept_line_def [of sty "?kept @ cr"])
  then show ?thesis
    using trim_end_by_last [of is_blank "trim_end_cr raw"]
    by (auto simp: kept_line_def Let_def intro: trim_end_by_id)
qed


lemma join_lines_last:
  "lines \<noteq> [] \<Longrightarrow> last lines \<noteq> [] \<Longrightarrow>
    join_lines terminator lines \<noteq> [] \<and> last (join_lines terminator lines) = last (last lines)"
  by (induction terminator lines rule: join_lines.induct) (auto split: if_splits)

lemma split_lines_last:
  assumes "s \<noteq> []" and "last s \<noteq> newline"
  shows "last (split_lines s) \<noteq> [] \<and> last (last (split_lines s)) = last s"
proof -
  have "join_lines [newline] lines = [] \<or> last (join_lines [newline] lines) = newline"
    if "lines \<noteq> []" "last lines = []" for lines
    using that by (induction "[newline]" lines rule: join_lines.induct) (auto split: if_splits)
  then show ?thesis
    using assms join_lines_last [of "split_lines s"] join_split_lines [of s] split_lines_not_Nil [of s]
    by metis
qed

lemma resolve_again:
  assumes "resolve_terminator windows ending src = cr @ [newline]"
    and "newline \<notin> set line" and "line \<noteq> [] \<Longrightarrow> last line \<noteq> carriage_return"
  shows "resolve_terminator windows ending (line @ cr @ newline # rest) = cr @ [newline]"
proof (cases ending)
  case Auto
  have cr: "cr \<in> {[], [carriage_return]}"
    using resolve_terminator_cases [of windows ending src] assms(1) by (cases cr) auto
  then have "takeWhile (\<lambda>c. c \<noteq> newline) (line @ cr @ newline # rest) = line @ cr"
    using assms(2) by (auto simp: takeWhile_append takeWhile_eq_all_conv)
  with Auto cr assms(3) show ?thesis
    by (auto simp: detect_terminator_def Let_def)
qed (use assms in auto)

text \<open>The lines of the finalized text, before they are joined.\<close>

definition body_lines :: "style \<Rightarrow> source \<Rightarrow> source list" where
  "body_lines sty rendered = map (kept_line sty) (split_lines (trim_end_by ends_text rendered))"

lemma kept_line_subset: "set (kept_line sty line) \<subseteq> set line"
proof -
  have "set (trim_end_by P s) \<subseteq> set s" for P s
    by (auto simp: trim_end_by_def dest: set_dropWhileD)
  then show ?thesis
    unfolding kept_line_def Let_def trim_end_cr_by by (auto split: if_splits) blast+
qed

lemma body_lines_last:
  "body_lines sty rendered = [[]] \<or>
    last (body_lines sty rendered) \<noteq> [] \<and> \<not> ends_text (last (last (body_lines sty rendered)))"
proof (cases "trim_end_by ends_text rendered = []")
  case False
  let ?body = "trim_end_by ends_text rendered"
  let ?z = "last (split_lines ?body)"
  have body: "\<not> ends_text (last ?body)" using trim_end_by_last False .
  then have z: "?z \<noteq> []" "last ?z = last ?body"
    using split_lines_last [OF False] by (auto simp: ends_text_def)
  have "trim_end_cr ?z = ?z" "trim_end_by is_blank ?z = ?z"
    using z body unfolding trim_end_cr_by by (auto simp: ends_text_def intro!: trim_end_by_id)
  moreover have "\<not> list_all is_blank ?z"
    using z body last_in_set [of ?z] by (auto simp: ends_text_def list_all_iff)
  ultimately have "kept_line sty ?z = ?z" by (simp add: kept_line_def Let_def)
  then show ?thesis using z body by (simp add: body_lines_def last_map)
next
  case True
  then have "body_lines sty rendered = [[]]"
    by (simp add: body_lines_def kept_line_def trim_end_cr_by trim_end_by_id [of "[]"])
  then show ?thesis ..
qed

lemma body_lines_kept:
  assumes safe: "no_blank_after_cr rendered" and line: "line \<in> set (body_lines sty rendered)"
  shows "newline \<notin> set line" and "line \<noteq> [] \<Longrightarrow> last line \<noteq> carriage_return"
    and "cr \<in> {[], [carriage_return]} \<Longrightarrow> kept_line sty (line @ cr) = line"
proof -
  obtain raw where raw: "raw \<in> set (split_lines (trim_end_by ends_text rendered))"
      "line = kept_line sty raw"
    using line by (auto simp: body_lines_def)
  obtain a b rest where "trim_end_by ends_text rendered = a @ raw @ b"
      "rendered = trim_end_by ends_text rendered @ rest"
    using join_lines_infix [OF raw(1), of "[newline]"] trim_end_by_split [of rendered ends_text]
    unfolding join_split_lines by metis
  then have "no_blank_after_cr raw" using safe no_blank_after_cr_append by metis
  then show "line \<noteq> [] \<Longrightarrow> last line \<noteq> carriage_return"
    "cr \<in> {[], [carriage_return]} \<Longrightarrow> kept_line sty (line @ cr) = line"
    using raw(2) kept_line_no_cr kept_line_again by blast+
  show "newline \<notin> set line"
    using split_lines_free [OF raw(1)] kept_line_subset raw(2) by blast
qed

lemma body_lines_join:
  assumes safe: "no_blank_after_cr rendered" and cr: "cr \<in> {[], [carriage_return]}"
    and ends: "list_all ends_text rest"
  shows "body_lines sty (join_lines (cr @ [newline]) (body_lines sty rendered) @ rest) =
    body_lines sty rendered"
proof -
  let ?lines = "body_lines sty rendered"
  let ?out = "join_lines (cr @ [newline]) ?lines"
  have nonempty: "?lines \<noteq> []" by (simp add: body_lines_def)
  have "?out = [] \<or> \<not> ends_text (last ?out)"
    using body_lines_last [of sty rendered] join_lines_last [OF nonempty, of "cr @ [newline]"] by auto
  then have "trim_end_by ends_text (?out @ rest) = ?out"
    using trim_end_by_append [OF ends] trim_end_by_id by metis
  moreover have "split_lines ?out = map (\<lambda>line. line @ cr) (butlast ?lines) @ [last ?lines]"
    by (rule split_join_lines [OF nonempty]) (use body_lines_kept(1) [OF safe] cr in auto)
  moreover have "map (\<lambda>line. kept_line sty (line @ cr)) (butlast ?lines) = butlast ?lines"
    using body_lines_kept(3) [OF safe _ cr] by (intro map_idI) (blast dest: in_set_butlastD)
  moreover have "kept_line sty (last ?lines) = last ?lines"
    using body_lines_kept(3) [OF safe _ , of _ sty "[]"] nonempty by simp
  ultimately show ?thesis
    using nonempty by (simp add: body_lines_def [of sty "?out @ rest"] comp_def)
qed

lemma finalize_lines:
  "finalize sty rendered src =
    (let out = join_lines (sy_newline sty) (body_lines sty rendered) in
     if (sy_insert_final_newline sty \<or> src \<noteq> [] \<and> last src = newline) \<and> out \<noteq> []
     then out @ sy_newline sty else out)"
  by (simp add: finalize_def body_lines_def Let_def)

lemma body_lines_newline [simp]: "body_lines (sty\<lparr>sy_newline := terminator\<rparr>) rendered = body_lines sty rendered"
proof -
  have "kept_line (sty\<lparr>sy_newline := terminator\<rparr>) = kept_line sty"
    by (simp add: kept_line_def fun_eq_iff cong del: if_weak_cong let_weak_cong)
  then show ?thesis by (simp add: body_lines_def)
qed

definition finalize_for :: "bool \<Rightarrow> line_ending \<Rightarrow> style \<Rightarrow> source \<Rightarrow> source \<Rightarrow> source" where
  "finalize_for windows ending sty rendered src =
     finalize (sty\<lparr>sy_newline := resolve_terminator windows ending src\<rparr>) rendered src"

text \<open>C17: 
  Finalizing is stable where the rendered text has no carriage return followed by a blank:
  finalized text, taken as the source and the rendered text of a second run, comes out unchanged
  under every setting, with the terminator resolved again from it. (A carriage return in front of
  trailing blanks survives one trim and not two.)
\<close>

theorem finalize_for_again:
  assumes safe: "no_blank_after_cr rendered" and first_run: "finalize_for windows ending sty rendered src = out"
  shows "finalize_for windows ending sty out out = out"
proof -
  obtain cr where cr: "resolve_terminator windows ending src = cr @ [newline]" "cr \<in> {[], [carriage_return]}"
    using resolve_terminator_cases [of windows ending src] by auto
  obtain first lines where body: "body_lines sty rendered = first # lines"
    by (cases "body_lines sty rendered") (simp_all add: body_lines_def)
  let ?joined = "join_lines (cr @ [newline]) (first # lines)"
  define final where
    "final \<longleftrightarrow> (sy_insert_final_newline sty \<or> src \<noteq> [] \<and> last src = newline) \<and> ?joined \<noteq> []"
  have out: "out = ?joined @ (if final then cr @ [newline] else [])"
    unfolding first_run [symmetric]
    by (simp add: finalize_for_def finalize_lines Let_def cr final_def body
        del: join_lines.simps cong del: if_weak_cong)
  have joined: "?joined = [] \<or> \<not> ends_text (last ?joined)"
    using body_lines_last [of sty rendered] join_lines_last [of "first # lines" "cr @ [newline]"]
    unfolding body by auto
  have again: "body_lines sty out = first # lines"
    using body_lines_join [OF safe cr(2), of "if final then cr @ [newline] else []" sty] cr(2)
    unfolding out body by (auto simp: ends_text_def simp del: join_lines.simps)
  have final_again: "(sy_insert_final_newline sty \<or> out \<noteq> [] \<and> last out = newline) \<and> ?joined \<noteq> [] \<longleftrightarrow> final"
    using joined unfolding out by (auto simp: final_def ends_text_def simp del: join_lines.simps)
  note first_line = body_lines_kept(1,2) [OF safe, of first sty]
  have "join_lines (resolve_terminator windows ending out) (first # lines) = ?joined \<and>
      (final \<longrightarrow> resolve_terminator windows ending out = cr @ [newline])"
  proof (cases "lines = [] \<and> \<not> final")
    case False
    then obtain rest where "out = first @ cr @ newline # rest"
      unfolding out by (cases lines) (auto split: if_splits)
    then show ?thesis using resolve_again [OF cr(1)] first_line body by simp
  qed simp
  with final_again show ?thesis
    by (simp add: finalize_for_def finalize_lines again Let_def del: join_lines.simps cong del: if_weak_cong)
      (auto simp: out simp del: join_lines.simps)
qed

subsection \<open>From the calls to the formatted text\<close>

definition format_calls :: "bool \<Rightarrow> line_ending \<Rightarrow> style \<Rightarrow> call list \<Rightarrow> source \<Rightarrow> source" where
  "format_calls windows ending sty calls src =
     (let (doc, tags) = emit calls;
          rendered = render sty tags doc
      in finalize_for windows ending sty rendered src)"

text \<open>C13: 
  Formatting writes what was emitted: apart from white space, the formatted text is the tokens,
  comments and disabled regions of the calls that were not suppressed, in their order, whatever
  levels and breaks surround them and whatever the style.
\<close>

theorem formatted_text_visible:
  assumes "sy_max_width sty < infinite_width" and "list_all blank_call calls"
  shows "visible (format_calls windows ending sty calls src) =
    concat (map (\<lambda>d. visible (write_flat d)) (emitted False calls))"
  using emit_render_visible [OF assms]
  by (auto simp: format_calls_def finalize_for_def finalize_visible blank_terminator split: prod.splits)

end
