(* ===== verification/Layout_Sample.thy ===== *)
theory Layout_Sample
  imports Layout_Columns Layout_Line_Comments Layout_Finalize "HOL-Library.Code_Target_Nat"
begin

text \<open>
  A declaration with a line comment in it, emitted, laid out, written and finalized, and the
  properties of the layout theories at this input; what finalizing does to a disabled region.
\<close>

definition sample_style :: style where
  "sample_style = \<lparr>sy_max_width = 20, sy_indent_style = Indent_Space, sy_tab_width = 4,
     sy_indent_empty_lines = False, sy_trim_trailing_whitespace = True,
     sy_insert_final_newline = True, sy_newline = [newline]\<rparr>"

definition sample_calls :: "call list" where
  "sample_calls =
     [Open_Level (Indent_Const 4), Emit_Token (codes ''int''), Emit_Space,
      Emit_Comment (codes ''// c''), Force_Next_Break,
      Emit_Break Unified [space] indent_zero None, Emit_Token (codes ''x;''), Close_Level]"

definition sample_docs :: "doc list" where
  "sample_docs =
     [Level (Indent_Const 4)
       [Token (codes ''int''), Space, Tok (codes ''// c'') True,
        Break (break_new Forced [space] indent_zero None), Token (codes ''x;'')] 0 False]"

lemma sample_limit: "sy_max_width sample_style < infinite_width"
  by (simp add: sample_style_def infinite_width_def)



lemma sample_blank: "list_all blank_call sample_calls"
  by (simp add: sample_calls_def)

lemma sample_emitted:
  "emitted False sample_calls = [Token (codes ''int''), Tok (codes ''// c'') True, Token (codes ''x;'')]"
  by (simp add: sample_calls_def still_suppressed_def)


theorem formatted_text_visible_witness:
  "visible (format_calls False Auto sample_style sample_calls []) = codes ''int//cx;''"
  using formatted_text_visible [OF sample_limit sample_blank, of False Auto "[]"]
  by (simp add: sample_emitted is_whitespace_def)

theorem laid_out_settled_witness:
  "settled 20 (lay_out sample_style 0 (Level indent_zero sample_docs 0 False)) \<and>
    list_all2 same_leaf (leaves (Level indent_zero sample_docs 0 False))
      (leaves (lay_out sample_style 0 (Level indent_zero sample_docs 0 False)))"
  using laid_out_settled [OF sample_limit, of 0 indent_zero sample_docs 0 False]
  by (simp add: sample_style_def)

theorem flat_levels_fit_witness:
  "levels_fit sample_style (lay_out sample_style 0 (Level indent_zero sample_docs 0 False)) ([], 0)"
  by (rule flat_levels_fit [OF sample_limit])
    (simp_all add: space_indents_def sample_style_def sample_docs_def break_new_def trim_end_cr_def last_line_def)

lemma sample_format:
  "format_calls False Auto sample_style sample_calls [] =
    codes ''int // c'' @ [newline] @ codes ''    x;'' @ [newline]"
  by code_simp

theorem finalize_for_again_witness:
  "finalize_for False Auto sample_style (codes ''a'' @ [newline]) (codes ''a'' @ [newline]) = codes ''a'' @ [newline]"
  by (rule finalize_for_again [of "codes ''a '' @ [carriage_return, newline, newline]" False Auto sample_style "[]"])
    code_simp+

text \<open>Blanks at the end of a line of a disabled region do not survive finalizing.\<close>

lemma region_trimmed:
  "format_calls False Auto sample_style [Emit_Verbatim (codes ''int  a; '' @ [newline] @ codes ''b;'')] [] =
    codes ''int  a;'' @ [newline] @ codes ''b;'' @ [newline]"
  by code_simp

text \<open>A region of two lines is measured by its first, and the level around it may stay flat.\<close>

lemma region_stays_flat:
  "lay_out sample_style 0 (Level indent_zero [Tok (codes ''a'' @ [newline] @ codes ''b;'') False] 0 False) =
    Level indent_zero [Tok (codes ''a'' @ [newline] @ codes ''b;'') False] 1 True"
  by code_simp

end
