(* ===== verification/Spec2Isabelle.thy ===== *)
theory Spec2Isabelle
  imports Class_File Descriptor Signature_Round_Trip Version_Numeric Lock_Round_Trip
    Resolve_Choice Resolve_Termination Token_Sample Layout_Sample
begin

text \<open>
  A verification of the core of \<open>jals\<close>, a Java language server and toolchain in Rust. This
  development models \<open>jals-classfile\<close>, the byte-exact codec of the JVM class file format that the
  compiler, the decompiler, the symbol index and the linker of the repository read and write classes
  with, the byte sources of \<open>jals-storage/src/io.rs\<close> it reads from, \<open>jals-resolve\<close>, the
  dependency resolver with its versions, requirements and lock file, the lexer of \<open>jals-syntax\<close>, and
  the layout engine of \<open>jals-fmt\<close> with the builder in front of it and the finalization behind it.

  \<^bold>\<open>The program and its model.\<close> A class file is read from a byte source through a \<open>Reader\<close> that counts
  its offset; the constant pool comes first, every attribute is then recognised by the text its name
  index holds in that pool; writing appends to a \<open>Writer\<close> and patches lengths backwards. Here a
  reader is a function from the remaining bytes and the offset to an error or a value and the rest
  (\<open>'a rd\<close>), a writer a function on the buffer; \<open>async\<close> and the cooperative yielding ticks are
  invisible in it. Errors are the constructors of \<open>ClassfileError\<close>.

  \<^item> \<open>Prelude\<close>: machine integers as words (signed ones as patterns of the same width), big-endian
    conversions, the rewrite collections \<open>rd_iff\<close> (when a reader returns), \<open>rd_run\<close> (running a
    reader on encoded bytes) and \<open>wr_eq\<close> (what a writer appends).
  \<^item> \<open>Byte_Stream\<close> (\<open>jals-storage/src/io.rs\<close>): \<open>Read\<close>, \<open>read_exact\<close>, slices, \<open>Cursor\<close>, \<open>Buffered\<close>. The
    locale \<open>byte_source\<close> is the contract of \<open>Read\<close>; slice, cursor and buffer interpret it.
  \<^item> \<open>Bytes\<close> (\<open>bytes.rs\<close>, \<open>error.rs\<close>): \<open>Reader\<close> over a slice, \<open>Writer\<close>.
  \<^item> \<open>Codec\<close>: the contract every reader and writer pair of the crate shares, as the locale \<open>codec\<close>
    (what is written is read back; what was read is written back with the reserved bytes cleared)
    and \<open>exact_codec\<close> (no byte is reserved); counted lists and pairs of codecs are codecs. A mask,
    computed from the value alone, says which of its bytes are reserved: \<open>clear_reserved\<close> zeroes
    the bytes a mask marks and leaves every other byte, and \<open>spells\<close> says that bytes spell a value
    up to its mask. Every table, instruction group, frame, annotation, attribute and member below
    interprets one of the two locales.
  \<^item> \<open>Recursion\<close>: readers that call themselves. The model reads to a depth (\<open>..._bounded\<close>) and takes
    the length of the remaining input for it; \<open>unbounded_codec\<close> and the two \<open>..._read_unbounded\<close>
    theorems show that this bound never shows, because each level consumes a byte.
  \<^item> \<open>Modified_Utf8\<close>, \<open>Constant_Pool\<close>, \<open>Interning\<close> (\<open>constant_pool.rs\<close>): text encoding, entries and slots,
    and the operations that build a pool. The derived index of \<open>intern\<close> is a mapping, \<open>coherent\<close> its
    invariant, \<open>scan\<close> the specification it refines. The locale \<open>interner\<close> is what the typed
    \<open>*_index\<close> functions need of an interning operation; \<open>add\<close> and \<open>intern\<close> interpret it.
  \<^item> \<open>Opcodes\<close>, \<open>Instruction\<close>, \<open>Code_Array\<close> (\<open>instruction.rs\<close>): the instruction set. The Rust enum is
    one type of 202 variants; here each section of it is a datatype (constants, loads, stores, ...)
    and \<open>instruction\<close> their sum, in the order of the source; switch padding depends on the offset.
  \<^item> \<open>Stackmap\<close>, \<open>Annotation\<close>, \<open>Attribute_Tables\<close>, \<open>Attribute_Body\<close>, \<open>Attribute\<close> (\<open>stackmap.rs\<close>,
    \<open>annotation.rs\<close>, \<open>attribute.rs\<close>): attribute bodies. \<open>flat_body\<close> holds the bodies without
    attributes inside, \<open>attribute_body\<close> adds \<open>Code\<close>, \<open>Record\<close> and \<open>Unknown\<close>.
  \<^item> \<open>Class_File\<close> (\<open>class_file.rs\<close>, \<open>field.rs\<close>, \<open>method.rs\<close>, \<open>flags.rs\<close>): members and the file.
  \<^item> \<open>Descriptor\<close> (\<open>descriptor.rs\<close>): field and method descriptors.
  \<^item> \<open>Signature\<close>, \<open>Signature_Round_Trip\<close> (\<open>signature.rs\<close>): generic signatures, their recursive-descent
    parser (mutually recursive, ending because every call consumes text) and renderer.
  \<^item> \<open>Version\<close>, \<open>Version_Order\<close>, \<open>Version_Req\<close>, \<open>Version_Numeric\<close> (\<open>jals-resolve/src/version.rs\<close>): Maven
    versions scanned into an arena and materialized into item lists, their comparison, and the
    requirement forms. Every parsed item list is in normal form (\<open>parsed_items_normal\<close>), so that
    comparing is deciding equality. The locale \<open>comparison\<close> states the laws the comparisons share.
  \<^item> \<open>Package_Id\<close>, \<open>Package_Id_Round_Trip\<close> (\<open>jals-resolve/src/id.rs\<close>): package names, source ids with
    their percent-escaped rendering, requests, dependency edges as lock text.
  \<^item> \<open>Ordered\<close>: \<open>BTreeMap\<close>, \<open>BTreeSet\<close> and the stable sort as ordered lists under a comparator, the
    \<open>?\<close> operator (\<open>res_bind\<close>) and loops that may fail (\<open>try_fold\<close>).
  \<^item> \<open>Summary\<close>, \<open>Feature_Closure\<close> (\<open>summary.rs\<close>, \<open>Pass::expand\<close>): what a manifest contributes to a
    resolution, and the closure of its feature graph against inductive reachability.
  \<^item> \<open>Lock\<close>, \<open>Lock_Text\<close>, \<open>Lock_Round_Trip\<close> (\<open>lock.rs\<close>): the lock file, its canonical text and its
    reading. \<open>Lock_Text\<close> is a reader for the part of TOML lock files are written in (tables, basic
    strings with their escapes, integers, string arrays, comments), by which the rendered text is
    shown to spell exactly the fields of the lock; the \<open>toml\<close> crate is a parameter, of which
    reading a lock only asks that it agrees with this reader on documents of that part.
  \<^item> \<open>Resolve\<close> (\<open>resolve.rs\<close>, \<open>error.rs\<close>): a resolution pass as a state with two queues, the rounds that
    repeat it until the choices are stable, and the graph assembled from the last pass. The package
    provider (any answers, with a state of its own) and SHA-256 are parameters; a pass may not end,
    so \<open>pass_loop\<close> returns an option.
  \<^item> \<open>Resolve_Wiring\<close>, \<open>Resolve_Edges\<close>, \<open>Resolve_Choice\<close>, \<open>Resolve_Features\<close>, \<open>Resolve_Termination\<close>: the
    invariants of a pass and what follows: edges have chosen targets with recorded requirements;
    edges are never dropped; a pin is kept while it satisfies what is known, so that a converged
    resolution satisfies every requirement; features are expanded to a fixed point; and a pass ends
    on a finite universe, by the packages left to choose, the requests left to make and the queues.
    \<open>Resolve_Sample\<close> is a small registry the witnesses run the resolver on.
  \<^item> \<open>Source_Text\<close>, \<open>Token_Kind\<close>, \<open>Number_Scanner\<close>, \<open>Lexer\<close> (\<open>jals-syntax/src/token.rs\<close>, \<open>lexer.rs\<close>):
    source text, the terminal kinds and the scanners. Positions inside the scanners count
    characters where the code counts bytes; the byte offsets exchanged between lexer, translation
    and caller are UTF-8 lengths. The general category table is a parameter.
  \<^item> \<open>Number_Grammar\<close>, \<open>Lexer_Extent\<close>: the grammar of numeric literals as sets of words and the scanners'
    longest match; every scanner depends on the characters of its token only (\<open>self_contained\<close>).
  \<^item> \<open>Token_Stream\<close>, \<open>Unicode_Escape\<close>, \<open>Tokenize\<close> (\<open>lexer.rs\<close>, \<open>unicode_escape.rs\<close>): the iterator, the
    escape translation with its sparse offset map against the division into pieces, \<open>tokenize\<close>.
    Tokens tile the source, can be decoded alone and stand alone. \<open>Token_Sample\<close> runs one source.
  \<^item> \<open>Layout_Doc\<close>, \<open>Layout_Engine\<close>, \<open>Layout_Writer\<close> (\<open>jals-fmt/src/ir.rs\<close>, \<open>engine.rs\<close>): layout documents with
    their widths, the greedy break decisions and the writer. \<open>usize\<close> saturates at \<open>infinite_width\<close>, the
    width of what never fits; indents are \<open>i32\<close> and saturate; break tags are positions of a list.
  \<^item> \<open>Layout_Decisions\<close>, \<open>Layout_Text\<close>, \<open>Layout_Columns\<close>: the relation \<open>walks\<close> abstracts the engine from tags and
    tails, and rule induction over it gives what is decided, what is written piece by piece, and
    that the columns the engine counts are those of the text.
  \<^item> \<open>Layout_Ops\<close>, \<open>Layout_Emission\<close>, \<open>Layout_Line_Comments\<close> (\<open>ops.rs\<close>): the builder, its calls specified on
    the leaves written so far, and the discipline of the visitor under which line comments are
    closed. The visitors themselves are the callers: any sequence of calls is allowed.
  \<^item> \<open>Layout_Finalize\<close> (\<open>passes/finalize.rs\<close>, \<open>jals-config/src/fmt/layout.rs\<close>): trimming and terminators, and the
    way from the calls to the formatted text. \<open>Layout_Sample\<close> formats one declaration.
  \<^bold>\<open>What is shown.\<close> Round trips in both directions for every level: a well-formed value is read back
  from its bytes, and bytes that read as a value are the bytes this value writes. The predicates
  \<open>wf_*\<close> say exactly what fits the format (counts within their width, tags within their range, names
  that select the body's reader), and reading is shown to yield well-formed values only. The second
  direction holds byte for byte but for the reserved bytes of code: the padding before a switch
  table and the last bytes of \<open>invokeinterface\<close> and \<open>invokedynamic\<close> are written as zeros whatever
  they were. The masks \<open>reserved_in_code\<close>, \<open>attribute_reserved\<close>, \<open>field_reserved\<close>,
  \<open>method_reserved\<close> and \<open>class_reserved\<close> carry these positions through the levels, and what is
  written is the input with exactly these bytes cleared. Beyond round trips: no attribute is lost,
  the intern index refines a scan, the pool operations keep the layout, references resolve, offsets
  computed from \<open>encoded_len\<close> are the decoder's, buffering is transparent, errors are reported where
  the code reports them.

  \<^bold>\<open>Bounds.\<close> Loops that count on \<open>u16\<close> keep the count as a word; \<open>function\<close> definitions carry their
  measures (bytes left, slots left). Rust's \<open>usize\<close> is \<open>nat\<close> (buffers stay below \<open>2^64\<close>); every cast
  to a narrower width is an \<open>of_nat\<close> or \<open>ucast\<close> that wraps as \<open>as\<close> does.

  \<^bold>\<open>Not modelled.\<close> The serde derives, error display texts, capacity hints of \<open>Vec\<close>, the suspension
  points; in \<open>io.rs\<close> the bridge to \<open>std\<close>. A read that fails midway leaves Rust's reader half
  consumed; here a failing reader has no final state, as every caller drops it. Of the repository's other
  parts, the parser (\<open>jals-syntax\<close>), the visitors of the formatter (\<open>jals-fmt\<close>), the compiler
  (\<open>jals-javac\<close>), the semantic model (\<open>jals-hir\<close>) and the project graph (\<open>jals-project\<close>) have no
  model here; host I/O, protocol glue and generated schemas stay outside by their nature.
\<close>

section \<open>Properties across components\<close>

text \<open>C21: a class interned by name survives the file. A class file built around the pool in which
  \<open>class_index\<close> interned a name is read back from its bytes, and in the pool read, the same index
  still names the same class.\<close>

theorem interned_class_survives_file:
  "wf_pool p \<Longrightarrow> coherent p \<Longrightarrow> is_text name \<Longrightarrow> class_index name p = (Some i, p') \<Longrightarrow>
     \<exists>cf. class_read (class_write (class_new major minor p')) = Inr cf \<and>
       major_version cf = major \<and> minor_version cf = minor \<and>
       entries (cf_pool cf) = entries p' \<and> class_name (cf_pool cf) i = Some name"
proof -
  assume inv: "wf_pool p" "coherent p" and name: "is_text name" and i: "class_index name p = (Some i, p')"
  have p': "wf_pool p'" "class_name p' i = Some name"
    using pool.delivers_run [OF class_delivers [OF name] _ i] inv by simp_all
  then have "wf_class (class_new major minor p')" by (simp add: wf_class_def class_new_def wf_list_def)
  from class_rd_run [OF this, of "[]"] have
    "class_read (class_write (class_new major minor p')) = Inr (forget_index (class_new major minor p'))"
    by (simp add: class_read_def)
  moreover have "class_name (p'\<lparr>interned := Mapping.empty\<rparr>) i = class_name p' i"
  proof -
    have "utf8 (p'\<lparr>interned := Mapping.empty\<rparr>) = utf8 p'" by (rule utf8_entries) simp
    moreover have "pool_get (p'\<lparr>interned := Mapping.empty\<rparr>) = pool_get p'"
      by (simp add: fun_eq_iff pool_get_def)
    ultimately show ?thesis
      by (simp add: class_name_def split: option.split entry.split)
  qed
  ultimately show ?thesis using p'(2) by (simp add: forget_index_def class_new_def)
qed

lemma interned_class_survives_file_witness:
  "\<exists>cf. class_read (class_write (class_new 69 0 (snd (class_index [0x42] sample_pool)))) = Inr cf \<and>
     major_version cf = 69 \<and> minor_version cf = 0 \<and>
     entries (cf_pool cf) = entries (snd (class_index [0x42] sample_pool)) \<and>
     class_name (cf_pool cf) 6 = Some [0x42]"
  by (rule interned_class_survives_file [OF sample_pool_inv _ sample_class_index])
    (simp add: is_text_def is_scalar_def)

end
